(* ===== verification/Gw_Session.thy ===== *)
theory Gw_Session
  imports Gw_Prelude
begin

text \<open>
  The signaling session of the gateway (\<open>internal/session\<close>): the two-seat negotiation ledger, the
  registry that indexes the live ledgers by id, tenant and connection, the manager that runs every
  operation under one mutex, and the reaper. A method of \<open>Manager\<close> is a function of the manager
  and its arguments that returns the result and the new manager; the clock and the id generator,
  which are fields of the Go struct, are arguments (\<open>now\<close>, \<open>gen\<close>).
\<close>

section \<open>State machine vocabulary\<close>

datatype session_state = Pending | Offering | Answered | Ended

definition state_string :: "session_state \<Rightarrow> string" where
  "state_string s =
     (case s of
        Pending \<Rightarrow> ''pending''
      | Offering \<Rightarrow> ''offering''
      | Answered \<Rightarrow> ''answered''
      | Ended \<Rightarrow> ''ended'')"

datatype session_error =
    ErrUnknownSession
  | ErrTooManySessions
  | ErrAlreadyInSession
  | ErrSessionNotReady
  | ErrSessionFull
  | ErrWrongState
  | ErrGenerateId string \<comment> \<open>the wrapped error of the id generator\<close>

definition ReasonMemberEnded :: string where "ReasonMemberEnded = ''member_ended''"
definition ReasonPeerDisconnected :: string where "ReasonPeerDisconnected = ''peer_disconnected''"
definition ReasonJoinTimeout :: string where "ReasonJoinTimeout = ''join_timeout''"

section \<open>Sessions\<close>

record member =
  m_ConnID :: string
  m_Role :: string

record session =
  s_ID :: string
  s_TenantID :: string
  s_State :: session_state
  s_members :: "member list"
  s_offerBy :: string
  s_createdAt :: time
  s_changedAt :: time
  s_endedAt :: time
  s_endReason :: string

definition new_session :: "string \<Rightarrow> string \<Rightarrow> string \<Rightarrow> string \<Rightarrow> time \<Rightarrow> session" where
  "new_session sid tenantID connID initiatorRole now =
     \<lparr>s_ID = sid, s_TenantID = tenantID, s_State = Pending,
      s_members = [\<lparr>m_ConnID = connID, m_Role = initiatorRole\<rparr>], s_offerBy = '''',
      s_createdAt = now, s_changedAt = now, s_endedAt = zero_time, s_endReason = ''''\<rparr>"

definition member_by_conn :: "session \<Rightarrow> string \<Rightarrow> member option" where
  "member_by_conn s connID = find (\<lambda>m. m_ConnID m = connID) (s_members s)"

definition peer_of :: "session \<Rightarrow> string \<Rightarrow> member option" where
  "peer_of s connID = find (\<lambda>m. m_ConnID m \<noteq> connID) (s_members s)"

definition member_count :: "session \<Rightarrow> nat" where
  "member_count s = length (s_members s)"

definition touch_change :: "session \<Rightarrow> time \<Rightarrow> session" where
  "touch_change s now = s\<lparr>s_changedAt := now\<rparr>"

definition session_created :: "session \<Rightarrow> time" where
  "session_created s = s_createdAt s"

definition session_last_changed :: "session \<Rightarrow> time" where
  "session_last_changed s = s_changedAt s"

definition mark_ended :: "session \<Rightarrow> string \<Rightarrow> time \<Rightarrow> session" where
  "mark_ended s reason now =
     s\<lparr>s_State := Ended, s_endReason := reason, s_endedAt := now, s_changedAt := now\<rparr>"

text \<open>The zero value of a seat, which Go's two-result lookups return beside \<open>false\<close>.\<close>

definition zero_member :: member where
  "zero_member = \<lparr>m_ConnID = '''', m_Role = ''''\<rparr>"

definition or_zero :: "member option \<Rightarrow> member" where
  "or_zero m = (case m of None \<Rightarrow> zero_member | Some x \<Rightarrow> x)"

section \<open>Registry\<close>

record registry =
  r_byID :: "(string, session) fmap"
  r_byTenant :: "(string, string fset) fmap"
  r_byConn :: "(string, string) fmap"

definition new_registry :: registry where
  "new_registry = \<lparr>r_byID = fmempty, r_byTenant = fmempty, r_byConn = fmempty\<rparr>"

definition reg_get :: "registry \<Rightarrow> string \<Rightarrow> session option" where
  "reg_get r sid = fmlookup (r_byID r) sid"

definition tenant_set :: "registry \<Rightarrow> string \<Rightarrow> string fset" where
  "tenant_set r tenantID = fmget {||} (r_byTenant r) tenantID"

definition count_for_tenant :: "registry \<Rightarrow> string \<Rightarrow> nat" where
  "count_for_tenant r tenantID = fcard (tenant_set r tenantID)"

definition reg_total :: "registry \<Rightarrow> nat" where
  "reg_total r = fmlen (r_byID r)"

definition reg_tenants :: "registry \<Rightarrow> nat" where
  "reg_tenants r = fmlen (r_byTenant r)"

definition session_for_conn :: "registry \<Rightarrow> string \<Rightarrow> string option" where
  "session_for_conn r connID = fmlookup (r_byConn r) connID"

definition reg_insert :: "registry \<Rightarrow> session \<Rightarrow> registry" where
  "reg_insert r s =
     \<lparr>r_byID = fmupd (s_ID s) s (r_byID r),
      r_byTenant = fmupd (s_TenantID s) (finsert (s_ID s) (tenant_set r (s_TenantID s))) (r_byTenant r),
      r_byConn = fold (\<lambda>m. fmupd (m_ConnID m) (s_ID s)) (s_members s) (r_byConn r)\<rparr>"

definition bind_conn :: "registry \<Rightarrow> string \<Rightarrow> string \<Rightarrow> registry" where
  "bind_conn r connID sessionID = r\<lparr>r_byConn := fmupd connID sessionID (r_byConn r)\<rparr>"

definition drop_tenant :: "string \<Rightarrow> string \<Rightarrow> (string, string fset) fmap \<Rightarrow> (string, string fset) fmap" where
  "drop_tenant tenantID sid byTenant =
     (case fmlookup byTenant tenantID of
        None \<Rightarrow> byTenant
      | Some ids \<Rightarrow>
          let ids' = ids |-| {|sid|}
          in if ids' = {||} then fmdrop tenantID byTenant else fmupd tenantID ids' byTenant)"

definition drop_member :: "string \<Rightarrow> member \<Rightarrow> (string, string) fmap \<Rightarrow> (string, string) fmap" where
  "drop_member sid m byConn =
     (case fmlookup byConn (m_ConnID m) of
        None \<Rightarrow> byConn
      | Some cur \<Rightarrow> if cur = sid then fmdrop (m_ConnID m) byConn else byConn)"

definition reg_remove :: "registry \<Rightarrow> string \<Rightarrow> registry" where
  "reg_remove r sid =
     (case fmlookup (r_byID r) sid of
        None \<Rightarrow> r
      | Some s \<Rightarrow>
          \<lparr>r_byID = fmdrop sid (r_byID r),
           r_byTenant = drop_tenant (s_TenantID s) sid (r_byTenant r),
           r_byConn = fold (drop_member sid) (s_members s) (r_byConn r)\<rparr>)"

definition unbind_conn :: "registry \<Rightarrow> string \<Rightarrow> registry" where
  "unbind_conn r connID = r\<lparr>r_byConn := fmdrop connID (r_byConn r)\<rparr>"

text \<open>
  A \<open>*Session\<close> handed out by \<open>get\<close> is the registry's own object, so assigning to its fields
  changes what the registry holds under its id.
\<close>

definition reg_store :: "registry \<Rightarrow> session \<Rightarrow> registry" where
  "reg_store r s = r\<lparr>r_byID := fmupd (s_ID s) s (r_byID r)\<rparr>"

section \<open>Events\<close>

datatype event_kind =
    EvStarted | EvJoined | EvPeerJoined | EvEnded
  | EvForwardOffer | EvForwardAnswer | EvForwardCandidate

record event =
  ev_Kind :: event_kind
  ev_Recipient :: string
  ev_SessionID :: string
  ev_Role :: string
  ev_PeerRole :: string
  ev_Reason :: string
  ev_SDP :: string
  ev_Candidate :: string

text \<open>A composite literal of Go leaves the fields it does not name at their zero value.\<close>

definition mk_event :: "event_kind \<Rightarrow> string \<Rightarrow> string \<Rightarrow> event" where
  "mk_event kind recipient sessionID =
     \<lparr>ev_Kind = kind, ev_Recipient = recipient, ev_SessionID = sessionID, ev_Role = '''',
      ev_PeerRole = '''', ev_Reason = '''', ev_SDP = '''', ev_Candidate = ''''\<rparr>"

section \<open>Manager\<close>

record manager =
  g_reg :: registry
  g_maxPerTenant :: int
  g_pendingTTL :: duration

definition new_manager :: "int \<Rightarrow> duration \<Rightarrow> manager" where
  "new_manager maxPerTenant pendingTTL =
     \<lparr>g_reg = new_registry, g_maxPerTenant = maxPerTenant, g_pendingTTL = pendingTTL\<rparr>"

definition mgr_start ::
  "manager \<Rightarrow> string \<Rightarrow> string \<Rightarrow> string + string \<Rightarrow> time \<Rightarrow> (session_error + string \<times> event list) \<times> manager"
where
  "mgr_start m tenantID connID gen now =
     (if session_for_conn (g_reg m) connID \<noteq> None then (Inl ErrAlreadyInSession, m)
      else if int (count_for_tenant (g_reg m) tenantID) \<ge> g_maxPerTenant m then (Inl ErrTooManySessions, m)
      else case gen of
        Inl err \<Rightarrow> (Inl (ErrGenerateId err), m)
      | Inr sid \<Rightarrow>
          let s = new_session sid tenantID connID ''initiator'' now
          in (Inr (sid, [(mk_event EvStarted connID sid)\<lparr>ev_Role := ''initiator''\<rparr>]),
              m\<lparr>g_reg := reg_insert (g_reg m) s\<rparr>))"

definition mgr_join ::
  "manager \<Rightarrow> string \<Rightarrow> string \<Rightarrow> string \<Rightarrow> time \<Rightarrow> (session_error + event list) \<times> manager"
where
  "mgr_join m tenantID sessionID connID now =
     (if session_for_conn (g_reg m) connID \<noteq> None then (Inl ErrAlreadyInSession, m)
      else case reg_get (g_reg m) sessionID of
        None \<Rightarrow> (Inl ErrUnknownSession, m)
      | Some s \<Rightarrow>
          if s_TenantID s \<noteq> tenantID then (Inl ErrUnknownSession, m)
          else if member_count s \<ge> 2 then (Inl ErrWrongState, m)
          else
            let initiator = s_members s ! 0;
                s1 = s\<lparr>s_members := s_members s @ [\<lparr>m_ConnID = connID, m_Role = ''responder''\<rparr>]\<rparr>;
                r1 = bind_conn (g_reg m) connID (s_ID s);
                s2 = touch_change s1 now
            in (Inr [(mk_event EvJoined connID (s_ID s))\<lparr>ev_Role := ''responder''\<rparr>,
                     (mk_event EvPeerJoined (m_ConnID initiator) (s_ID s))\<lparr>ev_PeerRole := ''responder''\<rparr>],
                m\<lparr>g_reg := reg_store r1 s2\<rparr>))"

definition lookup_member :: "manager \<Rightarrow> string \<Rightarrow> string \<Rightarrow> string \<Rightarrow> session_error + session" where
  "lookup_member m tenantID sessionID connID =
     (case reg_get (g_reg m) sessionID of
        None \<Rightarrow> Inl ErrUnknownSession
      | Some s \<Rightarrow>
          if s_TenantID s \<noteq> tenantID then Inl ErrUnknownSession
          else if member_by_conn s connID = None then Inl ErrUnknownSession
          else Inr s)"

definition end_locked :: "manager \<Rightarrow> session \<Rightarrow> string \<Rightarrow> time \<Rightarrow> event list \<times> manager" where
  "end_locked m s reason now =
     (let s' = mark_ended s reason now
      in (map (\<lambda>mb. (mk_event EvEnded (m_ConnID mb) (s_ID s'))\<lparr>ev_Reason := reason\<rparr>) (s_members s'),
          m\<lparr>g_reg := reg_remove (g_reg m) (s_ID s')\<rparr>))"

definition mgr_end ::
  "manager \<Rightarrow> string \<Rightarrow> string \<Rightarrow> string \<Rightarrow> string \<Rightarrow> time \<Rightarrow> (session_error + event list) \<times> manager"
where
  "mgr_end m tenantID sessionID connID reason now =
     (case lookup_member m tenantID sessionID connID of
        Inl err \<Rightarrow> (Inl err, m)
      | Inr s \<Rightarrow> (let (events, m') = end_locked m s reason now in (Inr events, m')))"

definition mgr_offer ::
  "manager \<Rightarrow> string \<Rightarrow> string \<Rightarrow> string \<Rightarrow> string \<Rightarrow> time \<Rightarrow> (session_error + event list) \<times> manager"
where
  "mgr_offer m tenantID sessionID connID sdp now =
     (case lookup_member m tenantID sessionID connID of
        Inl err \<Rightarrow> (Inl err, m)
      | Inr s \<Rightarrow>
          if member_count s < 2 then (Inl ErrSessionNotReady, m)
          else if s_State s = Offering then (Inl ErrWrongState, m)
          else
            let me = or_zero (member_by_conn s connID);
                s' = touch_change (s\<lparr>s_State := Offering, s_offerBy := m_Role me\<rparr>) now;
                peer = or_zero (peer_of s' connID)
            in (Inr [(mk_event EvForwardOffer (m_ConnID peer) (s_ID s'))\<lparr>ev_SDP := sdp\<rparr>],
                m\<lparr>g_reg := reg_store (g_reg m) s'\<rparr>))"

definition mgr_answer ::
  "manager \<Rightarrow> string \<Rightarrow> string \<Rightarrow> string \<Rightarrow> string \<Rightarrow> time \<Rightarrow> (session_error + event list) \<times> manager"
where
  "mgr_answer m tenantID sessionID connID sdp now =
     (case lookup_member m tenantID sessionID connID of
        Inl err \<Rightarrow> (Inl err, m)
      | Inr s \<Rightarrow>
          if s_State s \<noteq> Offering then (Inl ErrWrongState, m)
          else
            let me = or_zero (member_by_conn s connID)
            in if m_Role me = s_offerBy s then (Inl ErrWrongState, m)
               else
                 let s' = touch_change (s\<lparr>s_State := Answered, s_offerBy := ''''\<rparr>) now;
                     peer = or_zero (peer_of s' connID)
                 in (Inr [(mk_event EvForwardAnswer (m_ConnID peer) (s_ID s'))\<lparr>ev_SDP := sdp\<rparr>],
                     m\<lparr>g_reg := reg_store (g_reg m) s'\<rparr>))"

definition mgr_candidate ::
  "manager \<Rightarrow> string \<Rightarrow> string \<Rightarrow> string \<Rightarrow> string \<Rightarrow> (session_error + event list) \<times> manager"
where
  "mgr_candidate m tenantID sessionID connID raw =
     (case lookup_member m tenantID sessionID connID of
        Inl err \<Rightarrow> (Inl err, m)
      | Inr s \<Rightarrow>
          if member_count s < 2 then (Inl ErrSessionNotReady, m)
          else
            let peer = or_zero (peer_of s connID)
            in (Inr [(mk_event EvForwardCandidate (m_ConnID peer) (s_ID s))\<lparr>ev_Candidate := raw\<rparr>], m))"

definition conn_dropped :: "manager \<Rightarrow> string \<Rightarrow> time \<Rightarrow> event list \<times> manager" where
  "conn_dropped m connID now =
     (case session_for_conn (g_reg m) connID of
        None \<Rightarrow> ([], m)
      | Some sid \<Rightarrow>
          (case reg_get (g_reg m) sid of
             None \<Rightarrow> ([], m\<lparr>g_reg := unbind_conn (g_reg m) connID\<rparr>)
           | Some s \<Rightarrow>
               let (events, m') = end_locked m s ReasonPeerDisconnected now
               in (filter (\<lambda>ev. ev_Recipient ev \<noteq> connID) events, m')))"

definition other_member :: "manager \<Rightarrow> string \<Rightarrow> string \<Rightarrow> string \<Rightarrow> string option" where
  "other_member m tenantID sessionID connID =
     (case reg_get (g_reg m) sessionID of
        None \<Rightarrow> None
      | Some s \<Rightarrow>
          if s_TenantID s \<noteq> tenantID then None
          else map_option m_ConnID (find (\<lambda>mb. m_ConnID mb \<noteq> connID) (s_members s)))"

definition mgr_session_for_conn :: "manager \<Rightarrow> string \<Rightarrow> string option" where
  "mgr_session_for_conn m connID = session_for_conn (g_reg m) connID"

definition mgr_stats :: "manager \<Rightarrow> nat \<times> nat" where
  "mgr_stats m = (reg_total (g_reg m), reg_tenants (g_reg m))"

section \<open>Reaper\<close>

definition pending_ttl :: "manager \<Rightarrow> duration" where
  "pending_ttl m = g_pendingTTL m"

definition reap_interval :: "manager \<Rightarrow> duration" where
  "reap_interval m =
     (let half = go_div (g_pendingTTL m) 2 in if half < second then second else half)"

definition over_age :: "manager \<Rightarrow> time \<Rightarrow> session \<Rightarrow> bool" where
  "over_age m now s \<longleftrightarrow>
     s_State s = Pending \<and> member_count s = 1 \<and> time_sub now (session_created s) \<ge> g_pendingTTL m"

text \<open>\<open>ord\<close> is the order in which \<open>each\<close> visits the sessions of the registry.\<close>

definition expired_sessions :: "manager \<Rightarrow> string list \<Rightarrow> time \<Rightarrow> session list" where
  "expired_sessions m ord now = filter (over_age m now) (List.map_filter (reg_get (g_reg m)) ord)"

fun end_all :: "manager \<Rightarrow> session list \<Rightarrow> time \<Rightarrow> event list \<times> manager" where
  "end_all m [] now = ([], m)"
| "end_all m (s # ss) now =
     (let (events, m1) = end_locked m s ReasonJoinTimeout now;
          (rest, m2) = end_all m1 ss now
      in (events @ rest, m2))"

definition mgr_reap :: "manager \<Rightarrow> string list \<Rightarrow> time \<Rightarrow> event list \<times> manager" where
  "mgr_reap m ord now = end_all m (expired_sessions m ord now) now"

end
