(* ===== verification/Gw_Session_Inv.thy ===== *)
theory Gw_Session_Inv
  imports Gw_Session
begin

text \<open>
  The well-formedness invariant of the session ledger and its three indexes, and the proof that
  every operation of the manager keeps it: at most two seats with fixed roles, at most one session
  per connection, indexes that agree with the ledger, the per-tenant cap. \<open>mgr_step\<close> is the step
  relation of the manager, one rule per critical section.
\<close>

section \<open>Well-formed ledgers and indexes\<close>

definition role_at :: "nat \<Rightarrow> string" where
  "role_at i = (if i = 0 then ''initiator'' else ''responder'')"

definition session_ok :: "session \<Rightarrow> bool" where
  "session_ok s \<longleftrightarrow>
     (case s_members s of
        [i] \<Rightarrow> m_Role i = ''initiator'' \<and> s_State s = Pending \<and> s_offerBy s = ''''
      | [i, r] \<Rightarrow>
          m_Role i = ''initiator'' \<and> m_Role r = ''responder'' \<and> m_ConnID i \<noteq> m_ConnID r
          \<and> s_State s \<noteq> Ended
          \<and> (if s_State s = Offering then s_offerBy s \<in> {''initiator'', ''responder''} else s_offerBy s = '''')
      | _ \<Rightarrow> False)"

definition conns_of :: "session \<Rightarrow> string set" where
  "conns_of s = m_ConnID ` set (s_members s)"

definition reg_inv :: "registry \<Rightarrow> bool" where
  "reg_inv r \<longleftrightarrow>
     (\<forall>sid s. reg_get r sid = Some s \<longrightarrow> s_ID s = sid \<and> session_ok s)
     \<and> (\<forall>c sid. session_for_conn r c = Some sid \<longleftrightarrow> (\<exists>s. reg_get r sid = Some s \<and> c \<in> conns_of s))
     \<and> (\<forall>t sid. sid |\<in>| tenant_set r t \<longleftrightarrow> (\<exists>s. reg_get r sid = Some s \<and> s_TenantID s = t))
     \<and> (\<forall>t. fmlookup (r_byTenant r) t \<noteq> Some {||})"

definition mgr_inv :: "manager \<Rightarrow> bool" where
  "mgr_inv m \<longleftrightarrow>
     reg_inv (g_reg m)
     \<and> (\<forall>t. int (count_for_tenant (g_reg m) t) \<le> max 0 (g_maxPerTenant m))"

lemma session_ok_cases:
  assumes "session_ok s"
  obtains (one) i where "s_members s = [i]" "m_Role i = ''initiator''" "s_State s = Pending" "s_offerBy s = ''''"
  | (two) i r where "s_members s = [i, r]" "m_Role i = ''initiator''" "m_Role r = ''responder''"
      "m_ConnID i \<noteq> m_ConnID r" "s_State s \<noteq> Ended"
      "if s_State s = Offering then s_offerBy s \<in> {''initiator'', ''responder''} else s_offerBy s = ''''"
  using assms unfolding session_ok_def by (auto split: list.splits)

lemma reg_invD:
  assumes "reg_inv r"
  shows "reg_get r sid = Some s \<Longrightarrow> s_ID s = sid"
    and "reg_get r sid = Some s \<Longrightarrow> session_ok s"
    and "reg_get r sid = Some s \<Longrightarrow> c \<in> conns_of s \<Longrightarrow> session_for_conn r c = Some sid"
    and "session_for_conn r c = Some sid \<Longrightarrow> \<exists>s. reg_get r sid = Some s \<and> c \<in> conns_of s"
    and "sid |\<in>| tenant_set r t \<longleftrightarrow> (\<exists>s. reg_get r sid = Some s \<and> s_TenantID s = t)"
    and "fmlookup (r_byTenant r) t \<noteq> Some {||}"
  using assms unfolding reg_inv_def by blast+

lemma reg_invI:
  assumes "\<And>sid s. reg_get r sid = Some s \<Longrightarrow> s_ID s = sid \<and> session_ok s"
    and "\<And>sid s c. reg_get r sid = Some s \<Longrightarrow> c \<in> conns_of s \<Longrightarrow> session_for_conn r c = Some sid"
    and "\<And>sid c. session_for_conn r c = Some sid \<Longrightarrow> \<exists>s. reg_get r sid = Some s \<and> c \<in> conns_of s"
    and "\<And>t sid. sid |\<in>| tenant_set r t \<longleftrightarrow> (\<exists>s. reg_get r sid = Some s \<and> s_TenantID s = t)"
    and "\<And>t. fmlookup (r_byTenant r) t \<noteq> Some {||}"
  shows "reg_inv r"
  using assms unfolding reg_inv_def by blast

lemma reg_inv_empty: "reg_inv new_registry"
  by (auto simp: reg_inv_def new_registry_def reg_get_def session_for_conn_def tenant_set_def)

lemma mgr_inv_new: "mgr_inv (new_manager n ttl)"
  by (simp add: mgr_inv_def new_manager_def reg_inv_empty)
     (simp add: new_registry_def count_for_tenant_def tenant_set_def fcard_fempty)

section \<open>Insertion\<close>

lemma fold_upd_const: "fmlookup (fold (\<lambda>m. fmupd (f m) v) ms b) c = (if c \<in> f ` set ms then Some v else fmlookup b c)"
  by (induction ms arbitrary: b) auto

lemma reg_insert_simps:
  "reg_get (reg_insert r s) sid = (if sid = s_ID s then Some s else reg_get r sid)"
  "session_for_conn (reg_insert r s) c = (if c \<in> conns_of s then Some (s_ID s) else session_for_conn r c)"
  "tenant_set (reg_insert r s) t = (if t = s_TenantID s then finsert (s_ID s) (tenant_set r t) else tenant_set r t)"
  by (auto simp: reg_insert_def reg_get_def session_for_conn_def fold_upd_const conns_of_def tenant_set_def)

lemma reg_inv_insert:
  assumes inv: "reg_inv r" and ok: "session_ok s"
    and fresh: "reg_get r (s_ID s) = None"
    and free: "\<And>c. c \<in> conns_of s \<Longrightarrow> session_for_conn r c = None"
  shows "reg_inv (reg_insert r s)"
proof (rule reg_invI)
  fix sid s' assume "reg_get (reg_insert r s) sid = Some s'"
  then show "s_ID s' = sid \<and> session_ok s'"
    using ok reg_invD(1,2) [OF inv] by (auto simp: reg_insert_simps split: if_splits)
next
  fix sid s' c assume "reg_get (reg_insert r s) sid = Some s'" and "c \<in> conns_of s'"
  then show "session_for_conn (reg_insert r s) c = Some sid"
    using free [of c] reg_invD(3) [OF inv, of sid s' c] by (auto simp: reg_insert_simps split: if_splits)
next
  fix sid c assume "session_for_conn (reg_insert r s) c = Some sid"
  then show "\<exists>s'. reg_get (reg_insert r s) sid = Some s' \<and> c \<in> conns_of s'"
    using reg_invD(4) [OF inv, of c sid] fresh by (auto simp: reg_insert_simps split: if_splits)
next
  fix t sid
  show "sid |\<in>| tenant_set (reg_insert r s) t \<longleftrightarrow> (\<exists>s'. reg_get (reg_insert r s) sid = Some s' \<and> s_TenantID s' = t)"
    using reg_invD(5) [OF inv, of sid t] fresh by (auto simp: reg_insert_simps)
next
  fix t show "fmlookup (r_byTenant (reg_insert r s)) t \<noteq> Some {||}"
    using reg_invD(6) [OF inv, of t] by (auto simp: reg_insert_def)
qed

section \<open>Removal\<close>

lemma fold_drop_member:
  "fmlookup (fold (drop_member sid) ms b) c =
     (if c \<in> m_ConnID ` set ms \<and> fmlookup b c = Some sid then None else fmlookup b c)"
  by (induction ms arbitrary: b) (auto simp: drop_member_def split: option.splits)

lemma reg_remove_unknown [simp]: "reg_get r sid = None \<Longrightarrow> reg_remove r sid = r"
  by (simp add: reg_remove_def reg_get_def)

lemma drop_tenant_get:
  "fmget {||} (drop_tenant t0 sid b) t = (if t = t0 then fmget {||} b t |-| {|sid|} else fmget {||} b t)"
  by (auto simp: drop_tenant_def fmget_def Let_def split: option.splits)

lemma reg_remove_simps:
  assumes "reg_get r sid = Some s"
  shows "reg_get (reg_remove r sid) sid' = (if sid' = sid then None else reg_get r sid')"
    and "session_for_conn (reg_remove r sid) c =
           (if c \<in> conns_of s \<and> session_for_conn r c = Some sid then None else session_for_conn r c)"
    and "tenant_set (reg_remove r sid) t =
           (if t = s_TenantID s then tenant_set r t |-| {|sid|} else tenant_set r t)"
  using assms
  by (auto simp: reg_remove_def reg_get_def session_for_conn_def fold_drop_member conns_of_def
      tenant_set_def drop_tenant_get split: if_splits)

lemma reg_inv_remove:
  assumes inv: "reg_inv r"
  shows "reg_inv (reg_remove r sid)"
proof (cases "reg_get r sid")
  case None
  with inv show ?thesis by simp
next
  case (Some s)
  note [simp] = reg_remove_simps [OF Some]
  show ?thesis
  proof (rule reg_invI)
    fix sid' s' assume "reg_get (reg_remove r sid) sid' = Some s'"
    then show "s_ID s' = sid' \<and> session_ok s'"
      using reg_invD(1,2) [OF inv] by (auto split: if_splits)
  next
    fix sid' s' c assume "reg_get (reg_remove r sid) sid' = Some s'" and "c \<in> conns_of s'"
    then show "session_for_conn (reg_remove r sid) c = Some sid'"
      using reg_invD(3) [OF inv, of sid' s' c] by (auto split: if_splits)
  next
    fix sid' c assume "session_for_conn (reg_remove r sid) c = Some sid'"
    then show "\<exists>s'. reg_get (reg_remove r sid) sid' = Some s' \<and> c \<in> conns_of s'"
      using reg_invD(4) [OF inv, of c sid'] Some by (auto split: if_splits)
  next
    fix t sid'
    show "sid' |\<in>| tenant_set (reg_remove r sid) t \<longleftrightarrow> (\<exists>s'. reg_get (reg_remove r sid) sid' = Some s' \<and> s_TenantID s' = t)"
      using Some by (cases "sid' = sid") (auto simp: reg_invD(5) [OF inv])
  next
    fix t show "fmlookup (r_byTenant (reg_remove r sid)) t \<noteq> Some {||}"
      using reg_invD(6) [OF inv, of t] Some
      by (auto simp: reg_remove_def reg_get_def drop_tenant_def Let_def split: option.splits)
  qed
qed

section \<open>Mutation of a live ledger\<close>

lemma reg_store_simps:
  "reg_get (reg_store r s) sid = (if sid = s_ID s then Some s else reg_get r sid)"
  "session_for_conn (reg_store r s) c = session_for_conn r c"
  "tenant_set (reg_store r s) t = tenant_set r t"
  "r_byTenant (reg_store r s) = r_byTenant r"
  by (auto simp: reg_store_def reg_get_def session_for_conn_def tenant_set_def)

lemma reg_inv_store:
  assumes inv: "reg_inv r" and old: "reg_get r (s_ID s') = Some s"
    and tenant: "s_TenantID s' = s_TenantID s" and conns: "conns_of s' = conns_of s"
    and ok: "session_ok s'"
  shows "reg_inv (reg_store r s')"
proof (rule reg_invI)
  fix t sid
  show "sid |\<in>| tenant_set (reg_store r s') t \<longleftrightarrow> (\<exists>u. reg_get (reg_store r s') sid = Some u \<and> s_TenantID u = t)"
    by (cases "sid = s_ID s'")
      (simp_all only: reg_store_simps reg_invD(5) [OF inv] old tenant if_True if_False option.inject simp_thms)
next
  fix sid u c assume "reg_get (reg_store r s') sid = Some u" and "c \<in> conns_of u"
  then show "session_for_conn (reg_store r s') c = Some sid"
    using reg_invD(3) [OF inv, of sid u c] reg_invD(3) [OF inv, of sid s c] old conns
    by (auto simp: reg_store_simps split: if_splits)
next
  fix sid c assume "session_for_conn (reg_store r s') c = Some sid"
  then show "\<exists>u. reg_get (reg_store r s') sid = Some u \<and> c \<in> conns_of u"
    using reg_invD(4) [OF inv, of c sid] old conns
    by (cases "sid = s_ID s'") (force simp: reg_store_simps)+
next
  fix sid u assume "reg_get (reg_store r s') sid = Some u"
  then show "s_ID u = sid \<and> session_ok u"
    using ok reg_invD(1,2) [OF inv, of sid u] by (auto simp: reg_store_simps split: if_splits)
next
  fix t show "fmlookup (r_byTenant (reg_store r s')) t \<noteq> Some {||}"
    using reg_invD(6) [OF inv] by (simp add: reg_store_simps)
qed

lemma reg_inv_seat:
  assumes inv: "reg_inv r" and old: "reg_get r (s_ID s') = Some s"
    and tenant: "s_TenantID s' = s_TenantID s" and conns: "conns_of s' = insert c (conns_of s)"
    and free: "session_for_conn r c = None" and ok: "session_ok s'"
  shows "reg_inv (reg_store (bind_conn r c (s_ID s')) s')"
proof -
  have bind: "reg_get (bind_conn r c i) sid = reg_get r sid" "tenant_set (bind_conn r c i) t = tenant_set r t"
    "session_for_conn (bind_conn r c i) d = (if d = c then Some i else session_for_conn r d)"
    "r_byTenant (bind_conn r c i) = r_byTenant r" for i sid t d
    by (auto simp: bind_conn_def reg_get_def tenant_set_def session_for_conn_def)
  show ?thesis
  proof (rule reg_invI)
    fix t sid
    show "sid |\<in>| tenant_set (reg_store (bind_conn r c (s_ID s')) s') t
       \<longleftrightarrow> (\<exists>u. reg_get (reg_store (bind_conn r c (s_ID s')) s') sid = Some u \<and> s_TenantID u = t)"
      by (cases "sid = s_ID s'")
      (simp_all only: reg_store_simps bind reg_invD(5) [OF inv] old tenant if_True if_False option.inject simp_thms)
  next
    fix sid u d assume "reg_get (reg_store (bind_conn r c (s_ID s')) s') sid = Some u" and "d \<in> conns_of u"
    then show "session_for_conn (reg_store (bind_conn r c (s_ID s')) s') d = Some sid"
      using reg_invD(3) [OF inv, of sid u d] reg_invD(3) [OF inv, of sid s d] old conns free
      by (auto simp: reg_store_simps bind split: if_splits)
  next
    fix sid d assume "session_for_conn (reg_store (bind_conn r c (s_ID s')) s') d = Some sid"
    then show "\<exists>u. reg_get (reg_store (bind_conn r c (s_ID s')) s') sid = Some u \<and> d \<in> conns_of u"
      using reg_invD(4) [OF inv, of d sid] old conns
      by (cases "sid = s_ID s'"; cases "d = c") (force simp: reg_store_simps bind)+
  next
    fix sid u assume "reg_get (reg_store (bind_conn r c (s_ID s')) s') sid = Some u"
    then show "s_ID u = sid \<and> session_ok u"
      using ok reg_invD(1,2) [OF inv, of sid u] by (auto simp: reg_store_simps bind split: if_splits)
  next
    fix t show "fmlookup (r_byTenant (reg_store (bind_conn r c (s_ID s')) s')) t \<noteq> Some {||}"
      using reg_invD(6) [OF inv] by (simp add: reg_store_simps bind)
  qed
qed

section \<open>Operations keep the invariant\<close>

lemma member_by_conn_None: "member_by_conn s c = None \<longleftrightarrow> c \<notin> conns_of s"
  by (auto simp: member_by_conn_def find_None_iff conns_of_def)

lemma lookup_member_Inr:
  "lookup_member m t sid c = Inr s \<longleftrightarrow>
     reg_get (g_reg m) sid = Some s \<and> s_TenantID s = t \<and> c \<in> conns_of s"
  by (auto simp: lookup_member_def member_by_conn_None split: option.splits if_splits)

lemma lookup_member_Inl:
  "lookup_member m t sid c = Inl e \<longleftrightarrow>
     e = ErrUnknownSession \<and>
     (\<forall>s. reg_get (g_reg m) sid = Some s \<longrightarrow> s_TenantID s \<noteq> t \<or> c \<notin> conns_of s)"
  by (auto simp: lookup_member_def member_by_conn_None split: option.splits if_splits)

lemma mgr_invD:
  assumes "mgr_inv m"
  shows "reg_inv (g_reg m)"
    and "int (count_for_tenant (g_reg m) t) \<le> max 0 (g_maxPerTenant m)"
  using assms by (auto simp: mgr_inv_def)

lemma count_reg_store [simp]: "count_for_tenant (reg_store r s) t = count_for_tenant r t"
  by (simp add: count_for_tenant_def reg_store_simps)

lemma count_bind_conn [simp]: "count_for_tenant (bind_conn r c i) t = count_for_tenant r t"
  by (simp add: count_for_tenant_def tenant_set_def bind_conn_def)

lemma count_reg_remove: "count_for_tenant (reg_remove r sid) t \<le> count_for_tenant r t"
proof (cases "reg_get r sid")
  case None
  then show ?thesis by simp
next
  case (Some s)
  then show ?thesis
    by (auto simp: count_for_tenant_def reg_remove_simps [OF Some] intro!: fcard_mono)
qed

lemma mgr_inv_remove:
  assumes "mgr_inv m"
  shows "mgr_inv (m\<lparr>g_reg := reg_remove (g_reg m) sid\<rparr>)"
proof -
  have "int (count_for_tenant (reg_remove (g_reg m) sid) t) \<le> max 0 (g_maxPerTenant m)" for t
    using mgr_invD(2) [OF assms, of t] count_reg_remove [of "g_reg m" sid t] by linarith
  with mgr_invD(1) [OF assms] show ?thesis by (simp add: mgr_inv_def reg_inv_remove)
qed

lemma mgr_inv_store:
  assumes "mgr_inv m" and "reg_get (g_reg m) (s_ID s') = Some s" and "s_TenantID s' = s_TenantID s"
    and "conns_of s' = conns_of s" and "session_ok s'"
  shows "mgr_inv (m\<lparr>g_reg := reg_store (g_reg m) s'\<rparr>)"
  using assms reg_inv_store [of "g_reg m" s' s] by (simp add: mgr_inv_def)

lemma mgr_inv_start [gw_inv]:
  assumes inv: "mgr_inv m" and fresh: "\<And>sid. gen = Inr sid \<Longrightarrow> reg_get (g_reg m) sid = None"
  shows "mgr_inv (snd (mgr_start m t c gen now))"
proof (cases "session_for_conn (g_reg m) c = None \<and> int (count_for_tenant (g_reg m) t) < g_maxPerTenant m
    \<and> (\<exists>sid. gen = Inr sid)")
  case False
  with inv show ?thesis by (auto simp: mgr_start_def Let_def split: sum.splits)
next
  case True
  then obtain sid where gen: "gen = Inr sid" by blast
  let ?s = "new_session sid t c ''initiator'' now"
  have ok: "session_ok ?s" and cs: "conns_of ?s = {c}" and ids: "s_ID ?s = sid" "s_TenantID ?s = t"
    by (auto simp: new_session_def session_ok_def conns_of_def)
  have "reg_inv (reg_insert (g_reg m) ?s)"
    using True fresh [OF gen] ids cs ok mgr_invD(1) [OF inv] by (intro reg_inv_insert) auto
  moreover have "int (count_for_tenant (reg_insert (g_reg m) ?s) t') \<le> max 0 (g_maxPerTenant m)" for t'
    using mgr_invD(2) [OF inv, of t'] True ids
    by (auto simp: count_for_tenant_def reg_insert_simps fcard_finsert_if)
  ultimately show ?thesis
    using True gen by (simp add: mgr_start_def Let_def mgr_inv_def)
qed

lemma mgr_inv_join [gw_inv]:
  assumes inv: "mgr_inv m"
  shows "mgr_inv (snd (mgr_join m t sid c now))"
proof (cases "\<exists>s. session_for_conn (g_reg m) c = None \<and> reg_get (g_reg m) sid = Some s
    \<and> s_TenantID s = t \<and> member_count s < 2")
  case False
  with inv show ?thesis by (auto simp: mgr_join_def Let_def split: option.splits)
next
  case True
  then obtain s where free: "session_for_conn (g_reg m) c = None" and get: "reg_get (g_reg m) sid = Some s"
    and t: "s_TenantID s = t" and mc: "member_count s < 2" by blast
  note r = mgr_invD(1) [OF inv]
  have "session_ok s" and sid: "s_ID s = sid" using reg_invD(1,2) [OF r get] by auto
  then obtain i where i: "s_members s = [i]" "m_Role i = ''initiator''" "s_State s = Pending" "s_offerBy s = ''''"
    using mc by (auto elim!: session_ok_cases simp: member_count_def)
  define s' where "s' = touch_change (s\<lparr>s_members := s_members s @ [\<lparr>m_ConnID = c, m_Role = ''responder''\<rparr>]\<rparr>) now"
  have "c \<notin> conns_of s" using free reg_invD(3) [OF r get, of c] by auto
  then have ok': "session_ok s'" and cs: "conns_of s' = insert c (conns_of s)"
    and ids: "s_ID s' = sid" "s_TenantID s' = s_TenantID s"
    using i sid by (auto simp: s'_def touch_change_def session_ok_def conns_of_def)
  have "reg_inv (reg_store (bind_conn (g_reg m) c sid) s')"
    using reg_inv_seat [OF r, of s' s c] get ids cs free ok' by simp
  moreover have "snd (mgr_join m t sid c now) = m\<lparr>g_reg := reg_store (bind_conn (g_reg m) c sid) s'\<rparr>"
    using free get t mc sid by (simp add: mgr_join_def Let_def s'_def)
  ultimately show ?thesis using inv by (simp add: mgr_inv_def)
qed

lemma snd_end_locked: "snd (end_locked m s reason now) = m\<lparr>g_reg := reg_remove (g_reg m) (s_ID s)\<rparr>"
  by (simp add: end_locked_def Let_def mark_ended_def)

lemma fst_end_locked:
  "fst (end_locked m s reason now) =
     map (\<lambda>mb. (mk_event EvEnded (m_ConnID mb) (s_ID s))\<lparr>ev_Reason := reason\<rparr>) (s_members s)"
  by (simp add: end_locked_def Let_def mark_ended_def)

lemma mgr_inv_end_locked: "mgr_inv m \<Longrightarrow> mgr_inv (snd (end_locked m s reason now))"
  by (simp add: snd_end_locked mgr_inv_remove)

lemma mgr_inv_end [gw_inv]: "mgr_inv m \<Longrightarrow> mgr_inv (snd (mgr_end m t sid c reason now))"
  by (auto simp: mgr_end_def case_prod_unfold Let_def mgr_inv_end_locked split: sum.splits)

lemma mgr_inv_offer [gw_inv]:
  assumes inv: "mgr_inv m"
  shows "mgr_inv (snd (mgr_offer m t sid c sdp now))"
proof (cases "lookup_member m t sid c")
  case (Inl e)
  with inv show ?thesis by (simp add: mgr_offer_def)
next
  case (Inr s)
  then have get: "reg_get (g_reg m) sid = Some s" and c: "c \<in> conns_of s" by (auto simp: lookup_member_Inr)
  have ok: "session_ok s" and sid: "s_ID s = sid" using reg_invD(1,2) [OF mgr_invD(1) [OF inv] get] by auto
  show ?thesis
  proof (cases "member_count s < 2 \<or> s_State s = Offering")
    case True
    with inv Inr show ?thesis by (auto simp: mgr_offer_def)
  next
    case False
    define s' where
      "s' = touch_change (s\<lparr>s_State := Offering, s_offerBy := m_Role (or_zero (member_by_conn s c))\<rparr>) now"
    have same: "conns_of s' = conns_of s" "s_ID s' = sid" "s_TenantID s' = s_TenantID s"
      using sid by (simp_all add: s'_def touch_change_def conns_of_def)
    have "session_ok s'"
      using ok
    proof (cases rule: session_ok_cases)
      case (one i)
      with False show ?thesis by (simp add: member_count_def)
    next
      case (two i r)
      then show ?thesis
        using c by (auto simp: s'_def touch_change_def session_ok_def conns_of_def member_by_conn_def or_zero_def)
    qed
    with same have "mgr_inv (m\<lparr>g_reg := reg_store (g_reg m) s'\<rparr>)"
      using mgr_inv_store [OF inv, of s' s] get by simp
    with False Inr show ?thesis by (simp add: mgr_offer_def Let_def s'_def)
  qed
qed

lemma mgr_inv_answer [gw_inv]:
  assumes inv: "mgr_inv m"
  shows "mgr_inv (snd (mgr_answer m t sid c sdp now))"
proof (cases "lookup_member m t sid c")
  case (Inl e)
  with inv show ?thesis by (simp add: mgr_answer_def)
next
  case (Inr s)
  then have get: "reg_get (g_reg m) sid = Some s" by (simp add: lookup_member_Inr)
  have ok: "session_ok s" and sid: "s_ID s = sid" using reg_invD(1,2) [OF mgr_invD(1) [OF inv] get] by auto
  show ?thesis
  proof (cases "s_State s = Offering \<and> m_Role (or_zero (member_by_conn s c)) \<noteq> s_offerBy s")
    case False
    with inv Inr show ?thesis by (auto simp: mgr_answer_def Let_def)
  next
    case True
    define s' where "s' = touch_change (s\<lparr>s_State := Answered, s_offerBy := ''''\<rparr>) now"
    have same: "conns_of s' = conns_of s" "s_ID s' = sid" "s_TenantID s' = s_TenantID s"
      using sid by (simp_all add: s'_def touch_change_def conns_of_def)
    have "session_ok s'"
      using ok True
      by (cases rule: session_ok_cases) (simp_all add: s'_def touch_change_def session_ok_def)
    with same have "mgr_inv (m\<lparr>g_reg := reg_store (g_reg m) s'\<rparr>)"
      using mgr_inv_store [OF inv, of s' s] get by simp
    with True Inr show ?thesis by (simp add: mgr_answer_def Let_def s'_def)
  qed
qed

lemma snd_mgr_candidate [gw_frame]: "snd (mgr_candidate m t sid c raw) = m"
  by (auto simp: mgr_candidate_def Let_def split: sum.splits)

lemma mgr_inv_conn_dropped [gw_inv]:
  assumes inv: "mgr_inv m"
  shows "mgr_inv (snd (conn_dropped m c now))"
proof (cases "session_for_conn (g_reg m) c")
  case None
  with inv show ?thesis by (simp add: conn_dropped_def)
next
  case (Some sid)
  then obtain s where "reg_get (g_reg m) sid = Some s"
    using reg_invD(4) [OF mgr_invD(1) [OF inv]] by blast
  with Some inv show ?thesis
    by (simp add: conn_dropped_def case_prod_unfold Let_def mgr_inv_end_locked)
qed

lemma mgr_inv_end_all: "mgr_inv m \<Longrightarrow> mgr_inv (snd (end_all m ss now))"
  by (induction ss arbitrary: m) (simp_all add: case_prod_unfold Let_def mgr_inv_end_locked)

lemma mgr_inv_reap [gw_inv]: "mgr_inv m \<Longrightarrow> mgr_inv (snd (mgr_reap m ord now))"
  by (simp add: mgr_reap_def mgr_inv_end_all)

section \<open>Interleavings of the manager's critical sections\<close>

text \<open>
  One rule per method that takes the mutex and may change the manager. The generator's id is fresh:
  \<open>newUUIDv4\<close> draws 122 random bits, and a collision with a live id is the one case the code does
  not handle.
\<close>

inductive mgr_step :: "manager \<Rightarrow> manager \<Rightarrow> bool" where
  step_start: "(\<And>sid. gen = Inr sid \<Longrightarrow> reg_get (g_reg m) sid = None) \<Longrightarrow>
     mgr_step m (snd (mgr_start m t c gen now))"
| step_join: "mgr_step m (snd (mgr_join m t sid c now))"
| step_end: "mgr_step m (snd (mgr_end m t sid c reason now))"
| step_offer: "mgr_step m (snd (mgr_offer m t sid c sdp now))"
| step_answer: "mgr_step m (snd (mgr_answer m t sid c sdp now))"
| step_candidate: "mgr_step m (snd (mgr_candidate m t sid c raw))"
| step_dropped: "mgr_step m (snd (conn_dropped m c now))"
| step_reap: "range_order ord (r_byID (g_reg m)) \<Longrightarrow> mgr_step m (snd (mgr_reap m ord now))"

definition mgr_initial :: "manager \<Rightarrow> bool" where
  "mgr_initial m \<longleftrightarrow> m = new_manager (g_maxPerTenant m) (g_pendingTTL m)"

lemma mgr_step_inv: "mgr_step m m' \<Longrightarrow> mgr_inv m \<Longrightarrow> mgr_inv m'"
  by (induction rule: mgr_step.induct) (auto intro: gw_inv simp: gw_frame)

interpretation ledger: invariant_system mgr_initial mgr_step mgr_inv
proof
  fix s assume "mgr_initial s"
  then show "mgr_inv s" unfolding mgr_initial_def by (metis mgr_inv_new)
next
  fix s t assume "mgr_inv s" "mgr_step s t"
  then show "mgr_inv t" by (blast intro: mgr_step_inv)
qed

end
