(* ===== verification/Gw_Session_Spec.thy ===== *)
theory Gw_Session_Spec
  imports Gw_Session_Inv
begin

text \<open>
  What the session manager promises, over the invariant of \<open>Gw_Session_Inv\<close>: relays reach exactly
  the other member of the session, the glare guard, the collapse of foreign sessions to
  "unknown", the effect of a dropped connection and of the reaper, and the simulation of the
  manager by an abstract two-party protocol.
\<close>

section \<open>Canonical registries\<close>

text \<open>Under the invariant the two secondary indexes are functions of the ledger map.\<close>

lemma reg_inv_eqI:
  assumes "reg_inv r" and "reg_inv r'" and eq: "\<And>sid. reg_get r sid = reg_get r' sid"
  shows "r = r'"
proof -
  have tenants: "tenant_set r t = tenant_set r' t" for t
    by (rule fset_eqI) (simp add: reg_invD(5) [OF assms(1)] reg_invD(5) [OF assms(2)] eq)
  have "fmlookup (r_byTenant r) t = fmlookup (r_byTenant r') t" for t
    using tenants [of t] reg_invD(6) [OF assms(1), of t] reg_invD(6) [OF assms(2), of t]
    by (auto simp: tenant_set_def fmget_def split: option.splits)
  moreover have "session_for_conn r c = Some sid \<longleftrightarrow> session_for_conn r' c = Some sid" for c sid
    using assms(1,2) eq by (simp add: reg_inv_def)
  then have "session_for_conn r c = session_for_conn r' c" for c
    by (metis not_None_eq)
  ultimately show ?thesis
    using eq by (intro registry.equality) (auto simp: reg_get_def session_for_conn_def intro: fmap_ext)
qed

section \<open>Members and their peers\<close>

lemma member_by_conn_role:
  "s_members s = [i, r] \<Longrightarrow> m_ConnID i \<noteq> m_ConnID r \<Longrightarrow>
   member_by_conn s (m_ConnID i) = Some i \<and> member_by_conn s (m_ConnID r) = Some r"
  by (simp add: member_by_conn_def)

lemma peer_two:
  assumes "session_ok s" and "c \<in> conns_of s" and "\<not> member_count s < 2"
  obtains me peer where "member_by_conn s c = Some me" "peer_of s c = Some peer" "m_ConnID me = c"
    "m_ConnID peer \<noteq> c" "conns_of s = {c, m_ConnID peer}" "m_Role peer \<noteq> m_Role me"
    "member_by_conn s (m_ConnID peer) = Some peer" "peer_of s (m_ConnID peer) = Some me"
    "{m_Role me, m_Role peer} = {''initiator'', ''responder''}"
  using assms(1)
proof (cases rule: session_ok_cases)
  case (one i)
  with assms(3) show ?thesis by (simp add: member_count_def)
next
  case (two i r)
  from two(1) assms(2) consider "c = m_ConnID i" | "c = m_ConnID r" by (auto simp: conns_of_def)
  then show ?thesis
  proof cases
    case 1
    with two show ?thesis by (intro that [of i r]) (auto simp: member_by_conn_def peer_of_def conns_of_def)
  next
    case 2
    with two show ?thesis by (intro that [of r i]) (auto simp: member_by_conn_def peer_of_def conns_of_def)
  qed
qed

text \<open>The lookups of \<open>peer_of\<close> and \<open>member_by_conn\<close> read only the seats.\<close>

lemma seats_frame [simp]:
  "member_by_conn (touch_change s now) c = member_by_conn s c"
  "peer_of (touch_change s now) c = peer_of s c"
  "member_by_conn (s\<lparr>s_State := st, s_offerBy := ob\<rparr>) c = member_by_conn s c"
  "peer_of (s\<lparr>s_State := st, s_offerBy := ob\<rparr>) c = peer_of s c"
  "member_count (touch_change s now) = member_count s"
  "s_ID (touch_change s now) = s_ID s"
  "s_State (touch_change s now) = s_State s"
  "s_offerBy (touch_change s now) = s_offerBy s"
  "s_TenantID (touch_change s now) = s_TenantID s"
  "s_members (touch_change s now) = s_members s"
  by (simp_all add: member_by_conn_def peer_of_def touch_change_def member_count_def)

lemma or_zero_Some [simp]: "or_zero (Some x) = x"
  by (simp add: or_zero_def)

section \<open>Relays\<close>

text \<open>
  \<open>relays m t sid c mk evs\<close>: the only event is the one \<open>mk\<close> makes for the connection that shares
  the session \<open>sid\<close> of tenant \<open>t\<close> with \<open>c\<close>.
\<close>

definition relays ::
  "manager \<Rightarrow> string \<Rightarrow> string \<Rightarrow> string \<Rightarrow> (string \<Rightarrow> event) \<Rightarrow> event list \<Rightarrow> bool"
where
  "relays m t sid c mk evs \<longleftrightarrow>
     (\<exists>s peer. reg_get (g_reg m) sid = Some s \<and> s_TenantID s = t \<and> conns_of s = {c, peer} \<and> peer \<noteq> c
        \<and> session_for_conn (g_reg m) peer = Some sid \<and> evs = [mk peer])"

lemma relaysI:
  assumes inv: "mgr_inv m" and "lookup_member m t sid c = Inr s" and "\<not> member_count s < 2"
    and "evs = [mk (m_ConnID (or_zero (peer_of s c)))]"
  shows "relays m t sid c mk evs"
proof -
  from assms(2) have get: "reg_get (g_reg m) sid = Some s" and t: "s_TenantID s = t" and c: "c \<in> conns_of s"
    by (auto simp: lookup_member_Inr)
  note r = mgr_invD(1) [OF inv]
  obtain peer where p: "peer_of s c = Some peer" "m_ConnID peer \<noteq> c" "conns_of s = {c, m_ConnID peer}"
    using peer_two [OF reg_invD(2) [OF r get] c assms(3)] by metis
  with get t assms(4) reg_invD(3) [OF r get, of "m_ConnID peer"] show ?thesis
    unfolding relays_def by (intro exI [of _ s] exI [of _ "m_ConnID peer"]) simp
qed

lemma lookup_member_sid: "mgr_inv m \<Longrightarrow> lookup_member m t sid c = Inr s \<Longrightarrow> s_ID s = sid"
  using reg_invD(1) [OF mgr_invD(1)] by (auto simp: lookup_member_Inr)

lemma offering_two:
  assumes "mgr_inv m" and "lookup_member m t sid c = Inr s" and "s_State s = Offering"
  shows "\<not> member_count s < 2"
proof -
  have "session_ok s" using reg_invD(2) [OF mgr_invD(1) [OF assms(1)]] assms(2) by (auto simp: lookup_member_Inr)
  then show ?thesis using assms(3) by (cases rule: session_ok_cases) (simp_all add: member_count_def)
qed

lemma mgr_offer_relays:
  assumes "mgr_inv m" and "fst (mgr_offer m t sid c sdp now) = Inr evs"
  shows "relays m t sid c (\<lambda>p. (mk_event EvForwardOffer p sid)\<lparr>ev_SDP := sdp\<rparr>) evs"
proof -
  from assms(2) obtain s where l: "lookup_member m t sid c = Inr s" "\<not> member_count s < 2"
      "evs = [(mk_event EvForwardOffer (m_ConnID (or_zero (peer_of s c))) (s_ID s))\<lparr>ev_SDP := sdp\<rparr>]"
    by (auto simp: mgr_offer_def Let_def split: sum.splits if_splits)
  with lookup_member_sid [OF assms(1) l(1)] show ?thesis by (intro relaysI [OF assms(1)]) auto
qed

lemma mgr_answer_relays:
  assumes "mgr_inv m" and "fst (mgr_answer m t sid c sdp now) = Inr evs"
  shows "relays m t sid c (\<lambda>p. (mk_event EvForwardAnswer p sid)\<lparr>ev_SDP := sdp\<rparr>) evs"
proof -
  from assms(2) obtain s where l: "lookup_member m t sid c = Inr s" "s_State s = Offering"
      "evs = [(mk_event EvForwardAnswer (m_ConnID (or_zero (peer_of s c))) (s_ID s))\<lparr>ev_SDP := sdp\<rparr>]"
    by (auto simp: mgr_answer_def Let_def split: sum.splits if_splits)
  with lookup_member_sid [OF assms(1) l(1)] offering_two [OF assms(1) l(1,2)] show ?thesis
    by (intro relaysI [OF assms(1)]) auto
qed

lemma mgr_candidate_relays:
  assumes "mgr_inv m" and "fst (mgr_candidate m t sid c raw) = Inr evs"
  shows "relays m t sid c (\<lambda>p. (mk_event EvForwardCandidate p sid)\<lparr>ev_Candidate := raw\<rparr>) evs"
proof -
  from assms(2) obtain s where l: "lookup_member m t sid c = Inr s" "\<not> member_count s < 2"
      "evs = [(mk_event EvForwardCandidate (m_ConnID (or_zero (peer_of s c))) (s_ID s))\<lparr>ev_Candidate := raw\<rparr>]"
    by (auto simp: mgr_candidate_def Let_def split: sum.splits if_splits)
  with lookup_member_sid [OF assms(1) l(1)] show ?thesis by (intro relaysI [OF assms(1)]) auto
qed


section \<open>Outcomes of an offer and an answer\<close>

lemma mgr_offer_Inr:
  assumes "fst (mgr_offer m t sid c sdp now) = Inr evs"
  obtains s where "lookup_member m t sid c = Inr s" "\<not> member_count s < 2" "s_State s \<noteq> Offering"
    "snd (mgr_offer m t sid c sdp now) = m\<lparr>g_reg := reg_store (g_reg m)
       (touch_change (s\<lparr>s_State := Offering, s_offerBy := m_Role (or_zero (member_by_conn s c))\<rparr>) now)\<rparr>"
  using assms by (auto simp: mgr_offer_def Let_def split: sum.splits if_splits)

lemma lookup_after_store:
  assumes "mgr_inv m" and "lookup_member m t sid c = Inr s" and "s_ID s' = s_ID s"
    and "s_TenantID s' = s_TenantID s" and "s_members s' = s_members s" and "d \<in> conns_of s"
  shows "lookup_member (m\<lparr>g_reg := reg_store (g_reg m) s'\<rparr>) t sid d = Inr s'"
  using assms lookup_member_sid [OF assms(1,2)] by (auto simp: lookup_member_Inr reg_store_simps conns_of_def)

text \<open>
  C10. The glare guard. After an offer of member \<open>c\<close> was accepted, the session waits for the
  other member: an offer of either member is refused as \<open>wrong_state\<close>, so is an answer of the
  offerer itself, and the answer of the other member is accepted and forwarded to the offerer.
  Hence two crossing offers never leave both sides in their own negotiation.
\<close>

theorem glare_guard:
  assumes "mgr_initial m0" and "mgr_step\<^sup>*\<^sup>* m0 m"
    and "fst (mgr_offer m t sid c sdp now) = Inr evs"
  defines "m' \<equiv> snd (mgr_offer m t sid c sdp now)"
  shows "\<exists>peer. peer \<noteq> c
    \<and> evs = [(mk_event EvForwardOffer peer sid)\<lparr>ev_SDP := sdp\<rparr>]
    \<and> (\<forall>d \<in> {c, peer}. mgr_offer m' t sid d sdp' now' = (Inl ErrWrongState, m'))
    \<and> mgr_answer m' t sid c sdp' now' = (Inl ErrWrongState, m')
    \<and> fst (mgr_answer m' t sid peer sdp' now') = Inr [(mk_event EvForwardAnswer c sid)\<lparr>ev_SDP := sdp'\<rparr>]"
proof -
  have inv: "mgr_inv m" by (rule ledger.reachable_inv [OF assms(1,2)])
  obtain s where l: "lookup_member m t sid c = Inr s" and two: "\<not> member_count s < 2"
    and m': "m' = m\<lparr>g_reg := reg_store (g_reg m)
       (touch_change (s\<lparr>s_State := Offering, s_offerBy := m_Role (or_zero (member_by_conn s c))\<rparr>) now)\<rparr>"
    using mgr_offer_Inr [OF assms(3)] unfolding m'_def by metis
  define s' where "s' = touch_change (s\<lparr>s_State := Offering, s_offerBy := m_Role (or_zero (member_by_conn s c))\<rparr>) now"
  from l have get: "reg_get (g_reg m) sid = Some s" and c: "c \<in> conns_of s" by (auto simp: lookup_member_Inr)
  obtain me peer where p: "member_by_conn s c = Some me" "peer_of s c = Some peer" "m_ConnID me = c"
    "m_ConnID peer \<noteq> c" "conns_of s = {c, m_ConnID peer}" "m_Role peer \<noteq> m_Role me"
    "member_by_conn s (m_ConnID peer) = Some peer" "peer_of s (m_ConnID peer) = Some me"
    by (rule peer_two [OF reg_invD(2) [OF mgr_invD(1) [OF inv] get] c two])
  have look: "lookup_member m' t sid d = Inr s'" if "d \<in> {c, m_ConnID peer}" for d
    unfolding m' s'_def using that p(5) by (intro lookup_after_store [OF inv l]) auto
  have sid: "s_ID s = sid" by (rule lookup_member_sid [OF inv l])
  have s': "s_State s' = Offering" "member_count s' = member_count s" "s_ID s' = sid" "s_offerBy s' = m_Role me"
    "member_by_conn s' = member_by_conn s" "peer_of s' = peer_of s"
    using sid p by (simp_all add: s'_def fun_eq_iff)  (simp_all add: member_count_def touch_change_def)
  have evs: "evs = [(mk_event EvForwardOffer (m_ConnID peer) sid)\<lparr>ev_SDP := sdp\<rparr>]"
    using assms(3) l sid p(2) by (auto simp: mgr_offer_def Let_def split: if_splits)
  show ?thesis
    using look s' two p evs
    by (intro exI [of _ "m_ConnID peer"]) (auto simp: mgr_offer_def mgr_answer_def Let_def)
qed

section \<open>A concrete run\<close>

text \<open>
  The manager after connection \<open>c1\<close> of tenant \<open>T\<close> opened session \<open>s1\<close> and \<open>c2\<close> joined it; the
  witnesses of the properties below run on it.
\<close>

definition demo_start :: manager where
  "demo_start = snd (mgr_start (new_manager 5 60000000000) ''T'' ''c1'' (Inr ''s1'') 1000)"

definition demo_call :: manager where
  "demo_call = snd (mgr_join demo_start ''T'' ''s1'' ''c2'' 2000)"

lemmas mgr_defs = new_manager_def new_registry_def mgr_start_def mgr_join_def mgr_end_def mgr_offer_def
  mgr_answer_def mgr_candidate_def conn_dropped_def end_locked_def lookup_member_def reg_get_def
  session_for_conn_def count_for_tenant_def tenant_set_def reg_insert_def bind_conn_def reg_store_def
  reg_remove_def drop_tenant_def drop_member_def new_session_def member_count_def touch_change_def
  mark_ended_def member_by_conn_def peer_of_def or_zero_def Let_def fmget_def fcard_fempty

lemma demo_start_eval:
  "demo_start = \<lparr>g_reg = \<lparr>r_byID = fmupd ''s1'' (new_session ''s1'' ''T'' ''c1'' ''initiator'' 1000) fmempty,
     r_byTenant = fmupd ''T'' {|''s1''|} fmempty, r_byConn = fmupd ''c1'' ''s1'' fmempty\<rparr>,
     g_maxPerTenant = 5, g_pendingTTL = 60000000000\<rparr>"
  by (simp add: demo_start_def mgr_defs)

lemma demo_reach: "mgr_initial (new_manager 5 60000000000)"
  "mgr_step\<^sup>*\<^sup>* (new_manager 5 60000000000) demo_start" "mgr_step\<^sup>*\<^sup>* (new_manager 5 60000000000) demo_call"
proof -
  show "mgr_initial (new_manager 5 60000000000)" by (simp add: mgr_initial_def new_manager_def)
  have a: "mgr_step (new_manager 5 60000000000) demo_start"
    unfolding demo_start_def by (rule step_start) (simp add: mgr_defs)
  have b: "mgr_step demo_start demo_call"
    unfolding demo_call_def by (rule step_join)
  from a show "mgr_step\<^sup>*\<^sup>* (new_manager 5 60000000000) demo_start" by blast
  from a b show "mgr_step\<^sup>*\<^sup>* (new_manager 5 60000000000) demo_call" by (meson converse_rtranclp_into_rtranclp rtranclp.rtrancl_refl)
qed

lemma demo_inv [simp]: "mgr_inv demo_start" "mgr_inv demo_call"
  using ledger.reachable_inv demo_reach by blast+

lemma demo_call_eval:
  "demo_call = \<lparr>g_reg = \<lparr>r_byID = fmupd ''s1'' ((new_session ''s1'' ''T'' ''c1'' ''initiator'' 1000)
        \<lparr>s_members := [\<lparr>m_ConnID = ''c1'', m_Role = ''initiator''\<rparr>, \<lparr>m_ConnID = ''c2'', m_Role = ''responder''\<rparr>],
         s_changedAt := 2000\<rparr>) (fmupd ''s1'' (new_session ''s1'' ''T'' ''c1'' ''initiator'' 1000) fmempty),
     r_byTenant = fmupd ''T'' {|''s1''|} fmempty, r_byConn = fmupd ''c2'' ''s1'' (fmupd ''c1'' ''s1'' fmempty)\<rparr>,
     g_maxPerTenant = 5, g_pendingTTL = 60000000000\<rparr>"
  by (simp add: demo_call_def demo_start_eval mgr_defs)

lemma demo_offer: "fst (mgr_offer demo_call ''T'' ''s1'' ''c1'' ''v=0'' 3000)
    = Inr [(mk_event EvForwardOffer ''c2'' ''s1'')\<lparr>ev_SDP := ''v=0''\<rparr>]"
  by (simp add: demo_call_eval mgr_defs)

theorem glare_guard_witness:
  "\<exists>peer. peer \<noteq> ''c1'' \<and>
     fst (mgr_answer (snd (mgr_offer demo_call ''T'' ''s1'' ''c1'' ''v=0'' 3000)) ''T'' ''s1'' peer ''v=1'' 4000)
       = Inr [(mk_event EvForwardAnswer ''c1'' ''s1'')\<lparr>ev_SDP := ''v=1''\<rparr>]"
  using glare_guard [OF demo_reach(1,3) demo_offer, of "''v=1''" 4000] by blast

section \<open>Relays on reachable managers\<close>

text \<open>
  Relays stay inside the session. Whenever an offer, an answer or an ICE candidate of
  connection \<open>c\<close> for session \<open>sid\<close> of tenant \<open>t\<close> is accepted, exactly one event is emitted, its
  recipient is the one other connection seated in that session, the session belongs to tenant \<open>t\<close>,
  and the payload is forwarded byte for byte.
\<close>

theorem relays_stay_in_session:
  assumes "mgr_initial m0" and "mgr_step\<^sup>*\<^sup>* m0 m"
  shows "(\<forall>evs. fst (mgr_offer m t sid c sdp now) = Inr evs \<longrightarrow>
      relays m t sid c (\<lambda>p. (mk_event EvForwardOffer p sid)\<lparr>ev_SDP := sdp\<rparr>) evs)
    \<and> (\<forall>evs. fst (mgr_answer m t sid c sdp now) = Inr evs \<longrightarrow>
      relays m t sid c (\<lambda>p. (mk_event EvForwardAnswer p sid)\<lparr>ev_SDP := sdp\<rparr>) evs)
    \<and> (\<forall>evs. fst (mgr_candidate m t sid c raw) = Inr evs \<longrightarrow>
      relays m t sid c (\<lambda>p. (mk_event EvForwardCandidate p sid)\<lparr>ev_Candidate := raw\<rparr>) evs)"
  using ledger.reachable_inv [OF assms] mgr_offer_relays mgr_answer_relays mgr_candidate_relays by blast

theorem relays_stay_in_session_witness:
  "relays demo_call ''T'' ''s1'' ''c1'' (\<lambda>p. (mk_event EvForwardOffer p ''s1'')\<lparr>ev_SDP := ''v=0''\<rparr>)
     [(mk_event EvForwardOffer ''c2'' ''s1'')\<lparr>ev_SDP := ''v=0''\<rparr>]"
  using relays_stay_in_session [OF demo_reach(1,3), of "''T''" "''s1''" "''c1''" "''v=0''" 3000] demo_offer by blast

section \<open>Foreign sessions are invisible\<close>

lemma lookup_foreign:
  assumes "reg_get (g_reg m) sid = Some s" and "s_TenantID s \<noteq> t"
  shows "lookup_member (m\<lparr>g_reg := reg_remove (g_reg m) sid\<rparr>) t sid' d = lookup_member m t sid' d"
  using assms by (auto simp: lookup_member_def reg_remove_simps [OF assms(1)] split: option.splits)

text \<open>
  C11. Another tenant's session is indistinguishable from one that does not exist. Take any
  session of another tenant that connection \<open>c\<close> is not seated in and remove it: every operation
  of \<open>c\<close> on behalf of tenant \<open>t\<close>, on any session id, answers exactly the same, success or error.
  So no reply tells a tenant whether a foreign id is live.
\<close>

theorem foreign_session_invisible:
  assumes "reg_get (g_reg m) sid = Some s" and "s_TenantID s \<noteq> t" and "c \<notin> conns_of s"
  defines "without \<equiv> m\<lparr>g_reg := reg_remove (g_reg m) sid\<rparr>"
  shows "fst (mgr_start m t c gen now) = fst (mgr_start without t c gen now)
    \<and> fst (mgr_join m t sid' c now) = fst (mgr_join without t sid' c now)
    \<and> fst (mgr_end m t sid' c reason now) = fst (mgr_end without t sid' c reason now)
    \<and> fst (mgr_offer m t sid' c sdp now) = fst (mgr_offer without t sid' c sdp now)
    \<and> fst (mgr_answer m t sid' c sdp now) = fst (mgr_answer without t sid' c sdp now)
    \<and> fst (mgr_candidate m t sid' c raw) = fst (mgr_candidate without t sid' c raw)
    \<and> other_member m t sid' c = other_member without t sid' c"
proof -
  note rm = reg_remove_simps [OF assms(1)]
  have count: "count_for_tenant (reg_remove (g_reg m) sid) t = count_for_tenant (g_reg m) t"
    using assms(2) by (simp add: count_for_tenant_def rm)
  have conn: "session_for_conn (reg_remove (g_reg m) sid) c = session_for_conn (g_reg m) c"
    using assms(3) by (simp add: rm)
  note look = lookup_foreign [OF assms(1,2)]
  have "fst (mgr_start m t c gen now) = fst (mgr_start without t c gen now)"
    by (simp add: mgr_start_def without_def count conn Let_def split: sum.split)
  moreover have "fst (mgr_join m t sid' c now) = fst (mgr_join without t sid' c now)"
    using assms(1-3) by (auto simp: mgr_join_def without_def conn rm Let_def split: option.split)
  moreover have "fst (mgr_end m t sid' c reason now) = fst (mgr_end without t sid' c reason now)"
    by (simp add: mgr_end_def without_def look case_prod_unfold Let_def fst_end_locked split: sum.split)
  moreover have "fst (mgr_offer m t sid' c sdp now) = fst (mgr_offer without t sid' c sdp now)"
    by (simp add: mgr_offer_def without_def look Let_def split: sum.split)
  moreover have "fst (mgr_answer m t sid' c sdp now) = fst (mgr_answer without t sid' c sdp now)"
    by (simp add: mgr_answer_def without_def look Let_def split: sum.split)
  moreover have "fst (mgr_candidate m t sid' c raw) = fst (mgr_candidate without t sid' c raw)"
    by (simp add: mgr_candidate_def without_def look Let_def split: sum.split)
  moreover have "other_member m t sid' c = other_member without t sid' c"
    using assms(1,2) by (auto simp: other_member_def without_def rm split: option.split)
  ultimately show ?thesis by blast
qed

theorem foreign_session_invisible_witness:
  "fst (mgr_join demo_start ''U'' ''s1'' ''c9'' 5)
     = fst (mgr_join (demo_start\<lparr>g_reg := reg_remove (g_reg demo_start) ''s1''\<rparr>) ''U'' ''s1'' ''c9'' 5)"
  using foreign_session_invisible [of demo_start "''s1''" "new_session ''s1'' ''T'' ''c1'' ''initiator'' 1000" "''U''" "''c9''"]
  by (simp add: demo_start_eval reg_get_def new_session_def conns_of_def)

section \<open>Dropped connections\<close>

text \<open>
  A dropped connection leaves nothing behind. After \<open>conn_dropped\<close> the connection is in no
  session. If it was in none, nothing changes and nobody is told; otherwise its session is gone,
  every other session is as it was, every former member is free to start again, and the only event
  is the \<open>peer_disconnected\<close> notice to the surviving member (none when it was alone).
\<close>

theorem dropped_connection_freed:
  fixes c :: string and now :: time
  assumes "mgr_initial m0" and "mgr_step\<^sup>*\<^sup>* m0 m"
  defines "evs \<equiv> fst (conn_dropped m c now)" and "m' \<equiv> snd (conn_dropped m c now)"
  shows "session_for_conn (g_reg m') c = None \<and>
    (case session_for_conn (g_reg m) c of
       None \<Rightarrow> evs = [] \<and> m' = m
     | Some sid \<Rightarrow> (\<exists>s. reg_get (g_reg m) sid = Some s
         \<and> (\<forall>sid'. reg_get (g_reg m') sid' = (if sid' = sid then None else reg_get (g_reg m) sid'))
         \<and> (\<forall>d. session_for_conn (g_reg m') d = (if d \<in> conns_of s then None else session_for_conn (g_reg m) d))
         \<and> evs = map (\<lambda>d. (mk_event EvEnded d sid)\<lparr>ev_Reason := ReasonPeerDisconnected\<rparr>)
                   (map m_ConnID (filter (\<lambda>mb. m_ConnID mb \<noteq> c) (s_members s)))
         \<and> length evs = member_count s - 1))"
proof (cases "session_for_conn (g_reg m) c")
  case None
  then show ?thesis by (simp add: evs_def m'_def conn_dropped_def)
next
  case (Some sid)
  have inv: "mgr_inv m" by (rule ledger.reachable_inv [OF assms(1,2)])
  note r = mgr_invD(1) [OF inv]
  obtain s where get: "reg_get (g_reg m) sid = Some s" and c: "c \<in> conns_of s"
    using reg_invD(4) [OF r Some] by blast
  have sid: "s_ID s = sid" and ok: "session_ok s" using reg_invD(1,2) [OF r get] .
  have m': "m' = m\<lparr>g_reg := reg_remove (g_reg m) sid\<rparr>"
    by (simp add: m'_def conn_dropped_def Some get case_prod_unfold Let_def snd_end_locked sid)
  have evs: "evs = map (\<lambda>d. (mk_event EvEnded d sid)\<lparr>ev_Reason := ReasonPeerDisconnected\<rparr>)
                   (map m_ConnID (filter (\<lambda>mb. m_ConnID mb \<noteq> c) (s_members s)))"
    by (simp add: evs_def conn_dropped_def Some get case_prod_unfold Let_def fst_end_locked sid filter_map
        comp_def mk_event_def)
  have len: "length (filter (\<lambda>mb. m_ConnID mb \<noteq> c) (s_members s)) = member_count s - 1"
    using ok c by (cases rule: session_ok_cases) (auto simp: conns_of_def member_count_def)
  have conns: "session_for_conn (g_reg m') d = (if d \<in> conns_of s then None else session_for_conn (g_reg m) d)" for d
    using reg_invD(3) [OF r get, of d] by (simp add: m' reg_remove_simps [OF get])
  show ?thesis
    using get conns c evs len by (auto simp: Some m' reg_remove_simps [OF get])
qed

theorem dropped_connection_freed_witness:
  "fst (conn_dropped demo_call ''c1'' 9) = [(mk_event EvEnded ''c2'' ''s1'')\<lparr>ev_Reason := ReasonPeerDisconnected\<rparr>]"
  using dropped_connection_freed [OF demo_reach(1,3), of "''c1''" 9]
  by (simp add: demo_call_eval session_for_conn_def reg_get_def)

section \<open>The reaper\<close>

lemma end_all_get: "reg_get (g_reg (snd (end_all m ss now))) sid = (if sid \<in> s_ID ` set ss then None else reg_get (g_reg m) sid)"
proof (induction ss arbitrary: m)
  case Nil
  then show ?case by simp
next
  case (Cons s ss)
  have "reg_get (reg_remove r i) j = (if j = i then None else reg_get r j)" for r i j
    by (cases "reg_get r i") (auto simp: reg_remove_simps)
  with Cons show ?case by (simp add: case_prod_unfold Let_def snd_end_locked)
qed

lemma end_all_events:
  "fst (end_all m ss now) = concat (map (\<lambda>s. map (\<lambda>mb. (mk_event EvEnded (m_ConnID mb) (s_ID s))\<lparr>ev_Reason := ReasonJoinTimeout\<rparr>) (s_members s)) ss)"
  by (induction ss arbitrary: m) (simp_all add: case_prod_unfold Let_def fst_end_locked)

lemma end_all_frame [gw_frame]:
  "g_maxPerTenant (snd (end_all m ss now)) = g_maxPerTenant m"
  "g_pendingTTL (snd (end_all m ss now)) = g_pendingTTL m"
  by (induction ss arbitrary: m) (simp_all add: case_prod_unfold Let_def snd_end_locked)

lemma set_map_filter: "set (List.map_filter f xs) = {y. \<exists>x \<in> set xs. f x = Some y}"
  by (induction xs) (auto simp: List.map_filter_simps split: option.splits)

lemma expired_set:
  assumes "range_order ord (r_byID (g_reg m))"
  shows "set (expired_sessions m ord now) = {s. \<exists>sid. reg_get (g_reg m) sid = Some s \<and> over_age m now s}"
  using range_order_set [OF assms] by (fastforce simp: expired_sessions_def set_map_filter reg_get_def)

lemma expired_distinct:
  assumes "mgr_inv m" and "range_order ord (r_byID (g_reg m))"
  shows "distinct (map s_ID (expired_sessions m ord now))"
proof -
  have ids: "reg_get (g_reg m) sid = Some s \<Longrightarrow> s_ID s = sid" for sid s
    using reg_invD(1) [OF mgr_invD(1) [OF assms(1)]] .
  have "map s_ID (List.map_filter (reg_get (g_reg m)) xs) = filter (\<lambda>i. reg_get (g_reg m) i \<noteq> None) xs" for xs
    by (induction xs) (auto simp: List.map_filter_simps ids split: option.splits)
  then have "distinct (map s_ID (List.map_filter (reg_get (g_reg m)) ord))"
    using assms(2) by (simp add: range_order_def)
  then show ?thesis by (simp add: expired_sessions_def distinct_map_filter)
qed

definition reap_notice :: "session \<Rightarrow> event" where
  "reap_notice s = (mk_event EvEnded (m_ConnID (s_members s ! 0)) (s_ID s))\<lparr>ev_Reason := ReasonJoinTimeout\<rparr>"

lemma reap_events:
  "fst (mgr_reap m ord now) = map reap_notice (expired_sessions m ord now)"
proof -
  have "concat (map (\<lambda>s. map (\<lambda>mb. (mk_event EvEnded (m_ConnID mb) (s_ID s))\<lparr>ev_Reason := ReasonJoinTimeout\<rparr>) (s_members s)) ss)
      = map reap_notice ss" if "\<forall>s \<in> set ss. over_age m now s" for ss
    using that
  proof (induction ss)
    case (Cons s ss)
    then obtain i where "s_members s = [i]" by (auto simp: over_age_def member_count_def length_Suc_conv)
    with Cons show ?case by (simp add: reap_notice_def)
  qed simp
  then show ?thesis by (simp add: mgr_reap_def end_all_events expired_sessions_def)
qed

text \<open>
  The reaper ends exactly the calls nobody answered. On every reachable manager, whatever
  order the runtime visits the map in, a reap removes precisely the pending sessions with a single
  member that are at least the TTL old and keeps every other session as it was; it emits one
  \<open>join_timeout\<close> notice per removed session, to its initiator; and the resulting manager does not
  depend on the visiting order.
\<close>

theorem reap_exactly_unanswered:
  assumes "mgr_initial m0" and "mgr_step\<^sup>*\<^sup>* m0 m" and "range_order ord (r_byID (g_reg m))"
  shows "(\<forall>sid. reg_get (g_reg (snd (mgr_reap m ord now))) sid =
            (case reg_get (g_reg m) sid of None \<Rightarrow> None | Some s \<Rightarrow> if over_age m now s then None else Some s))
    \<and> set (fst (mgr_reap m ord now)) = reap_notice ` {s. \<exists>sid. reg_get (g_reg m) sid = Some s \<and> over_age m now s}
    \<and> distinct (map ev_SessionID (fst (mgr_reap m ord now)))
    \<and> (\<forall>ord'. range_order ord' (r_byID (g_reg m)) \<longrightarrow> snd (mgr_reap m ord' now) = snd (mgr_reap m ord now))"
proof -
  have inv: "mgr_inv m" by (rule ledger.reachable_inv [OF assms(1,2)])
  have get: "reg_get (g_reg (snd (mgr_reap m o1 now))) sid =
      (case reg_get (g_reg m) sid of None \<Rightarrow> None | Some s \<Rightarrow> if over_age m now s then None else Some s)"
    if "range_order o1 (r_byID (g_reg m))" for o1 sid
  proof -
    have ids: "reg_get (g_reg m) i = Some s \<Longrightarrow> s_ID s = i" for i s
      using reg_invD(1) [OF mgr_invD(1) [OF inv]] .
    show ?thesis
      unfolding mgr_reap_def end_all_get expired_set [OF that]
      by (auto simp: image_iff ids split: option.split)
  qed
  have "snd (mgr_reap m ord' now) = snd (mgr_reap m ord now)" if "range_order ord' (r_byID (g_reg m))" for ord'
  proof -
    have "g_reg (snd (mgr_reap m ord' now)) = g_reg (snd (mgr_reap m ord now))"
      using get [OF that] get [OF assms(3)]
        reg_inv_eqI [OF mgr_invD(1) [OF mgr_inv_reap [OF inv]] mgr_invD(1) [OF mgr_inv_reap [OF inv]]] by metis
    then show ?thesis by (intro manager.equality) (simp_all add: mgr_reap_def end_all_frame)
  qed
  moreover have "distinct (map ev_SessionID (fst (mgr_reap m ord now)))"
    using expired_distinct [OF inv assms(3), of now]
    by (simp add: reap_events comp_def reap_notice_def mk_event_def)
  ultimately show ?thesis
    using get [OF assms(3)] by (simp add: reap_events expired_set [OF assms(3)])
qed

theorem reap_exactly_unanswered_witness:
  "reg_get (g_reg (snd (mgr_reap demo_start [''s1''] 70000000000))) ''s1'' = None
   \<and> fst (mgr_reap demo_start [''s1''] 70000000000) = [reap_notice (new_session ''s1'' ''T'' ''c1'' ''initiator'' 1000)]"
proof -
  have "range_order [''s1''] (r_byID (g_reg demo_start))" by (simp add: range_order_def demo_start_eval)
  note reaped = reap_exactly_unanswered [OF demo_reach(1,2) this, of 70000000000]
  have "reg_get (g_reg (snd (mgr_reap demo_start [''s1''] 70000000000))) ''s1'' = None"
    using reaped by (simp add: demo_start_eval reg_get_def over_age_def new_session_def member_count_def
        session_created_def time_sub_def min_duration_def max_duration_def)
  moreover have "fst (mgr_reap demo_start [''s1''] 70000000000) = [reap_notice (new_session ''s1'' ''T'' ''c1'' ''initiator'' 1000)]"
    by (simp add: reap_events expired_sessions_def demo_start_eval reg_get_def over_age_def new_session_def
        member_count_def session_created_def time_sub_def min_duration_def max_duration_def List.map_filter_simps)
  ultimately show ?thesis by blast
qed

section \<open>Refinement to an abstract two-party protocol\<close>

text \<open>
  What a session is, without ids in indexes, timestamps or member lists: a call waits for a second
  party or connects two, and between two parties a proposal is open, agreed, or there is none.
\<close>

datatype talk = Idle | Proposal string | Agreed \<comment> \<open>\<open>Proposal c\<close>: by connection \<open>c\<close>\<close>

datatype call = Waiting string string | Paired string string string talk

datatype act =
    Open string string | Accept string string string | Propose string string | Agree string string | Close string

fun parties :: "call \<Rightarrow> string set" where
  "parties (Waiting t a) = {a}"
| "parties (Paired t a b k) = {a, b}"

inductive proto_step :: "(string \<rightharpoonup> call) \<Rightarrow> act \<Rightarrow> (string \<rightharpoonup> call) \<Rightarrow> bool" where
  "A sid = None \<Longrightarrow> (\<forall>x \<in> ran A. c \<notin> parties x) \<Longrightarrow> proto_step A (Open sid c) (A(sid \<mapsto> Waiting t c))"
| "A sid = Some (Waiting t a) \<Longrightarrow> (\<forall>x \<in> ran A. b \<notin> parties x) \<Longrightarrow>
   proto_step A (Accept sid t b) (A(sid \<mapsto> Paired t a b Idle))"
| "A sid = Some (Paired t a b k) \<Longrightarrow> k \<in> {Idle, Agreed} \<Longrightarrow> c \<in> {a, b} \<Longrightarrow>
   proto_step A (Propose sid c) (A(sid \<mapsto> Paired t a b (Proposal c)))"
| "A sid = Some (Paired t a b (Proposal d)) \<Longrightarrow> c \<in> {a, b} \<Longrightarrow> c \<noteq> d \<Longrightarrow>
   proto_step A (Agree sid c) (A(sid \<mapsto> Paired t a b Agreed))"
| "A sid = Some x \<Longrightarrow> proto_step A (Close sid) (A(sid := None))"

inductive_cases proto_agreeE: "proto_step A (Agree sid c) B"

fun proto_run :: "(string \<rightharpoonup> call) \<Rightarrow> act list \<Rightarrow> (string \<rightharpoonup> call) \<Rightarrow> bool" where
  "proto_run A [] B = (B = A)"
| "proto_run A (a # as) B = (\<exists>A'. proto_step A a A' \<and> proto_run A' as B)"

lemma proto_run_append: "proto_run A (as @ bs) B \<longleftrightarrow> (\<exists>A'. proto_run A as A' \<and> proto_run A' bs B)"
  by (induction as arbitrary: A) auto

definition abs_talk :: "session \<Rightarrow> string \<Rightarrow> string \<Rightarrow> talk" where
  "abs_talk s a b =
     (case s_State s of
        Offering \<Rightarrow> Proposal (if s_offerBy s = ''initiator'' then a else b)
      | Answered \<Rightarrow> Agreed
      | _ \<Rightarrow> Idle)"

definition abs_session :: "session \<Rightarrow> call" where
  "abs_session s =
     (case s_members s of
        [a, b] \<Rightarrow> Paired (s_TenantID s) (m_ConnID a) (m_ConnID b) (abs_talk s (m_ConnID a) (m_ConnID b))
      | ms \<Rightarrow> Waiting (s_TenantID s) (m_ConnID (hd ms)))"

definition abs_calls :: "manager \<Rightarrow> string \<rightharpoonup> call" where
  "abs_calls m = (\<lambda>sid. map_option abs_session (reg_get (g_reg m) sid))"

lemma parties_abs: "session_ok s \<Longrightarrow> parties (abs_session s) = conns_of s"
  by (erule session_ok_cases) (auto simp: abs_session_def conns_of_def)

lemma abs_free:
  assumes "mgr_inv m" and "session_for_conn (g_reg m) c = None"
  shows "\<forall>x \<in> ran (abs_calls m). c \<notin> parties x"
proof (intro ballI notI)
  fix x assume "x \<in> ran (abs_calls m)" and c: "c \<in> parties x"
  then obtain sid s where get: "reg_get (g_reg m) sid = Some s" and x: "x = abs_session s"
    by (auto simp: abs_calls_def ran_def)
  note r = mgr_invD(1) [OF assms(1)]
  have "c \<in> conns_of s" using c x parties_abs [OF reg_invD(2) [OF r get]] by simp
  then have "session_for_conn (g_reg m) c = Some sid" using reg_invD(3) [OF r get] by blast
  with assms(2) show False by simp
qed

lemma abs_store:
  "s_ID s' = sid \<Longrightarrow> abs_calls (m\<lparr>g_reg := reg_store r s'\<rparr>) = (abs_calls (m\<lparr>g_reg := r\<rparr>))(sid \<mapsto> abs_session s')"
  by (auto simp: abs_calls_def reg_store_simps)

lemma abs_remove:
  assumes "reg_get (g_reg m) sid = Some s"
  shows "abs_calls (m\<lparr>g_reg := reg_remove (g_reg m) sid\<rparr>) = (abs_calls m)(sid := None)"
  by (auto simp: abs_calls_def reg_remove_simps [OF assms])

definition refines :: "manager \<Rightarrow> ('r \<Rightarrow> act) \<Rightarrow> (session_error + 'r) \<times> manager \<Rightarrow> bool" where
  "refines m label out \<longleftrightarrow>
     (case fst out of Inl _ \<Rightarrow> snd out = m | Inr r \<Rightarrow> proto_step (abs_calls m) (label r) (abs_calls (snd out)))"

lemma refines_start:
  assumes inv: "mgr_inv m" and fresh: "\<And>sid. gen = Inr sid \<Longrightarrow> reg_get (g_reg m) sid = None"
  shows "refines m (\<lambda>(sid, evs). Open sid c) (mgr_start m t c gen now)"
proof (cases "fst (mgr_start m t c gen now)")
  case (Inl e)
  then show ?thesis by (auto simp: refines_def mgr_start_def Let_def split: sum.splits if_splits)
next
  case (Inr r)
  then obtain sid where gen: "gen = Inr sid" and free: "session_for_conn (g_reg m) c = None"
    and r: "fst r = sid" and out: "snd (mgr_start m t c gen now)
      = m\<lparr>g_reg := reg_insert (g_reg m) (new_session sid t c ''initiator'' now)\<rparr>"
    by (auto simp: mgr_start_def Let_def split: sum.splits if_splits)
  have "abs_calls (m\<lparr>g_reg := reg_insert (g_reg m) (new_session sid t c ''initiator'' now)\<rparr>)
      = (abs_calls m)(sid \<mapsto> Waiting t c)"
    by (rule ext) (simp add: abs_calls_def reg_insert_simps new_session_def abs_session_def)
  moreover have "proto_step (abs_calls m) (Open sid c) ((abs_calls m)(sid \<mapsto> Waiting t c))"
    using fresh [OF gen] by (intro proto_step.intros(1) abs_free [OF inv free]) (simp add: abs_calls_def)
  ultimately show ?thesis using Inr r out by (simp add: refines_def case_prod_unfold)
qed

lemma refines_join:
  assumes inv: "mgr_inv m"
  shows "refines m (\<lambda>evs. Accept sid t c) (mgr_join m t sid c now)"
proof (cases "fst (mgr_join m t sid c now)")
  case (Inl e)
  then show ?thesis by (auto simp: refines_def mgr_join_def Let_def split: option.splits if_splits)
next
  case (Inr evs)
  then obtain s where free: "session_for_conn (g_reg m) c = None" and get: "reg_get (g_reg m) sid = Some s"
    and t: "s_TenantID s = t" and mc: "member_count s < 2"
    by (auto simp: mgr_join_def Let_def split: option.splits if_splits)
  have sid: "s_ID s = sid" and ok: "session_ok s" using reg_invD(1,2) [OF mgr_invD(1) [OF inv] get] .
  obtain i where i: "s_members s = [i]" "s_State s = Pending" using ok mc by (auto elim!: session_ok_cases simp: member_count_def)
  define s' where "s' = touch_change (s\<lparr>s_members := s_members s @ [\<lparr>m_ConnID = c, m_Role = ''responder''\<rparr>]\<rparr>) now"
  have "abs_calls (m\<lparr>g_reg := bind_conn (g_reg m) c sid\<rparr>) = abs_calls m"
    by (simp add: abs_calls_def bind_conn_def reg_get_def)
  moreover have "s_ID s' = sid" "abs_session s' = Paired t (m_ConnID i) c Idle"
    using i t sid by (simp_all add: s'_def abs_session_def abs_talk_def touch_change_def)
  moreover have "snd (mgr_join m t sid c now) = m\<lparr>g_reg := reg_store (bind_conn (g_reg m) c sid) s'\<rparr>"
    using free get t mc sid by (simp add: mgr_join_def Let_def s'_def)
  moreover have "abs_calls m sid = Some (Waiting t (m_ConnID i))"
    using get i t by (simp add: abs_calls_def abs_session_def)
  ultimately show ?thesis
    using Inr proto_step.intros(2) [OF _ abs_free [OF inv free]] by (simp add: refines_def abs_store)
qed

lemma abs_two:
  assumes "mgr_inv m" and "lookup_member m t sid c = Inr s" and "\<not> member_count s < 2"
  obtains a b where "abs_calls m sid = Some (Paired t a b (abs_talk s a b))" "c \<in> {a, b}" "a \<noteq> b"
    "m_Role (or_zero (member_by_conn s c)) = (if c = a then ''initiator'' else ''responder'')"
    "\<forall>u. s_members u = s_members s \<longrightarrow> s_TenantID u = s_TenantID s \<longrightarrow> abs_session u = Paired t a b (abs_talk u a b)"
proof -
  from assms(2) have get: "reg_get (g_reg m) sid = Some s" and t: "s_TenantID s = t" and c: "c \<in> conns_of s"
    by (auto simp: lookup_member_Inr)
  have "session_ok s" using reg_invD(2) [OF mgr_invD(1) [OF assms(1)] get] .
  then show ?thesis
  proof (cases rule: session_ok_cases)
    case (one i)
    with assms(3) show ?thesis by (simp add: member_count_def)
  next
    case (two i r)
    then show ?thesis
      using get t c by (intro that [of "m_ConnID i" "m_ConnID r"])
        (auto simp: abs_calls_def abs_session_def conns_of_def member_by_conn_def)
  qed
qed

lemma refines_offer:
  assumes inv: "mgr_inv m"
  shows "refines m (\<lambda>evs. Propose sid c) (mgr_offer m t sid c sdp now)"
proof (cases "fst (mgr_offer m t sid c sdp now)")
  case (Inl e)
  then show ?thesis by (auto simp: refines_def mgr_offer_def Let_def split: sum.splits if_splits)
next
  case (Inr evs)
  obtain s where l: "lookup_member m t sid c = Inr s" and two: "\<not> member_count s < 2" and st: "s_State s \<noteq> Offering"
    and out: "snd (mgr_offer m t sid c sdp now) = m\<lparr>g_reg := reg_store (g_reg m)
       (touch_change (s\<lparr>s_State := Offering, s_offerBy := m_Role (or_zero (member_by_conn s c))\<rparr>) now)\<rparr>"
    using mgr_offer_Inr [OF Inr] by metis
  define s' where "s' = touch_change (s\<lparr>s_State := Offering, s_offerBy := m_Role (or_zero (member_by_conn s c))\<rparr>) now"
  obtain a b where ab: "abs_calls m sid = Some (Paired t a b (abs_talk s a b))" "c \<in> {a, b}" "a \<noteq> b"
    and role: "m_Role (or_zero (member_by_conn s c)) = (if c = a then ''initiator'' else ''responder'')"
    and abs: "\<forall>u. s_members u = s_members s \<longrightarrow> s_TenantID u = s_TenantID s \<longrightarrow> abs_session u = Paired t a b (abs_talk u a b)"
    by (rule abs_two [OF inv l two])
  have s'_abs: "abs_session s' = Paired t a b (abs_talk s' a b)"
    using abs by (simp add: s'_def)
  have "s_ID s' = sid" using lookup_member_sid [OF inv l] by (simp add: s'_def)
  moreover have "abs_talk s a b \<in> {Idle, Agreed}" "abs_talk s' a b = Proposal c"
    using st ab role by (auto simp: abs_talk_def s'_def split: session_state.split)
  ultimately show ?thesis
    using Inr proto_step.intros(3) [of "abs_calls m" sid t a b "abs_talk s a b" c] ab s'_abs by (simp add: refines_def out abs_store s'_def)
qed

lemma refines_answer:
  assumes inv: "mgr_inv m"
  shows "refines m (\<lambda>evs. Agree sid c) (mgr_answer m t sid c sdp now)"
proof (cases "fst (mgr_answer m t sid c sdp now)")
  case (Inl e)
  then show ?thesis by (auto simp: refines_def mgr_answer_def Let_def split: sum.splits if_splits)
next
  case (Inr evs)
  then obtain s where l: "lookup_member m t sid c = Inr s" and st: "s_State s = Offering"
    and notme: "m_Role (or_zero (member_by_conn s c)) \<noteq> s_offerBy s"
    and out: "snd (mgr_answer m t sid c sdp now)
      = m\<lparr>g_reg := reg_store (g_reg m) (touch_change (s\<lparr>s_State := Answered, s_offerBy := ''''\<rparr>) now)\<rparr>"
    by (auto simp: mgr_answer_def Let_def split: sum.splits if_splits)
  have two: "\<not> member_count s < 2" by (rule offering_two [OF inv l st])
  define s' where "s' = touch_change (s\<lparr>s_State := Answered, s_offerBy := ''''\<rparr>) now"
  obtain a b where ab: "abs_calls m sid = Some (Paired t a b (abs_talk s a b))" "c \<in> {a, b}" "a \<noteq> b"
    and role: "m_Role (or_zero (member_by_conn s c)) = (if c = a then ''initiator'' else ''responder'')"
    and abs: "\<forall>u. s_members u = s_members s \<longrightarrow> s_TenantID u = s_TenantID s \<longrightarrow> abs_session u = Paired t a b (abs_talk u a b)"
    by (rule abs_two [OF inv l two])
  have "session_ok s" using reg_invD(2) [OF mgr_invD(1) [OF inv]] l by (auto simp: lookup_member_Inr)
  then have "s_offerBy s \<in> {''initiator'', ''responder''}"
    using st two by (cases rule: session_ok_cases) (simp_all add: member_count_def)
  then have "abs_talk s a b = Proposal (if c = a then b else a)"
    using st notme ab role by (auto simp: abs_talk_def)
  moreover have "abs_session s' = Paired t a b Agreed"
    using abs by (simp add: s'_def abs_talk_def)
  moreover have "s_ID s' = sid" using lookup_member_sid [OF inv l] by (simp add: s'_def)
  ultimately show ?thesis
    using Inr ab proto_step.intros(4) [of "abs_calls m" sid t a b "if c = a then b else a" c]
    by (auto simp: refines_def out abs_store s'_def)
qed

lemma refines_end:
  assumes inv: "mgr_inv m"
  shows "refines m (\<lambda>evs. Close sid) (mgr_end m t sid c reason now)"
proof (cases "lookup_member m t sid c")
  case (Inl e)
  then show ?thesis by (simp add: refines_def mgr_end_def)
next
  case (Inr s)
  then have get: "reg_get (g_reg m) sid = Some s" by (simp add: lookup_member_Inr)
  then have "abs_calls m sid = Some (abs_session s)" by (simp add: abs_calls_def)
  then show ?thesis
    using Inr lookup_member_sid [OF inv Inr] abs_remove [OF get] proto_step.intros(5)
    by (simp add: refines_def mgr_end_def case_prod_unfold Let_def snd_end_locked)
qed

lemma proto_run_dropped:
  assumes inv: "mgr_inv m"
  shows "proto_run (abs_calls m) (case session_for_conn (g_reg m) c of None \<Rightarrow> [] | Some sid \<Rightarrow> [Close sid])
    (abs_calls (snd (conn_dropped m c now)))"
proof (cases "session_for_conn (g_reg m) c")
  case None
  then show ?thesis by (simp add: conn_dropped_def)
next
  case (Some sid)
  then obtain s where get: "reg_get (g_reg m) sid = Some s"
    using reg_invD(4) [OF mgr_invD(1) [OF inv]] by blast
  have "snd (conn_dropped m c now) = m\<lparr>g_reg := reg_remove (g_reg m) sid\<rparr>"
    using reg_invD(1) [OF mgr_invD(1) [OF inv] get]
    by (simp add: conn_dropped_def Some get case_prod_unfold Let_def snd_end_locked)
  then show ?thesis
    using Some get proto_step.intros(5) [of "abs_calls m" sid "abs_session s"]
    by (simp add: abs_remove [OF get]) (simp add: abs_calls_def)
qed

lemma proto_run_end_all:
  assumes "distinct (map s_ID ss)" and "\<forall>s \<in> set ss. reg_get (g_reg m) (s_ID s) = Some s"
  shows "proto_run (abs_calls m) (map (\<lambda>s. Close (s_ID s)) ss) (abs_calls (snd (end_all m ss now)))"
  using assms
proof (induction ss arbitrary: m)
  case Nil
  then show ?case by simp
next
  case (Cons s ss)
  let ?m1 = "m\<lparr>g_reg := reg_remove (g_reg m) (s_ID s)\<rparr>"
  have get: "reg_get (g_reg m) (s_ID s) = Some s" using Cons.prems(2) by (meson list.set_intros(1))
  have "reg_get (g_reg ?m1) (s_ID s') = Some s'" if "s' \<in> set ss" for s'
  proof -
    have "s_ID s' \<noteq> s_ID s" using Cons.prems(1) that by (metis distinct.simps(2) image_eqI list.simps(9) list.set_map)
    moreover have "reg_get (g_reg m) (s_ID s') = Some s'" using Cons.prems(2) that by (meson list.set_intros(2))
    ultimately show ?thesis by (simp add: reg_remove_simps(1) [OF get])
  qed
  moreover have "distinct (map s_ID ss)" using Cons.prems(1) by simp
  ultimately have "proto_run (abs_calls ?m1) (map (\<lambda>s. Close (s_ID s)) ss) (abs_calls (snd (end_all ?m1 ss now)))"
    by (blast intro: Cons.IH)
  moreover have "proto_step (abs_calls m) (Close (s_ID s)) (abs_calls ?m1)"
    unfolding abs_remove [OF get] by (rule proto_step.intros(5) [of _ _ "abs_session s"]) (simp add: abs_calls_def get)
  ultimately have "proto_run (abs_calls m) (map (\<lambda>s. Close (s_ID s)) (s # ss)) (abs_calls (snd (end_all ?m1 ss now)))"
    by (simp only: list.map proto_run.simps) blast
  then show ?case by (simp only: end_all.simps Let_def case_prod_unfold snd_conv snd_end_locked)
qed

lemma proto_run_reap:
  assumes inv: "mgr_inv m" and ord: "range_order ord (r_byID (g_reg m))"
  shows "proto_run (abs_calls m) (map (\<lambda>s. Close (s_ID s)) (expired_sessions m ord now))
    (abs_calls (snd (mgr_reap m ord now)))"
  unfolding mgr_reap_def
proof (rule proto_run_end_all [OF expired_distinct [OF inv ord]])
  show "\<forall>s \<in> set (expired_sessions m ord now). reg_get (g_reg m) (s_ID s) = Some s"
    using reg_invD(1) [OF mgr_invD(1) [OF inv]] by (auto simp: expired_set [OF ord])
qed

text \<open>
  C3. The manager implements the abstract two-party protocol. On every reachable manager each
  accepted start, join, offer, answer and end is the corresponding protocol step of the calling
  connection (in particular an answer agrees to a proposal of the other party), each refused one
  leaves the whole manager as it was, and a dropped connection and a reap are runs of \<open>Close\<close> steps.
\<close>

theorem manager_refines_protocol:
  assumes "mgr_initial m0" and "mgr_step\<^sup>*\<^sup>* m0 m"
    and "\<And>sid. gen = Inr sid \<Longrightarrow> reg_get (g_reg m) sid = None"
    and "range_order ord (r_byID (g_reg m))"
  shows "refines m (\<lambda>(sid, evs). Open sid c) (mgr_start m t c gen now)
    \<and> refines m (\<lambda>evs. Accept sid t c) (mgr_join m t sid c now)
    \<and> refines m (\<lambda>evs. Propose sid c) (mgr_offer m t sid c sdp now)
    \<and> refines m (\<lambda>evs. Agree sid c) (mgr_answer m t sid c sdp now)
    \<and> refines m (\<lambda>evs. Close sid) (mgr_end m t sid c reason now)
    \<and> proto_run (abs_calls m) (case session_for_conn (g_reg m) c of None \<Rightarrow> [] | Some sid \<Rightarrow> [Close sid])
        (abs_calls (snd (conn_dropped m c now)))
    \<and> proto_run (abs_calls m) (map (\<lambda>s. Close (s_ID s)) (expired_sessions m ord now))
        (abs_calls (snd (mgr_reap m ord now)))"
proof -
  have inv: "mgr_inv m" by (rule ledger.reachable_inv [OF assms(1,2)])
  show ?thesis
    by (intro conjI refines_start refines_join refines_offer refines_answer refines_end proto_run_dropped
        proto_run_reap inv assms(3,4))
qed

theorem manager_refines_protocol_witness:
  "refines demo_start (\<lambda>evs. Accept ''s1'' ''T'' ''c2'') (mgr_join demo_start ''T'' ''s1'' ''c2'' 7)
   \<and> is_ok (fst (mgr_join demo_start ''T'' ''s1'' ''c2'' 7))"
proof -
  have fresh: "\<And>sid. (Inl ''rng'' :: string + string) = Inr sid \<Longrightarrow> reg_get (g_reg demo_start) sid = None" by simp
  have "range_order [''s1''] (r_byID (g_reg demo_start))" by (simp add: range_order_def demo_start_eval)
  from manager_refines_protocol [OF demo_reach(1,2) fresh this]
  have "refines demo_start (\<lambda>evs. Accept ''s1'' ''T'' ''c2'') (mgr_join demo_start ''T'' ''s1'' ''c2'' 7)" by blast
  then show ?thesis by (simp add: demo_start_eval mgr_defs)
qed

section \<open>One session per connection, a bounded number per tenant\<close>

text \<open>
  C13. The ledger invariant holds in every reachable manager, spelled out: a connection is seated in
  at most one session, the connection index names exactly that session, and a tenant never has more
  sessions than its cap.
\<close>

theorem ledger_well_formed:
  assumes "mgr_initial m0" and "mgr_step\<^sup>*\<^sup>* m0 m"
  shows "mgr_inv m
    \<and> (\<forall>c sid1 s1 sid2 s2. reg_get (g_reg m) sid1 = Some s1 \<longrightarrow> c \<in> conns_of s1 \<longrightarrow>
         reg_get (g_reg m) sid2 = Some s2 \<longrightarrow> c \<in> conns_of s2 \<longrightarrow> sid1 = sid2)
    \<and> (\<forall>c sid. mgr_session_for_conn m c = Some sid \<longleftrightarrow> (\<exists>s. reg_get (g_reg m) sid = Some s \<and> c \<in> conns_of s))
    \<and> (\<forall>t. int (card {sid. \<exists>s. reg_get (g_reg m) sid = Some s \<and> s_TenantID s = t}) \<le> max 0 (g_maxPerTenant m))"
proof -
  have inv: "mgr_inv m" by (rule ledger.reachable_inv [OF assms])
  note r = mgr_invD(1) [OF inv]
  have "{sid. \<exists>s. reg_get (g_reg m) sid = Some s \<and> s_TenantID s = t} = fset (tenant_set (g_reg m) t)" for t
    by (auto simp: reg_invD(5) [OF r])
  then have cap: "int (card {sid. \<exists>s. reg_get (g_reg m) sid = Some s \<and> s_TenantID s = t}) \<le> max 0 (g_maxPerTenant m)" for t
    using mgr_invD(2) [OF inv, of t] by (simp add: count_for_tenant_def fcard.rep_eq)
  have idx: "session_for_conn (g_reg m) c = Some sid \<longleftrightarrow> (\<exists>s. reg_get (g_reg m) sid = Some s \<and> c \<in> conns_of s)" for c sid
    using reg_invD(3) [OF r, of sid _ c] reg_invD(4) [OF r, of c sid] by blast
  have "sid1 = sid2" if "reg_get (g_reg m) sid1 = Some s1" "c \<in> conns_of s1"
      "reg_get (g_reg m) sid2 = Some s2" "c \<in> conns_of s2" for c sid1 s1 sid2 s2
    using reg_invD(3) [OF r that(1,2)] reg_invD(3) [OF r that(3,4)] by simp
  with inv idx cap show ?thesis by (auto simp: mgr_session_for_conn_def)
qed

theorem ledger_well_formed_witness:
  "mgr_session_for_conn demo_call ''c2'' = Some ''s1'' \<and> mgr_inv demo_call"
  using ledger_well_formed [OF demo_reach(1,3)]
  by (simp add: mgr_session_for_conn_def demo_call_eval session_for_conn_def)

end
