(* ===== verification/Gw_Backpressure.thy ===== *)
theory Gw_Backpressure
  imports Gw_Prelude "HOL-Library.Word" "HOL-Library.Sublist"
begin

text \<open>
  The bounded outgoing queue of a connection (\<open>internal/backpressure\<close>). A Go channel with a buffer
  is the list of buffered values with its capacity; a \<open>select\<close> with a \<open>default\<close> branch is the
  non-blocking send. The two counters are \<open>atomic.Int64\<close>, 64-bit words that wrap around.

  \<open>bounded_queue\<close> is the contract that publishers and the writer rely on; the gateway's \<open>Queue\<close>
  is interpreted below and the plain channel of \<open>signal-go\<close> in \<open>Sg_Hub\<close>.
\<close>

section \<open>Contract of a bounded drop-newest queue\<close>

locale bounded_queue =
  fixes wf :: "'q \<Rightarrow> bool"
    and contents :: "'q \<Rightarrow> 'a list"
    and bound :: "'q \<Rightarrow> nat"
    and offer :: "'q \<Rightarrow> 'a \<Rightarrow> bool \<times> 'q"
    and recv :: "'q \<Rightarrow> ('a \<times> 'q) option"
  assumes wf_bound: "wf q \<Longrightarrow> length (contents q) \<le> bound q"
    and offer_room: "wf q \<Longrightarrow> length (contents q) < bound q \<Longrightarrow>
       fst (offer q x) \<and> contents (snd (offer q x)) = contents q @ [x]"
    and offer_full: "wf q \<Longrightarrow> \<not> length (contents q) < bound q \<Longrightarrow>
       \<not> fst (offer q x) \<and> contents (snd (offer q x)) = contents q"
    and offer_wf: "wf q \<Longrightarrow> wf (snd (offer q x)) \<and> bound (snd (offer q x)) = bound q"
    and recv_None: "wf q \<Longrightarrow> recv q = None \<longleftrightarrow> contents q = []"
    and recv_Some: "wf q \<Longrightarrow> recv q = Some (x, q') \<Longrightarrow> contents q = x # contents q' \<and> wf q' \<and> bound q' = bound q"
begin

lemma offer_iff: "wf q \<Longrightarrow> fst (offer q x) \<longleftrightarrow> length (contents q) < bound q"
  using offer_room offer_full by blast

lemma offer_contents:
  "wf q \<Longrightarrow> contents (snd (offer q x)) = contents q @ (if fst (offer q x) then [x] else [])"
  using offer_room offer_full by (cases "length (contents q) < bound q") auto

text \<open>A run of the queue: \<open>Some x\<close> offers \<open>x\<close>, \<open>None\<close> is one non-blocking receive of the writer.\<close>

primrec run :: "'q \<Rightarrow> 'a option list \<Rightarrow> 'a list \<times> 'a list \<times> 'q" where
  "run q [] = ([], [], q)"
| "run q (op # ops) =
     (case op of
        Some x \<Rightarrow>
          let (ok, q1) = offer q x; (acc, out, q2) = run q1 ops
          in (if ok then x # acc else acc, out, q2)
      | None \<Rightarrow>
          (case recv q of
             None \<Rightarrow> run q ops
           | Some (x, q1) \<Rightarrow> let (acc, out, q2) = run q1 ops in (acc, x # out, q2)))"

lemma run_fifo:
  assumes "wf q" and "run q ops = (acc, out, q')"
  shows "wf q' \<and> bound q' = bound q \<and> contents q @ acc = out @ contents q'
    \<and> subseq acc (List.map_filter (\<lambda>x. x) ops)"
  using assms
proof (induction ops arbitrary: q acc out)
  case Nil
  then show ?case by (simp add: List.map_filter_simps)
next
  case (Cons op ops)
  show ?case
  proof (cases op)
    case (Some x)
    obtain acc1 where r: "run (snd (offer q x)) ops = (acc1, out, q')"
      and acc: "acc = (if fst (offer q x) then x # acc1 else acc1)"
      using Cons.prems(2) Some by (cases "run (snd (offer q x)) ops") (auto simp: case_prod_unfold Let_def)
    have "wf (snd (offer q x))" "bound (snd (offer q x)) = bound q" using offer_wf [OF Cons.prems(1)] by auto
    with Cons.IH [OF _ r] offer_contents [OF Cons.prems(1), of x] acc Some show ?thesis
      by (auto simp: List.map_filter_simps)
  next
    case None
    show ?thesis
    proof (cases "recv q")
      case None
      with \<open>op = None\<close> Cons show ?thesis by (simp add: List.map_filter_simps)
    next
      case (Some p)
      obtain x q1 where p: "p = (x, q1)" by force
      note rs = recv_Some [OF Cons.prems(1) Some [unfolded p]]
      obtain out1 where "run q1 ops = (acc, out1, q')" and "out = x # out1"
        using Cons.prems(2) \<open>op = None\<close> Some p by (cases "run q1 ops") (auto simp: case_prod_unfold Let_def)
      with Cons.IH [of q1 acc out1] rs \<open>op = None\<close> show ?thesis by (simp add: List.map_filter_simps)
    qed
  qed
qed

lemma run_bounded: "wf q \<Longrightarrow> run q ops = (acc, out, q') \<Longrightarrow> length (contents q') \<le> bound q"
  using run_fifo [of q ops acc out q'] wf_bound [of q'] by simp

lemma offers_accept:
  assumes "wf q"
  shows "fst (run q (map Some xs)) = take (bound q - length (contents q)) xs"
  using assms
proof (induction xs arbitrary: q)
  case Nil
  then show ?case by simp
next
  case (Cons x xs)
  note w = offer_wf [OF Cons.prems, of x]
  have IH: "fst (run (snd (offer q x)) (map Some xs)) = take (bound q - length (contents (snd (offer q x)))) xs"
    using Cons.IH w by simp
  show ?case
  proof (cases "length (contents q) < bound q")
    case True
    with offer_room [OF Cons.prems True, of x] IH show ?thesis
      by (simp add: case_prod_unfold Let_def take_Cons' Suc_diff_Suc)
  next
    case False
    with offer_full [OF Cons.prems False, of x] IH show ?thesis
      by (simp add: case_prod_unfold Let_def)
  qed
qed

end

section \<open>The gateway's queue\<close>

datatype bp_policy = DropNewest

definition bp_policy_string :: "bp_policy \<Rightarrow> string" where
  "bp_policy_string p = (case p of DropNewest \<Rightarrow> ''drop-newest'')"

datatype bp_error = ErrQueueFull

record 'a queue =
  q_ch :: "'a list"
  q_cap :: nat
  q_policy :: bp_policy
  q_enqueued :: "64 word"
  q_dropped :: "64 word"

definition queue_new :: "int \<Rightarrow> bp_policy \<Rightarrow> 'a queue" where
  "queue_new capacity policy =
     (let capacity' = (if capacity < 1 then 1 else capacity)
      in \<lparr>q_ch = [], q_cap = nat capacity', q_policy = policy, q_enqueued = 0, q_dropped = 0\<rparr>)"

definition try_enqueue :: "'a queue \<Rightarrow> 'a \<Rightarrow> (bool \<times> bp_error option) \<times> 'a queue" where
  "try_enqueue q v =
     (if length (q_ch q) < q_cap q
      then ((True, None), q\<lparr>q_ch := q_ch q @ [v], q_enqueued := q_enqueued q + 1\<rparr>)
      else ((False, Some ErrQueueFull), q\<lparr>q_dropped := q_dropped q + 1\<rparr>))"

definition enqueue :: "'a queue \<Rightarrow> 'a \<Rightarrow> bool \<times> 'a queue" where
  "enqueue q v = (let (r, q') = try_enqueue q v in (fst r, q'))"

text \<open>A receive from \<open>q.C()\<close>; \<open>None\<close> when it would block.\<close>

definition queue_recv :: "'a queue \<Rightarrow> ('a \<times> 'a queue) option" where
  "queue_recv q = (case q_ch q of [] \<Rightarrow> None | v # vs \<Rightarrow> Some (v, q\<lparr>q_ch := vs\<rparr>))"

definition queue_len :: "'a queue \<Rightarrow> nat" where "queue_len q = length (q_ch q)"
definition queue_capacity :: "'a queue \<Rightarrow> nat" where "queue_capacity q = q_cap q"
definition queue_policy :: "'a queue \<Rightarrow> bp_policy" where "queue_policy q = q_policy q"
definition enqueued_total :: "'a queue \<Rightarrow> int" where "enqueued_total q = sint (q_enqueued q)"
definition dropped_total :: "'a queue \<Rightarrow> int" where "dropped_total q = sint (q_dropped q)"

definition queue_wf :: "'a queue \<Rightarrow> bool" where
  "queue_wf q \<longleftrightarrow> 1 \<le> q_cap q \<and> length (q_ch q) \<le> q_cap q"

lemma queue_new_simps [simp]:
  "q_ch (queue_new capacity policy) = []" "q_cap (queue_new capacity policy) = nat (max 1 capacity)"
  "q_enqueued (queue_new capacity policy) = 0" "q_dropped (queue_new capacity policy) = 0"
  by (auto simp: queue_new_def Let_def)

lemma queue_wf_new [simp]: "queue_wf (queue_new capacity policy)"
  by (auto simp: queue_wf_def queue_new_def Let_def)

interpretation gq: bounded_queue queue_wf q_ch q_cap enqueue queue_recv
  by unfold_locales
    (auto simp: queue_wf_def enqueue_def try_enqueue_def queue_recv_def Let_def split: list.splits if_splits)

lemma enqueue_counts:
  "q_enqueued (snd (enqueue q v)) + q_dropped (snd (enqueue q v)) = q_enqueued q + q_dropped q + 1"
  by (simp add: enqueue_def try_enqueue_def Let_def)

lemma run_counts:
  "gq.run q ops = (acc, out, q') \<Longrightarrow>
   q_enqueued q' = q_enqueued q + of_nat (length acc)
   \<and> q_dropped q' = q_dropped q + of_nat (length (List.map_filter (\<lambda>x. x) ops) - length acc)
   \<and> length acc \<le> length (List.map_filter (\<lambda>x. x) ops)"
proof (induction ops arbitrary: q acc out)
  case Nil
  then show ?case by (simp add: List.map_filter_simps)
next
  case (Cons op ops)
  show ?case
  proof (cases op)
    case (Some v)
    obtain acc1 where r: "gq.run (snd (enqueue q v)) ops = (acc1, out, q')"
      and acc: "acc = (if fst (enqueue q v) then v # acc1 else acc1)"
      using Cons.prems Some by (cases "gq.run (snd (enqueue q v)) ops") (auto simp: case_prod_unfold Let_def)
    from Cons.IH [OF r] acc Some show ?thesis
      by (auto simp: List.map_filter_simps enqueue_def try_enqueue_def Let_def Suc_diff_le split: if_splits)
  next
    case None
    show ?thesis
    proof (cases "q_ch q")
      case Nil
      then have "queue_recv q = None" by (simp add: queue_recv_def)
      with None Cons show ?thesis by (simp add: List.map_filter_simps)
    next
      case vs: (Cons v vs)
      let ?q1 = "q\<lparr>q_ch := vs\<rparr>"
      have "queue_recv q = Some (v, ?q1)" using vs by (simp add: queue_recv_def)
      then obtain out1 where "gq.run ?q1 ops = (acc, out1, q')"
        using None Cons.prems by (cases "gq.run ?q1 ops") (auto simp: Let_def)
      from Cons.IH [OF this] None show ?thesis by (simp add: List.map_filter_simps)
    qed
  qed
qed

text \<open>
  C23. The outgoing queue is a bounded lossy FIFO that loses a frame only when it is full. Over any
  interleaving of offers and receives on a new queue of any requested capacity: what the writer has
  taken followed by what is still buffered is exactly the sequence of accepted frames, which is the
  offered sequence with some frames left out and never reordered; the next offer is accepted, and
  put last, exactly when fewer frames are waiting (accepted and not yet taken) than the capacity (at
  least 1), and is otherwise refused with \<open>ErrQueueFull\<close> and leaves the buffer alone; the next
  receive yields the oldest waiting frame, and nothing exactly when none is waiting; and the two
  counters count the accepted and the refused offers, modulo \<open>2 ^ 64\<close>.
\<close>

theorem queue_lossy_fifo:
  assumes "gq.run (queue_new capacity DropNewest) ops = (acc, out, q')"
  shows "acc = out @ q_ch q'
    \<and> subseq acc (List.map_filter (\<lambda>x. x) ops)
    \<and> queue_len q' \<le> queue_capacity q' \<and> queue_capacity q' = nat (max 1 capacity)
    \<and> try_enqueue q' x = (if length acc - length out < nat (max 1 capacity)
       then ((True, None), q'\<lparr>q_ch := q_ch q' @ [x], q_enqueued := q_enqueued q' + 1\<rparr>)
       else ((False, Some ErrQueueFull), q'\<lparr>q_dropped := q_dropped q' + 1\<rparr>))
    \<and> queue_recv q' = (if length out < length acc then Some (acc ! length out, q'\<lparr>q_ch := drop (Suc (length out)) acc\<rparr>) else None)
    \<and> q_enqueued q' = of_nat (length acc)
    \<and> q_dropped q' = of_nat (length (List.map_filter (\<lambda>x. x) ops) - length acc)"
proof -
  note fifo = gq.run_fifo [OF queue_wf_new assms] and counts = run_counts [OF assms]
  have acc: "acc = out @ q_ch q'" and cap: "q_cap q' = nat (max 1 capacity)" using fifo by simp_all
  have "queue_recv q' = (if length out < length acc then Some (acc ! length out, q'\<lparr>q_ch := drop (Suc (length out)) acc\<rparr>) else None)"
    by (cases "q_ch q'") (simp_all add: acc queue_recv_def)
  moreover have "try_enqueue q' x = (if length acc - length out < nat (max 1 capacity)
       then ((True, None), q'\<lparr>q_ch := q_ch q' @ [x], q_enqueued := q_enqueued q' + 1\<rparr>)
       else ((False, Some ErrQueueFull), q'\<lparr>q_dropped := q_dropped q' + 1\<rparr>))"
    by (simp add: acc cap try_enqueue_def)
  moreover have "queue_len q' \<le> queue_capacity q'" "queue_capacity q' = nat (max 1 capacity)"
    using fifo gq.wf_bound [of q'] by (simp_all add: queue_len_def queue_capacity_def)
  moreover have "q_enqueued q' = of_nat (length acc)" "q_dropped q' = of_nat (length (List.map_filter (\<lambda>x. x) ops) - length acc)"
    using counts by simp_all
  ultimately show ?thesis using acc fifo by blast
qed

theorem queue_lossy_fifo_witness:
  "\<exists>q'. gq.run (queue_new 2 DropNewest) [Some CHR ''a'', Some CHR ''b'', Some CHR ''c'', None] = (''ab'', ''a'', q')
    \<and> queue_len q' = 1 \<and> queue_recv q' = Some (CHR ''b'', q'\<lparr>q_ch := ''''\<rparr>)
    \<and> fst (try_enqueue q' CHR ''d'') = (True, None) \<and> q_dropped q' = 1"
proof -
  have run: "gq.run (queue_new 2 DropNewest) [Some CHR ''a'', Some CHR ''b'', Some CHR ''c'', None]
      = (''ab'', ''a'', \<lparr>q_ch = ''b'', q_cap = 2, q_policy = DropNewest, q_enqueued = 2, q_dropped = 1\<rparr>)"
    by (simp add: queue_new_def enqueue_def try_enqueue_def queue_recv_def)
  show ?thesis
    by (rule exI, rule conjI [OF run]) (use queue_lossy_fifo [OF run, of "CHR ''d''"] in \<open>simp add: queue_len_def\<close>)
qed

text \<open>
  A frame is refused only when the buffer is full at that moment.
\<close>

lemma enqueue_refused_iff_full: "queue_wf q \<Longrightarrow> fst (enqueue q v) \<longleftrightarrow> queue_len q < queue_capacity q"
  by (simp add: gq.offer_iff queue_len_def queue_capacity_def)

end
