(* ===== verification/Gw_Rooms.thy ===== *)
theory Gw_Rooms
  imports Gw_Backpressure
begin

text \<open>
  What the two hubs of the program (\<open>gateway-go/internal/hub\<close> and \<open>signal-go/internal/signal\<close>)
  share: the two-way membership index (per session its rooms, per \<open>(tenant, room)\<close> its sessions),
  the loop that offers one frame to several queues, and the contract of a tenant-scoped fan-out.
\<close>

section \<open>The membership index\<close>

type_synonym room_key = "string \<times> string" \<comment> \<open>tenant id, room\<close>

type_synonym room_map = "(room_key, string fset) fmap"

text \<open>Leave one room and drop it when it is empty, as the delete loops of both hubs do.\<close>

definition leave_room :: "string \<Rightarrow> room_key \<Rightarrow> room_map \<Rightarrow> room_map" where
  "leave_room sid key rooms =
     (case fmlookup rooms key of
        None \<Rightarrow> rooms
      | Some peers \<Rightarrow>
          let peers' = peers |-| {|sid|}
          in if peers' = {||} then fmdrop key rooms else fmupd key peers' rooms)"

definition peers_of :: "room_map \<Rightarrow> room_key \<Rightarrow> string fset" where
  "peers_of rooms key = fmget {||} rooms key"

definition index_ok :: "(string \<Rightarrow> string) \<Rightarrow> (string, string fset) fmap \<Rightarrow> room_map \<Rightarrow> bool" where
  "index_ok ten sess rooms \<longleftrightarrow>
     (\<forall>sid rs room. fmlookup sess sid = Some rs \<longrightarrow> room |\<in>| rs \<longrightarrow>
        ten sid \<noteq> '''' \<and> sid |\<in>| peers_of rooms (ten sid, room))
     \<and> (\<forall>t room sid. sid |\<in>| peers_of rooms (t, room) \<longrightarrow>
        t \<noteq> '''' \<and> ten sid = t \<and> (\<exists>rs. fmlookup sess sid = Some rs \<and> room |\<in>| rs))
     \<and> (\<forall>key. fmlookup rooms key \<noteq> Some {||})"

lemma index_okI:
  assumes "\<And>sid rs room. fmlookup sess sid = Some rs \<Longrightarrow> room |\<in>| rs \<Longrightarrow>
      ten sid \<noteq> '''' \<and> sid |\<in>| peers_of rooms (ten sid, room)"
    and "\<And>t room sid. sid |\<in>| peers_of rooms (t, room) \<Longrightarrow>
      t \<noteq> '''' \<and> ten sid = t \<and> (\<exists>rs. fmlookup sess sid = Some rs \<and> room |\<in>| rs)"
    and "\<And>key. fmlookup rooms key \<noteq> Some {||}"
  shows "index_ok ten sess rooms"
  using assms unfolding index_ok_def by blast

lemma index_okD:
  assumes "index_ok ten sess rooms"
  shows "fmlookup sess sid = Some rs \<Longrightarrow> room |\<in>| rs \<Longrightarrow> ten sid \<noteq> '''' \<and> sid |\<in>| peers_of rooms (ten sid, room)"
    and "sid |\<in>| peers_of rooms (t, room) \<Longrightarrow>
      t \<noteq> '''' \<and> ten sid = t \<and> (\<exists>rs. fmlookup sess sid = Some rs \<and> room |\<in>| rs)"
    and "fmlookup rooms key \<noteq> Some {||}"
  using assms unfolding index_ok_def by blast+

lemma index_ok_empty: "index_ok ten fmempty fmempty"
  by (rule index_okI) (auto simp: peers_of_def)

lemma peers_leave:
  "peers_of (leave_room sid key rooms) k = (if k = key then peers_of rooms k |-| {|sid|} else peers_of rooms k)"
  by (auto simp: leave_room_def peers_of_def fmget_def Let_def split: option.splits)

lemma leave_room_nonempty:
  "(\<And>k. fmlookup rooms k \<noteq> Some {||}) \<Longrightarrow> fmlookup (leave_room sid key rooms) k' \<noteq> Some {||}"
  by (auto simp: leave_room_def Let_def split: option.splits)

lemma peers_leave_fold:
  "peers_of (fold (\<lambda>room. leave_room sid (t, room)) ord rooms) (t', room') =
     (if t' = t \<and> room' \<in> set ord then peers_of rooms (t', room') |-| {|sid|} else peers_of rooms (t', room'))"
  by (induction ord arbitrary: rooms) (auto simp: peers_leave)

lemma leave_fold_nonempty:
  "(\<And>k. fmlookup rooms k \<noteq> Some {||}) \<Longrightarrow>
   fmlookup (fold (\<lambda>room. leave_room sid (t, room)) ord rooms) k' \<noteq> Some {||}"
proof (induction ord arbitrary: rooms)
  case (Cons room ord)
  from Cons.IH [of "leave_room sid (t, room) rooms"] leave_room_nonempty [OF Cons.prems, of sid "(t, room)"]
  show ?case by simp
qed simp

lemma index_ok_fresh: "index_ok ten sess rooms \<Longrightarrow> fmlookup sess sid = None \<Longrightarrow> sid |\<notin>| peers_of rooms (t, room)"
  using index_okD(2) by fastforce

lemma index_ok_register:
  assumes ok: "index_ok ten sess rooms" and fresh: "fmlookup sess sid = None"
  shows "index_ok ten (fmupd sid {||} sess) rooms"
proof (rule index_okI)
  fix i rs room assume "fmlookup (fmupd sid {||} sess) i = Some rs" "room |\<in>| rs"
  then show "ten i \<noteq> '''' \<and> i |\<in>| peers_of rooms (ten i, room)"
    using index_okD(1) [OF ok, of i rs room] by (auto split: if_splits)
next
  fix t room i assume "i |\<in>| peers_of rooms (t, room)"
  then show "t \<noteq> '''' \<and> ten i = t \<and> (\<exists>rs. fmlookup (fmupd sid {||} sess) i = Some rs \<and> room |\<in>| rs)"
    using index_okD(2) [OF ok, of i t room] fresh by fastforce
qed (rule index_okD(3) [OF ok])

lemma index_ok_pin:
  assumes ok: "index_ok ten sess rooms" and "ten sid = ''''"
  shows "index_ok (ten(sid := t)) sess rooms"
proof (rule index_okI)
  fix i rs room assume "fmlookup sess i = Some rs" "room |\<in>| rs"
  then show "(ten(sid := t)) i \<noteq> '''' \<and> i |\<in>| peers_of rooms ((ten(sid := t)) i, room)"
    using index_okD(1) [OF ok, of i rs room] assms(2) by auto
next
  fix t' room i assume "i |\<in>| peers_of rooms (t', room)"
  then show "t' \<noteq> '''' \<and> (ten(sid := t)) i = t' \<and> (\<exists>rs. fmlookup sess i = Some rs \<and> room |\<in>| rs)"
    using index_okD(2) [OF ok, of i t' room] assms(2) by auto
qed (rule index_okD(3) [OF ok])

lemma index_ok_join:
  assumes ok: "index_ok ten sess rooms" and sess: "fmlookup sess sid = Some rs" and ten: "ten sid \<noteq> ''''"
  shows "index_ok ten (fmupd sid (finsert room rs) sess)
    (fmupd (ten sid, room) (finsert sid (peers_of rooms (ten sid, room))) rooms)" (is "index_ok ten ?s ?r")
proof -
  have p: "peers_of ?r (t, room') = (if t = ten sid \<and> room' = room then finsert sid (peers_of rooms (t, room')) else peers_of rooms (t, room'))" for t room'
    by (auto simp: peers_of_def)
  show ?thesis
  proof (rule index_okI)
    fix i rs' room' assume i: "fmlookup ?s i = Some rs'" "room' |\<in>| rs'"
    show "ten i \<noteq> '''' \<and> i |\<in>| peers_of ?r (ten i, room')"
    proof (cases "i = sid")
      case True
      with i have "room' = room \<or> room' |\<in>| rs" by auto
      then show ?thesis using True ten index_okD(1) [OF ok sess, of room'] by (auto simp: p)
    next
      case False
      with i have "fmlookup sess i = Some rs'" by simp
      have old: "ten i \<noteq> ''''" "i |\<in>| peers_of rooms (ten i, room')"
        using index_okD(1) [OF ok \<open>fmlookup sess i = Some rs'\<close> i(2)] by blast+
      then have "i |\<in>| peers_of ?r (ten i, room')"
        by (cases "ten i = ten sid \<and> room' = room") (simp_all only: p if_True if_False finsert_iff simp_thms)
      with old(1) show ?thesis by blast
    qed
  next
    fix t room' i assume i: "i |\<in>| peers_of ?r (t, room')"
    show "t \<noteq> '''' \<and> ten i = t \<and> (\<exists>rs. fmlookup ?s i = Some rs \<and> room' |\<in>| rs)"
    proof (cases "t = ten sid \<and> room' = room \<and> i = sid")
      case True
      with ten show ?thesis by simp
    next
      case False
      with i have "i |\<in>| peers_of rooms (t, room')" by (auto simp: p split: if_splits)
      from index_okD(2) [OF ok this] sess show ?thesis by (cases "i = sid") auto
    qed
  next
    fix key show "fmlookup ?r key \<noteq> Some {||}" using index_okD(3) [OF ok] by auto
  qed
qed

lemma index_ok_leave:
  assumes ok: "index_ok ten sess rooms" and sess: "fmlookup sess sid = Some rs"
  shows "index_ok ten (fmupd sid (rs |-| {|room|}) sess) (leave_room sid (ten sid, room) rooms)"
proof (rule index_okI)
  fix i rs' room' assume i: "fmlookup (fmupd sid (rs |-| {|room|}) sess) i = Some rs'" "room' |\<in>| rs'"
  then obtain rs0 where "fmlookup sess i = Some rs0" "room' |\<in>| rs0" "i = sid \<longrightarrow> room' \<noteq> room"
    using sess by (cases "i = sid") auto
  moreover from this index_okD(1) [OF ok, of i rs0 room']
  have "ten i \<noteq> ''''" "i |\<in>| peers_of rooms (ten i, room')" by blast+
  ultimately show "ten i \<noteq> '''' \<and> i |\<in>| peers_of (leave_room sid (ten sid, room) rooms) (ten i, room')"
    by (cases "(ten i, room') = (ten sid, room)") (simp_all only: peers_leave if_True if_False, auto)
next
  fix t room' i assume i: "i |\<in>| peers_of (leave_room sid (ten sid, room) rooms) (t, room')"
  then have old: "i |\<in>| peers_of rooms (t, room')" and other: "(t, room') = (ten sid, room) \<longrightarrow> i \<noteq> sid"
    by (auto simp: peers_leave split: if_splits)
  from index_okD(2) [OF ok old] obtain rs' where "t \<noteq> ''''" "ten i = t" "fmlookup sess i = Some rs'" "room' |\<in>| rs'"
    by blast
  with other sess show "t \<noteq> '''' \<and> ten i = t \<and> (\<exists>rs'. fmlookup (fmupd sid (rs |-| {|room|}) sess) i = Some rs' \<and> room' |\<in>| rs')"
    by (cases "i = sid") auto
qed (rule leave_room_nonempty, rule index_okD(3) [OF ok])

lemma index_ok_remove:
  assumes ok: "index_ok ten sess rooms" and sess: "fmlookup sess sid = Some rs" and ord: "fset rs \<subseteq> set ord"
  shows "index_ok ten (fmdrop sid sess) (fold (\<lambda>room. leave_room sid (ten sid, room)) ord rooms)"
proof (rule index_okI)
  fix i rs' room assume "fmlookup (fmdrop sid sess) i = Some rs'" "room |\<in>| rs'"
  then show "ten i \<noteq> '''' \<and> i |\<in>| peers_of (fold (\<lambda>room. leave_room sid (ten sid, room)) ord rooms) (ten i, room)"
    using index_okD(1) [OF ok, of i rs' room] by (auto simp: peers_leave_fold split: if_splits)
next
  fix t room i assume i: "i |\<in>| peers_of (fold (\<lambda>room. leave_room sid (ten sid, room)) ord rooms) (t, room)"
  then have old: "i |\<in>| peers_of rooms (t, room)" by (auto simp: peers_leave_fold split: if_splits)
  from index_okD(2) [OF ok old] obtain rs' where
    t: "t \<noteq> ''''" "ten i = t" "fmlookup sess i = Some rs'" "room |\<in>| rs'" by blast
  then have "i \<noteq> sid" using i sess ord by (auto simp: peers_leave_fold)
  with t show "t \<noteq> '''' \<and> ten i = t \<and> (\<exists>rs. fmlookup (fmdrop sid sess) i = Some rs \<and> room |\<in>| rs)" by auto
qed (rule leave_fold_nonempty, rule index_okD(3) [OF ok])

section \<open>Fan-out\<close>

fun offer_all ::
  "('q \<Rightarrow> 'm \<Rightarrow> bool \<times> 'q) \<Rightarrow> 'm \<Rightarrow> string list \<Rightarrow> (string \<Rightarrow> 'q) \<Rightarrow> (nat \<times> nat) \<times> (string \<Rightarrow> 'q)"
where
  "offer_all offer frame [] qs = ((0, 0), qs)"
| "offer_all offer frame (sid # sids) qs =
     (let (ok, q') = offer (qs sid) frame;
          ((delivered, dropped), qs') = offer_all offer frame sids (qs(sid := q'))
      in ((if ok then (delivered + 1, dropped) else (delivered, dropped + 1)), qs'))"

lemma offer_all_frame: "sid \<notin> set sids \<Longrightarrow> snd (offer_all offer frame sids qs) sid = qs sid"
  by (induction sids arbitrary: qs) (auto simp: case_prod_unfold Let_def)

lemma offer_all_total:
  "fst (fst (offer_all offer frame sids qs)) + snd (fst (offer_all offer frame sids qs)) = length sids"
  by (induction sids arbitrary: qs) (auto simp: case_prod_unfold Let_def)

lemma offer_all_each:
  "distinct sids \<Longrightarrow> sid \<in> set sids \<Longrightarrow> snd (offer_all offer frame sids qs) sid = snd (offer (qs sid) frame)"
proof (induction sids arbitrary: qs)
  case (Cons a sids)
  show ?case
  proof (cases "a = sid")
    case True
    with Cons.prems have "sid \<notin> set sids" by simp
    with True offer_all_frame [OF this, of offer frame "qs(a := snd (offer (qs a) frame))"] show ?thesis
      by (simp add: case_prod_unfold Let_def)
  next
    case False
    with Cons show ?thesis by (simp add: case_prod_unfold Let_def)
  qed
qed simp

lemma offer_all_delivered:
  "distinct sids \<Longrightarrow> fst (fst (offer_all offer frame sids qs)) = length (filter (\<lambda>sid. fst (offer (qs sid) frame)) sids)"
proof (induction sids arbitrary: qs)
  case (Cons a sids)
  have "filter (\<lambda>sid. fst (offer ((qs(a := q)) sid) frame)) sids = filter (\<lambda>sid. fst (offer (qs sid) frame)) sids" for q
    using Cons.prems by (intro filter_cong) auto
  with Cons show ?case by (simp add: case_prod_unfold Let_def)
qed simp

text \<open>
  The contract of a tenant-scoped fan-out: the set a publish goes to is exactly the connections
  pinned to the tenant and subscribed to the room, and their outgoing queues are bounded queues.
\<close>

locale tenant_fanout = bounded_queue wf contents bound offer recv
  for wf :: "'q \<Rightarrow> bool" and contents :: "'q \<Rightarrow> 'm list" and bound :: "'q \<Rightarrow> nat"
    and offer :: "'q \<Rightarrow> 'm \<Rightarrow> bool \<times> 'q" and recv :: "'q \<Rightarrow> ('m \<times> 'q) option" +
  fixes inv :: "'s \<Rightarrow> bool"
    and tenant_of :: "'s \<Rightarrow> string \<Rightarrow> string"
    and subscribed :: "'s \<Rightarrow> string \<Rightarrow> string \<Rightarrow> bool"
    and room_peers :: "'s \<Rightarrow> string \<Rightarrow> string \<Rightarrow> string fset"
  assumes room_peers_iff: "inv s \<Longrightarrow> sid |\<in>| room_peers s t r \<longleftrightarrow> t \<noteq> '''' \<and> tenant_of s sid = t \<and> subscribed s sid r"
begin

lemma one_tenant: "inv s \<Longrightarrow> sid |\<in>| room_peers s t r \<Longrightarrow> sid |\<in>| room_peers s t' r' \<Longrightarrow> t = t'"
  by (simp add: room_peers_iff)

text \<open>One publish to a subset of the room's peers, all of whose queues are well formed.\<close>

lemma fanout:
  assumes "inv s" and "\<And>sid. wf (qs sid)" and "distinct sids" and "set sids \<subseteq> fset (room_peers s t r)"
    and "offer_all offer frame sids qs = ((delivered, dropped), qs')"
  shows "delivered + dropped = length sids"
    and "delivered = length (filter (\<lambda>sid. length (contents (qs sid)) < bound (qs sid)) sids)"
    and "contents (qs' sid) = contents (qs sid) @
      (if sid \<in> set sids \<and> length (contents (qs sid)) < bound (qs sid) then [frame] else [])"
    and "tenant_of s sid \<noteq> t \<or> \<not> subscribed s sid r \<Longrightarrow> qs' sid = qs sid"
proof -
  show "delivered + dropped = length sids"
    using offer_all_total [of offer frame sids qs] assms(5) by simp
  show "delivered = length (filter (\<lambda>sid. length (contents (qs sid)) < bound (qs sid)) sids)"
    using offer_all_delivered [OF assms(3), of offer frame qs] assms(2,5) by (simp add: offer_iff)
  show "contents (qs' sid) = contents (qs sid) @
      (if sid \<in> set sids \<and> length (contents (qs sid)) < bound (qs sid) then [frame] else [])"
    using offer_all_each [OF assms(3), of sid offer frame qs] offer_all_frame [of sid sids offer frame qs]
      offer_room [OF assms(2) [of sid], of frame] offer_full [OF assms(2) [of sid], of frame] assms(5)
    by (cases "sid \<in> set sids") auto
  assume "tenant_of s sid \<noteq> t \<or> \<not> subscribed s sid r"
  then have "sid \<notin> set sids" using assms(1,4) room_peers_iff by blast
  then show "qs' sid = qs sid" using offer_all_frame [of sid sids offer frame qs] assms(5) by simp
qed

end

end
