(* ===== verification/Gw_Hub.thy ===== *)
theory Gw_Hub
  imports Gw_Rooms
begin

text \<open>
  The tenant-scoped connection registry and fan-out of the gateway (\<open>internal/hub\<close>). A subscriber
  is known by its session id; what the hub reads from it, \<open>Tenant()\<close>, is the argument \<open>ten\<close>, and
  what it does to it, \<open>Enqueue\<close> and \<open>RequestClose\<close>, are changes of the subscribers' queues and the
  list of close requests.

  A connection first binds its tenant in the hub and then pins the identity that \<open>Tenant()\<close>
  returns, in two critical sections of its own reader goroutine. The step relation of the hub
  therefore has a bind step and a pin step, with the connections in between as a ghost map.
\<close>

section \<open>State\<close>

datatype hub_error = ErrOverTenantCap | ErrHubUnknownSession

record hub =
  h_sessions :: "(string, string fset) fmap" \<comment> \<open>per session id the rooms of its \<open>sessionMeta\<close>\<close>
  h_rooms :: room_map
  h_tenantConns :: "(string, int) fmap"
  h_maxPerTenant :: int

definition hub_new :: "int \<Rightarrow> hub" where
  "hub_new maxPerTenant =
     \<lparr>h_sessions = fmempty, h_rooms = fmempty, h_tenantConns = fmempty, h_maxPerTenant = maxPerTenant\<rparr>"

section \<open>Operations\<close>

definition hub_register :: "hub \<Rightarrow> string \<Rightarrow> hub" where
  "hub_register h sid = h\<lparr>h_sessions := fmupd sid {||} (h_sessions h)\<rparr>"

definition bind_tenant :: "(string \<Rightarrow> string) \<Rightarrow> hub \<Rightarrow> string \<Rightarrow> string \<Rightarrow> (hub_error + unit) \<times> hub" where
  "bind_tenant ten h sid tenantID =
     (case fmlookup (h_sessions h) sid of
        None \<Rightarrow> (Inl ErrHubUnknownSession, h)
      | Some rooms \<Rightarrow>
          let current = ten sid in
          if current \<noteq> '''' then
            (if current = tenantID then (Inr (), h) else (Inl ErrHubUnknownSession, h))
          else if fmget 0 (h_tenantConns h) tenantID \<ge> h_maxPerTenant h then (Inl ErrOverTenantCap, h)
          else (Inr (), h\<lparr>h_tenantConns := fmupd tenantID (fmget 0 (h_tenantConns h) tenantID + 1) (h_tenantConns h)\<rparr>))"

definition hub_lookup :: "hub \<Rightarrow> string \<Rightarrow> string option" where
  "hub_lookup h sid = (case fmlookup (h_sessions h) sid of None \<Rightarrow> None | Some rooms \<Rightarrow> Some sid)"

definition release_slot :: "string \<Rightarrow> (string, int) fmap \<Rightarrow> (string, int) fmap" where
  "release_slot tenantID conns =
     (if tenantID = '''' then conns
      else if fmget 0 conns tenantID \<le> 1 then fmdrop tenantID conns
      else fmupd tenantID (fmget 0 conns tenantID - 1) conns)"

text \<open>\<open>ord\<close> is the order in which the loop of \<open>Unregister\<close> visits the rooms of the session.\<close>

definition hub_unregister :: "(string \<Rightarrow> string) \<Rightarrow> hub \<Rightarrow> string list \<Rightarrow> string \<Rightarrow> hub" where
  "hub_unregister ten h ord sid =
     (case fmlookup (h_sessions h) sid of
        None \<Rightarrow> h
      | Some rooms \<Rightarrow>
          let tenantID = ten sid
          in h\<lparr>h_sessions := fmdrop sid (h_sessions h),
              h_tenantConns := release_slot tenantID (h_tenantConns h),
              h_rooms := fold (\<lambda>room. leave_room sid (tenantID, room)) ord (h_rooms h)\<rparr>)"

definition hub_subscribe :: "(string \<Rightarrow> string) \<Rightarrow> hub \<Rightarrow> string \<Rightarrow> string \<Rightarrow> (hub_error + nat) \<times> hub" where
  "hub_subscribe ten h sid room =
     (case fmlookup (h_sessions h) sid of
        None \<Rightarrow> (Inl ErrHubUnknownSession, h)
      | Some rooms \<Rightarrow>
          let tenantID = ten sid in
          if tenantID = '''' then (Inl ErrHubUnknownSession, h)
          else
            let key = (tenantID, room);
                peers = finsert sid (peers_of (h_rooms h) key)
            in (Inr (fcard peers),
                h\<lparr>h_sessions := fmupd sid (finsert room rooms) (h_sessions h),
                  h_rooms := fmupd key peers (h_rooms h)\<rparr>))"

definition hub_unsubscribe :: "(string \<Rightarrow> string) \<Rightarrow> hub \<Rightarrow> string \<Rightarrow> string \<Rightarrow> hub" where
  "hub_unsubscribe ten h sid room =
     (case fmlookup (h_sessions h) sid of
        None \<Rightarrow> h
      | Some rooms \<Rightarrow>
          h\<lparr>h_sessions := fmupd sid (rooms |-| {|room|}) (h_sessions h),
            h_rooms := leave_room sid (ten sid, room) (h_rooms h)\<rparr>)"

text \<open>
  \<open>Publish\<close>: the targets are chosen under the lock (\<open>ord\<close> is the order in which the loop visits the
  room's peers); the frame is then offered to each target's queue.
\<close>

definition publish_targets :: "hub \<Rightarrow> string list \<Rightarrow> string \<Rightarrow> string \<Rightarrow> string list" where
  "publish_targets h ord tenantID room =
     (if fmlookup (h_rooms h) (tenantID, room) = None then []
      else filter (\<lambda>sid. fmlookup (h_sessions h) sid \<noteq> None) ord)"

definition hub_publish ::
  "hub \<Rightarrow> string list \<Rightarrow> string \<Rightarrow> string \<Rightarrow> 'm \<Rightarrow> (string \<Rightarrow> 'm queue) \<Rightarrow> (nat \<times> nat) \<times> (string \<Rightarrow> 'm queue)"
where
  "hub_publish h ord tenantID room frame qs =
     (let targets = publish_targets h ord tenantID room
      in if length targets = 0 then ((0, 0), qs) else offer_all enqueue frame targets qs)"

definition peer_count :: "hub \<Rightarrow> string \<Rightarrow> string \<Rightarrow> nat" where
  "peer_count h tenantID room = fcard (peers_of (h_rooms h) (tenantID, room))"

definition hub_stats :: "hub \<Rightarrow> nat \<times> nat" where
  "hub_stats h = (fmlen (h_rooms h), fmlen (h_tenantConns h))"

text \<open>The close requests that \<open>CloseAll\<close> makes, in the order its loop visits the sessions.\<close>

definition hub_close_all :: "hub \<Rightarrow> string list \<Rightarrow> int \<Rightarrow> string \<Rightarrow> (string \<times> int \<times> string) list" where
  "hub_close_all h ord code reason =
     map (\<lambda>sid. (sid, code, reason)) (filter (\<lambda>sid. fmlookup (h_sessions h) sid \<noteq> None) ord)"

section \<open>Steps\<close>

record hub_sys =
  y_hub :: hub
  y_ten :: "string \<Rightarrow> string" \<comment> \<open>what \<open>Tenant()\<close> of each connection returns\<close>
  y_pend :: "(string, string) fmap" \<comment> \<open>bound in the hub, identity not pinned yet\<close>

text \<open>
  One rule per critical section. Session ids are server-generated UUIDs, so \<open>register\<close> gets a fresh
  one; a token's tenant id is a UUID (\<open>auth.validateClaims\<close>), hence not empty; a connection's
  binds, pins, subscriptions and its final unregister come from its one reader goroutine, which
  binds only while it is not authenticated, and pins right after a successful bind.
\<close>

inductive hub_step :: "hub_sys \<Rightarrow> hub_sys \<Rightarrow> bool" where
  step_register: "fmlookup (h_sessions (y_hub y)) sid = None \<Longrightarrow> y_ten y sid = '''' \<Longrightarrow>
     hub_step y (y\<lparr>y_hub := hub_register (y_hub y) sid\<rparr>)"
| step_bind: "bind_tenant (y_ten y) (y_hub y) sid t = (Inr (), h') \<Longrightarrow> y_ten y sid = '''' \<Longrightarrow> t \<noteq> '''' \<Longrightarrow>
     fmlookup (y_pend y) sid = None \<Longrightarrow>
     hub_step y (y\<lparr>y_hub := h', y_pend := fmupd sid t (y_pend y)\<rparr>)"
| step_bind_other: "bind_tenant (y_ten y) (y_hub y) sid t = (r, h') \<Longrightarrow> r \<noteq> Inr () \<or> y_ten y sid \<noteq> [] \<Longrightarrow>
     hub_step y (y\<lparr>y_hub := h'\<rparr>)"
| step_pin: "fmlookup (y_pend y) sid = Some t \<Longrightarrow>
     hub_step y (y\<lparr>y_ten := (y_ten y)(sid := t), y_pend := fmdrop sid (y_pend y)\<rparr>)"
| step_subscribe: "fmlookup (y_pend y) sid = None \<Longrightarrow>
     hub_step y (y\<lparr>y_hub := snd (hub_subscribe (y_ten y) (y_hub y) sid room)\<rparr>)"
| step_unsubscribe: "fmlookup (y_pend y) sid = None \<Longrightarrow>
     hub_step y (y\<lparr>y_hub := hub_unsubscribe (y_ten y) (y_hub y) sid room\<rparr>)"
| step_unregister: "fmlookup (y_pend y) sid = None \<Longrightarrow>
     fset_order ord (fmget {||} (h_sessions (y_hub y)) sid) \<Longrightarrow>
     hub_step y (y\<lparr>y_hub := hub_unregister (y_ten y) (y_hub y) ord sid\<rparr>)"

definition hub_initial :: "hub_sys \<Rightarrow> bool" where
  "hub_initial y \<longleftrightarrow> y_hub y = hub_new (h_maxPerTenant (y_hub y)) \<and> y_ten y = (\<lambda>sid. '''') \<and> y_pend y = fmempty"

section \<open>Invariant\<close>

text \<open>\<open>holders y t\<close>: the registered connections that hold a slot of tenant \<open>t\<close>.\<close>

definition holds :: "hub_sys \<Rightarrow> string \<Rightarrow> string \<Rightarrow> bool" where
  "holds y t sid \<longleftrightarrow> fmlookup (h_sessions (y_hub y)) sid \<noteq> None \<and> t \<noteq> '''' \<and>
     (y_ten y sid = t \<or> fmlookup (y_pend y) sid = Some t)"

definition holders :: "hub_sys \<Rightarrow> string \<Rightarrow> string set" where
  "holders y t = {sid \<in> fmdom' (h_sessions (y_hub y)). holds y t sid}"

definition hub_inv :: "hub_sys \<Rightarrow> bool" where
  "hub_inv y \<longleftrightarrow>
     index_ok (y_ten y) (h_sessions (y_hub y)) (h_rooms (y_hub y))
     \<and> (\<forall>t. fmget 0 (h_tenantConns (y_hub y)) t = int (card (holders y t)))
     \<and> (\<forall>t n. fmlookup (h_tenantConns (y_hub y)) t = Some n \<longrightarrow> 0 < n)
     \<and> (\<forall>t. fmget 0 (h_tenantConns (y_hub y)) t \<le> max 0 (h_maxPerTenant (y_hub y)))
     \<and> (\<forall>sid t. fmlookup (y_pend y) sid = Some t \<longrightarrow>
          t \<noteq> '''' \<and> y_ten y sid = '''' \<and> fmlookup (h_sessions (y_hub y)) sid \<noteq> None)"

lemma finite_holders [simp]: "finite (holders y t)"
  by (simp add: holders_def)

lemma in_holders: "sid \<in> holders y t \<longleftrightarrow> holds y t sid"
  by (auto simp: holders_def holds_def fmlookup_dom'_iff)

lemma hub_invI:
  assumes "index_ok (y_ten y) (h_sessions (y_hub y)) (h_rooms (y_hub y))"
    and "\<And>t. fmget 0 (h_tenantConns (y_hub y)) t = int (card (holders y t))"
    and "\<And>t n. fmlookup (h_tenantConns (y_hub y)) t = Some n \<Longrightarrow> 0 < n"
    and "\<And>t. fmget 0 (h_tenantConns (y_hub y)) t \<le> max 0 (h_maxPerTenant (y_hub y))"
    and "\<And>sid t. fmlookup (y_pend y) sid = Some t \<Longrightarrow>
      t \<noteq> '''' \<and> y_ten y sid = '''' \<and> fmlookup (h_sessions (y_hub y)) sid \<noteq> None"
  shows "hub_inv y"
  using assms unfolding hub_inv_def by blast

lemma hub_invD:
  assumes "hub_inv y"
  shows "index_ok (y_ten y) (h_sessions (y_hub y)) (h_rooms (y_hub y))"
    and "fmget 0 (h_tenantConns (y_hub y)) t = int (card (holders y t))"
    and "fmlookup (h_tenantConns (y_hub y)) t = Some n \<Longrightarrow> 0 < n"
    and "fmget 0 (h_tenantConns (y_hub y)) t \<le> max 0 (h_maxPerTenant (y_hub y))"
    and "fmlookup (y_pend y) sid = Some t \<Longrightarrow>
      t \<noteq> '''' \<and> y_ten y sid = '''' \<and> fmlookup (h_sessions (y_hub y)) sid \<noteq> None"
  using assms unfolding hub_inv_def by blast+

lemma hub_inv_initial:
  assumes "hub_initial y"
  shows "hub_inv y"
proof -
  have y: "y_hub y = hub_new (h_maxPerTenant (y_hub y))" "y_ten y = (\<lambda>sid. '''')" "y_pend y = fmempty"
    using assms by (auto simp: hub_initial_def)
  have s: "h_sessions (y_hub y) = fmempty" "h_rooms (y_hub y) = fmempty" "h_tenantConns (y_hub y) = fmempty"
    by (subst y(1), simp add: hub_new_def)+
  have "holders y t = {}" for t by (auto simp: in_holders holds_def s)
  then show ?thesis by (intro hub_invI) (simp_all add: s y(3) index_ok_empty)
qed

text \<open>Steps that leave every connection's slot alone need only the index.\<close>

lemma hub_inv_same_slots:
  assumes inv: "hub_inv y" and "index_ok (y_ten y) (h_sessions h') (h_rooms h')"
    and "fmdom' (h_sessions h') = fmdom' (h_sessions (y_hub y))"
    and "h_tenantConns h' = h_tenantConns (y_hub y)" and "h_maxPerTenant h' = h_maxPerTenant (y_hub y)"
  shows "hub_inv (y\<lparr>y_hub := h'\<rparr>)"
proof -
  have dom: "fmlookup (h_sessions h') sid \<noteq> None \<longleftrightarrow> fmlookup (h_sessions (y_hub y)) sid \<noteq> None" for sid
    using assms(3) by (metis fmdom'_notD fmdom'_notI)
  have "holders (y\<lparr>y_hub := h'\<rparr>) t = holders y t" for t
    by (rule set_eqI) (use dom in \<open>simp add: in_holders holds_def\<close>)
  then show ?thesis
    using assms(2,4,5) hub_invD(2-5) [OF inv] dom by (intro hub_invI) simp_all
qed

lemma hub_inv_register:
  assumes inv: "hub_inv y" and fresh: "fmlookup (h_sessions (y_hub y)) sid = None" and ten: "y_ten y sid = ''''"
  shows "hub_inv (y\<lparr>y_hub := hub_register (y_hub y) sid\<rparr>)"
proof -
  have "fmlookup (y_pend y) sid = None" using hub_invD(5) [OF inv, of sid] fresh by (cases "fmlookup (y_pend y) sid") auto
  then have "holders (y\<lparr>y_hub := hub_register (y_hub y) sid\<rparr>) t = holders y t" for t
    using ten fresh by (intro set_eqI) (auto simp: in_holders holds_def hub_register_def)
  then show ?thesis
    using index_ok_register [OF hub_invD(1) [OF inv] fresh] hub_invD(2-5) [OF inv]
    by (intro hub_invI) (auto simp: hub_register_def)
qed

lemma hub_inv_subscribe:
  assumes inv: "hub_inv y"
  shows "hub_inv (y\<lparr>y_hub := snd (hub_subscribe (y_ten y) (y_hub y) sid room)\<rparr>)"
proof (cases "fmlookup (h_sessions (y_hub y)) sid = None \<or> y_ten y sid = ''''")
  case True
  with inv show ?thesis by (auto simp: hub_subscribe_def Let_def split: option.splits)
next
  case False
  then obtain rs where rs: "fmlookup (h_sessions (y_hub y)) sid = Some rs" and ten: "y_ten y sid \<noteq> ''''" by auto
  show ?thesis
    using index_ok_join [OF hub_invD(1) [OF inv] rs ten, of room] rs ten
    by (intro hub_inv_same_slots [OF inv])
      (auto simp: hub_subscribe_def Let_def insert_absorb fmlookup_dom'_iff)
qed

lemma hub_inv_unsubscribe:
  assumes inv: "hub_inv y"
  shows "hub_inv (y\<lparr>y_hub := hub_unsubscribe (y_ten y) (y_hub y) sid room\<rparr>)"
proof (cases "fmlookup (h_sessions (y_hub y)) sid")
  case None
  with inv show ?thesis by (simp add: hub_unsubscribe_def)
next
  case (Some rs)
  show ?thesis
    using index_ok_leave [OF hub_invD(1) [OF inv] Some, of room] Some
    by (intro hub_inv_same_slots [OF inv])
      (auto simp: hub_unsubscribe_def insert_absorb fmlookup_dom'_iff)
qed

lemma hub_inv_bind:
  assumes inv: "hub_inv y" and bind: "bind_tenant (y_ten y) (y_hub y) sid t = (Inr (), h')"
    and ten: "y_ten y sid = ''''" and t: "t \<noteq> ''''" and pend: "fmlookup (y_pend y) sid = None"
  shows "hub_inv (y\<lparr>y_hub := h', y_pend := fmupd sid t (y_pend y)\<rparr>)"
proof -
  let ?y = "y\<lparr>y_hub := h', y_pend := fmupd sid t (y_pend y)\<rparr>"
  let ?n = "fmget 0 (h_tenantConns (y_hub y)) t"
  from bind ten have reg: "fmlookup (h_sessions (y_hub y)) sid \<noteq> None" and room: "?n < h_maxPerTenant (y_hub y)"
    and h': "h' = (y_hub y)\<lparr>h_tenantConns := fmupd t (?n + 1) (h_tenantConns (y_hub y))\<rparr>"
    by (auto simp: bind_tenant_def Let_def split: option.splits if_splits)
  have hold: "holders ?y t' = (if t' = t then insert sid (holders y t') else holders y t')" for t'
    using reg ten t pend by (auto simp: in_holders holds_def h' split: if_splits)
  have "sid \<notin> holders y t" using ten t pend by (auto simp: in_holders holds_def)
  then have "card (holders ?y t') = (if t' = t then card (holders y t') + 1 else card (holders y t'))" for t'
    unfolding hold by simp
  then have "fmget 0 (h_tenantConns h') t' = int (card (holders ?y t'))" for t'
    using hub_invD(2) [OF inv, of t'] hub_invD(2) [OF inv, of t] by (simp only:) (simp add: h')
  moreover have "0 < n'" if "fmlookup (h_tenantConns h') t' = Some n'" for t' n'
    using that hub_invD(3) [OF inv, of t' n'] hub_invD(2) [OF inv, of t] by (auto simp: h' split: if_splits)
  moreover have "fmget 0 (h_tenantConns h') t' \<le> max 0 (h_maxPerTenant h')" for t'
    using hub_invD(4) [OF inv, of t'] room by (auto simp: h')
  ultimately show ?thesis
    using hub_invD(1,5) [OF inv] reg ten t by (intro hub_invI) (auto simp: h' split: if_splits)
qed

lemma hub_inv_bind_other:
  assumes inv: "hub_inv y" and "bind_tenant (y_ten y) (y_hub y) sid t = (r, h')"
    and "r \<noteq> Inr () \<or> y_ten y sid \<noteq> ''''"
  shows "hub_inv (y\<lparr>y_hub := h'\<rparr>)"
proof -
  have "h' = y_hub y" using assms(2,3) by (auto simp: bind_tenant_def Let_def split: option.splits if_splits)
  with inv show ?thesis by simp
qed

lemma hub_inv_pin:
  assumes inv: "hub_inv y" and pend: "fmlookup (y_pend y) sid = Some t"
  shows "hub_inv (y\<lparr>y_ten := (y_ten y)(sid := t), y_pend := fmdrop sid (y_pend y)\<rparr>)"
proof -
  let ?y = "y\<lparr>y_ten := (y_ten y)(sid := t), y_pend := fmdrop sid (y_pend y)\<rparr>"
  note p = hub_invD(5) [OF inv pend]
  have "holders ?y t' = holders y t'" for t'
    using p pend by (intro set_eqI) (auto simp: in_holders holds_def split: if_splits)
  then show ?thesis
    using index_ok_pin [OF hub_invD(1) [OF inv], of sid t] p hub_invD(2-5) [OF inv]
    by (intro hub_invI) (auto split: if_splits)
qed

lemma release_slot_get:
  assumes "0 \<le> fmget 0 conns t"
  shows "fmget 0 (release_slot t conns) t' =
    (if t' = t \<and> t \<noteq> '''' then max 0 (fmget 0 conns t' - 1) else fmget 0 conns t')"
  using assms by (auto simp: release_slot_def)

lemma hub_inv_unregister:
  assumes inv: "hub_inv y" and pend: "fmlookup (y_pend y) sid = None"
    and ord: "fset_order ord (fmget {||} (h_sessions (y_hub y)) sid)"
  shows "hub_inv (y\<lparr>y_hub := hub_unregister (y_ten y) (y_hub y) ord sid\<rparr>)"
proof (cases "fmlookup (h_sessions (y_hub y)) sid")
  case None
  with inv show ?thesis by (simp add: hub_unregister_def)
next
  case (Some rs)
  let ?h = "hub_unregister (y_ten y) (y_hub y) ord sid" and ?t = "y_ten y sid"
  have h: "h_sessions ?h = fmdrop sid (h_sessions (y_hub y))"
    "h_tenantConns ?h = release_slot ?t (h_tenantConns (y_hub y))" "h_maxPerTenant ?h = h_maxPerTenant (y_hub y)"
    "h_rooms ?h = fold (\<lambda>room. leave_room sid (?t, room)) ord (h_rooms (y_hub y))"
    by (simp_all add: hub_unregister_def Some Let_def)
  have sub: "fset rs \<subseteq> set ord" using ord Some by (simp add: fset_order_def fmget_def)
  have hold: "holders (y\<lparr>y_hub := ?h\<rparr>) t = (if t = ?t \<and> t \<noteq> '''' then holders y t - {sid} else holders y t)" for t
    using pend by (intro set_eqI) (auto simp: in_holders holds_def h)
  have mem: "?t \<noteq> '''' \<Longrightarrow> sid \<in> holders y ?t" by (simp add: in_holders holds_def Some)
  have nonneg: "0 \<le> fmget 0 (h_tenantConns (y_hub y)) t" for t using hub_invD(2) [OF inv, of t] by simp
  note slot = release_slot_get [OF nonneg, of "?t"]
  have "fmget 0 (h_tenantConns ?h) t = int (card (holders (y\<lparr>y_hub := ?h\<rparr>) t))" for t
    using mem hub_invD(2) [OF inv, of t] by (auto simp: h slot hold of_nat_diff card_Diff_singleton Suc_leI card_gt_0_iff)
  moreover have "0 < n" if "fmlookup (h_tenantConns ?h) t = Some n" for t n
    using that hub_invD(3) [OF inv, of t n] by (auto simp: h release_slot_def fmget_def split: if_splits option.splits)
  moreover have "fmget 0 (h_tenantConns ?h) t \<le> max 0 (h_maxPerTenant ?h)" for t
    using hub_invD(4) [OF inv, of t] by (auto simp: h slot)
  moreover have "t \<noteq> '''' \<and> y_ten y i = '''' \<and> fmlookup (h_sessions ?h) i \<noteq> None" if "fmlookup (y_pend y) i = Some t" for i t
    using that hub_invD(5) [OF inv that] pend by (cases "i = sid") (simp_all add: h)
  ultimately show ?thesis
    using index_ok_remove [OF hub_invD(1) [OF inv] Some sub] by (intro hub_invI) (simp_all add: h)
qed

lemma hub_step_inv: "hub_step y y' \<Longrightarrow> hub_inv y \<Longrightarrow> hub_inv y'"
  by (induction rule: hub_step.induct)
    (blast intro: hub_inv_register hub_inv_bind hub_inv_bind_other hub_inv_pin hub_inv_subscribe
      hub_inv_unsubscribe hub_inv_unregister)+

interpretation hubs: invariant_system hub_initial hub_step hub_inv
  by unfold_locales (blast intro: hub_inv_initial hub_step_inv)+

text \<open>The hub's own data under the contract of a tenant-scoped fan-out.\<close>

definition is_subscribed :: "hub_sys \<Rightarrow> string \<Rightarrow> string \<Rightarrow> bool" where
  "is_subscribed y sid room \<longleftrightarrow> room |\<in>| fmget {||} (h_sessions (y_hub y)) sid"

interpretation gfan: tenant_fanout queue_wf q_ch q_cap enqueue queue_recv hub_inv y_ten is_subscribed
  "\<lambda>y t r. peers_of (h_rooms (y_hub y)) (t, r)"
proof
  fix y sid t r assume inv: "hub_inv y"
  have sub: "is_subscribed y sid r \<longleftrightarrow> (\<exists>rs. fmlookup (h_sessions (y_hub y)) sid = Some rs \<and> r |\<in>| rs)"
    by (auto simp: is_subscribed_def fmget_def split: option.splits)
  show "sid |\<in>| peers_of (h_rooms (y_hub y)) (t, r) \<longleftrightarrow> t \<noteq> '''' \<and> y_ten y sid = t \<and> is_subscribed y sid r"
    unfolding sub using index_okD(1,2) [OF hub_invD(1) [OF inv]] by blast
qed

section \<open>A concrete run\<close>

definition demo_hub :: hub_sys where
  "demo_hub =
     \<lparr>y_hub = snd (hub_subscribe (\<lambda>sid. if sid = ''c1'' then ''T'' else '''')
        (snd (bind_tenant (\<lambda>sid. '''') (hub_register (hub_new 2) ''c1'') ''c1'' ''T'')) ''c1'' ''calls''),
      y_ten = (\<lambda>sid. if sid = ''c1'' then ''T'' else ''''), y_pend = fmempty\<rparr>"

lemmas hub_defs = hub_new_def hub_register_def bind_tenant_def hub_subscribe_def peers_of_def Let_def

lemma demo_hub_eval: "y_hub demo_hub =
  \<lparr>h_sessions = fmupd ''c1'' {|''calls''|} (fmupd ''c1'' {||} fmempty),
   h_rooms = fmupd (''T'', ''calls'') {|''c1''|} fmempty, h_tenantConns = fmupd ''T'' 1 fmempty, h_maxPerTenant = 2\<rparr>"
  by (simp add: demo_hub_def hub_defs)

lemma demo_hub_reach:
  "hub_initial \<lparr>y_hub = hub_new 2, y_ten = (\<lambda>sid. ''''), y_pend = fmempty\<rparr>"
  "hub_step\<^sup>*\<^sup>* \<lparr>y_hub = hub_new 2, y_ten = (\<lambda>sid. ''''), y_pend = fmempty\<rparr> demo_hub"
proof -
  show "hub_initial \<lparr>y_hub = hub_new 2, y_ten = (\<lambda>sid. ''''), y_pend = fmempty\<rparr>"
    by (simp add: hub_initial_def hub_new_def)
  let ?y0 = "\<lparr>y_hub = hub_new 2, y_ten = (\<lambda>sid. ''''), y_pend = fmempty\<rparr>"
  let ?y1 = "?y0\<lparr>y_hub := hub_register (y_hub ?y0) ''c1''\<rparr>"
  let ?y2 = "?y1\<lparr>y_hub := snd (bind_tenant (y_ten ?y1) (y_hub ?y1) ''c1'' ''T''), y_pend := fmupd ''c1'' ''T'' (y_pend ?y1)\<rparr>"
  let ?y3 = "?y2\<lparr>y_ten := (y_ten ?y2)(''c1'' := ''T''), y_pend := fmdrop ''c1'' (y_pend ?y2)\<rparr>"
  have "hub_step ?y0 ?y1" by (rule step_register) (simp_all add: hub_defs)
  moreover have "hub_step ?y1 ?y2" by (rule step_bind) (simp_all add: hub_defs)
  moreover have "hub_step ?y2 ?y3" by (rule step_pin) simp
  moreover have "hub_step ?y3 (?y3\<lparr>y_hub := snd (hub_subscribe (y_ten ?y3) (y_hub ?y3) ''c1'' ''calls'')\<rparr>)"
    by (rule step_subscribe) simp
  moreover have "?y3\<lparr>y_hub := snd (hub_subscribe (y_ten ?y3) (y_hub ?y3) ''c1'' ''calls'')\<rparr> = demo_hub"
    by (rule hub_sys.equality) (auto simp: demo_hub_def fun_upd_def hub_defs fmdrop_fmupd_same)
  ultimately show "hub_step\<^sup>*\<^sup>* ?y0 demo_hub"
    by (metis (no_types, lifting) converse_rtranclp_into_rtranclp rtranclp.rtrancl_refl)
qed

section \<open>Properties\<close>

text \<open>
  C8. A publish reaches exactly the subscribers of its tenant and room. In every reachable hub and
  for every order the runtime visits the room's peers in, \<open>Publish\<close> appends the frame once to the
  queue of each connection pinned to that tenant and subscribed to that room whose queue has space,
  touches no other connection at all, and returns as delivered and dropped the number of those
  queues with and without space, which add up to the peer count.
\<close>

theorem publish_isolated:
  assumes "hub_initial y0" and "hub_step\<^sup>*\<^sup>* y0 y" and "\<And>sid. queue_wf (qs sid)"
    and "fset_order ord (peers_of (h_rooms (y_hub y)) (t, room))"
    and "hub_publish (y_hub y) ord t room frame qs = ((delivered, dropped), qs')"
  shows "delivered + dropped = peer_count (y_hub y) t room
    \<and> delivered = length (filter (\<lambda>sid. queue_len (qs sid) < queue_capacity (qs sid)) ord)
    \<and> (\<forall>sid. y_ten y sid = t \<and> is_subscribed y sid room \<and> t \<noteq> '''' \<and> queue_len (qs sid) < queue_capacity (qs sid) \<longrightarrow>
         q_ch (qs' sid) = q_ch (qs sid) @ [frame])
    \<and> (\<forall>sid. y_ten y sid \<noteq> t \<or> \<not> is_subscribed y sid room \<longrightarrow> qs' sid = qs sid)"
proof -
  have inv: "hub_inv y" by (rule hubs.reachable_inv [OF assms(1,2)])
  let ?P = "peers_of (h_rooms (y_hub y)) (t, room)"
  have reg: "fmlookup (h_sessions (y_hub y)) sid \<noteq> None" if "sid \<in> set ord" for sid
    using that assms(4) index_okD(2) [OF hub_invD(1) [OF inv], of sid t room] by (auto simp: fset_order_def)
  have "publish_targets (y_hub y) ord t room = ord"
    using reg assms(4) by (auto simp: publish_targets_def fset_order_def peers_of_def fmget_def intro: filter_True)
  then have offer: "offer_all enqueue frame ord qs = ((delivered, dropped), qs')"
    using assms(5) by (cases "ord = []") (simp_all add: hub_publish_def)
  have d: "distinct ord" "set ord \<subseteq> fset ?P" using assms(4) by (auto simp: fset_order_def)
  note fan = gfan.fanout [OF inv assms(3) d offer]
  have mem: "sid \<in> set ord \<longleftrightarrow> t \<noteq> '''' \<and> y_ten y sid = t \<and> is_subscribed y sid room" for sid
    using gfan.room_peers_iff [OF inv, of sid t room] assms(4) by (simp add: fset_order_def)
  have "length ord = peer_count (y_hub y) t room"
    using fset_order_length [OF assms(4)] by (simp add: peer_count_def)
  then show ?thesis
    using fan(1,2,4) fan(3) mem by (simp add: queue_len_def queue_capacity_def)
qed

theorem publish_isolated_witness:
  "fst (hub_publish (y_hub demo_hub) [''c1''] ''T'' ''calls'' (7::nat) (\<lambda>sid. queue_new 1 DropNewest)) = (1, 0)
   \<and> peer_count (y_hub demo_hub) ''T'' ''calls'' = 1 + 0"
proof -
  obtain qs' where r: "hub_publish (y_hub demo_hub) [''c1''] ''T'' ''calls'' (7::nat) (\<lambda>sid. queue_new 1 DropNewest) = ((1, 0), qs')"
    by (simp add: hub_publish_def publish_targets_def demo_hub_eval enqueue_def try_enqueue_def Let_def)
  have ord: "fset_order [''c1''] (peers_of (h_rooms (y_hub demo_hub)) (''T'', ''calls''))"
    by (simp add: fset_order_def demo_hub_eval peers_of_def)
  show ?thesis using publish_isolated [OF demo_hub_reach _ ord r] r by simp
qed

text \<open>
  C24. Exact tenant slots. In every reachable hub, over all interleavings of connections that bind,
  pin and leave, the slot counter of a tenant equals the number of registered connections that are
  bound to it, and never exceeds the per-tenant cap.
\<close>

theorem tenant_slots_exact:
  assumes "hub_initial y0" and "hub_step\<^sup>*\<^sup>* y0 y"
  shows "fmget 0 (h_tenantConns (y_hub y)) t = int (card {sid. holds y t sid})
    \<and> fmget 0 (h_tenantConns (y_hub y)) t \<le> max 0 (h_maxPerTenant (y_hub y))
    \<and> snd (hub_stats (y_hub y)) = card {t. {sid. holds y t sid} \<noteq> {}}"
proof -
  have inv: "hub_inv y" by (rule hubs.reachable_inv [OF assms])
  have hold: "holders y t = {sid. holds y t sid}" for t by (auto simp: in_holders)
  have "fmlookup (h_tenantConns (y_hub y)) t \<noteq> None \<longleftrightarrow> holders y t \<noteq> {}" for t
    using hub_invD(2,3) [OF inv, of t] by (cases "fmlookup (h_tenantConns (y_hub y)) t") (auto simp: fmget_def)
  then have "fmdom' (h_tenantConns (y_hub y)) = {t. {sid. holds y t sid} \<noteq> {}}"
    by (auto simp: fmlookup_dom'_iff hold)
  then show ?thesis
    using hub_invD(2,4) [OF inv, of t] by (simp add: hold hub_stats_def fmlen_card)
qed

theorem tenant_slots_exact_witness: "fmget 0 (h_tenantConns (y_hub demo_hub)) ''T'' = int (card {sid. holds demo_hub ''T'' sid})"
  using tenant_slots_exact [OF demo_hub_reach, of "''T''"] by blast

text \<open>
  A connection leaves no trace. Unregistering a connection in a reachable hub removes it from
  every room, gives its tenant's slot back (exactly one), drops the rooms it was alone in, and
  changes neither the rooms nor the slots of anyone else, whatever order its rooms are visited in.
\<close>

theorem unregister_leaves_no_trace:
  assumes "hub_initial y0" and "hub_step\<^sup>*\<^sup>* y0 y" and "fmlookup (y_pend y) sid = None"
    and "fset_order ord (fmget {||} (h_sessions (y_hub y)) sid)"
    and "fmlookup (h_sessions (y_hub y)) sid \<noteq> None"
  defines "h' \<equiv> hub_unregister (y_ten y) (y_hub y) ord sid"
  shows "hub_lookup h' sid = None
    \<and> (\<forall>t room. peers_of (h_rooms h') (t, room) = peers_of (h_rooms (y_hub y)) (t, room) |-| {|sid|})
    \<and> (\<forall>key. fmlookup (h_rooms h') key \<noteq> Some {||})
    \<and> (\<forall>t. fmget 0 (h_tenantConns h') t =
         fmget 0 (h_tenantConns (y_hub y)) t - (if t = y_ten y sid \<and> t \<noteq> '''' then 1 else 0))
    \<and> (\<forall>i. i \<noteq> sid \<longrightarrow> fmlookup (h_sessions h') i = fmlookup (h_sessions (y_hub y)) i)"
proof -
  have inv: "hub_inv y" by (rule hubs.reachable_inv [OF assms(1,2)])
  obtain rs where rs: "fmlookup (h_sessions (y_hub y)) sid = Some rs" using assms(5) by auto
  have ord: "set ord = fset rs" using assms(4) rs by (simp add: fset_order_def fmget_def)
  have h: "h_sessions h' = fmdrop sid (h_sessions (y_hub y))"
    "h_tenantConns h' = release_slot (y_ten y sid) (h_tenantConns (y_hub y))"
    "h_rooms h' = fold (\<lambda>room. leave_room sid (y_ten y sid, room)) ord (h_rooms (y_hub y))"
    by (simp_all add: h'_def hub_unregister_def rs Let_def)
  have "peers_of (h_rooms h') (t, room) = peers_of (h_rooms (y_hub y)) (t, room) |-| {|sid|}" for t room
    using index_okD(2) [OF hub_invD(1) [OF inv], of sid t room] rs
    by (auto simp: h peers_leave_fold ord)
  moreover have "fmlookup (h_rooms h') key \<noteq> Some {||}" for key
    unfolding h by (rule leave_fold_nonempty, rule index_okD(3) [OF hub_invD(1) [OF inv]])
  moreover have "fmget 0 (h_tenantConns h') t =
      fmget 0 (h_tenantConns (y_hub y)) t - (if t = y_ten y sid \<and> t \<noteq> '''' then 1 else 0)" for t
  proof -
    have "y_ten y sid \<noteq> '''' \<Longrightarrow> sid \<in> holders y (y_ten y sid)" by (simp add: in_holders holds_def rs)
    then have "y_ten y sid \<noteq> '''' \<Longrightarrow> 1 \<le> fmget 0 (h_tenantConns (y_hub y)) (y_ten y sid)"
      using hub_invD(2) [OF inv, of "y_ten y sid"] by (auto simp: Suc_le_eq card_gt_0_iff)
    moreover have "0 \<le> fmget 0 (h_tenantConns (y_hub y)) (y_ten y sid)" using hub_invD(2) [OF inv] by simp
    ultimately show ?thesis by (auto simp: h release_slot_get)
  qed
  ultimately show ?thesis by (simp add: h hub_lookup_def)
qed

theorem unregister_leaves_no_trace_witness:
  "fmget 0 (h_tenantConns (hub_unregister (y_ten demo_hub) (y_hub demo_hub) [''calls''] ''c1'')) ''T'' = 0"
  using unregister_leaves_no_trace [OF demo_hub_reach, of "''c1''" "[''calls'']"]
  by (simp add: demo_hub_eval fset_order_def) (simp add: demo_hub_def)

end
