(* ===== verification/Gw_Validate.thy ===== *)
theory Gw_Validate
  imports Gw_Prelude "HOL-Library.Word"
begin

unbundle bit_operations_syntax

text \<open>
  The shape checks of the gateway (\<open>internal/validate\<close>) and the UUID generator that the session
  manager, the connection and \<open>signal-go\<close> each carry a copy of. Random bytes are 8-bit words.
\<close>

section \<open>UUIDs\<close>

definition is_hex :: "char \<Rightarrow> bool" where
  "is_hex c \<longleftrightarrow> CHR ''0'' \<le> c \<and> c \<le> CHR ''9'' \<or> CHR ''a'' \<le> c \<and> c \<le> CHR ''f'' \<or> CHR ''A'' \<le> c \<and> c \<le> CHR ''F''"

definition is_uuid :: "string \<Rightarrow> bool" where
  "is_uuid s \<longleftrightarrow> length s = 36 \<and>
     list_all (\<lambda>i. if i \<in> {8, 13, 18, 23} then s ! i = CHR ''-'' else is_hex (s ! i)) [0 ..< 36]"

definition hex_digits :: string where "hex_digits = ''0123456789abcdef''"

definition hex_digit :: "8 word \<Rightarrow> char" where
  "hex_digit w = hex_digits ! unat w"

text \<open>\<open>%x\<close> of a byte slice: two lower-case digits per byte.\<close>

definition hex_byte :: "8 word \<Rightarrow> string" where
  "hex_byte b = [hex_digit (drop_bit 4 b), hex_digit (b AND 0x0f)]"

definition hex_bytes :: "8 word list \<Rightarrow> string" where
  "hex_bytes bs = concat (map hex_byte bs)"

definition uuid_stamp :: "8 word list \<Rightarrow> 8 word list" where
  "uuid_stamp b = b[6 := (b ! 6 AND 0x0f) OR 0x40, 8 := (b ! 8 AND 0x3f) OR 0x80]"

definition format_uuid :: "8 word list \<Rightarrow> string" where
  "format_uuid b =
     hex_bytes (take 4 b) @ ''-'' @ hex_bytes (take 2 (drop 4 b)) @ ''-'' @ hex_bytes (take 2 (drop 6 b))
     @ ''-'' @ hex_bytes (take 2 (drop 8 b)) @ ''-'' @ hex_bytes (take 6 (drop 10 b))"

text \<open>\<open>r\<close> is the outcome of \<open>rand.Read\<close> on a 16-byte array: an error or the bytes.\<close>

definition new_uuid_v4 :: "string + 8 word list \<Rightarrow> string + string" where
  "new_uuid_v4 r = (case r of Inl err \<Rightarrow> Inl err | Inr b \<Rightarrow> Inr (format_uuid (uuid_stamp b)))"

section \<open>Room names and event kinds\<close>

definition RoomCalls :: string where "RoomCalls = ''calls''"
definition RoomMetrics :: string where "RoomMetrics = ''metrics''"
definition RoomCallPrefix :: string where "RoomCallPrefix = ''call:''"
definition RoomCampPrefix :: string where "RoomCampPrefix = ''campaign:''"

fun room_entity :: "string list \<Rightarrow> string \<Rightarrow> bool" where
  "room_entity [] room = False"
| "room_entity (prefix # ps) room =
     (if has_prefix room prefix then is_uuid (drop (length prefix) room) else room_entity ps room)"

definition is_room_name :: "string \<Rightarrow> bool" where
  "is_room_name room \<longleftrightarrow>
     room = RoomCalls \<or> room = RoomMetrics \<or> room_entity [RoomCallPrefix, RoomCampPrefix] room"

definition kind_char :: "char \<Rightarrow> bool" where
  "kind_char c \<longleftrightarrow> CHR ''a'' \<le> c \<and> c \<le> CHR ''z'' \<or> CHR ''0'' \<le> c \<and> c \<le> CHR ''9'' \<or> c = CHR ''_'' \<or> c = CHR ''-''"

definition is_event_kind :: "string \<Rightarrow> bool" where
  "is_event_kind kind \<longleftrightarrow>
     \<not> (length kind < 3 \<or> length kind > 64)
     \<and> (let parts = split_on CHR ''.'' kind
        in \<not> length parts < 2 \<and> list_all (\<lambda>p. p \<noteq> [] \<and> list_all kind_char p) parts)"

section \<open>Placeholder secrets\<close>

definition placeholder_markers :: "string list" where
  "placeholder_markers = [''change-me'', ''change_me'', ''insecure'', ''xxxx'', ''placeholder'', ''your-'']"

definition looks_placeholder :: "(string \<Rightarrow> string) \<Rightarrow> string \<Rightarrow> bool" where
  "looks_placeholder uni_lower value =
     (let lowered = to_lower uni_lower value
      in if lowered = '''' then False else list_ex (contains lowered) placeholder_markers)"

section \<open>Hexadecimal text\<close>

lemma is_hex_iff: "is_hex c \<longleftrightarrow> c \<in> set ''0123456789abcdefABCDEF''"
proof -
  have *: "CHR ''0'' \<le> c \<and> c \<le> CHR ''9'' \<longleftrightarrow> (of_char c :: nat) \<in> {48..57}"
    "CHR ''a'' \<le> c \<and> c \<le> CHR ''f'' \<longleftrightarrow> (of_char c :: nat) \<in> {97..102}"
    "CHR ''A'' \<le> c \<and> c \<le> CHR ''F'' \<longleftrightarrow> (of_char c :: nat) \<in> {65..70}"
    by (auto simp: less_eq_char_def)
  have "(of_char c :: nat) \<in> {48..57} \<union> {97..102} \<union> {65..70}
      \<longleftrightarrow> (of_char c :: nat) \<in> of_char ` set ''0123456789abcdefABCDEF''"
    by (simp add: atLeastAtMost_iff) presburger
  also have "\<dots> \<longleftrightarrow> c \<in> set ''0123456789abcdefABCDEF''"
    by (simp only: image_iff of_char_eq_iff) blast
  finally show ?thesis by (simp add: is_hex_def * Un_iff disj_ac)
qed

lemma hex_digits_hex: "n < 16 \<Longrightarrow> hex_digits ! n \<in> set hex_digits"
  by (intro nth_mem) (simp add: hex_digits_def)

lemma hex_digits_inj: "i < 16 \<Longrightarrow> j < 16 \<Longrightarrow> hex_digits ! i = hex_digits ! j \<longleftrightarrow> i = j"
  by (rule nth_eq_iff_index_eq) (simp_all add: hex_digits_def)

lemma nibble_bounds: "unat (drop_bit 4 (b :: 8 word)) < 16" "unat (b AND 0x0f) < 16"
proof -
  have "unat (drop_bit 4 b) = unat b div 16" by (simp add: unat_div drop_bit_eq_div)
  moreover have "unat b < 256" using unsigned_less [of b] by simp
  ultimately show "unat (drop_bit 4 b) < 16" by simp
  have "b AND 0x0f \<le> 0x0f" by (simp add: word_and_le1)
  then show "unat (b AND 0x0f) < 16" by (simp add: word_le_nat_alt)
qed

lemma byte_nibbles: "(b :: 8 word) = c \<longleftrightarrow> drop_bit 4 b = drop_bit 4 c \<and> b AND 0x0f = c AND 0x0f"
proof
  assume *: "drop_bit 4 b = drop_bit 4 c \<and> b AND 0x0f = c AND 0x0f"
  have split: "x = push_bit 4 (drop_bit 4 x) + (x AND 0x0f)" for x :: "8 word"
    using bits_ident [of 4 x] by (simp add: take_bit_eq_mask mask_eq_exp_minus_1)
  show "b = c" using * split [of b] split [of c] by simp
qed simp

lemma hex_byte_inj: "hex_byte b = hex_byte c \<longleftrightarrow> b = c"
  unfolding byte_nibbles [of b c]
  by (simp add: hex_byte_def hex_digit_def hex_digits_inj nibble_bounds word_unat_eq_iff)

lemma hex_bytes_simps [simp]:
  "hex_bytes [] = []" "hex_bytes (b # bs) = hex_byte b @ hex_bytes bs" "length (hex_byte b) = 2"
  by (simp_all add: hex_bytes_def hex_byte_def)

lemma length_hex_bytes [simp]: "length (hex_bytes bs) = 2 * length bs"
  by (induction bs) auto

lemma hex_bytes_inj: "length bs = length cs \<Longrightarrow> hex_bytes bs = hex_bytes cs \<longleftrightarrow> bs = cs"
proof (induction bs arbitrary: cs)
  case (Cons b bs)
  then show ?case by (cases cs) (auto simp: hex_byte_inj)
qed simp

lemma set_hex_bytes: "c \<in> set (hex_bytes bs) \<Longrightarrow> c \<in> set hex_digits"
  by (induction bs) (auto simp: hex_byte_def hex_digit_def hex_digits_hex nibble_bounds)

section \<open>Generated ids\<close>

lemma length_uuid_stamp [simp]: "length (uuid_stamp b) = length b"
  by (simp add: uuid_stamp_def)

text \<open>The five groups of an id.\<close>

lemma format_uuid_length: "length b = 16 \<Longrightarrow> length (format_uuid b) = 36"
  by (simp add: format_uuid_def)

lemma format_uuid_chars:
  assumes "length b = 16" and "i < 36"
  shows "if i \<in> {8, 13, 18, 23} then format_uuid b ! i = CHR ''-'' else format_uuid b ! i \<in> set hex_digits"
proof -
  have nth: "hex_bytes bs ! j \<in> set hex_digits" if "j < 2 * length bs" for bs j
    using that by (intro set_hex_bytes [of _ bs] nth_mem) simp
  show ?thesis
    using assms by (auto simp: format_uuid_def nth_append nth_Cons' intro!: nth)
qed

lemma format_uuid_inj:
  assumes "length b = 16" and "length c = 16"
  shows "format_uuid b = format_uuid c \<longleftrightarrow> b = c"
proof
  assume "format_uuid b = format_uuid c"
  then have "take 4 b = take 4 c" "take 2 (drop 4 b) = take 2 (drop 4 c)" "take 2 (drop 6 b) = take 2 (drop 6 c)"
    "take 2 (drop 8 b) = take 2 (drop 8 c)" "take 6 (drop 10 b) = take 6 (drop 10 c)"
    using assms by (simp_all add: format_uuid_def append_eq_append_conv hex_bytes_inj)
  moreover have "x = take 4 x @ take 2 (drop 4 x) @ take 2 (drop 6 x) @ take 2 (drop 8 x) @ take 6 (drop 10 x)"
    if "length x = 16" for x :: "8 word list"
    using that by (intro nth_equalityI) (auto simp: nth_append)
  ultimately show "b = c" using assms by metis
qed simp

lemma stamp_masks:
  "(0x0f :: 8 word) = mask 4" "(0x3f :: 8 word) = mask 6" "(0x40 :: 8 word) = push_bit 6 1" "(0x80 :: 8 word) = push_bit 7 1"
  by (simp_all add: mask_eq_exp_minus_1)

lemma version_nibble: "drop_bit 4 (((w :: 8 word) AND 0x0f) OR 0x40) = 4"
proof -
  have "drop_bit 4 ((w AND 0x0f) OR 0x40) = push_bit 2 1"
    unfolding stamp_masks by (rule bit_word_eqI) (auto simp: bit_simps)
  then show ?thesis by simp
qed

lemma variant_nibble: "drop_bit 4 (((w :: 8 word) AND 0x3f) OR 0x80) = 8 + (drop_bit 4 w AND 3)"
proof -
  have "drop_bit 4 ((w AND 0x3f) OR 0x80) = push_bit 3 1 OR (drop_bit 4 w AND mask 2)"
    unfolding stamp_masks by (rule bit_word_eqI) (auto simp: bit_simps)
  also have "\<dots> = push_bit 3 1 + (drop_bit 4 w AND mask 2)"
    by (rule disjunctive_add [symmetric]) (simp only: bit_push_bit_iff bit_1_iff bit_and_iff bit_mask_iff, auto)
  finally show ?thesis by (simp add: mask_eq_exp_minus_1)
qed

lemma stamp_cancel: "n \<le> k \<Longrightarrow> (((w :: 8 word) AND mask n) OR push_bit k 1) AND mask n = w AND mask n"
  by (rule bit_word_eqI) (auto simp: bit_simps)

lemma stamp_inj:
  "((w :: 8 word) AND 0x0f) OR 0x40 = (v AND 0x0f) OR 0x40 \<longleftrightarrow> w AND 0x0f = v AND 0x0f"
  "((w :: 8 word) AND 0x3f) OR 0x80 = (v AND 0x3f) OR 0x80 \<longleftrightarrow> w AND 0x3f = v AND 0x3f"
  unfolding stamp_masks by (metis stamp_cancel [of 4 6] le_numeral_Suc num.distinct Suc_numeral numeral_le_iff semiring_norm(68,69,71,72,73))
    (metis stamp_cancel [of 6 7] numeral_le_iff semiring_norm(68,69,71,72,73))

text \<open>The random bits of an id: what the two stamps leave of the bytes.\<close>

definition random_bits :: "8 word list \<Rightarrow> 8 word list" where
  "random_bits b = b[6 := b ! 6 AND 0x0f, 8 := b ! 8 AND 0x3f]"

lemma uuid_stamp_inj:
  assumes "length b = 16" and "length c = 16"
  shows "uuid_stamp b = uuid_stamp c \<longleftrightarrow> random_bits b = random_bits c"
proof -
  have nth: "uuid_stamp x ! i = (if i = 6 then (x ! 6 AND 0x0f) OR 0x40 else if i = 8 then (x ! 8 AND 0x3f) OR 0x80 else x ! i)"
    "random_bits x ! i = (if i = 6 then x ! 6 AND 0x0f else if i = 8 then x ! 8 AND 0x3f else x ! i)"
    if "length x = 16" "i < 16" for x i
    using that by (auto simp: uuid_stamp_def random_bits_def nth_list_update)
  have "length (random_bits x) = length x" for x by (simp add: random_bits_def)
  then show ?thesis
    using assms by (simp add: list_eq_iff_nth_eq nth stamp_inj cong: conj_cong)
qed

lemma format_uuid_version:
  assumes "length b = 16"
  shows "format_uuid b ! 14 = hex_digit (drop_bit 4 (b ! 6))" "format_uuid b ! 19 = hex_digit (drop_bit 4 (b ! 8))"
proof -
  have *: "take 2 (drop k b) = [b ! k, b ! Suc k]" if "k < 15" for k
    using that assms by (intro nth_equalityI) (auto simp: less_Suc_eq_0_disj numeral_2_eq_2)
  show "format_uuid b ! 14 = hex_digit (drop_bit 4 (b ! 6))" "format_uuid b ! 19 = hex_digit (drop_bit 4 (b ! 8))"
    using assms by (simp_all add: format_uuid_def nth_append * hex_byte_def)
qed

text \<open>
  Generated ids are version-4 UUIDs and lose no randomness. Whatever 16 bytes the random source
  yields, the formatted id passes \<open>IsUUID\<close>, its version digit is 4 and its variant digit one of
  8, 9, a, b; and two draws give the same id only if they agree on all 122 bits that the two stamps
  leave alone.
\<close>

theorem generated_ids_valid:
  assumes "length b = 16" and "length c = 16"
  shows "\<exists>u v. new_uuid_v4 (Inr b) = Inr u \<and> new_uuid_v4 (Inr c) = Inr v
    \<and> is_uuid u \<and> u ! 14 = CHR ''4'' \<and> u ! 19 \<in> set ''89ab''
    \<and> (u = v \<longleftrightarrow> random_bits b = random_bits c)"
proof -
  let ?u = "format_uuid (uuid_stamp b)"
  have len: "length (uuid_stamp b) = 16" "length (uuid_stamp c) = 16" using assms by simp_all
  have "is_uuid ?u"
    unfolding is_uuid_def list_all_iff
  proof (intro conjI ballI)
    show "length ?u = 36" by (rule format_uuid_length [OF len(1)])
    have digit: "c \<in> set hex_digits \<Longrightarrow> is_hex c" for c by (auto simp: is_hex_iff hex_digits_def)
    fix i :: nat assume "i \<in> set [0 ..< 36]"
    then have i: "i < 36" by simp
    show "if i \<in> {8, 13, 18, 23} then ?u ! i = CHR ''-'' else is_hex (?u ! i)"
      using format_uuid_chars [OF len(1) i] by (simp only: digit split: if_split) (meson digit)
  qed
  moreover have "?u ! 14 = CHR ''4''"
    using assms by (simp add: format_uuid_version uuid_stamp_def version_nibble hex_digit_def hex_digits_def)
  moreover have "?u ! 19 \<in> set ''89ab''"
  proof -
    have "drop_bit 4 (uuid_stamp b ! 8) = 8 + (drop_bit 4 (b ! 8) AND 3)"
      using assms by (simp only: uuid_stamp_def) (simp only: variant_nibble nth_list_update length_list_update, simp add: variant_nibble del: drop_bit_or)
    moreover have "w AND 3 \<in> {0, 1, 2, 3}" for w :: "8 word"
    proof -
      have "w AND 3 \<le> 3" by (rule word_and_le1)
      then have "unat (w AND 3) \<le> 3" by (simp add: word_le_nat_alt)
      then show ?thesis by (auto simp: word_unat_eq_iff)
    qed
    ultimately have "drop_bit 4 (uuid_stamp b ! 8) \<in> {8, 9, 10, 11}" by fastforce
    then show ?thesis using len by (auto simp: format_uuid_version hex_digit_def hex_digits_def)
  qed
  moreover have "?u = format_uuid (uuid_stamp c) \<longleftrightarrow> random_bits b = random_bits c"
    using format_uuid_inj [OF len] uuid_stamp_inj [OF assms] by simp
  ultimately show ?thesis by (simp add: new_uuid_v4_def)
qed

theorem generated_ids_valid_witness:
  "\<exists>u. new_uuid_v4 (Inr (replicate 16 0xff)) = Inr u \<and> is_uuid u"
  using generated_ids_valid [of "replicate 16 0xff" "replicate 16 0xff"] by auto

section \<open>Closed vocabularies\<close>

lemma room_entity_iff:
  "room_entity [RoomCallPrefix, RoomCampPrefix] room \<longleftrightarrow>
     (\<exists>u. is_uuid u \<and> (room = RoomCallPrefix @ u \<or> room = RoomCampPrefix @ u))"
  by (auto simp: has_prefix_iff RoomCallPrefix_def RoomCampPrefix_def)

text \<open>
  The wire names are closed vocabularies. A room name is accepted exactly when it is
  \<open>calls\<close>, \<open>metrics\<close>, or \<open>call:\<close>/\<open>campaign:\<close> followed by a UUID; an event kind exactly when it
  is 3 to 64 bytes of at least two non-empty parts of lower-case letters, digits, underscores and
  dashes joined by dots. In particular no control character and no markup gets through.
\<close>

theorem wire_names_closed:
  "(is_room_name room \<longleftrightarrow> room \<in> {''calls'', ''metrics''} \<or>
      (\<exists>u. is_uuid u \<and> (room = ''call:'' @ u \<or> room = ''campaign:'' @ u)))
   \<and> (is_event_kind kind \<longleftrightarrow> length kind \<in> {3..64} \<and>
      (\<exists>ps. length ps \<ge> 2 \<and> list_all (\<lambda>p. p \<noteq> [] \<and> list_all kind_char p) ps \<and> kind = join_with ''.'' ps))"
proof
  show "is_room_name room \<longleftrightarrow> room \<in> {''calls'', ''metrics''} \<or>
      (\<exists>u. is_uuid u \<and> (room = ''call:'' @ u \<or> room = ''campaign:'' @ u))"
    unfolding is_room_name_def room_entity_iff
    by (simp only: RoomCalls_def RoomMetrics_def RoomCallPrefix_def RoomCampPrefix_def) blast
  have dot: "\<not> kind_char CHR ''.''" by (simp add: kind_char_def less_eq_char_def)
  have "split_on CHR ''.'' (join_with ''.'' ps) = ps"
    if "length ps \<ge> 2" "list_all (\<lambda>p. p \<noteq> [] \<and> list_all kind_char p) ps" for ps
    using that dot by (intro split_join) (auto simp: list_all_iff)
  then show "is_event_kind kind \<longleftrightarrow> length kind \<in> {3..64} \<and>
      (\<exists>ps. length ps \<ge> 2 \<and> list_all (\<lambda>p. p \<noteq> [] \<and> list_all kind_char p) ps \<and> kind = join_with ''.'' ps)"
    using join_split [of "CHR ''.''" kind]
    by (auto simp: is_event_kind_def Let_def not_less)
qed

lemma uuid_no_bar: "is_uuid u \<Longrightarrow> CHR ''|'' \<notin> set u"
proof
  assume u: "is_uuid u" and "CHR ''|'' \<in> set u"
  then obtain i where i: "i < 36" "u ! i = CHR ''|''" by (auto simp: is_uuid_def in_set_conv_nth)
  from u have "\<forall>i \<in> set [0 ..< 36]. if i \<in> {8, 13, 18, 23} then u ! i = CHR ''-'' else is_hex (u ! i)"
    unfolding is_uuid_def list_all_iff by blast
  from bspec [OF this, of i] i
  have "if i \<in> {8, 13, 18, 23} then u ! i = CHR ''-'' else is_hex (u ! i)" by (simp only: set_upt atLeastLessThan_iff) simp
  moreover have "\<not> is_hex CHR ''|''" by (simp add: is_hex_iff)
  ultimately show False using i by (simp split: if_splits)
qed

end
