(* ===== verification/Gw_Idempotency.thy ===== *)
theory Gw_Idempotency
  imports Gw_Validate
begin

text \<open>
  The replay guard of the ingest path (\<open>internal/idempotency\<close>): a time-bounded cache of the
  (tenant, event) pairs already fanned out, with amortised sweeps and eviction under pressure. The
  order in which the eviction loop visits the map is chosen by the runtime; it is the argument
  \<open>pick\<close>, a function from the map to the order of its keys.

  \<open>once_guard\<close> is the contract that a publisher relies on inside one burst; \<open>signal-go\<close>'s guard,
  which never forgets, provides it too (\<open>Sg_Idempotency\<close>).
\<close>

section \<open>Contract\<close>

locale once_guard =
  fixes ok :: "'s \<Rightarrow> bool"
    and live :: "'t \<Rightarrow> 's \<Rightarrow> 'k \<Rightarrow> bool"
    and fresh :: "'t \<Rightarrow> 's \<Rightarrow> 'k \<Rightarrow> bool"
    and hit :: "'s \<Rightarrow> 'k \<Rightarrow> 't \<Rightarrow> bool \<times> 's"
  assumes hit_ok: "ok s \<Longrightarrow> ok (snd (hit s k now))"
    and hit_live: "ok s \<Longrightarrow> fst (hit s k now) = live now s k"
    and fresh_live: "ok s \<Longrightarrow> fresh now s k \<Longrightarrow> live now s k"
    and hit_fresh: "ok s \<Longrightarrow> \<not> live now s k \<Longrightarrow> fresh now (snd (hit s k now)) k"
    and fresh_stays: "ok s \<Longrightarrow> fresh now s k \<Longrightarrow> fresh now (snd (hit s k' now)) k"
    and no_false_hit: "ok s \<Longrightarrow> k' \<noteq> k \<Longrightarrow> live now (snd (hit s k now)) k' \<Longrightarrow> live now s k'"
begin

text \<open>The keys of a burst at one instant that are let through.\<close>

primrec admitted :: "'t \<Rightarrow> 's \<Rightarrow> 'k list \<Rightarrow> 'k list" where
  "admitted now s [] = []"
| "admitted now s (k # ks) =
     (let (dup, s') = hit s k now in if dup then admitted now s' ks else k # admitted now s' ks)"

lemma admitted_fresh: "ok s \<Longrightarrow> fresh now s k \<Longrightarrow> k \<notin> set (admitted now s ks)"
proof (induction ks arbitrary: s)
  case (Cons a ks)
  from Cons.IH [OF hit_ok fresh_stays, OF Cons.prems(1) Cons.prems]
  have "k \<notin> set (admitted now (snd (hit s a now)) ks)" .
  moreover have "fst (hit s a now)" if "a = k" using that fresh_live [OF Cons.prems] Cons.prems by (simp add: hit_live)
  ultimately show ?case by (auto simp: case_prod_unfold Let_def)
qed simp

lemma once_per_burst: "ok s \<Longrightarrow> \<not> live now s k \<Longrightarrow> k \<in> set ks \<Longrightarrow> count_list (admitted now s ks) k = 1"
proof (induction ks arbitrary: s)
  case (Cons a ks)
  note ok = hit_ok [OF Cons.prems(1), of a now]
  show ?case
  proof (cases "a = k")
    case True
    have "k \<notin> set (admitted now (snd (hit s k now)) ks)"
      using admitted_fresh [OF hit_ok hit_fresh, OF Cons.prems(1) Cons.prems(1,2)] .
    with True Cons.prems show ?thesis by (simp add: case_prod_unfold Let_def hit_live)
  next
    case False
    have "\<not> live now (snd (hit s a now)) k"
      using no_false_hit [OF Cons.prems(1), of k a now] Cons.prems(2) False by blast
    with False Cons.IH [OF ok] Cons.prems show ?thesis by (simp add: case_prod_unfold Let_def)
  qed
qed simp

end

section \<open>The store\<close>

record store =
  st_seen :: "(string, time) fmap"
  st_ttl :: duration
  st_capacity :: int
  st_lastSweep :: time

definition new_store :: "duration \<Rightarrow> int \<Rightarrow> store" where
  "new_store ttl capacity = \<lparr>st_seen = fmempty, st_ttl = ttl, st_capacity = capacity, st_lastSweep = zero_time\<rparr>"

definition idem_key :: "string \<Rightarrow> string \<Rightarrow> string" where
  "idem_key tenantID eventID = tenantID @ ''|'' @ eventID"

fun evict_loop :: "time \<Rightarrow> int \<Rightarrow> int \<Rightarrow> string list \<Rightarrow> (string, time) fmap \<Rightarrow> (string, time) fmap" where
  "evict_loop cutoff target evicted [] seen = seen"
| "evict_loop cutoff target evicted (k # ks) seen =
     (case fmlookup seen k of
        None \<Rightarrow> evict_loop cutoff target evicted ks seen
      | Some seen_at \<Rightarrow>
          if seen_at < cutoff then
            (if evicted + 1 \<ge> target then fmdrop k seen
             else evict_loop cutoff target (evicted + 1) ks (fmdrop k seen))
          else evict_loop cutoff target evicted ks seen)"

definition drop_expired :: "duration \<Rightarrow> time \<Rightarrow> (string, time) fmap \<Rightarrow> (string, time) fmap" where
  "drop_expired ttl now seen =
     fmfilter (\<lambda>k. case fmlookup seen k of None \<Rightarrow> False | Some seen_at \<Rightarrow> \<not> time_sub now seen_at \<ge> ttl) seen"

definition sweep :: "((string, time) fmap \<Rightarrow> string list) \<Rightarrow> store \<Rightarrow> time \<Rightarrow> store" where
  "sweep pick s now =
     (let s1 = s\<lparr>st_lastSweep := now, st_seen := drop_expired (st_ttl s) now (st_seen s)\<rparr>
      in if int (fmlen (st_seen s1)) < st_capacity s1 then s1
         else
           let cutoff = now + go_div (- st_ttl s1) 2;
               target = go_div (st_capacity s1) 10
           in s1\<lparr>st_seen := evict_loop cutoff target 0 (pick (st_seen s1)) (st_seen s1)\<rparr>)"

definition seen_key :: "((string, time) fmap \<Rightarrow> string list) \<Rightarrow> store \<Rightarrow> string \<Rightarrow> time \<Rightarrow> bool \<times> store" where
  "seen_key pick s k now =
     (let dup = (case fmlookup (st_seen s) k of None \<Rightarrow> False | Some seen_at \<Rightarrow> time_sub now seen_at < st_ttl s)
      in if dup then (True, s)
         else
           let s1 = (if int (fmlen (st_seen s)) \<ge> st_capacity s \<or> time_sub now (st_lastSweep s) \<ge> st_ttl s
                     then sweep pick s now else s)
           in (False, s1\<lparr>st_seen := fmupd k now (st_seen s1)\<rparr>))"

definition seen_before ::
  "((string, time) fmap \<Rightarrow> string list) \<Rightarrow> store \<Rightarrow> string \<Rightarrow> string \<Rightarrow> time \<Rightarrow> bool \<times> store"
where
  "seen_before pick s tenantID eventID now = seen_key pick s (idem_key tenantID eventID) now"

definition store_len :: "store \<Rightarrow> nat" where
  "store_len s = fmlen (st_seen s)"

section \<open>What a sweep keeps\<close>

lemma evict_loop_lookup:
  "fmlookup (evict_loop cutoff target n ks seen) k = Some a \<Longrightarrow> fmlookup seen k = Some a"
  by (induction cutoff target n ks seen rule: evict_loop.induct) (auto split: option.splits if_splits)

lemma evict_loop_keeps:
  "fmlookup seen k = Some a \<Longrightarrow> cutoff \<le> a \<Longrightarrow> fmlookup (evict_loop cutoff target n ks seen) k = Some a"
  by (induction cutoff target n ks seen rule: evict_loop.induct) (auto split: option.splits if_splits)

lemma drop_expired_lookup:
  "fmlookup (drop_expired ttl now seen) k =
     (case fmlookup seen k of None \<Rightarrow> None | Some a \<Rightarrow> if time_sub now a \<ge> ttl then None else Some a)"
  by (auto simp: drop_expired_def split: option.splits)

lemma sweep_frame [gw_frame]:
  "st_ttl (sweep pick s now) = st_ttl s" "st_capacity (sweep pick s now) = st_capacity s"
  by (simp_all add: sweep_def Let_def)

lemma sweep_sub: "fmlookup (st_seen (sweep pick s now)) k = Some a \<Longrightarrow> fmlookup (st_seen s) k = Some a"
  by (auto simp: sweep_def Let_def drop_expired_lookup dest!: evict_loop_lookup split: if_splits option.splits)

lemma sweep_keeps:
  assumes "fmlookup (st_seen s) k = Some a" and "time_sub now a < st_ttl s" and "now + go_div (- st_ttl s) 2 \<le> a"
  shows "fmlookup (st_seen (sweep pick s now)) k = Some a"
  using assms by (auto simp: sweep_def Let_def drop_expired_lookup intro: evict_loop_keeps)

lemma go_div_neg_half: "0 \<le> d \<Longrightarrow> go_div (- d) 2 = - (d div 2)"
  by (cases "d = 0") (auto simp: go_div_def)

definition key_live :: "time \<Rightarrow> store \<Rightarrow> string \<Rightarrow> bool" where
  "key_live now s k =
     (case fmlookup (st_seen s) k of None \<Rightarrow> False | Some a \<Rightarrow> time_sub now a < st_ttl s)"

lemma seen_key_frame [gw_frame]:
  "st_ttl (snd (seen_key pick s k now)) = st_ttl s" "st_capacity (snd (seen_key pick s k now)) = st_capacity s"
  by (auto simp: seen_key_def Let_def sweep_frame)

lemma seen_key_fst: "fst (seen_key pick s k now) = key_live now s k"
  by (auto simp: seen_key_def Let_def key_live_def split: option.splits)

lemma seen_key_records: "\<not> key_live now s k \<Longrightarrow> fmlookup (st_seen (snd (seen_key pick s k now))) k = Some now"
  by (auto simp: seen_key_def Let_def key_live_def split: option.splits)

lemma seen_key_sub:
  "fmlookup (st_seen (snd (seen_key pick s k now))) k' = Some a \<Longrightarrow> k' \<noteq> k \<Longrightarrow> fmlookup (st_seen s) k' = Some a"
  by (auto simp: seen_key_def Let_def dest: sweep_sub split: if_splits)

definition store_ok :: "store \<Rightarrow> bool" where
  "store_ok s \<longleftrightarrow> 0 < st_ttl s \<and> st_ttl s \<le> max_duration"

lemma half_less: "store_ok s \<Longrightarrow> st_ttl s div 2 < st_ttl s"
  by (simp add: store_ok_def int_div_less_self)

lemma young_live: "store_ok s \<Longrightarrow> now - a < st_ttl s \<longleftrightarrow> time_sub now a < st_ttl s"
  using time_sub_less_iff [of "st_ttl s" now a] by (simp add: store_ok_def)

lemma seen_key_keeps:
  assumes "store_ok s" and "fmlookup (st_seen s) k = Some a" and "now - a \<le> st_ttl s div 2"
  shows "fmlookup (st_seen (snd (seen_key pick s k' now))) k = Some a"
proof -
  have "st_ttl s div 2 < st_ttl s" by (rule half_less [OF assms(1)])
  with assms(3) have "now - a < st_ttl s" by linarith
  then have young: "time_sub now a < st_ttl s" using young_live [OF assms(1)] by blast
  have "now + go_div (- st_ttl s) 2 \<le> a" using assms(1,3) by (simp add: go_div_neg_half store_ok_def)
  with assms(2) young sweep_keeps [OF assms(2) young, of pick] show ?thesis
    by (auto simp: seen_key_def Let_def)
qed

definition key_fresh :: "time \<Rightarrow> store \<Rightarrow> string \<Rightarrow> bool" where
  "key_fresh now s k \<longleftrightarrow> fmlookup (st_seen s) k = Some now"

interpretation guard: once_guard store_ok key_live key_fresh "seen_key pick"
  for pick :: "(string, time) fmap \<Rightarrow> string list"
proof
  fix s k k' and now :: time
  show "store_ok s \<Longrightarrow> store_ok (snd (seen_key pick s k now))" by (simp add: store_ok_def seen_key_frame)
  show "fst (seen_key pick s k now) = key_live now s k" by (rule seen_key_fst)
  show "store_ok s \<Longrightarrow> key_fresh now s k \<Longrightarrow> key_live now s k"
    by (simp add: key_fresh_def key_live_def store_ok_def time_sub_def min_duration_def)
  show "\<not> key_live now s k \<Longrightarrow> key_fresh now (snd (seen_key pick s k now)) k"
    by (simp add: key_fresh_def seen_key_records)
  show "store_ok s \<Longrightarrow> key_fresh now s k \<Longrightarrow> key_fresh now (snd (seen_key pick s k' now)) k"
    unfolding key_fresh_def by (rule seen_key_keeps) (auto simp: store_ok_def)
  show "k' \<noteq> k \<Longrightarrow> key_live now (snd (seen_key pick s k now)) k' \<Longrightarrow> key_live now s k'"
    by (auto simp: key_live_def seen_key_frame dest: seen_key_sub split: option.splits)
qed

section \<open>Properties\<close>

text \<open>The store after a sequence of calls \<open>(tenant, event, now)\<close>.\<close>

primrec after_calls ::
  "((string, time) fmap \<Rightarrow> string list) \<Rightarrow> store \<Rightarrow> (string \<times> string \<times> time) list \<Rightarrow> store"
where
  "after_calls pick s [] = s"
| "after_calls pick s (c # cs) = after_calls pick (snd (seen_before pick s (fst c) (fst (snd c)) (snd (snd c)))) cs"

lemma after_calls_keeps:
  assumes "store_ok s" and "fmlookup (st_seen s) k = Some a" and "\<forall>(t, e, n) \<in> set cs. n - a \<le> st_ttl s div 2"
  shows "fmlookup (st_seen (after_calls pick s cs)) k = Some a \<and> store_ok (after_calls pick s cs)
    \<and> st_ttl (after_calls pick s cs) = st_ttl s"
  using assms
proof (induction cs arbitrary: s)
  case (Cons c cs)
  let ?s = "snd (seen_before pick s (fst c) (fst (snd c)) (snd (snd c)))"
  have "snd (snd c) - a \<le> st_ttl s div 2" using Cons.prems(3) by (auto simp: case_prod_unfold)
  then have "fmlookup (st_seen ?s) k = Some a"
    unfolding seen_before_def by (rule seen_key_keeps [OF Cons.prems(1,2)])
  moreover have "store_ok ?s" "st_ttl ?s = st_ttl s"
    using Cons.prems(1) by (simp_all add: seen_before_def store_ok_def seen_key_frame)
  ultimately show ?case using Cons.IH [of ?s] Cons.prems(3) by simp
qed simp

text \<open>
  C25. Half the TTL is a guaranteed replay window. Once a (tenant, event) pair has been let through
  at \<open>t0\<close>, any later call for it is suppressed until at least \<open>t0 + ttl / 2\<close>, whatever calls come in
  between, however many sweeps and evictions they cause under capacity pressure, and whatever
  order the eviction visits the map in.
\<close>

theorem replay_window:
  assumes "store_ok s" and "\<not> fst (seen_before pick s t e t0)"
    and "\<forall>(t', e', n) \<in> set cs. n \<le> t0 + st_ttl s div 2" and "now \<le> t0 + st_ttl s div 2"
  shows "fst (seen_before pick (after_calls pick (snd (seen_before pick s t e t0)) cs) t e now)"
proof -
  let ?s = "snd (seen_before pick s t e t0)"
  have "\<not> key_live t0 s (idem_key t e)" using assms(2) by (simp add: seen_before_def seen_key_fst)
  then have rec: "fmlookup (st_seen ?s) (idem_key t e) = Some t0"
    by (simp add: seen_before_def seen_key_records)
  have ok: "store_ok ?s" and ttl: "st_ttl ?s = st_ttl s"
    using assms(1) by (simp_all add: seen_before_def store_ok_def seen_key_frame)
  have "\<forall>(t', e', n) \<in> set cs. n - t0 \<le> st_ttl ?s div 2" using assms(3) ttl by (auto simp: case_prod_unfold)
  note kept = after_calls_keeps [OF ok rec this, of pick]
  have "st_ttl s div 2 < st_ttl s" by (rule half_less [OF assms(1)])
  then have "now - t0 < st_ttl s" using assms(4) by linarith
  then have "time_sub now t0 < st_ttl s" using young_live [OF assms(1)] by blast
  with kept ttl show ?thesis by (simp add: seen_before_def seen_key_fst key_live_def)
qed

theorem replay_window_witness:
  "fst (seen_before (\<lambda>m. []) (after_calls (\<lambda>m. []) (snd (seen_before (\<lambda>m. []) (new_store 600 1) ''T'' ''e'' 1000))
     [(''T'', ''f'', 1100), (''U'', ''e'', 1200)]) ''T'' ''e'' 1300)"
  by (rule replay_window)
    (auto simp: store_ok_def new_store_def max_duration_def seen_before_def seen_key_def Let_def)

lemma idem_key_inj:
  assumes "is_uuid t" and "is_uuid t'"
  shows "idem_key t e = idem_key t' e' \<longleftrightarrow> t = t' \<and> e = e'"
  using assms by (auto simp: idem_key_def is_uuid_def)

lemma inj_on_idem_key: "\<forall>p \<in> S. is_uuid (fst p) \<Longrightarrow> inj_on (\<lambda>p. idem_key (fst p) (snd p)) S"
proof (rule inj_onI)
  fix p q assume "\<forall>p \<in> S. is_uuid (fst p)" "p \<in> S" "q \<in> S" "idem_key (fst p) (snd p) = idem_key (fst q) (snd q)"
  then show "p = q" using idem_key_inj [of "fst p" "fst q" "snd p" "snd q"] by (simp add: prod_eq_iff)
qed

text \<open>The pairs of a burst at one instant that \<open>seen_before\<close> lets through.\<close>

primrec let_through ::
  "((string, time) fmap \<Rightarrow> string list) \<Rightarrow> store \<Rightarrow> time \<Rightarrow> (string \<times> string) list \<Rightarrow> (string \<times> string) list"
where
  "let_through pick s now [] = []"
| "let_through pick s now (p # ps) =
     (let (dup, s') = seen_before pick s (fst p) (snd p) now
      in if dup then let_through pick s' now ps else p # let_through pick s' now ps)"

lemma let_through_keys:
  "map (\<lambda>p. idem_key (fst p) (snd p)) (let_through pick s now ps)
     = guard.admitted pick now s (map (\<lambda>p. idem_key (fst p) (snd p)) ps)"
  by (induction ps arbitrary: s) (simp_all add: seen_before_def case_prod_unfold Let_def)

lemma let_through_subset: "set (let_through pick s now ps) \<subseteq> set ps"
  by (induction ps arbitrary: s) (auto simp: case_prod_unfold Let_def)

lemma count_list_map_inj:
  "inj_on f (insert x (set xs)) \<Longrightarrow> count_list (map f xs) (f x) = count_list xs x"
  by (induction xs) (auto simp: inj_on_def)

text \<open>
  A burst lets every event through exactly once, per tenant. For publishers whose tenant ids are
  UUIDs, any event that the store does not already suppress is let through exactly once, however
  often and in whatever order it is repeated in a burst; the same event id of another tenant counts
  separately.
\<close>

theorem burst_exactly_once:
  assumes "store_ok s" and "\<forall>p \<in> set ps. is_uuid (fst p)" and "(t, e) \<in> set ps"
    and "\<not> fst (seen_before pick s t e now)"
  shows "count_list (let_through pick s now ps) (t, e) = 1"
proof -
  let ?f = "\<lambda>p :: string \<times> string. idem_key (fst p) (snd p)"
  have inj: "inj_on ?f (set ps)" by (rule inj_on_idem_key [OF assms(2)])
  have "\<not> key_live now s (?f (t, e))" using assms(4) by (simp add: seen_before_def seen_key_fst)
  moreover have "?f (t, e) \<in> set (map ?f ps)" unfolding set_map by (rule imageI [OF assms(3)])
  ultimately have "count_list (guard.admitted pick now s (map ?f ps)) (?f (t, e)) = 1"
    by (rule guard.once_per_burst [OF assms(1)])
  then have one: "count_list (map ?f (let_through pick s now ps)) (?f (t, e)) = 1" unfolding let_through_keys .
  have "insert (t, e) (set (let_through pick s now ps)) \<subseteq> set ps"
    using let_through_subset [of pick s now ps] assms(3) by simp
  then have "inj_on ?f (insert (t, e) (set (let_through pick s now ps)))"
    by (rule inj_on_subset [OF inj])
  from count_list_map_inj [OF this] one show ?thesis by argo
qed

theorem burst_exactly_once_witness:
  "count_list (let_through (\<lambda>m. []) (new_store 600 100) 1000
     (replicate 3 (''11111111-1111-4111-8111-111111111111'', ''e''))) (''11111111-1111-4111-8111-111111111111'', ''e'') = 1"
proof (rule burst_exactly_once)
  show "store_ok (new_store 600 100)" by (simp add: store_ok_def new_store_def max_duration_def)
  show "\<forall>p \<in> set (replicate 3 (''11111111-1111-4111-8111-111111111111'', ''e'')). is_uuid (fst p)"
    by (simp add: is_uuid_def is_hex_iff upt_rec)
qed (simp_all add: seen_before_def seen_key_def new_store_def numeral_3_eq_3 Let_def)

text \<open>
  The capacity does not bound the map. Distinct events of one instant are all kept, whatever the
  capacity: the eviction only ever removes entries older than half the TTL.
\<close>

theorem capacity_not_a_bound:
  assumes "0 < ttl" and "ttl \<le> max_duration" and "distinct ps" and "\<forall>p \<in> set ps. is_uuid (fst p)"
  shows "store_len (after_calls pick (new_store ttl capacity) (map (\<lambda>p. (fst p, snd p, now)) ps)) = length ps"
proof -
  let ?f = "\<lambda>p :: string \<times> string. idem_key (fst p) (snd p)"
  let ?r = "\<lambda>s ps. after_calls pick s (map (\<lambda>p. (fst p, snd p, now)) ps)"
  have keep: "fmlookup (st_seen (?r s qs)) k = Some now" if "store_ok s" "fmlookup (st_seen s) k = Some now" for s k qs
    using after_calls_keeps [OF that, of "map (\<lambda>p. (fst p, snd p, now)) qs" pick] that(1)
    by (auto simp: store_ok_def)
  have dom: "fmdom' (st_seen (?r s qs)) = fmdom' (st_seen s) \<union> ?f ` set qs"
    if "store_ok s" "\<forall>k a. fmlookup (st_seen s) k = Some a \<longrightarrow> a = now" for s qs
    using that
  proof (induction qs arbitrary: s)
    case (Cons q qs)
    let ?s = "snd (seen_key pick s (?f q) now)"
    have ok: "store_ok ?s" using Cons.prems(1) by (simp add: store_ok_def seen_key_frame)
    have young: "\<forall>k a. fmlookup (st_seen ?s) k = Some a \<longrightarrow> a = now"
    proof (intro allI impI)
      fix k a assume a: "fmlookup (st_seen ?s) k = Some a"
      show "a = now"
      proof (cases "k = ?f q \<and> \<not> key_live now s k")
        case True
        then have k: "k = ?f q" and "\<not> key_live now s (?f q)" by auto
        from a k seen_key_records [OF this(2), of pick] show ?thesis by simp
      next
        case False
        have "fmlookup (st_seen s) k = Some a"
        proof (cases "k = ?f q")
          case True
          with False have "seen_key pick s k now = (True, s)" by (auto simp: seen_key_def key_live_def Let_def)
          with a True show ?thesis by simp
        next
          case other: False
          from seen_key_sub [OF a other] show ?thesis .
        qed
        with Cons.prems(2) show ?thesis by blast
      qed
    qed
    have "fmlookup (st_seen ?s) k \<noteq> None \<longleftrightarrow> fmlookup (st_seen s) k \<noteq> None \<or> k = ?f q" for k
    proof
      assume "fmlookup (st_seen ?s) k \<noteq> None"
      then show "fmlookup (st_seen s) k \<noteq> None \<or> k = ?f q" using seen_key_sub [of pick s "?f q" now k] by fastforce
    next
      assume *: "fmlookup (st_seen s) k \<noteq> None \<or> k = ?f q"
      show "fmlookup (st_seen ?s) k \<noteq> None"
      proof (cases "fmlookup (st_seen s) k")
        case (Some a)
        then have "fmlookup (st_seen s) k = Some now" using Cons.prems(2) by blast
        moreover have "now - now \<le> st_ttl s div 2" using Cons.prems(1) by (simp add: store_ok_def)
        ultimately show ?thesis using seen_key_keeps [OF Cons.prems(1), of k now now pick "?f q"] by simp
      next
        case None
        with * have "k = ?f q" "\<not> key_live now s (?f q)" by (auto simp: key_live_def)
        then show ?thesis using seen_key_records [of now s "?f q" pick] by simp
      qed
    qed
    then have "fmdom' (st_seen ?s) = insert (?f q) (fmdom' (st_seen s))"
      by (auto simp: fmlookup_dom'_iff set_eq_iff)
    with Cons.IH [OF ok young] show ?case by (simp add: seen_before_def)
  qed simp
  have inj: "inj_on ?f (set ps)" by (rule inj_on_idem_key [OF assms(4)])
  have "fmdom' (st_seen (?r (new_store ttl capacity) ps)) = ?f ` set ps"
    using dom [of "new_store ttl capacity" ps] assms(1,2) by (simp add: new_store_def store_ok_def)
  then show ?thesis by (simp add: store_len_def fmlen_card card_image [OF inj] distinct_card [OF assms(3)])
qed

theorem capacity_not_a_bound_witness:
  "store_len (after_calls (\<lambda>m. []) (new_store 600 1) (map (\<lambda>p. (fst p, snd p, 1000))
     [(''11111111-1111-4111-8111-111111111111'', ''e''), (''11111111-1111-4111-8111-111111111111'', ''f'')])) = 2"
proof -
  have "store_len (after_calls (\<lambda>m. []) (new_store 600 1) (map (\<lambda>p. (fst p, snd p, 1000))
     [(''11111111-1111-4111-8111-111111111111'', ''e''), (''11111111-1111-4111-8111-111111111111'', ''f'')]))
     = length [(''11111111-1111-4111-8111-111111111111'', ''e''), (''11111111-1111-4111-8111-111111111111'', ''f'')]"
    by (rule capacity_not_a_bound) (simp_all add: max_duration_def is_uuid_def is_hex_iff upt_rec)
  then show ?thesis by simp
qed

end
