(* ===== verification/Gw_Presence.thy ===== *)
theory Gw_Presence
  imports Gw_Prelude
begin

text \<open>
  Which dashboard users are reachable (\<open>internal/presence\<close>): the registry tenant -> user -> live
  sessions, its transitions and snapshots, and the subscribers of state changes. The abstract view is
  the set of live (tenant, user, session) triples; every operation and every number of an event is
  proved to be a function of it.
\<close>

section \<open>Events\<close>

datatype presence_kind = KindUnchanged | KindUserOnline | KindUserOffline | KindSessionJoined | KindSessionLeft

definition presence_kind_string :: "presence_kind \<Rightarrow> string" where
  "presence_kind_string k =
     (case k of
        KindUserOnline \<Rightarrow> ''user_online''
      | KindUserOffline \<Rightarrow> ''user_offline''
      | KindSessionJoined \<Rightarrow> ''session_joined''
      | KindSessionLeft \<Rightarrow> ''session_left''
      | KindUnchanged \<Rightarrow> ''unchanged'')"

record presence_event =
  pe_Kind :: presence_kind
  pe_TenantID :: string
  pe_UserID :: string
  pe_SessionID :: string
  pe_At :: time
  pe_UserSessions :: nat
  pe_TenantUsers :: nat
  pe_TotalUsers :: nat

definition unchanged_event :: "time \<Rightarrow> presence_event" where
  "unchanged_event now =
     \<lparr>pe_Kind = KindUnchanged, pe_TenantID = '''', pe_UserID = '''', pe_SessionID = '''', pe_At = now,
      pe_UserSessions = 0, pe_TenantUsers = 0, pe_TotalUsers = 0\<rparr>"

section \<open>Registry\<close>

type_synonym users = "(string, string fset) fmap"

record presence =
  p_byTenant :: "(string, users) fmap"
  p_onChange :: "nat list" \<comment> \<open>the subscribed callbacks, in registration order\<close>

definition presence_new :: presence where
  "presence_new = \<lparr>p_byTenant = fmempty, p_onChange = []\<rparr>"

definition users_of :: "(string, users) fmap \<Rightarrow> string \<Rightarrow> users" where
  "users_of m tenantID = fmget fmempty m tenantID"

definition user_sessions :: "(string, users) fmap \<Rightarrow> string \<Rightarrow> string \<Rightarrow> string fset" where
  "user_sessions m tenantID userID = fmget {||} (users_of m tenantID) userID"

definition total_users_locked :: "(string, users) fmap \<Rightarrow> nat" where
  "total_users_locked m = (\<Sum>t \<in> fmdom' m. fmlen (users_of m t))"

text \<open>\<open>emit\<close>: the callbacks that run, each with the event, after the mutex is released.\<close>

definition presence_emit :: "presence \<Rightarrow> presence_event \<Rightarrow> (nat \<times> presence_event) list" where
  "presence_emit r ev =
     (if pe_Kind ev = KindUnchanged then [] else map (\<lambda>fn. (fn, ev)) (p_onChange r))"

definition on_change :: "presence \<Rightarrow> nat \<Rightarrow> presence" where
  "on_change r fn = r\<lparr>p_onChange := p_onChange r @ [fn]\<rparr>"

definition online ::
  "presence \<Rightarrow> string \<Rightarrow> string \<Rightarrow> string \<Rightarrow> time \<Rightarrow> presence_event \<times> (nat \<times> presence_event) list \<times> presence"
where
  "online r tenantID userID sessionID now =
     (if tenantID = '''' \<or> userID = '''' \<or> sessionID = '''' then (unchanged_event now, [], r)
      else
        let users0 = users_of (p_byTenant r) tenantID;
            sessions0 = fmget {||} users0 userID;
            existed = (sessionID |\<in>| sessions0);
            sessions = finsert sessionID sessions0;
            users = fmupd userID sessions users0;
            m = fmupd tenantID users (p_byTenant r);
            kind = (if \<not> existed then (if fcard sessions = 1 then KindUserOnline else KindSessionJoined)
                    else KindUnchanged);
            ev = \<lparr>pe_Kind = kind, pe_TenantID = tenantID, pe_UserID = userID, pe_SessionID = sessionID,
                  pe_At = now, pe_UserSessions = fcard sessions, pe_TenantUsers = fmlen users,
                  pe_TotalUsers = total_users_locked m\<rparr>;
            r' = r\<lparr>p_byTenant := m\<rparr>
        in (ev, presence_emit r' ev, r'))"

definition offline ::
  "presence \<Rightarrow> string \<Rightarrow> string \<Rightarrow> string \<Rightarrow> time \<Rightarrow> presence_event \<times> (nat \<times> presence_event) list \<times> presence"
where
  "offline r tenantID userID sessionID now =
     (case fmlookup (p_byTenant r) tenantID of
        None \<Rightarrow> (unchanged_event now, [], r)
      | Some users0 \<Rightarrow>
          (case fmlookup users0 userID of
             None \<Rightarrow> (unchanged_event now, [], r)
           | Some sessions0 \<Rightarrow>
               if sessionID |\<notin>| sessions0 then (unchanged_event now, [], r)
               else
                 let sessions = sessions0 |-| {|sessionID|};
                     gone = (fcard sessions = 0);
                     users = (if gone then fmdrop userID users0 else fmupd userID sessions users0);
                     m = (if fmlen users = 0 then fmdrop tenantID (p_byTenant r)
                          else fmupd tenantID users (p_byTenant r));
                     ev = \<lparr>pe_Kind = (if gone then KindUserOffline else KindSessionLeft),
                           pe_TenantID = tenantID, pe_UserID = userID, pe_SessionID = sessionID, pe_At = now,
                           pe_UserSessions = fcard sessions, pe_TenantUsers = fmlen users,
                           pe_TotalUsers = total_users_locked m\<rparr>;
                     r' = r\<lparr>p_byTenant := m\<rparr>
                 in (ev, presence_emit r' ev, r')))"

definition is_online :: "presence \<Rightarrow> string \<Rightarrow> string \<Rightarrow> bool" where
  "is_online r tenantID userID = (0 < fcard (user_sessions (p_byTenant r) tenantID userID))"

definition sessions_of :: "presence \<Rightarrow> string \<Rightarrow> string \<Rightarrow> string list" where
  "sessions_of r tenantID userID = sorted_list_of_fset (user_sessions (p_byTenant r) tenantID userID)"

definition online_users :: "presence \<Rightarrow> string \<Rightarrow> string list" where
  "online_users r tenantID = sorted_list_of_fset (fmdom (users_of (p_byTenant r) tenantID))"

definition tenant_count :: "presence \<Rightarrow> nat" where
  "tenant_count r = fmlen (p_byTenant r)"

definition total_users :: "presence \<Rightarrow> nat" where
  "total_users r = total_users_locked (p_byTenant r)"

section \<open>Abstract view\<close>

definition triples :: "presence \<Rightarrow> (string \<times> string \<times> string) set" where
  "triples r = {(t, u, s). s |\<in>| user_sessions (p_byTenant r) t u}"

definition live_users :: "(string \<times> string \<times> string) set \<Rightarrow> (string \<times> string) set" where
  "live_users S = (\<lambda>(t, u, s). (t, u)) ` S"

definition presence_inv :: "presence \<Rightarrow> bool" where
  "presence_inv r \<longleftrightarrow>
     (\<forall>t us. fmlookup (p_byTenant r) t = Some us \<longrightarrow> us \<noteq> fmempty \<and> (\<forall>u. fmlookup us u \<noteq> Some {||}))"

lemma users_of_nonempty:
  assumes "presence_inv r"
  shows "fmlookup (users_of (p_byTenant r) t) u \<noteq> Some {||}"
  using assms by (auto simp: presence_inv_def users_of_def fmget_def split: option.splits)

lemma lookup_user:
  assumes "presence_inv r"
  shows "fmlookup (users_of (p_byTenant r) t) u \<noteq> None \<longleftrightarrow> user_sessions (p_byTenant r) t u \<noteq> {||}"
  using users_of_nonempty [OF assms, of t u] by (auto simp: user_sessions_def fmget_def split: option.splits)

lemma fmdom_users:
  assumes "presence_inv r"
  shows "fmdom' (users_of (p_byTenant r) t) = {u. \<exists>s. (t, u, s) \<in> triples r}"
  using lookup_user [OF assms, of t] by (auto simp: fmlookup_dom'_iff triples_def fset_eq_iff)

lemma fmdom_tenants:
  assumes "presence_inv r"
  shows "fmdom' (p_byTenant r) = {t. \<exists>u s. (t, u, s) \<in> triples r}"
proof -
  have "fmlookup (p_byTenant r) t \<noteq> None \<longleftrightarrow> fmdom' (users_of (p_byTenant r) t) \<noteq> {}" for t
    using assms by (auto simp: presence_inv_def users_of_def fmget_def fmdom'_empty_iff split: option.splits)
  then have "t \<in> fmdom' (p_byTenant r) \<longleftrightarrow> {u. \<exists>s. (t, u, s) \<in> triples r} \<noteq> {}" for t
    unfolding fmdom_users [OF assms] fmlookup_dom'_iff by blast
  then show ?thesis by blast
qed

lemma total_users_abs:
  assumes "presence_inv r"
  shows "total_users_locked (p_byTenant r) = card (live_users (triples r))"
proof -
  have "card (Sigma (fmdom' (p_byTenant r)) (\<lambda>t. fmdom' (users_of (p_byTenant r) t)))
      = (\<Sum>t \<in> fmdom' (p_byTenant r). card (fmdom' (users_of (p_byTenant r) t)))"
    by (rule card_SigmaI) auto
  moreover have "Sigma (fmdom' (p_byTenant r)) (\<lambda>t. fmdom' (users_of (p_byTenant r) t)) = live_users (triples r)"
    by (force simp: fmdom_users [OF assms] fmdom_tenants [OF assms] live_users_def image_iff)
  ultimately show ?thesis by (simp add: total_users_locked_def fmlen_card)
qed

lemma sessions_abs: "fcard (user_sessions (p_byTenant r) t u) = card {s. (t, u, s) \<in> triples r}"
  by (simp add: triples_def fcard.rep_eq)

lemma tenant_users_abs:
  "presence_inv r \<Longrightarrow> fmlen (users_of (p_byTenant r) t) = card {u. \<exists>s. (t, u, s) \<in> triples r}"
  by (simp add: fmlen_card fmdom_users)

section \<open>Transitions on the abstract view\<close>

lemma online_frame [gw_frame]: "p_onChange (snd (snd (online r t u s now))) = p_onChange r"
  by (simp add: online_def Let_def)

lemma offline_frame [gw_frame]: "p_onChange (snd (snd (offline r t u s now))) = p_onChange r"
  by (simp add: offline_def Let_def split: option.split)

lemma online_byTenant:
  assumes "t \<noteq> ''''" "u \<noteq> ''''" "s \<noteq> ''''"
  shows "p_byTenant (snd (snd (online r t u s now))) =
    fmupd t (fmupd u (finsert s (user_sessions (p_byTenant r) t u)) (users_of (p_byTenant r) t)) (p_byTenant r)"
  using assms by (simp add: online_def Let_def user_sessions_def)

lemma user_sessions_upd:
  "user_sessions (fmupd t (fmupd u S (users_of m t)) m) t' u' =
    (if t' = t \<and> u' = u then S else user_sessions m t' u')"
  by (simp add: user_sessions_def users_of_def)

lemma online_triples:
  "triples (snd (snd (online r t u s now))) =
    (if t = '''' \<or> u = '''' \<or> s = '''' then triples r else insert (t, u, s) (triples r))"
proof (cases "t = '''' \<or> u = '''' \<or> s = ''''")
  case True
  then show ?thesis by (auto simp: online_def)
next
  case False
  then show ?thesis by (auto simp: triples_def online_byTenant user_sessions_upd split: if_splits)
qed

lemma presence_inv_online [gw_inv]:
  assumes inv: "presence_inv r"
  shows "presence_inv (snd (snd (online r t u s now)))"
proof (cases "t = '''' \<or> u = '''' \<or> s = ''''")
  case True
  with inv show ?thesis by (auto simp: online_def)
next
  case False
  have "fmupd u S us \<noteq> fmempty" for S us by (metis fmupd_lookup fmempty_lookup option.distinct(1))
  then show ?thesis
    using inv False users_of_nonempty [OF inv, of t] by (auto simp: presence_inv_def online_byTenant)
qed

lemma offline_cases:
  assumes inv: "presence_inv r"
  obtains (absent) "(t, u, s) \<notin> triples r" "offline r t u s now = (unchanged_event now, [], r)"
  | (present) users sessions where "(t, u, s) \<in> triples r" "fmlookup (p_byTenant r) t = Some users"
      "fmlookup users u = Some sessions" "s |\<in>| sessions"
proof (cases "(t, u, s) \<in> triples r")
  case True
  then obtain users sessions where "fmlookup (p_byTenant r) t = Some users" "fmlookup users u = Some sessions" "s |\<in>| sessions"
    by (auto simp: triples_def user_sessions_def users_of_def fmget_def split: option.splits)
  with True show ?thesis by (rule present)
next
  case False
  then have "offline r t u s now = (unchanged_event now, [], r)"
    by (auto simp: offline_def triples_def user_sessions_def users_of_def fmget_def split: option.split)
  with False show ?thesis by (rule absent)
qed

lemma offline_byTenant:
  assumes "fmlookup (p_byTenant r) t = Some users" "fmlookup users u = Some sessions" "s |\<in>| sessions"
  defines "users' \<equiv> (if fcard (sessions |-| {|s|}) = 0 then fmdrop u users else fmupd u (sessions |-| {|s|}) users)"
  shows "p_byTenant (snd (snd (offline r t u s now))) =
    (if fmlen users' = 0 then fmdrop t (p_byTenant r) else fmupd t users' (p_byTenant r))"
  by (simp only: offline_def assms(1-3) option.case Let_def snd_conv presence.simps if_True if_False
      not_True_eq_False users'_def) simp

lemma users_of_offline:
  assumes "fmlookup (p_byTenant r) t = Some users" "fmlookup users u = Some sessions" "s |\<in>| sessions"
  shows "users_of (p_byTenant (snd (snd (offline r t u s now)))) t' =
    (if t' = t then (if fcard (sessions |-| {|s|}) = 0 then fmdrop u users else fmupd u (sessions |-| {|s|}) users)
     else users_of (p_byTenant r) t')"
  unfolding offline_byTenant [OF assms] users_of_def by (auto simp: fmlen_0_iff)

lemma offline_sessions:
  assumes "fmlookup (p_byTenant r) t = Some users" "fmlookup users u = Some sessions" "s |\<in>| sessions"
  shows "user_sessions (p_byTenant (snd (snd (offline r t u s now)))) t' u' =
    (if t' = t \<and> u' = u then sessions |-| {|s|} else user_sessions (p_byTenant r) t' u')"
proof -
  have "users = users_of (p_byTenant r) t" using assms(1) by (simp add: users_of_def fmget_def)
  then show ?thesis
    unfolding user_sessions_def users_of_offline [OF assms] by auto
qed

lemma offline_triples:
  assumes inv: "presence_inv r"
  shows "triples (snd (snd (offline r t u s now))) = triples r - {(t, u, s)}"
proof (cases rule: offline_cases [OF inv, of t u s now])
  case 1
  then show ?thesis by simp
next
  case (2 users sessions)
  have "sessions = user_sessions (p_byTenant r) t u"
    using 2 by (simp add: user_sessions_def users_of_def fmget_def)
  then show ?thesis
    by (auto simp: triples_def offline_sessions [OF 2(2-4)] split: if_splits)
qed

lemma presence_inv_offline [gw_inv]:
  assumes inv: "presence_inv r"
  shows "presence_inv (snd (snd (offline r t u s now)))"
proof (cases rule: offline_cases [OF inv, of t u s now])
  case 1
  with inv show ?thesis by simp
next
  case (2 users sessions)
  have "fmlookup users u' \<noteq> Some {||}" for u' using inv 2(2) by (simp add: presence_inv_def)
  then show ?thesis
    using inv by (auto simp: presence_inv_def offline_byTenant [OF 2(2-4)] fmlen_0_iff split: if_splits)
qed

inductive presence_step :: "presence \<Rightarrow> presence \<Rightarrow> bool" where
  "presence_step r (snd (snd (online r t u s now)))"
| "presence_step r (snd (snd (offline r t u s now)))"
| "presence_step r (on_change r fn)"

lemma presence_step_inv: "presence_step r r' \<Longrightarrow> presence_inv r \<Longrightarrow> presence_inv r'"
  by (induction rule: presence_step.induct) (auto intro: gw_inv, simp add: presence_inv_def on_change_def)

interpretation reachability: invariant_system "\<lambda>r. r = presence_new" presence_step presence_inv
  by unfold_locales (simp add: presence_inv_def presence_new_def, blast intro: presence_step_inv)

section \<open>Properties\<close>

lemma triples_new: "triples presence_new = {}"
  by (simp add: triples_def user_sessions_def users_of_def presence_new_def)

lemma fcard_one_iff: "s |\<notin>| S \<Longrightarrow> fcard (finsert s S) = 1 \<longleftrightarrow> S = {||}"
  by (metis One_nat_def fcard_finsert_disjoint fcard_0_eq nat.inject)

lemma online_event:
  fixes now :: time
  assumes inv: "presence_inv r" and "t \<noteq> ''''" "u \<noteq> ''''" "s \<noteq> ''''"
  defines "ev \<equiv> fst (online r t u s now)" and "T \<equiv> insert (t, u, s) (triples r)"
  shows "pe_Kind ev = (if (t, u, s) \<in> triples r then KindUnchanged
      else if (t, u) \<in> live_users (triples r) then KindSessionJoined else KindUserOnline)"
    and "pe_UserSessions ev = card {s'. (t, u, s') \<in> T}"
    and "pe_TenantUsers ev = card {u'. \<exists>s'. (t, u', s') \<in> T}"
    and "pe_TotalUsers ev = card (live_users T)"
    and "fst (snd (online r t u s now)) = (if pe_Kind ev = KindUnchanged then [] else map (\<lambda>fn. (fn, ev)) (p_onChange r))"
proof -
  let ?r' = "snd (snd (online r t u s now))" and ?S = "user_sessions (p_byTenant r) t u"
  have T: "triples ?r' = T" using assms(2-4) by (simp add: online_triples T_def)
  have inv': "presence_inv ?r'" by (rule presence_inv_online [OF inv])
  have m: "p_byTenant ?r' = fmupd t (fmupd u (finsert s ?S) (users_of (p_byTenant r) t)) (p_byTenant r)"
    using assms(2-4) by (rule online_byTenant)
  have ex: "s |\<in>| ?S \<longleftrightarrow> (t, u, s) \<in> triples r" by (simp add: triples_def)
  have lu: "(t, u) \<in> live_users (triples r) \<longleftrightarrow> ?S \<noteq> {||}"
    by (force simp: live_users_def triples_def image_iff)
  show "pe_Kind ev = (if (t, u, s) \<in> triples r then KindUnchanged
      else if (t, u) \<in> live_users (triples r) then KindSessionJoined else KindUserOnline)"
    using assms(2-4) fcard_one_iff [of s ?S] unfolding ev_def lu ex [symmetric]
    by (auto simp: online_def Let_def user_sessions_def)
  have "pe_UserSessions ev = fcard (user_sessions (p_byTenant ?r') t u)"
    using assms(2-4) by (simp add: m user_sessions_upd ev_def) (simp add: online_def Let_def user_sessions_def)
  then show "pe_UserSessions ev = card {s'. (t, u, s') \<in> T}" by (simp add: sessions_abs T)
  have "pe_TenantUsers ev = fmlen (users_of (p_byTenant ?r') t)"
    using assms(2-4) unfolding m by (simp add: users_of_def ev_def) (simp add: online_def Let_def user_sessions_def users_of_def)
  then show "pe_TenantUsers ev = card {u'. \<exists>s'. (t, u', s') \<in> T}" by (simp add: tenant_users_abs [OF inv'] T)
  have "pe_TotalUsers ev = total_users_locked (p_byTenant ?r')"
    using assms(2-4) by (simp add: ev_def online_def Let_def)
  then show "pe_TotalUsers ev = card (live_users T)" by (simp add: total_users_abs [OF inv'] T)
  show "fst (snd (online r t u s now)) = (if pe_Kind ev = KindUnchanged then [] else map (\<lambda>fn. (fn, ev)) (p_onChange r))"
    using assms(2-4) by (simp add: ev_def online_def Let_def presence_emit_def)
qed

lemma offline_event:
  fixes now :: time
  assumes inv: "presence_inv r" and mem: "(t, u, s) \<in> triples r"
  defines "ev \<equiv> fst (offline r t u s now)" and "T \<equiv> triples r - {(t, u, s)}"
  shows "pe_Kind ev = (if (t, u) \<in> live_users T then KindSessionLeft else KindUserOffline)"
    and "pe_UserSessions ev = card {s'. (t, u, s') \<in> T}"
    and "pe_TenantUsers ev = card {u'. \<exists>s'. (t, u', s') \<in> T}"
    and "pe_TotalUsers ev = card (live_users T)"
    and "fst (snd (offline r t u s now)) = map (\<lambda>fn. (fn, ev)) (p_onChange r)"
proof -
  let ?r' = "snd (snd (offline r t u s now))"
  obtain users sessions where us: "fmlookup (p_byTenant r) t = Some users" "fmlookup users u = Some sessions" "s |\<in>| sessions"
    using mem by (cases rule: offline_cases [OF inv, of t u s now]) auto
  let ?users = "if fcard (sessions |-| {|s|}) = 0 then fmdrop u users else fmupd u (sessions |-| {|s|}) users"
  have ev: "ev = \<lparr>pe_Kind = (if fcard (sessions |-| {|s|}) = 0 then KindUserOffline else KindSessionLeft),
      pe_TenantID = t, pe_UserID = u, pe_SessionID = s, pe_At = now, pe_UserSessions = fcard (sessions |-| {|s|}),
      pe_TenantUsers = fmlen ?users, pe_TotalUsers = total_users_locked (p_byTenant ?r')\<rparr>"
    unfolding ev_def by (simp only: offline_def us option.case Let_def snd_conv fst_conv presence.simps if_True if_False
      not_True_eq_False) simp
  have T: "triples ?r' = T" by (simp add: offline_triples [OF inv] T_def)
  have inv': "presence_inv ?r'" by (rule presence_inv_offline [OF inv])
  have S: "user_sessions (p_byTenant ?r') t u = sessions |-| {|s|}" by (simp add: offline_sessions [OF us])
  have U: "users_of (p_byTenant ?r') t = ?users" by (simp only: users_of_offline [OF us] refl if_True)
  have "(t, u) \<in> live_users T \<longleftrightarrow> sessions |-| {|s|} \<noteq> {||}"
    unfolding T [symmetric] by (force simp: live_users_def triples_def image_iff S)
  then show "pe_Kind ev = (if (t, u) \<in> live_users T then KindSessionLeft else KindUserOffline)"
    unfolding ev by (simp only: presence_event.simps fcard_0_eq if_not_P if_P split: if_split) blast
  show "pe_UserSessions ev = card {s'. (t, u, s') \<in> T}"
    using sessions_abs [of ?r' t u] unfolding S T ev by simp
  show "pe_TenantUsers ev = card {u'. \<exists>s'. (t, u', s') \<in> T}"
    using tenant_users_abs [OF inv', of t] unfolding U T ev by simp
  show "pe_TotalUsers ev = card (live_users T)"
    using total_users_abs [OF inv'] unfolding T ev by simp
  show "fst (snd (offline r t u s now)) = map (\<lambda>fn. (fn, ev)) (p_onChange r)"
    unfolding ev_def by (simp only: offline_def us option.case Let_def snd_conv fst_conv if_True if_False
      not_True_eq_False presence_emit_def) simp
qed

text \<open>
  C27. Presence refines the set of live triples. On every reachable registry, \<open>Online\<close> with non-empty
  keys inserts exactly its (tenant, user, session) triple and \<open>Offline\<close> removes exactly it; the
  event's kind says whether the session is new and whether it is the user's first, respectively
  last; its three counts are those of the resulting set; and the callbacks run, in registration
  order, exactly when the set changed.
\<close>

theorem presence_refines_triples:
  assumes "presence_step\<^sup>*\<^sup>* presence_new r" and "t \<noteq> ''''" "u \<noteq> ''''" "s \<noteq> ''''"
  shows "(case online r t u s now of (ev, calls, r') \<Rightarrow>
      let T = insert (t, u, s) (triples r) in
        triples r' = T
        \<and> pe_Kind ev = (if (t, u, s) \<in> triples r then KindUnchanged
            else if (t, u) \<in> live_users (triples r) then KindSessionJoined else KindUserOnline)
        \<and> pe_UserSessions ev = card {s'. (t, u, s') \<in> T} \<and> pe_TenantUsers ev = card {u'. \<exists>s'. (t, u', s') \<in> T}
        \<and> pe_TotalUsers ev = card (live_users T)
        \<and> calls = (if T = triples r then [] else map (\<lambda>fn. (fn, ev)) (p_onChange r)))
    \<and> (case offline r t u s now of (ev, calls, r') \<Rightarrow>
      let T = triples r - {(t, u, s)} in
        triples r' = T
        \<and> (if (t, u, s) \<in> triples r
           then pe_Kind ev = (if (t, u) \<in> live_users T then KindSessionLeft else KindUserOffline)
             \<and> pe_UserSessions ev = card {s'. (t, u, s') \<in> T} \<and> pe_TenantUsers ev = card {u'. \<exists>s'. (t, u', s') \<in> T}
             \<and> pe_TotalUsers ev = card (live_users T) \<and> calls = map (\<lambda>fn. (fn, ev)) (p_onChange r)
           else pe_Kind ev = KindUnchanged \<and> calls = [] \<and> r' = r))"
proof -
  have inv: "presence_inv r" by (rule reachability.reachable_inv [OF refl assms(1)])
  note on = online_event [OF inv assms(2-4), of now] and tr = online_triples [of r t u s now]
  have "insert (t, u, s) (triples r) = triples r \<longleftrightarrow> (t, u, s) \<in> triples r" by blast
  with on tr assms(2-4) have "case online r t u s now of (ev, calls, r') \<Rightarrow>
      let T = insert (t, u, s) (triples r) in
        triples r' = T
        \<and> pe_Kind ev = (if (t, u, s) \<in> triples r then KindUnchanged
            else if (t, u) \<in> live_users (triples r) then KindSessionJoined else KindUserOnline)
        \<and> pe_UserSessions ev = card {s'. (t, u, s') \<in> T} \<and> pe_TenantUsers ev = card {u'. \<exists>s'. (t, u', s') \<in> T}
        \<and> pe_TotalUsers ev = card (live_users T)
        \<and> calls = (if T = triples r then [] else map (\<lambda>fn. (fn, ev)) (p_onChange r))"
    by (auto simp: case_prod_unfold Let_def)
  moreover have "case offline r t u s now of (ev, calls, r') \<Rightarrow>
      let T = triples r - {(t, u, s)} in
        triples r' = T
        \<and> (if (t, u, s) \<in> triples r
           then pe_Kind ev = (if (t, u) \<in> live_users T then KindSessionLeft else KindUserOffline)
             \<and> pe_UserSessions ev = card {s'. (t, u, s') \<in> T} \<and> pe_TenantUsers ev = card {u'. \<exists>s'. (t, u', s') \<in> T}
             \<and> pe_TotalUsers ev = card (live_users T) \<and> calls = map (\<lambda>fn. (fn, ev)) (p_onChange r)
           else pe_Kind ev = KindUnchanged \<and> calls = [] \<and> r' = r)"
  proof (cases "(t, u, s) \<in> triples r")
    case True
    with offline_event [OF inv True, of now] offline_triples [OF inv, of t u s now] show ?thesis
      by (simp add: case_prod_unfold Let_def)
  next
    case False
    then show ?thesis
      by (cases rule: offline_cases [OF inv, of t u s now]) (simp_all add: unchanged_event_def)
  qed
  ultimately show ?thesis by blast
qed

theorem presence_refines_triples_witness:
  "pe_Kind (fst (online presence_new ''T'' ''u'' ''s'' 5)) = KindUserOnline"
  using presence_refines_triples [of presence_new "''T''" "''u''" "''s''" 5]
  by (simp add: case_prod_unfold Let_def triples_new live_users_def)

text \<open>
  Every query reads the set of live triples: reachability of a user, the sorted session ids of
  a user, the sorted reachable users of a tenant, the number of tenants with a reachable user and
  the node-wide number of reachable users.
\<close>

theorem presence_queries:
  assumes "presence_step\<^sup>*\<^sup>* presence_new r"
  shows "(is_online r t u \<longleftrightarrow> (t, u) \<in> live_users (triples r))
    \<and> sessions_of r t u = sorted_list_of_set {s. (t, u, s) \<in> triples r}
    \<and> online_users r t = sorted_list_of_set {u. (t, u) \<in> live_users (triples r)}
    \<and> tenant_count r = card (fst ` live_users (triples r))
    \<and> total_users r = card (live_users (triples r))"
proof -
  have inv: "presence_inv r" by (rule reachability.reachable_inv [OF refl assms])
  have "user_sessions (p_byTenant r) t u \<noteq> {||} \<longleftrightarrow> (t, u) \<in> live_users (triples r)"
    by (force simp: live_users_def triples_def image_iff)
  then have "is_online r t u \<longleftrightarrow> (t, u) \<in> live_users (triples r)"
    by (simp add: is_online_def fset_nonempty_card)
  moreover have "sessions_of r t u = sorted_list_of_set {s. (t, u, s) \<in> triples r}"
    by (simp add: sessions_of_def sorted_list_of_fset.rep_eq triples_def)
  moreover have "online_users r t = sorted_list_of_set {u. (t, u) \<in> live_users (triples r)}"
  proof -
    have "fset (fmdom (users_of (p_byTenant r) t)) = {u. (t, u) \<in> live_users (triples r)}"
      using fmdom_users [OF inv, of t] by (force simp: fmdom'_alt_def live_users_def image_iff)
    then show ?thesis by (simp add: online_users_def sorted_list_of_fset.rep_eq)
  qed
  moreover have "tenant_count r = card (fst ` live_users (triples r))"
  proof -
    have "fmdom' (p_byTenant r) = fst ` live_users (triples r)"
      unfolding fmdom_tenants [OF inv] by (force simp: live_users_def image_iff)
    then show ?thesis by (simp add: tenant_count_def fmlen_card)
  qed
  ultimately show ?thesis by (simp add: total_users_def total_users_abs [OF inv])
qed

theorem presence_queries_witness:
  "sessions_of (snd (snd (online presence_new ''T'' ''u'' ''s'' 5))) ''T'' ''u'' = [''s'']"
proof -
  have "presence_step\<^sup>*\<^sup>* presence_new (snd (snd (online presence_new ''T'' ''u'' ''s'' 5)))"
    by (rule r_into_rtranclp) (rule presence_step.intros(1))
  from presence_queries [OF this, of "''T''" "''u''"] show ?thesis by (simp add: online_triples triples_new)
qed

end
