(* ===== verification/Gw_Float.thy ===== *)
theory Gw_Float
  imports Complex_Main Gw_Prelude
begin

text \<open>
  Finite IEEE 754 binary64 arithmetic. A finite \<open>float64\<close> is the rational number it stands for and
  every Go operation on two of them is the exact operation followed by \<open>rnd64\<close>, rounding to nearest
  with ties to even, subnormals included. Overflow to infinity and NaN are outside this model: the
  buckets that use it are sized far below \<open>2 ^ 1024\<close>. Operations are not fused, as on amd64.

  \<open>ieee_rounding\<close> collects what the bucket proofs need of rounding; \<open>rnd64\<close> is proved to provide it.
\<close>

section \<open>Contract of rounding\<close>

locale ieee_rounding =
  fixes rnd :: "rat \<Rightarrow> rat" and eps :: rat and tiny :: rat
  assumes eps_nonneg: "0 \<le> eps" and eps_small: "eps \<le> 1 / 16" and tiny_nonneg: "0 \<le> tiny"
    and rnd_mono: "x \<le> y \<Longrightarrow> rnd x \<le> rnd y"
    and rnd_error: "\<bar>rnd x - x\<bar> \<le> eps * \<bar>x\<bar> + tiny"
    and rnd_integer: "\<bar>n\<bar> \<le> 2 ^ 53 \<Longrightarrow> rnd (of_int n) = of_int n"
begin

lemma rnd_nonneg: "0 \<le> x \<Longrightarrow> 0 \<le> rnd x"
  using rnd_mono [of 0 x] rnd_integer [of 0] by simp

lemma rnd_upper: "0 \<le> x \<Longrightarrow> rnd x \<le> x * (1 + eps) + tiny"
  using rnd_error [of x] by (simp add: algebra_simps)

lemma rnd_0 [simp]: "rnd 0 = 0"
  using rnd_integer [of 0] by simp

text \<open>
  One refill step of a token bucket: \<open>tok + secs * rate\<close>, capped. If \<open>secs\<close> is \<open>x\<close> up to two
  roundings, the tokens grow by at most \<open>rate * x\<close> plus a rounding slack.
\<close>

definition refilled :: "rat \<Rightarrow> rat \<Rightarrow> rat \<Rightarrow> rat \<Rightarrow> rat" where
  "refilled tok secs rate cap = (let z = rnd (tok + rnd (secs * rate)) in if z > cap then cap else z)"

definition slack :: "rat \<Rightarrow> rat \<Rightarrow> rat" where
  "slack rate cap = 16 * eps * cap + 16 * tiny * (1 + rate)"

lemma refilled_nonneg: "0 \<le> tok \<Longrightarrow> 0 \<le> secs \<Longrightarrow> 0 \<le> rate \<Longrightarrow> 0 \<le> cap \<Longrightarrow> 0 \<le> refilled tok secs rate cap"
  by (auto simp: refilled_def Let_def intro!: rnd_nonneg add_nonneg_nonneg mult_nonneg_nonneg)

lemma refilled_cap: "refilled tok secs rate cap \<le> cap"
  by (auto simp: refilled_def Let_def)

lemma eps_powers: "(1 + eps) * (1 + eps) \<le> 1 + 3 * eps" "(1 + eps) * (1 + 3 * eps) \<le> 1 + 5 * eps"
  "(1 + eps) * (1 + 5 * eps) \<le> 1 + 7 * eps"
proof -
  have "eps * eps \<le> eps * (1 / 16)" by (rule mult_left_mono [OF eps_small eps_nonneg])
  then show "(1 + eps) * (1 + eps) \<le> 1 + 3 * eps" "(1 + eps) * (1 + 3 * eps) \<le> 1 + 5 * eps"
    "(1 + eps) * (1 + 5 * eps) \<le> 1 + 7 * eps"
    using eps_nonneg by (simp_all add: algebra_simps)
qed

lemma rnd_upper_le: "0 \<le> x \<Longrightarrow> x \<le> a * k + b \<Longrightarrow> 0 \<le> a \<Longrightarrow> 0 \<le> b \<Longrightarrow> (1 + eps) * k \<le> k' \<Longrightarrow>
    rnd x \<le> a * k' + 2 * b + tiny"
proof -
  assume *: "0 \<le> x" "x \<le> a * k + b" "0 \<le> a" "0 \<le> b" "(1 + eps) * k \<le> k'"
  have "rnd x \<le> x * (1 + eps) + tiny" by (rule rnd_upper [OF *(1)])
  also have "x * (1 + eps) \<le> (a * k + b) * (1 + eps)" using *(2) eps_nonneg by (intro mult_right_mono) auto
  also have "(a * k + b) * (1 + eps) = a * ((1 + eps) * k) + b * (1 + eps)" by (simp add: algebra_simps)
  also have "a * ((1 + eps) * k) \<le> a * k'" by (rule mult_left_mono [OF *(5,3)])
  also have "b * (1 + eps) \<le> b * 2" using *(4) eps_small by (intro mult_left_mono) auto
  finally show ?thesis by simp
qed

text \<open>The two roundings of \<open>Duration.Seconds\<close>.\<close>

lemma seconds_bound:
  assumes "0 \<le> n" and "0 \<le> f"
  shows "0 \<le> rnd (n + rnd f) \<and> rnd (n + rnd f) \<le> (n + f) * (1 + 3 * eps) + 3 * tiny"
proof -
  have "n + rnd f \<le> (n + f) * (1 + eps) + tiny"
    using rnd_upper [OF assms(2)] assms(1) mult_nonneg_nonneg [OF eps_nonneg assms(1)] by (simp add: algebra_simps)
  then have "rnd (n + rnd f) \<le> (n + f) * (1 + 3 * eps) + 2 * tiny + tiny"
    using assms rnd_nonneg [OF assms(2)] tiny_nonneg eps_powers(1) by (intro rnd_upper_le [where k = "1 + eps"]) auto
  then show ?thesis using rnd_nonneg [of "n + rnd f"] rnd_nonneg [OF assms(2)] assms by simp
qed

lemma scaled_bound:
  assumes "0 \<le> d" and "1 \<le> c"
  shows "0 \<le> rnd (rnd d / c) \<and> rnd (rnd d / c) \<le> (d / c) * (1 + 3 * eps) + 3 * tiny"
proof -
  have c: "0 < c" using assms(2) by linarith
  have "rnd d / c \<le> (d * (1 + eps) + tiny) / c" using c by (intro divide_right_mono rnd_upper [OF assms(1)]) simp
  also have "\<dots> = (d / c) * (1 + eps) + tiny / c" by (simp add: add_divide_distrib)
  also have "tiny / c \<le> tiny"
    using mult_left_mono [OF assms(2) tiny_nonneg] c by (simp add: pos_divide_le_eq)
  finally have "rnd d / c \<le> (d / c) * (1 + eps) + tiny" by simp
  moreover have "0 \<le> rnd d / c" using c rnd_nonneg [OF assms(1)] by simp
  ultimately have "rnd (rnd d / c) \<le> (d / c) * (1 + 3 * eps) + 2 * tiny + tiny"
    using assms(1) c tiny_nonneg eps_powers(1) by (intro rnd_upper_le [where k = "1 + eps"]) auto
  then show ?thesis using rnd_nonneg [OF \<open>0 \<le> rnd d / c\<close>] by simp
qed

lemma refilled_bound:
  assumes tok: "0 \<le> tok" "tok \<le> cap" and x: "0 \<le> x" and rate: "0 \<le> rate"
    and secs: "0 \<le> secs" "secs \<le> x * (1 + 3 * eps) + 3 * tiny"
  shows "refilled tok secs rate cap + eps * cap + tiny \<le> tok + rate * x + slack rate cap"
proof (cases "rate * x \<le> cap")
  case False
  have "0 \<le> slack rate cap - eps * cap - tiny"
    using eps_nonneg tiny_nonneg rate tok by (simp add: slack_def algebra_simps)
  with False refilled_cap [of tok secs rate cap] tok show ?thesis by linarith
next
  case True
  have rx: "0 \<le> rate * x" using rate x by simp
  have tr: "0 \<le> tiny * rate" using rate tiny_nonneg by simp
  have "secs * rate \<le> (x * (1 + 3 * eps) + 3 * tiny) * rate" by (rule mult_right_mono [OF secs(2) rate])
  then have "secs * rate \<le> (rate * x) * (1 + 3 * eps) + 3 * (tiny * rate)" by (simp add: algebra_simps)
  then have A: "rnd (secs * rate) \<le> (rate * x) * (1 + 5 * eps) + 2 * (3 * (tiny * rate)) + tiny"
    using secs(1) rate rx tr eps_powers(2) by (intro rnd_upper_le [where k = "1 + 3 * eps"]) auto
  have "tok * 1 \<le> tok * (1 + 5 * eps)" using tok(1) eps_nonneg by (intro mult_left_mono) auto
  then have "tok + rnd (secs * rate) \<le> (tok + rate * x) * (1 + 5 * eps) + (6 * (tiny * rate) + tiny)"
    using A by (simp add: algebra_simps)
  then have Z: "rnd (tok + rnd (secs * rate)) \<le> (tok + rate * x) * (1 + 7 * eps) + 2 * (6 * (tiny * rate) + tiny) + tiny"
    using tok(1) rx tr tiny_nonneg eps_powers(3) secs(1) rate
    by (intro rnd_upper_le [where k = "1 + 5 * eps"]) (auto intro!: add_nonneg_nonneg rnd_nonneg)
  have "eps * (tok + rate * x) \<le> eps * (2 * cap)" using True tok(2) by (intro mult_left_mono [OF _ eps_nonneg]) simp
  then have "rnd (tok + rnd (secs * rate)) \<le> tok + rate * x + 14 * (eps * cap) + 12 * (tiny * rate) + 3 * tiny"
    using Z by (simp add: algebra_simps)
  moreover have "refilled tok secs rate cap \<le> rnd (tok + rnd (secs * rate))"
    by (auto simp: refilled_def Let_def)
  moreover have "0 \<le> eps * cap" using eps_nonneg tok by simp
  ultimately show ?thesis using tr tiny_nonneg by (simp add: slack_def algebra_simps)
qed

end

section \<open>Round to nearest, ties to even\<close>

definition rne :: "rat \<Rightarrow> int" where
  "rne x = (let f = \<lfloor>x\<rfloor>; r = x - of_int f
            in if r < 1 / 2 then f else if r > 1 / 2 then f + 1 else if even f then f else f + 1)"

lemma rne_error: "\<bar>of_int (rne x) - x\<bar> \<le> 1 / 2"
proof -
  have "0 \<le> x - of_int \<lfloor>x\<rfloor>" "x - of_int \<lfloor>x\<rfloor> < 1" by linarith+
  then show ?thesis by (auto simp: rne_def Let_def)
qed

lemma rne_int [simp]: "rne (of_int n) = n"
  by (simp add: rne_def)

lemma rne_nonneg: "0 \<le> x \<Longrightarrow> 0 \<le> rne x"
  by (auto simp: rne_def Let_def)

fun scale_up :: "nat \<Rightarrow> rat \<Rightarrow> nat \<Rightarrow> rat \<times> nat" where
  "scale_up 0 x n = (x, n)"
| "scale_up (Suc fuel) x n = (if 2 ^ 52 \<le> x then (x, n) else scale_up fuel (2 * x) (Suc n))"

fun scale_down :: "nat \<Rightarrow> rat \<Rightarrow> nat \<Rightarrow> rat \<times> nat" where
  "scale_down 0 x n = (x, n)"
| "scale_down (Suc fuel) x n = (if x < 2 ^ 53 then (x, n) else scale_down fuel (x / 2) (Suc n))"

definition rnd_pos :: "rat \<Rightarrow> rat" where
  "rnd_pos x =
     (if x < 2 ^ 52 then (let (y, n) = scale_up 1074 x 0 in of_int (rne y) / 2 ^ n)
      else (let (y, n) = scale_down 1024 x 0 in of_int (rne y) * 2 ^ n))"

definition rnd64 :: "rat \<Rightarrow> rat" where
  "rnd64 x = (if x < 0 then - rnd_pos (- x) else rnd_pos x)"

lemma scale_up_spec:
  "scale_up fuel x n = (y, m) \<Longrightarrow> n \<le> m \<and> m \<le> n + fuel \<and> y * 2 ^ n = x * 2 ^ m \<and> (2 ^ 52 \<le> y \<or> m = n + fuel)"
proof (induction fuel arbitrary: x n)
  case (Suc fuel)
  show ?case
  proof (cases "2 ^ 52 \<le> x")
    case True
    with Suc.prems show ?thesis by simp
  next
    case False
    with Suc.prems have "scale_up fuel (2 * x) (Suc n) = (y, m)" by simp
    from Suc.IH [OF this] show ?thesis by auto
  qed
qed simp

lemma scale_down_spec:
  "scale_down fuel x n = (y, m) \<Longrightarrow> 2 ^ 52 \<le> x \<Longrightarrow> n \<le> m \<and> y * 2 ^ m = x * 2 ^ n \<and> 2 ^ 52 \<le> y"
proof (induction fuel arbitrary: x n)
  case (Suc fuel)
  show ?case
  proof (cases "x < 2 ^ 53")
    case True
    with Suc.prems show ?thesis by simp
  next
    case False
    with Suc.prems have "scale_down fuel (x / 2) (Suc n) = (y, m)" "2 ^ 52 \<le> x / 2" by simp_all
    from Suc.IH [OF this] show ?thesis by auto
  qed
qed simp

lemma rnd_pos_error:
  assumes "0 \<le> x"
  shows "\<bar>rnd_pos x - x\<bar> \<le> x / 2 ^ 53 + 1 / 2 ^ 1075"
proof (cases "x < 2 ^ 52")
  case True
  obtain y m where s: "scale_up 1074 x 0 = (y, m)" by force
  from scale_up_spec [OF s] have m: "m \<le> 1074" "y = x * 2 ^ m" "2 ^ 52 \<le> y \<or> m = 1074" by auto
  have x: "x = y / 2 ^ m" using m(2) by simp
  have "rnd_pos x - x = (of_int (rne y) - y) / 2 ^ m"
    using True s by (simp add: rnd_pos_def x diff_divide_distrib)
  then have "\<bar>rnd_pos x - x\<bar> = \<bar>of_int (rne y) - y\<bar> / 2 ^ m" by simp
  also have "\<dots> \<le> (1 / 2) / 2 ^ m" by (intro divide_right_mono rne_error) simp
  also have "\<dots> \<le> x / 2 ^ 53 + 1 / 2 ^ 1075"
    using m(3)
  proof
    assume "2 ^ 52 \<le> y"
    then have "(1 / 2) / 2 ^ m \<le> y / 2 ^ 53 / 2 ^ m" by (intro divide_right_mono) simp_all
    then have "(1 / 2) / 2 ^ m \<le> x / 2 ^ 53" by (simp add: x field_simps)
    moreover have "(0 :: rat) \<le> 1 / 2 ^ 1075" by (intro divide_nonneg_nonneg) simp_all
    ultimately show ?thesis by linarith
  next
    assume "m = 1074"
    then have "((1 :: rat) / 2) / 2 ^ m = 1 / 2 ^ 1075" by (simp only: divide_divide_eq_left power_Suc [symmetric]) simp
    then show ?thesis using assms by simp
  qed
  finally show ?thesis .
next
  case False
  obtain y m where s: "scale_down 1024 x 0 = (y, m)" by force
  from False scale_down_spec [OF s] have m: "y * 2 ^ m = x" "2 ^ 52 \<le> y" by auto
  have "rnd_pos x - x = (of_int (rne y) - y) * 2 ^ m"
    using False s by (simp add: rnd_pos_def m(1) [symmetric] left_diff_distrib)
  then have "\<bar>rnd_pos x - x\<bar> = \<bar>of_int (rne y) - y\<bar> * 2 ^ m" by (simp add: abs_mult)
  also have "\<dots> \<le> (1 / 2) * 2 ^ m" by (intro mult_right_mono rne_error) simp
  also have "\<dots> \<le> (y / 2 ^ 53) * 2 ^ m" using m(2) by (intro mult_right_mono) simp_all
  also have "\<dots> = x / 2 ^ 53" using m(1) by (simp add: field_simps)
  moreover have "(0 :: rat) \<le> 1 / 2 ^ 1075" by (intro divide_nonneg_nonneg) simp_all
  ultimately show ?thesis by linarith
qed

lemma rnd_pos_nonneg: "0 \<le> x \<Longrightarrow> 0 \<le> rnd_pos x"
proof -
  assume x: "0 \<le> x"
  obtain y m where s: "scale_up 1074 x 0 = (y, m)" by force
  obtain z k where d: "scale_down 1024 x 0 = (z, k)" by force
  have "0 \<le> y" using scale_up_spec [OF s] x by auto
  moreover have "0 \<le> z" if "2 ^ 52 \<le> x" using scale_down_spec [OF d that] by (auto intro: order_trans [rotated])
  ultimately show ?thesis
    using s d by (auto simp: rnd_pos_def intro!: divide_nonneg_nonneg mult_nonneg_nonneg rne_nonneg)
qed

lemma rne_mono: "x \<le> y \<Longrightarrow> rne x \<le> rne y"
proof -
  assume xy: "x \<le> y"
  show ?thesis
  proof (cases "\<lfloor>x\<rfloor> = \<lfloor>y\<rfloor>")
    case True
    then have "x - of_int \<lfloor>x\<rfloor> \<le> y - of_int \<lfloor>y\<rfloor>" using xy by simp
    with True show ?thesis by (auto simp: rne_def Let_def)
  next
    case False
    with xy have "\<lfloor>x\<rfloor> + 1 \<le> \<lfloor>y\<rfloor>" using floor_mono [OF xy] by linarith
    moreover have "rne x \<le> \<lfloor>x\<rfloor> + 1" "\<lfloor>y\<rfloor> \<le> rne y" by (auto simp: rne_def Let_def)
    ultimately show ?thesis by linarith
  qed
qed

lemma rne_bounds: "x \<le> 2 ^ k \<Longrightarrow> rne x \<le> 2 ^ k" "2 ^ k \<le> x \<Longrightarrow> 2 ^ k \<le> rne x"
  using rne_mono [of x "2 ^ k"] rne_mono [of "2 ^ k" x] rne_int [of "2 ^ k"] by simp_all

lemma scale_up_bound:
  assumes "scale_up fuel x n = (y, m)" and "0 \<le> x" and "x \<le> 2 ^ 53"
  shows "y \<le> 2 ^ 53 \<and> n \<le> m \<and> of_int (rne y) / 2 ^ m \<le> (2 ^ 53 :: rat) / 2 ^ n"
  using assms
proof (induction fuel arbitrary: x n)
  case 0
  then have "of_int (rne y) \<le> (of_int (2 ^ 53) :: rat)" using rne_bounds(1) [of y 53] by (subst of_int_le_iff) simp
  with 0 show ?case by (simp add: divide_right_mono)
next
  case (Suc fuel)
  show ?case
  proof (cases "2 ^ 52 \<le> x")
    case True
    with Suc.prems have [simp]: "y = x" "m = n" by simp_all
    have "of_int (rne y) \<le> (of_int (2 ^ 53) :: rat)" using Suc.prems(3) rne_bounds(1) [of y 53] by (subst of_int_le_iff) simp
    with Suc.prems show ?thesis by (simp add: divide_right_mono)
  next
    case False
    with Suc.prems have "scale_up fuel (2 * x) (Suc n) = (y, m)" "0 \<le> 2 * x" "2 * x \<le> 2 ^ 53" by simp_all
    from Suc.IH [OF this] have "y \<le> 2 ^ 53" "Suc n \<le> m" "of_int (rne y) / 2 ^ m \<le> (2 ^ 53 :: rat) / 2 ^ Suc n" by simp_all
    moreover have "(2 ^ 53 :: rat) / 2 ^ Suc n \<le> 2 ^ 53 / 2 ^ n" by (simp add: field_simps)
    ultimately show ?thesis by linarith
  qed
qed

lemma scale_up_mono:
  assumes "scale_up fuel x n = (y, m)" and "scale_up fuel x' n = (y', m')" and "0 \<le> x" and "x \<le> x'" and "x' \<le> 2 ^ 53"
  shows "(of_int (rne y) :: rat) / 2 ^ m \<le> of_int (rne y') / 2 ^ m'"
  using assms
proof (induction fuel arbitrary: x x' n)
  case 0
  then show ?case using rne_mono [of x x'] by (simp add: divide_right_mono)
next
  case (Suc fuel)
  consider "2 ^ 52 \<le> x" | "x < 2 ^ 52" "2 ^ 52 \<le> x'" | "x' < 2 ^ 52" using Suc.prems(4) by linarith
  then show ?case
  proof cases
    case 1
    with Suc.prems rne_mono [of x x'] show ?thesis by (simp add: divide_right_mono)
  next
    case 2
    with Suc.prems have r: "scale_up fuel (2 * x) (Suc n) = (y, m)" "y' = x'" "m' = n" by simp_all
    have "of_int (rne y) / 2 ^ m \<le> (2 ^ 53 :: rat) / 2 ^ Suc n"
      using scale_up_bound [OF r(1)] Suc.prems(3) 2(1) by simp
    also have "\<dots> = of_int (2 ^ 52) / 2 ^ n" by simp
    also have "\<dots> \<le> of_int (rne y') / 2 ^ n"
      using rne_bounds(2) [OF 2(2)] by (intro divide_right_mono) (simp_all only: of_int_le_iff r(2), simp)
    finally show ?thesis by (simp add: r(3))
  next
    case 3
    with Suc.prems have "scale_up fuel (2 * x) (Suc n) = (y, m)" "scale_up fuel (2 * x') (Suc n) = (y', m')" by simp_all
    from Suc.IH [OF this] Suc.prems 3 show ?thesis by simp
  qed
qed

lemma scale_down_mono:
  assumes "scale_down fuel x n = (y, m)" and "scale_down fuel x' n = (y', m')" and "2 ^ 52 \<le> x" and "x \<le> x'"
  shows "(of_int (rne y) :: rat) * 2 ^ m \<le> of_int (rne y') * 2 ^ m'"
  using assms
proof (induction fuel arbitrary: x x' n)
  case 0
  then show ?case using rne_mono [of x x'] by (simp add: mult_right_mono)
next
  case (Suc fuel)
  consider "x' < 2 ^ 53" | "x < 2 ^ 53" "2 ^ 53 \<le> x'" | "2 ^ 53 \<le> x" using Suc.prems(4) by linarith
  then show ?case
  proof cases
    case 1
    with Suc.prems rne_mono [of x x'] show ?thesis by (simp add: mult_right_mono)
  next
    case 2
    with Suc.prems have r: "scale_down fuel (x' / 2) (Suc n) = (y', m')" "y = x" "m = n" by simp_all
    have m': "Suc n \<le> m'" "2 ^ 52 \<le> y'" using scale_down_spec [OF r(1)] 2(2) by simp_all
    have "(of_int (rne y) :: rat) * 2 ^ m \<le> of_int (2 ^ 53) * 2 ^ n"
      using rne_bounds(1) [of x 53] 2(1) unfolding r(2,3) by (intro mult_right_mono) (simp_all only: of_int_le_iff, simp_all)
    also have "\<dots> = of_int (2 ^ 52) * 2 ^ Suc n" by simp
    also have "\<dots> \<le> of_int (2 ^ 52) * 2 ^ m'" using m'(1) by (intro mult_left_mono power_increasing) simp_all
    also have "\<dots> \<le> of_int (rne y') * 2 ^ m'"
      using rne_bounds(2) [OF m'(2)] by (intro mult_right_mono) (simp_all only: of_int_le_iff, simp)
    finally show ?thesis .
  next
    case 3
    with Suc.prems have "scale_down fuel (x / 2) (Suc n) = (y, m)" "scale_down fuel (x' / 2) (Suc n) = (y', m')" by simp_all
    from Suc.IH [OF this] Suc.prems 3 show ?thesis by simp
  qed
qed

lemma rnd_pos_mono:
  assumes "0 \<le> x" and "x \<le> x'"
  shows "rnd_pos x \<le> rnd_pos x'"
proof -
  obtain y m where u: "scale_up 1074 x 0 = (y, m)" by force
  obtain y' m' where u': "scale_up 1074 x' 0 = (y', m')" by force
  obtain z k where d: "scale_down 1024 x 0 = (z, k)" by force
  obtain z' k' where d': "scale_down 1024 x' 0 = (z', k')" by force
  consider "x' < 2 ^ 52" | "x < 2 ^ 52" "2 ^ 52 \<le> x'" | "2 ^ 52 \<le> x" using assms(2) by linarith
  then show ?thesis
  proof cases
    case 1
    with scale_up_mono [OF u u' assms] u u' assms(2) show ?thesis by (simp add: rnd_pos_def)
  next
    case 2
    obtain fuel where fuel: "(1074 :: nat) = Suc fuel" by (metis numeral_eq_Suc)
    have "scale_up fuel (2 * x) (Suc 0) = (y, m)" using u 2(1) unfolding fuel by simp
    from scale_up_bound [OF this] assms(1) 2(1) have "of_int (rne y) / 2 ^ m \<le> (2 ^ 53 :: rat) / 2 ^ Suc 0" by simp
    also have "\<dots> = of_int (2 ^ 52) * 2 ^ 0" by simp
    also have "\<dots> \<le> of_int (2 ^ 52) * 2 ^ k'" by (intro mult_left_mono power_increasing) simp_all
    also have "\<dots> \<le> of_int (rne z') * 2 ^ k'"
      using rne_bounds(2) [of 52 z'] scale_down_spec [OF d' 2(2)] by (intro mult_right_mono) (simp_all only: of_int_le_iff, simp)
    finally show ?thesis using 2 u d' by (simp add: rnd_pos_def)
  next
    case 3
    with scale_down_mono [OF d d' 3 assms(2)] d d' assms(2) show ?thesis by (simp add: rnd_pos_def)
  qed
qed

lemma rnd_pos_integer:
  assumes "0 \<le> n" and "n \<le> 2 ^ 53"
  shows "rnd_pos (of_int n) = of_int n"
proof (cases "(of_int n :: rat) < 2 ^ 52")
  case True
  obtain y m where s: "scale_up 1074 (of_int n) 0 = (y, m)" by force
  from scale_up_spec [OF s] have "y = of_int (n * 2 ^ m)" by simp
  then have "rne y = n * 2 ^ m" by (simp only: rne_int)
  with True s show ?thesis by (simp add: rnd_pos_def)
next
  case False
  show ?thesis
  proof (cases "n = 2 ^ 53")
    case True
    have "scale_down 1024 (2 ^ 53) 0 = (2 ^ 52, 1)" by (simp add: numeral_eq_Suc)
    moreover have "rne (2 ^ 52) = 2 ^ 52" using rne_int [of "2 ^ 52"] by simp
    ultimately show ?thesis using True False by (simp add: rnd_pos_def)
  next
    case other: False
    then have "(of_int n :: rat) < 2 ^ 53"
      using assms(2) by (metis of_int_less_iff of_int_numeral of_int_power order_le_imp_less_or_eq)
    then have "scale_down 1024 (of_int n) 0 = (of_int n, 0)" by (simp add: numeral_eq_Suc)
    with False show ?thesis by (simp add: rnd_pos_def)
  qed
qed

interpretation f64: ieee_rounding rnd64 "1 / 2 ^ 53" "1 / 2 ^ 1075"
proof
  show "(0 :: rat) \<le> 1 / 2 ^ 53" "(1 :: rat) / 2 ^ 53 \<le> 1 / 16" by simp_all
  show "(0 :: rat) \<le> 1 / 2 ^ 1075" by (intro divide_nonneg_nonneg) simp_all
  fix x :: rat
  show "x \<le> y \<Longrightarrow> rnd64 x \<le> rnd64 y" for y
    using rnd_pos_mono [of x y] rnd_pos_mono [of "- y" "- x"] rnd_pos_nonneg [of "- x"] rnd_pos_nonneg [of y]
    by (auto simp: rnd64_def)
  show "\<bar>rnd64 x - x\<bar> \<le> 1 / 2 ^ 53 * \<bar>x\<bar> + 1 / 2 ^ 1075"
  proof (cases "x < 0")
    case True
    have "\<bar>rnd64 x - x\<bar> = \<bar>rnd_pos (- x) - (- x)\<bar>" using True by (simp only: rnd64_def if_True)
    also have "\<dots> \<le> (- x) / 2 ^ 53 + 1 / 2 ^ 1075" using True by (intro rnd_pos_error) simp
    finally show ?thesis using True by (simp only: abs_of_neg) simp
  next
    case False
    then show ?thesis using rnd_pos_error [of x] by (simp only: rnd64_def if_False abs_of_nonneg not_less) simp
  qed
  fix n :: int
  show "\<bar>n\<bar> \<le> 2 ^ 53 \<Longrightarrow> rnd64 (of_int n) = of_int n"
    using rnd_pos_integer [of n] rnd_pos_integer [of "- n"] by (auto simp: rnd64_def)
qed

section \<open>Durations in seconds\<close>

text \<open>\<open>Duration.Seconds\<close>: whole seconds plus the rest over \<open>1e9\<close>.\<close>

definition duration_seconds :: "duration \<Rightarrow> rat" where
  "duration_seconds d = rnd64 (of_int (go_div d second) + rnd64 (of_int (go_mod d second) / 1000000000))"

text \<open>A \<open>float64\<close> read from text may also be one of the special values.\<close>

datatype float64 = Fin rat | PosInf | NegInf | NaN

definition f_le :: "float64 \<Rightarrow> rat \<Rightarrow> bool" where
  "f_le x c = (case x of Fin r \<Rightarrow> r \<le> c | PosInf \<Rightarrow> False | NegInf \<Rightarrow> True | NaN \<Rightarrow> False)"

definition f_gt :: "float64 \<Rightarrow> rat \<Rightarrow> bool" where
  "f_gt x c = (case x of Fin r \<Rightarrow> r > c | PosInf \<Rightarrow> True | NegInf \<Rightarrow> False | NaN \<Rightarrow> False)"

text \<open>Conversion of a float to an integer truncates.\<close>

definition whole :: "rat \<Rightarrow> int" where
  "whole x = (if x < 0 then \<lceil>x\<rceil> else \<lfloor>x\<rfloor>)"

end
