(* ===== verification/Gw_Ratelimit.thy ===== *)
theory Gw_Ratelimit
  imports Gw_Float
begin

text \<open>
  The inbound frame pacing of a connection (\<open>internal/ratelimit\<close>): policy, lazy-refill token bucket
  and limiter. Rates, bursts and tokens are finite \<open>float64\<close> values; the clock is the argument
  \<open>now\<close>. What is proved bounds the traffic a limiter admits, the rounding of the token arithmetic
  included.
\<close>

section \<open>Policy\<close>

record policy =
  pol_RatePerSecond :: rat
  pol_Burst :: rat

datatype policy_error = ErrRateNotPositive rat | ErrBurstBelowOne rat

definition policy_validate :: "policy \<Rightarrow> policy_error option" where
  "policy_validate p =
     (if pol_RatePerSecond p \<le> 0 then Some (ErrRateNotPositive (pol_RatePerSecond p))
      else if pol_Burst p < 1 then Some (ErrBurstBelowOne (pol_Burst p))
      else None)"

definition new_policy :: "rat \<Rightarrow> rat \<Rightarrow> policy \<times> policy_error option" where
  "new_policy ratePerSecond burst =
     (let p = \<lparr>pol_RatePerSecond = ratePerSecond, pol_Burst = burst\<rparr> in (p, policy_validate p))"

text \<open>\<open>Inl\<close>: the call panics with the error.\<close>

definition must_policy :: "rat \<Rightarrow> rat \<Rightarrow> policy_error + policy" where
  "must_policy ratePerSecond burst =
     (case new_policy ratePerSecond burst of (p, None) \<Rightarrow> Inr p | (p, Some err) \<Rightarrow> Inl err)"

definition default_policy :: policy where
  "default_policy = \<lparr>pol_RatePerSecond = 1, pol_Burst = 1\<rparr>"

section \<open>Bucket\<close>

record bucket =
  b_policy :: policy
  b_tokens :: rat
  b_last :: time

definition new_bucket :: "policy \<Rightarrow> time \<Rightarrow> bucket" where
  "new_bucket p started = \<lparr>b_policy = p, b_tokens = pol_Burst p, b_last = started\<rparr>"

definition refill :: "bucket \<Rightarrow> time \<Rightarrow> bucket" where
  "refill b now =
     (if \<not> now > b_last b then b
      else
        let tokens = rnd64 (b_tokens b
              + rnd64 (duration_seconds (time_sub now (b_last b)) * pol_RatePerSecond (b_policy b)));
            tokens' = (if tokens > pol_Burst (b_policy b) then pol_Burst (b_policy b) else tokens)
        in b\<lparr>b_tokens := tokens', b_last := now\<rparr>)"

definition allow_at :: "bucket \<Rightarrow> time \<Rightarrow> bool \<times> bucket" where
  "allow_at b now =
     (let b1 = refill b now
      in if b_tokens b1 < 1 then (False, b1) else (True, b1\<lparr>b_tokens := rnd64 (b_tokens b1 - 1)\<rparr>))"

definition tokens_at :: "bucket \<Rightarrow> time \<Rightarrow> rat \<times> bucket" where
  "tokens_at b now = (let b1 = refill b now in (b_tokens b1, b1))"

definition bucket_policy :: "bucket \<Rightarrow> policy" where
  "bucket_policy b = b_policy b"

section \<open>Limiter\<close>

record limiter =
  l_bucket :: bucket

definition limiter_new :: "policy \<Rightarrow> time \<Rightarrow> limiter" where
  "limiter_new p now =
     (let p' = (if policy_validate p \<noteq> None then default_policy else p)
      in \<lparr>l_bucket = new_bucket p' now\<rparr>)"

definition limiter_allow :: "limiter \<Rightarrow> time \<Rightarrow> bool \<times> limiter" where
  "limiter_allow l now = (let (ok, b) = allow_at (l_bucket l) now in (ok, l\<lparr>l_bucket := b\<rparr>))"

definition limiter_tokens :: "limiter \<Rightarrow> time \<Rightarrow> rat \<times> limiter" where
  "limiter_tokens l now = (let (t, b) = tokens_at (l_bucket l) now in (t, l\<lparr>l_bucket := b\<rparr>))"

definition limiter_policy :: "limiter \<Rightarrow> policy" where
  "limiter_policy l = bucket_policy (l_bucket l)"

section \<open>Bucket invariant\<close>

definition bucket_ok :: "bucket \<Rightarrow> bool" where
  "bucket_ok b \<longleftrightarrow> 0 < pol_RatePerSecond (b_policy b) \<and> 1 \<le> pol_Burst (b_policy b)
     \<and> rnd64 (pol_Burst (b_policy b)) = pol_Burst (b_policy b) \<and> 0 \<le> b_tokens b \<and> b_tokens b \<le> pol_Burst (b_policy b)"

lemma bucket_ok_new: "rnd64 (pol_Burst p) = pol_Burst p \<Longrightarrow> bucket_ok (l_bucket (limiter_new p now))"
  using f64.rnd_integer [of 1]
  by (auto simp: bucket_ok_def limiter_new_def new_bucket_def policy_validate_def default_policy_def Let_def)

lemma duration_seconds_bound:
  assumes "0 \<le> d"
  shows "0 \<le> duration_seconds d \<and>
    duration_seconds d \<le> (of_int d / 1000000000) * (1 + 3 * (1 / 2 ^ 53)) + 3 * (1 / 2 ^ 1075)"
proof -
  have "(of_int d :: rat) / 1000000000 = of_int (d div 1000000000) + of_int (d mod 1000000000) / 1000000000"
  proof -
    have "(of_int d :: rat) = of_int (d div 1000000000 * 1000000000 + d mod 1000000000)" by simp
    then show ?thesis by (simp only: of_int_add of_int_mult add_divide_distrib)
  qed
  then show ?thesis
    using f64.seconds_bound [of "of_int (d div 1000000000)" "of_int (d mod 1000000000) / 1000000000"] assms
    by (simp only: duration_seconds_def second_def go_div_nonneg go_mod_nonneg zero_less_numeral) simp
qed

lemma refill_eq:
  "b_last b < now \<Longrightarrow> refill b now = b\<lparr>b_tokens := f64.refilled (b_tokens b)
     (duration_seconds (time_sub now (b_last b))) (pol_RatePerSecond (b_policy b)) (pol_Burst (b_policy b)), b_last := now\<rparr>"
  by (simp add: refill_def f64.refilled_def Let_def)

text \<open>The exact refill of the time between two instants, in tokens.\<close>

definition earned :: "policy \<Rightarrow> time \<Rightarrow> time \<Rightarrow> rat" where
  "earned p t0 t1 = pol_RatePerSecond p * (of_int (t1 - t0) / 1000000000)"

definition rounding_slack :: "policy \<Rightarrow> rat" where
  "rounding_slack p = f64.slack (pol_RatePerSecond p) (pol_Burst p)"

lemma refill_bound:
  assumes ok: "bucket_ok b"
  shows "bucket_ok (refill b now)" and "b_policy (refill b now) = b_policy b"
    and "b_last (refill b now) = max (b_last b) now"
    and "b_tokens (refill b now) + (1 / 2 ^ 53) * pol_Burst (b_policy b) + 1 / 2 ^ 1075
      \<le> b_tokens b + earned (b_policy b) (b_last b) (b_last (refill b now)) + rounding_slack (b_policy b)"
proof -
  let ?p = "b_policy b" and ?d = "time_sub now (b_last b)"
  have burst: "0 \<le> pol_Burst ?p" and rate: "0 \<le> pol_RatePerSecond ?p" and tok: "0 \<le> b_tokens b" "b_tokens b \<le> pol_Burst ?p"
    using ok by (auto simp: bucket_ok_def)
  have bound: "f64.refilled (b_tokens b) s (pol_RatePerSecond ?p) (pol_Burst ?p) + (1 / 2 ^ 53) * pol_Burst ?p + 1 / 2 ^ 1075
      \<le> b_tokens b + pol_RatePerSecond ?p * x + rounding_slack ?p"
    if "0 \<le> x" "0 \<le> s" "s \<le> x * (1 + 3 * (1 / 2 ^ 53)) + 3 * (1 / 2 ^ 1075)" for x s
    unfolding rounding_slack_def by (rule f64.refilled_bound [OF tok that(1) rate that(2,3)])
  show "b_policy (refill b now) = b_policy b" "b_last (refill b now) = max (b_last b) now"
    by (auto simp: refill_def Let_def)
  show "bucket_ok (refill b now)"
  proof (cases "b_last b < now")
    case True
    then have "0 \<le> ?d" by (simp add: time_sub_def max_duration_def)
    with True ok f64.refilled_nonneg [OF tok(1) _ rate burst] f64.refilled_cap duration_seconds_bound show ?thesis
      by (simp add: refill_eq bucket_ok_def)
  next
    case False
    with ok show ?thesis by (simp add: refill_def)
  qed
  show "b_tokens (refill b now) + (1 / 2 ^ 53) * pol_Burst (b_policy b) + 1 / 2 ^ 1075
      \<le> b_tokens b + earned (b_policy b) (b_last b) (b_last (refill b now)) + rounding_slack (b_policy b)"
  proof (cases "b_last b < now")
    case True
    then have d: "0 \<le> ?d" "?d \<le> now - b_last b" by (auto simp: time_sub_def max_duration_def min_duration_def)
    have "(of_int ?d :: rat) / 1000000000 \<le> of_int (now - b_last b) / 1000000000"
      using d(2) by (intro divide_right_mono) simp_all
    then have e: "pol_RatePerSecond ?p * (of_int ?d / 1000000000) \<le> earned ?p (b_last b) now"
      unfolding earned_def by (rule mult_left_mono [OF _ rate])
    have r: "f64.refilled (b_tokens b) (duration_seconds ?d) (pol_RatePerSecond ?p) (pol_Burst ?p)
        + (1 / 2 ^ 53) * pol_Burst ?p + 1 / 2 ^ 1075
      \<le> b_tokens b + pol_RatePerSecond ?p * (of_int ?d / 1000000000) + rounding_slack ?p"
      using d(1) duration_seconds_bound [OF d(1)] by (intro bound) auto
    have eqs: "b_tokens (refill b now) = f64.refilled (b_tokens b) (duration_seconds ?d) (pol_RatePerSecond ?p) (pol_Burst ?p)"
      "b_last (refill b now) = now"
      using True by (simp_all only: refill_eq bucket.simps) simp_all
    show ?thesis
      unfolding eqs by (rule order_trans [OF r]) (intro add_mono order_refl e)
  next
    case False
    have "b_tokens b + (1 / 2 ^ 53) * pol_Burst ?p + 1 / 2 ^ 1075 \<le> b_tokens b + rounding_slack ?p"
    proof -
      have "0 \<le> (1 / 2 ^ 53 :: rat) * pol_Burst ?p" using burst by simp
      moreover have "0 \<le> (1 / 2 ^ 1075 :: rat) * pol_RatePerSecond ?p" by (rule mult_nonneg_nonneg [OF f64.tiny_nonneg rate])
      ultimately show ?thesis
        using f64.tiny_nonneg unfolding rounding_slack_def f64.slack_def by (simp only: distrib_left mult_1_right mult.assoc)
    qed
    with False show ?thesis by (simp add: refill_def earned_def)
  qed
qed

section \<open>Admission over a run\<close>

fun allow_run :: "bucket \<Rightarrow> time list \<Rightarrow> nat \<times> bucket" where
  "allow_run b [] = (0, b)"
| "allow_run b (t # ts) =
     (let (ok, b1) = allow_at b t; (n, b2) = allow_run b1 ts in ((if ok then Suc n else n), b2))"

lemma allow_at_bound:
  assumes ok: "bucket_ok b" and r: "allow_at b now = (granted, b')"
  shows "bucket_ok b' \<and> b_policy b' = b_policy b \<and> b_last b' = max (b_last b) now
    \<and> (if granted then 1 else 0) + b_tokens b'
      \<le> b_tokens b + earned (b_policy b) (b_last b) (b_last b') + rounding_slack (b_policy b)"
proof -
  let ?r = "refill b now" and ?p = "b_policy b"
  note rb = refill_bound [OF ok, of now]
  have rok: "0 \<le> b_tokens ?r" "b_tokens ?r \<le> pol_Burst ?p" "0 < pol_RatePerSecond ?p" "1 \<le> pol_Burst ?p" "rnd64 (pol_Burst ?p) = pol_Burst ?p"
    using rb(1,2) by (auto simp: bucket_ok_def)
  have slack0: "0 \<le> (1 / 2 ^ 53) * pol_Burst ?p" "(0 :: rat) \<le> 1 / 2 ^ 1075"
    using rok(4) f64.tiny_nonneg by simp_all
  show ?thesis
  proof (cases "b_tokens ?r < 1")
    case True
    then have *: "granted = False" "b' = ?r" using r by (auto simp: allow_at_def Let_def)
    have "b_tokens ?r \<le> b_tokens ?r + (1 / 2 ^ 53) * pol_Burst ?p + 1 / 2 ^ 1075" using slack0 by linarith
    then show ?thesis using rb * by (simp only: if_False add_0 simp_thms)
  next
    case False
    then have *: "granted = True" "b' = ?r\<lparr>b_tokens := rnd64 (b_tokens ?r - 1)\<rparr>"
      using r by (auto simp: allow_at_def Let_def)
    have t: "0 \<le> b_tokens ?r - 1" using False by simp
    have "rnd64 (b_tokens ?r - 1) \<le> (b_tokens ?r - 1) * (1 + 1 / 2 ^ 53) + 1 / 2 ^ 1075" by (rule f64.rnd_upper [OF t])
    also have "(b_tokens ?r - 1) * (1 + 1 / 2 ^ 53) \<le> (b_tokens ?r - 1) + (1 / 2 ^ 53) * pol_Burst ?p"
    proof -
      have "(1 / 2 ^ 53) * (b_tokens ?r - 1) \<le> (1 / 2 ^ 53) * pol_Burst ?p"
        using rok(2) by (intro mult_left_mono) auto
      then show ?thesis by (simp only: distrib_left mult_1_right mult.commute [of _ "1 / 2 ^ 53"])
    qed
    finally have up: "1 + rnd64 (b_tokens ?r - 1) \<le> b_tokens ?r + (1 / 2 ^ 53) * pol_Burst ?p + 1 / 2 ^ 1075" by simp
    have "rnd64 (b_tokens ?r - 1) \<le> rnd64 (pol_Burst ?p)" using rok(2) by (intro f64.rnd_mono) linarith
    then have "rnd64 (b_tokens ?r - 1) \<le> pol_Burst ?p" by (simp only: rok(5))
    then have "bucket_ok b'" using rb(1,2) f64.rnd_nonneg [OF t] by (simp add: * bucket_ok_def)
    moreover have "1 + rnd64 (b_tokens ?r - 1) \<le> b_tokens b + earned ?p (b_last b) (b_last ?r) + rounding_slack ?p"
      by (rule order_trans [OF up rb(4)])
    ultimately show ?thesis using rb(2,3) by (simp only: * if_True bucket.simps) simp
  qed
qed

lemma earned_add: "earned p t0 t1 + earned p t1 t2 = earned p t0 t2"
  by (simp add: earned_def diff_divide_distrib algebra_simps)

lemma allow_run_bound:
  assumes "bucket_ok b" and "allow_run b ts = (n, b')"
  shows "bucket_ok b' \<and> b_policy b' = b_policy b \<and> b_last b' = fold max ts (b_last b)
    \<and> of_nat n + b_tokens b'
      \<le> b_tokens b + earned (b_policy b) (b_last b) (b_last b') + of_nat (length ts) * rounding_slack (b_policy b)"
  using assms
proof (induction ts arbitrary: b n)
  case Nil
  then show ?case by (simp add: earned_def)
next
  case (Cons t ts)
  obtain granted b1 where a: "allow_at b t = (granted, b1)" by force
  obtain m where r: "allow_run b1 ts = (m, b')" and n: "n = (if granted then Suc m else m)"
    using Cons.prems(2) a by (cases "allow_run b1 ts") auto
  note s = allow_at_bound [OF Cons.prems(1) a]
  then have ok: "bucket_ok b1" and p: "b_policy b1 = b_policy b" and l: "b_last b1 = max (b_last b) t" by blast+
  note ih = Cons.IH [OF ok r, unfolded p]
  have "of_nat n + b_tokens b' = (if granted then 1 else 0) + (of_nat m + b_tokens b')" by (simp add: n)
  also have "\<dots> \<le> (if granted then 1 else 0) + (b_tokens b1 + earned (b_policy b) (b_last b1) (b_last b')
      + of_nat (length ts) * rounding_slack (b_policy b))"
    using ih by (intro add_left_mono) blast
  also have "\<dots> \<le> b_tokens b + (earned (b_policy b) (b_last b) (b_last b1) + earned (b_policy b) (b_last b1) (b_last b'))
      + (rounding_slack (b_policy b) + of_nat (length ts) * rounding_slack (b_policy b))"
    using s by linarith
  finally have "of_nat n + b_tokens b' \<le> b_tokens b + earned (b_policy b) (b_last b) (b_last b')
      + of_nat (length (t # ts)) * rounding_slack (b_policy b)"
    by (simp only: earned_add) (simp add: distrib_right)
  with ih l show ?case by (simp add: max.commute)
qed

text \<open>
  C26. A limiter admits at most the burst plus the sustained rate. For a limiter of any sound policy
  (the burst being a \<open>float64\<close> value) started at \<open>t0\<close>, over any sequence of checks, at whatever instants and even
  with the clock stepping back, the number of admitted frames is at most
  \<open>burst + rate * elapsed seconds\<close>, plus a rounding slack per check of \<open>16 (burst / 2 ^ 53 +
  (1 + rate) / 2 ^ 1075)\<close> frames.
\<close>

theorem limiter_bounds_traffic:
  assumes "policy_validate p = None" and "rnd64 (pol_Burst p) = pol_Burst p"
    and "allow_run (l_bucket (limiter_new p t0)) ts = (n, b')"
  shows "of_nat n \<le> pol_Burst p + pol_RatePerSecond p * (of_int (fold max ts t0 - t0) / 1000000000)
    + of_nat (length ts) * (16 * (1 / 2 ^ 53) * pol_Burst p + 16 * (1 / 2 ^ 1075) * (1 + pol_RatePerSecond p))"
proof -
  note b = allow_run_bound [OF bucket_ok_new [OF assms(2)] assms(3)]
  have "l_bucket (limiter_new p t0) = new_bucket p t0" using assms(1) by (simp add: limiter_new_def)
  then have e: "b_policy (l_bucket (limiter_new p t0)) = p" "b_tokens (l_bucket (limiter_new p t0)) = pol_Burst p"
    "b_last (l_bucket (limiter_new p t0)) = t0" by (simp_all add: new_bucket_def)
  have "0 \<le> b_tokens b'" using b by (auto simp: bucket_ok_def)
  then have "of_nat n \<le> of_nat n + b_tokens b'" by simp
  also have "\<dots> \<le> pol_Burst p + earned p t0 (fold max ts t0) + of_nat (length ts) * rounding_slack p"
    using b unfolding e by auto
  finally show ?thesis unfolding earned_def rounding_slack_def f64.slack_def .
qed

lemma production_policy: "policy_validate \<lparr>pol_RatePerSecond = 20, pol_Burst = 40\<rparr> = None"
  by (simp add: policy_validate_def)

lemma burst_run:
  "b_last b = t0 \<Longrightarrow> b_tokens b = of_nat k \<Longrightarrow> k \<le> 2 ^ 52 \<Longrightarrow> list_all (\<lambda>t. t \<le> t0) ts \<Longrightarrow>
   fst (allow_run b ts) = min k (length ts)
   \<and> b_last (snd (allow_run b ts)) = t0 \<and> b_tokens (snd (allow_run b ts)) = of_nat (k - length ts)"
proof (induction ts arbitrary: b k)
  case (Cons t ts)
  from Cons.prems have still: "refill b t = b" by (simp add: refill_def)
  show ?case
  proof (cases k)
    case 0
    then have "allow_at b t = (False, b)" using still Cons.prems(2) by (simp add: allow_at_def)
    with Cons.IH [of b 0] Cons.prems 0 show ?thesis by (simp add: case_prod_unfold Let_def)
  next
    case (Suc j)
    have "rnd64 (of_int (int j)) = of_int (int j)" using Cons.prems(3) Suc by (intro f64.rnd_integer) simp
    then have a: "allow_at b t = (True, b\<lparr>b_tokens := of_nat j\<rparr>)"
      using still Cons.prems(2) Suc by (simp add: allow_at_def)
    show ?thesis
      using Cons.IH [of "b\<lparr>b_tokens := of_nat j\<rparr>" j] Cons.prems Suc by (simp add: a case_prod_unfold Let_def)
  qed
qed simp

text \<open>
  A fresh limiter grants exactly its burst. With a whole-number burst \<open>k\<close>, checks that all come
  no later than the limiter's start (also with the clock stepping back) are granted until \<open>k\<close> of them
  are spent and refused from then on; no token appears out of nothing and none is lost.
\<close>

theorem fresh_limiter_grants_burst:
  assumes "0 < pol_RatePerSecond p" and "pol_Burst p = of_nat k" and "1 \<le> k" and "k \<le> 2 ^ 52"
    and "list_all (\<lambda>t. t \<le> t0) ts"
  shows "fst (allow_run (l_bucket (limiter_new p t0)) ts) = min k (length ts)
    \<and> fst (limiter_tokens \<lparr>l_bucket = snd (allow_run (l_bucket (limiter_new p t0)) ts)\<rparr> t0) = of_nat (k - length ts)"
proof -
  have l: "l_bucket (limiter_new p t0) = new_bucket p t0"
    using assms(1-3) by (simp add: limiter_new_def policy_validate_def)
  have "b_last (new_bucket p t0) = t0" "b_tokens (new_bucket p t0) = of_nat k"
    using assms(2) by (simp_all add: new_bucket_def)
  note run = burst_run [OF this assms(4,5)]
  then have "refill (snd (allow_run (new_bucket p t0) ts)) t0 = snd (allow_run (new_bucket p t0) ts)"
    by (simp add: refill_def)
  with run show ?thesis
    by (simp add: l limiter_tokens_def tokens_at_def)
qed

theorem fresh_limiter_grants_burst_witness:
  "fst (allow_run (l_bucket (limiter_new \<lparr>pol_RatePerSecond = 20, pol_Burst = 40\<rparr> 1000)) (replicate 41 1000)) = 40"
  using fresh_limiter_grants_burst [of "\<lparr>pol_RatePerSecond = 20, pol_Burst = 40\<rparr>" 40 1000 "replicate 41 1000"]
  by (simp add: list_all_iff)

theorem limiter_bounds_traffic_witness:
  "of_nat (fst (allow_run (l_bucket (limiter_new \<lparr>pol_RatePerSecond = 20, pol_Burst = 40\<rparr> 1000)) (replicate 50 1000)))
     \<le> (40 :: rat) + 20 * (of_int (1000 - 1000) / 1000000000)
       + of_nat 50 * (16 * (1 / 2 ^ 53) * 40 + 16 * (1 / 2 ^ 1075) * (1 + 20))"
proof -
  obtain n b' where r: "allow_run (l_bucket (limiter_new \<lparr>pol_RatePerSecond = 20, pol_Burst = 40\<rparr> 1000)) (replicate 50 1000) = (n, b')"
    by force
  have "fold max (replicate 50 1000) (1000 :: time) = 1000" by (simp add: numeral_eq_Suc)
  moreover have "rnd64 40 = 40" using f64.rnd_integer [of 40] by simp
  ultimately show ?thesis
    using limiter_bounds_traffic [OF production_policy _ r]
    unfolding r fst_conv by (simp only: length_replicate policy.simps)
qed

end
