(* ===== verification/Sg_Ratelimit.thy ===== *)
theory Sg_Ratelimit
  imports Gw_Float "HOL-Library.Word"
begin

text \<open>
  The token bucket of \<open>signal-go\<close> (\<open>internal/signal/ratelimit.go\<close>), on a logical clock in
  milliseconds that is an unsigned 64-bit integer. The refill is the same rounded arithmetic as in
  the gateway's bucket; an acquisition takes any amount.
\<close>

section \<open>Bucket\<close>

record token_bucket =
  tb_capacity :: rat
  tb_refillPerSecond :: rat
  tb_tokens :: rat
  tb_lastRefillMs :: "64 word"

definition new_token_bucket :: "rat \<Rightarrow> rat \<Rightarrow> 64 word \<Rightarrow> token_bucket" where
  "new_token_bucket capacity refillPerSecond nowMs =
     \<lparr>tb_capacity = capacity, tb_refillPerSecond = refillPerSecond, tb_tokens = capacity, tb_lastRefillMs = nowMs\<rparr>"

definition tb_get_capacity :: "token_bucket \<Rightarrow> rat" where
  "tb_get_capacity b = tb_capacity b"

definition tb_get_refill :: "token_bucket \<Rightarrow> rat" where
  "tb_get_refill b = tb_refillPerSecond b"

text \<open>\<open>float64(nowMs - last) / 1000.0\<close>, the subtraction on 64-bit words.\<close>

definition elapsed_seconds :: "64 word \<Rightarrow> 64 word \<Rightarrow> rat" where
  "elapsed_seconds nowMs lastMs = rnd64 (rnd64 (of_int (uint (nowMs - lastMs))) / 1000)"

definition tb_refill :: "token_bucket \<Rightarrow> 64 word \<Rightarrow> token_bucket" where
  "tb_refill b nowMs =
     (if nowMs \<le> tb_lastRefillMs b then b
      else
        let elapsed = elapsed_seconds nowMs (tb_lastRefillMs b);
            tokens = (if rnd64 (tb_tokens b + rnd64 (elapsed * tb_refillPerSecond b)) > tb_capacity b
                      then tb_capacity b
                      else rnd64 (tb_tokens b + rnd64 (elapsed * tb_refillPerSecond b)))
        in b\<lparr>tb_tokens := tokens, tb_lastRefillMs := nowMs\<rparr>)"

definition available :: "token_bucket \<Rightarrow> 64 word \<Rightarrow> rat \<times> token_bucket" where
  "available b nowMs = (let b1 = tb_refill b nowMs in (tb_tokens b1, b1))"

definition try_acquire :: "token_bucket \<Rightarrow> 64 word \<Rightarrow> rat \<Rightarrow> bool \<times> token_bucket" where
  "try_acquire b nowMs n =
     (if n \<le> 0 then (True, b)
      else
        let b1 = tb_refill b nowMs
        in if tb_tokens b1 \<ge> n then (True, b1\<lparr>tb_tokens := rnd64 (tb_tokens b1 - n)\<rparr>) else (False, b1))"

section \<open>Invariant\<close>

definition tb_ok :: "token_bucket \<Rightarrow> bool" where
  "tb_ok b \<longleftrightarrow> 0 \<le> tb_capacity b \<and> rnd64 (tb_capacity b) = tb_capacity b \<and> 0 \<le> tb_refillPerSecond b
     \<and> 0 \<le> tb_tokens b \<and> tb_tokens b \<le> tb_capacity b"

lemma tb_refill_eq:
  "tb_lastRefillMs b < nowMs \<Longrightarrow> tb_refill b nowMs = b\<lparr>tb_tokens := f64.refilled (tb_tokens b)
     (elapsed_seconds nowMs (tb_lastRefillMs b)) (tb_refillPerSecond b) (tb_capacity b), tb_lastRefillMs := nowMs\<rparr>"
  by (simp add: tb_refill_def f64.refilled_def Let_def not_le)

lemma uint_rat_nonneg: "0 \<le> (of_int (uint w) :: rat)"
proof -
  have "0 \<le> uint w" by simp
  then show ?thesis by (simp only: of_int_0_le_iff)
qed

lemma elapsed_bound:
  "0 \<le> elapsed_seconds a c \<and> elapsed_seconds a c
     \<le> (of_int (uint (a - c)) / 1000) * (1 + 3 * (1 / 2 ^ 53)) + 3 * (1 / 2 ^ 1075)"
  unfolding elapsed_seconds_def by (rule f64.scaled_bound [OF uint_rat_nonneg]) simp

text \<open>The tokens the wall time between two instants of the logical clock is worth.\<close>

definition tb_earned :: "token_bucket \<Rightarrow> 64 word \<Rightarrow> 64 word \<Rightarrow> rat" where
  "tb_earned b t0 t1 = tb_refillPerSecond b * (of_int (uint t1 - uint t0) / 1000)"

definition tb_slack :: "token_bucket \<Rightarrow> rat" where
  "tb_slack b = f64.slack (tb_refillPerSecond b) (tb_capacity b)"

lemma tb_slack_nonneg:
  assumes "tb_ok b"
  shows "(1 / 2 ^ 53) * tb_capacity b + 1 / 2 ^ 1075 \<le> tb_slack b" "0 \<le> (1 / 2 ^ 53) * tb_capacity b + 1 / 2 ^ 1075"
proof -
  have c: "0 \<le> (1 / 2 ^ 53 :: rat) * tb_capacity b" and r: "0 \<le> (1 / 2 ^ 1075 :: rat) * tb_refillPerSecond b"
    using assms by (auto simp: tb_ok_def intro!: mult_nonneg_nonneg f64.tiny_nonneg)
  show "0 \<le> (1 / 2 ^ 53) * tb_capacity b + 1 / 2 ^ 1075" using c f64.tiny_nonneg by (rule add_nonneg_nonneg)
  show "(1 / 2 ^ 53) * tb_capacity b + 1 / 2 ^ 1075 \<le> tb_slack b"
    using c r f64.tiny_nonneg unfolding tb_slack_def f64.slack_def by (simp only: distrib_left mult_1_right mult.assoc)
qed

lemma tb_refill_bound:
  assumes ok: "tb_ok b"
  shows "tb_ok (tb_refill b now) \<and> tb_capacity (tb_refill b now) = tb_capacity b
    \<and> tb_refillPerSecond (tb_refill b now) = tb_refillPerSecond b
    \<and> tb_lastRefillMs (tb_refill b now) = max (tb_lastRefillMs b) now
    \<and> tb_tokens (tb_refill b now) + ((1 / 2 ^ 53) * tb_capacity b + 1 / 2 ^ 1075)
      \<le> tb_tokens b + tb_earned b (tb_lastRefillMs b) (tb_lastRefillMs (tb_refill b now)) + tb_slack b"
proof (cases "tb_lastRefillMs b < now")
  case True
  let ?x = "of_int (uint (now - tb_lastRefillMs b)) / 1000 :: rat"
  have ok': "0 \<le> tb_capacity b" "rnd64 (tb_capacity b) = tb_capacity b" "0 \<le> tb_refillPerSecond b"
    "0 \<le> tb_tokens b" "tb_tokens b \<le> tb_capacity b" using ok by (auto simp: tb_ok_def)
  have sub: "uint (now - tb_lastRefillMs b) = uint now - uint (tb_lastRefillMs b)"
    using True by (simp add: uint_sub_lem [THEN iffD1] word_le_def [symmetric] less_imp_le)
  have x: "0 \<le> ?x" by (intro divide_nonneg_nonneg uint_rat_nonneg) simp
  have eq: "tb_refill b now = b\<lparr>tb_tokens := f64.refilled (tb_tokens b)
     (elapsed_seconds now (tb_lastRefillMs b)) (tb_refillPerSecond b) (tb_capacity b), tb_lastRefillMs := now\<rparr>"
    by (rule tb_refill_eq [OF True])
  have tk: "tb_tokens (tb_refill b now) = f64.refilled (tb_tokens b) (elapsed_seconds now (tb_lastRefillMs b))
      (tb_refillPerSecond b) (tb_capacity b)" "tb_lastRefillMs (tb_refill b now) = now"
    by (simp_all add: eq)
  note e = elapsed_bound [of now "tb_lastRefillMs b"]
  have "f64.refilled (tb_tokens b) (elapsed_seconds now (tb_lastRefillMs b)) (tb_refillPerSecond b) (tb_capacity b)
      + (1 / 2 ^ 53) * tb_capacity b + 1 / 2 ^ 1075 \<le> tb_tokens b + tb_refillPerSecond b * ?x + tb_slack b"
    unfolding tb_slack_def using e by (intro f64.refilled_bound ok' x) blast+
  then have "tb_tokens (tb_refill b now) + ((1 / 2 ^ 53) * tb_capacity b + 1 / 2 ^ 1075)
      \<le> tb_tokens b + tb_earned b (tb_lastRefillMs b) (tb_lastRefillMs (tb_refill b now)) + tb_slack b"
    unfolding tk tb_earned_def sub by (simp only: add.assoc)
  moreover have "tb_ok (tb_refill b now)"
    using ok' f64.refilled_nonneg [OF ok'(4) _ ok'(3,1)] e f64.refilled_cap unfolding eq by (simp add: tb_ok_def)
  ultimately show ?thesis using True by (simp add: eq max_def less_imp_le)
next
  case False
  then have eq: "tb_refill b now = b" by (simp add: tb_refill_def)
  show ?thesis
    using ok False tb_slack_nonneg(1) [OF ok] unfolding eq tb_earned_def by (simp add: max_def)
qed

lemma try_acquire_bound:
  assumes ok: "tb_ok b" and r: "try_acquire b now n = (granted, b')" and n: "0 < n"
  shows "tb_ok b' \<and> tb_capacity b' = tb_capacity b \<and> tb_refillPerSecond b' = tb_refillPerSecond b
    \<and> tb_lastRefillMs b' = max (tb_lastRefillMs b) now
    \<and> (if granted then n else 0) + tb_tokens b'
      \<le> tb_tokens b + tb_earned b (tb_lastRefillMs b) (tb_lastRefillMs b') + tb_slack b"
proof -
  let ?r = "tb_refill b now"
  let ?e = "(1 / 2 ^ 53) * tb_capacity b + 1 / 2 ^ 1075"
  note rb = tb_refill_bound [OF ok, of now]
  have rok: "0 \<le> tb_tokens ?r" "tb_tokens ?r \<le> tb_capacity b" "rnd64 (tb_capacity b) = tb_capacity b"
    using rb by (auto simp: tb_ok_def)
  note e0 = tb_slack_nonneg(2) [OF ok]
  show ?thesis
  proof (cases "tb_tokens ?r \<ge> n")
    case False
    then have *: "granted = False" "b' = ?r" using r n by (auto simp: try_acquire_def Let_def split: if_splits)
    have "tb_tokens ?r \<le> tb_tokens ?r + ?e" using e0 by (rule add_increasing2) (rule order_refl)
    with rb have "tb_tokens ?r \<le> tb_tokens b + tb_earned b (tb_lastRefillMs b) (tb_lastRefillMs ?r) + tb_slack b"
      by (meson order_trans)
    with rb show ?thesis unfolding * by simp
  next
    case True
    then have *: "granted = True" "b' = ?r\<lparr>tb_tokens := rnd64 (tb_tokens ?r - n)\<rparr>"
      using r n by (auto simp: try_acquire_def Let_def split: if_splits)
    have t: "0 \<le> tb_tokens ?r - n" using True by simp
    have "rnd64 (tb_tokens ?r - n) \<le> (tb_tokens ?r - n) * (1 + 1 / 2 ^ 53) + 1 / 2 ^ 1075" by (rule f64.rnd_upper [OF t])
    also have "(tb_tokens ?r - n) * (1 + 1 / 2 ^ 53) = (tb_tokens ?r - n) + (1 / 2 ^ 53) * (tb_tokens ?r - n)"
      by (simp only: distrib_left mult_1_right mult.commute [of _ "1 / 2 ^ 53"])
    also have "(1 / 2 ^ 53) * (tb_tokens ?r - n) \<le> (1 / 2 ^ 53) * tb_capacity b"
      using rok(2) n by (intro mult_left_mono) simp_all
    finally have up: "n + rnd64 (tb_tokens ?r - n) \<le> tb_tokens ?r + ?e" by simp
    have "rnd64 (tb_tokens ?r - n) \<le> rnd64 (tb_capacity b)" using rok(2) n by (intro f64.rnd_mono) linarith
    then have "rnd64 (tb_tokens ?r - n) \<le> tb_capacity b" by (simp only: rok(3))
    then have "tb_ok b'" using rb rok(3) f64.rnd_nonneg [OF t] by (simp add: * tb_ok_def)
    moreover have "n + rnd64 (tb_tokens ?r - n) \<le> tb_tokens b + tb_earned b (tb_lastRefillMs b) (tb_lastRefillMs ?r) + tb_slack b"
      using up rb by (meson order_trans)
    ultimately show ?thesis using rb by (simp add: *)
  qed
qed

section \<open>Acquisitions over a run\<close>

text \<open>A run of acquisitions \<open>(nowMs, n)\<close>: the granted amount and the final bucket.\<close>

fun acquire_run :: "token_bucket \<Rightarrow> (64 word \<times> rat) list \<Rightarrow> rat \<times> token_bucket" where
  "acquire_run b [] = (0, b)"
| "acquire_run b ((now, n) # as) =
     (let (granted, b1) = try_acquire b now n; (s, b2) = acquire_run b1 as in ((if granted then n + s else s), b2))"

lemma tb_earned_add: "tb_earned b t0 t1 + tb_earned b t1 t2 = tb_earned b t0 t2"
  by (simp add: tb_earned_def diff_divide_distrib algebra_simps)

lemma acquire_run_bound:
  assumes "tb_ok b" and "acquire_run b as = (s, b')" and "\<forall>(now, n) \<in> set as. 0 < n"
  shows "tb_ok b' \<and> tb_capacity b' = tb_capacity b \<and> tb_refillPerSecond b' = tb_refillPerSecond b
    \<and> tb_lastRefillMs b' = fold max (map fst as) (tb_lastRefillMs b)
    \<and> s + tb_tokens b' \<le> tb_tokens b + tb_earned b (tb_lastRefillMs b) (tb_lastRefillMs b') + of_nat (length as) * tb_slack b"
  using assms
proof (induction as arbitrary: b s)
  case Nil
  then show ?case by (simp add: tb_earned_def)
next
  case (Cons a as)
  obtain now n where a: "a = (now, n)" by force
  obtain granted b1 where g: "try_acquire b now n = (granted, b1)" by force
  obtain m where r: "acquire_run b1 as = (m, b')" and s: "s = (if granted then n + m else m)"
    using Cons.prems(2) a g by (cases "acquire_run b1 as") auto
  have n: "0 < n" using Cons.prems(3) a by simp
  note st = try_acquire_bound [OF Cons.prems(1) g n]
  then have ok: "tb_ok b1" and p: "tb_capacity b1 = tb_capacity b" "tb_refillPerSecond b1 = tb_refillPerSecond b"
    and l: "tb_lastRefillMs b1 = max (tb_lastRefillMs b) now" by blast+
  have same: "tb_slack b1 = tb_slack b" "tb_earned b1 = tb_earned b"
    by (simp_all add: tb_slack_def tb_earned_def p fun_eq_iff)
  have "\<forall>(now, n) \<in> set as. 0 < n" using Cons.prems(3) by simp
  note ih = Cons.IH [OF ok r this, unfolded same]
  have "s + tb_tokens b' = (if granted then n else 0) + (m + tb_tokens b')" by (simp add: s)
  also have "\<dots> \<le> (if granted then n else 0) + (tb_tokens b1 + tb_earned b (tb_lastRefillMs b1) (tb_lastRefillMs b')
      + of_nat (length as) * tb_slack b)"
    using ih by (intro add_left_mono) blast
  also have "\<dots> \<le> tb_tokens b + (tb_earned b (tb_lastRefillMs b) (tb_lastRefillMs b1) + tb_earned b (tb_lastRefillMs b1) (tb_lastRefillMs b'))
      + (tb_slack b + of_nat (length as) * tb_slack b)"
    using st by linarith
  finally have "s + tb_tokens b' \<le> tb_tokens b + tb_earned b (tb_lastRefillMs b) (tb_lastRefillMs b')
      + of_nat (length (a # as)) * tb_slack b"
    by (simp only: tb_earned_add) (simp add: distrib_right)
  with ih l p show ?case by (simp add: max.commute a)
qed

text \<open>
  A bucket never grants more than its capacity plus the refill of the elapsed time. Over any
  sequence of positive acquisitions, with the logical clock moving in any direction, the granted
  total is at most \<open>capacity + refillPerSecond * elapsed\<close> plus a rounding slack per acquisition, and the
  bucket's level stays between zero and its capacity.
\<close>

theorem token_bucket_bounded:
  assumes "0 \<le> capacity" and "rnd64 capacity = capacity" and "0 \<le> rate"
    and "acquire_run (new_token_bucket capacity rate t0) as = (s, b')" and "\<forall>(now, n) \<in> set as. 0 < n"
  shows "s \<le> capacity + rate * (of_int (uint (fold max (map fst as) t0) - uint t0) / 1000)
      + of_nat (length as) * (16 * (1 / 2 ^ 53) * capacity + 16 * (1 / 2 ^ 1075) * (1 + rate))
    \<and> 0 \<le> tb_tokens b' \<and> tb_tokens b' \<le> capacity"
proof -
  let ?b = "new_token_bucket capacity rate t0"
  have ok: "tb_ok ?b" using assms(1-3) by (simp add: tb_ok_def new_token_bucket_def)
  have e: "tb_capacity ?b = capacity" "tb_refillPerSecond ?b = rate" "tb_tokens ?b = capacity" "tb_lastRefillMs ?b = t0"
    by (simp_all add: new_token_bucket_def)
  note b = acquire_run_bound [OF ok assms(4,5)]
  then have lvl: "0 \<le> tb_tokens b'" "tb_tokens b' \<le> capacity" by (auto simp: tb_ok_def e)
  then have "s \<le> s + tb_tokens b'" by simp
  also have "\<dots> \<le> capacity + tb_earned ?b t0 (fold max (map fst as) t0) + of_nat (length as) * tb_slack ?b"
    using b unfolding e by auto
  finally have "s \<le> capacity + rate * (of_int (uint (fold max (map fst as) t0) - uint t0) / 1000)
      + of_nat (length as) * (16 * (1 / 2 ^ 53) * capacity + 16 * (1 / 2 ^ 1075) * (1 + rate))"
    unfolding tb_earned_def tb_slack_def f64.slack_def e .
  with lvl show ?thesis by blast
qed

theorem token_bucket_bounded_witness:
  "0 \<le> tb_tokens (snd (acquire_run (new_token_bucket 10 5 1000) [(1000, 4), (1000, 7)]))
   \<and> fst (acquire_run (new_token_bucket 10 5 1000) [(1000, 4), (1000, 7)]) = 4"
proof -
  have r: "rnd64 10 = 10" "rnd64 6 = 6" using f64.rnd_integer [of 10] f64.rnd_integer [of 6] by simp_all
  have run: "acquire_run (new_token_bucket 10 5 1000) [(1000, 4), (1000, 7)]
      = (4, \<lparr>tb_capacity = 10, tb_refillPerSecond = 5, tb_tokens = 6, tb_lastRefillMs = 1000\<rparr>)"
    by (simp add: new_token_bucket_def try_acquire_def tb_refill_def r)
  from token_bucket_bounded [OF _ r(1) _ run] show ?thesis by (simp only: run fst_conv snd_conv) simp
qed

text \<open>
  A zero-cost action is never limited, and a refused acquisition takes nothing: an amount that is
  not positive always succeeds and leaves the bucket as it is, clock included; a refusal leaves the
  refilled level that \<open>Available\<close> reports.
\<close>

lemma acquire_refusal_free:
  "(n \<le> 0 \<longrightarrow> try_acquire b now n = (True, b))
   \<and> (0 < n \<longrightarrow> fst (available b now) < n \<longrightarrow> try_acquire b now n = (False, snd (available b now)))
   \<and> (0 < n \<longrightarrow> n \<le> fst (available b now) \<longrightarrow>
        fst (try_acquire b now n) \<and> tb_tokens (snd (try_acquire b now n)) = rnd64 (fst (available b now) - n))"
  by (auto simp: try_acquire_def available_def Let_def)

end
