(* ===== verification/Sg_Idempotency.thy ===== *)
theory Sg_Idempotency
  imports Gw_Idempotency
begin

text \<open>
  The exactly-once guard of \<open>signal-go\<close> (\<open>internal/signal/idempotency.go\<close>): a set of (tenant, key)
  pairs that never forgets. It provides the same contract \<open>once_guard\<close> as the gateway's
  time-bounded store, with every recorded pair live for ever.
\<close>

type_synonym idempotency_key = "string \<times> string" \<comment> \<open>tenant, key\<close>

record idempotency_guard =
  ig_seen :: "idempotency_key fset"

definition new_idempotency_guard :: idempotency_guard where
  "new_idempotency_guard = \<lparr>ig_seen = {||}\<rparr>"

definition guard_apply :: "idempotency_guard \<Rightarrow> string \<Rightarrow> string \<Rightarrow> bool \<times> idempotency_guard" where
  "guard_apply g tenant key =
     (if (tenant, key) |\<in>| ig_seen g then (False, g)
      else (True, g\<lparr>ig_seen := finsert (tenant, key) (ig_seen g)\<rparr>))"

definition guard_contains :: "idempotency_guard \<Rightarrow> string \<Rightarrow> string \<Rightarrow> bool" where
  "guard_contains g tenant key \<longleftrightarrow> (tenant, key) |\<in>| ig_seen g"

definition guard_len :: "idempotency_guard \<Rightarrow> nat" where
  "guard_len g = fcard (ig_seen g)"

definition guard_is_empty :: "idempotency_guard \<Rightarrow> bool" where
  "guard_is_empty g \<longleftrightarrow> guard_len g = 0"

text \<open>The guard under the contract: a hit is a call that \<open>Apply\<close> answers with false.\<close>

definition guard_hit :: "idempotency_guard \<Rightarrow> idempotency_key \<Rightarrow> unit \<Rightarrow> bool \<times> idempotency_guard" where
  "guard_hit g k now = (\<not> fst (guard_apply g (fst k) (snd k)), snd (guard_apply g (fst k) (snd k)))"

lemma guard_hit_simps [simp]:
  "fst (guard_hit g k now) = (k |\<in>| ig_seen g)"
  "ig_seen (snd (guard_hit g k now)) = finsert k (ig_seen g)"
  by (auto simp: guard_hit_def guard_apply_def)

definition guard_live :: "unit \<Rightarrow> idempotency_guard \<Rightarrow> idempotency_key \<Rightarrow> bool" where
  "guard_live now g k \<longleftrightarrow> k |\<in>| ig_seen g"

interpretation sguard: once_guard "\<lambda>g. True" guard_live guard_live guard_hit
  by unfold_locales (auto simp: guard_live_def)

text \<open>The pairs of a sequence of calls for which \<open>Apply\<close> tells its caller to go ahead.\<close>

abbreviation applied :: "idempotency_guard \<Rightarrow> idempotency_key list \<Rightarrow> idempotency_key list" where
  "applied g ks \<equiv> sguard.admitted () g ks"

fun apply_all :: "idempotency_guard \<Rightarrow> idempotency_key list \<Rightarrow> idempotency_guard" where
  "apply_all g [] = g"
| "apply_all g (k # ks) = apply_all (snd (guard_apply g (fst k) (snd k))) ks"

lemma apply_all_seen: "ig_seen (apply_all g ks) = ig_seen g |\<union>| fset_of_list ks"
  by (induction ks arbitrary: g) (auto simp: guard_apply_def)

lemma applied_Cons: "applied g (k # ks) =
  (if k |\<in>| ig_seen g then applied (snd (guard_hit g k ())) ks else k # applied (snd (guard_hit g k ())) ks)"
  by (simp add: case_prod_unfold Let_def)

lemma applied_set: "set (applied g ks) = set ks - fset (ig_seen g)"
proof (induction ks arbitrary: g)
  case (Cons k ks)
  then show ?case unfolding applied_Cons by (auto simp del: sguard.admitted.simps)
qed simp

lemma applied_distinct: "distinct (applied g ks)"
proof (induction ks arbitrary: g)
  case (Cons k ks)
  then show ?case unfolding applied_Cons by (simp add: applied_set del: sguard.admitted.simps)
qed simp

text \<open>
  C29. Exactly once, for ever. From a new guard, over any sequence of \<open>Apply\<close> calls: the caller is
  told to perform the side effect exactly once per distinct (tenant, key) pair, never for a pair
  that was not asked for; afterwards exactly the pairs asked for are contained, \<open>Len\<close> is their
  number, and \<open>IsEmpty\<close> holds only if there were no calls.
\<close>

theorem guard_exactly_once:
  shows "distinct (applied new_idempotency_guard ks) \<and> set (applied new_idempotency_guard ks) = set ks
    \<and> (\<forall>t k. guard_contains (apply_all new_idempotency_guard ks) t k \<longleftrightarrow> (t, k) \<in> set ks)
    \<and> guard_len (apply_all new_idempotency_guard ks) = length (applied new_idempotency_guard ks)
    \<and> (guard_is_empty (apply_all new_idempotency_guard ks) \<longleftrightarrow> ks = [])"
proof -
  have seen: "ig_seen (apply_all new_idempotency_guard ks) = fset_of_list ks"
    by (simp add: apply_all_seen new_idempotency_guard_def)
  have app: "set (applied new_idempotency_guard ks) = set ks" by (simp add: applied_set new_idempotency_guard_def)
  have len: "guard_len (apply_all new_idempotency_guard ks) = card (set ks)"
    by (simp add: guard_len_def seen fcard.rep_eq fset_of_list.rep_eq)
  with app distinct_card [OF applied_distinct, of new_idempotency_guard ks]
  have "guard_len (apply_all new_idempotency_guard ks) = length (applied new_idempotency_guard ks)" by simp
  with len app show ?thesis
    by (simp add: applied_distinct guard_contains_def guard_is_empty_def seen fset_of_list_elem)
qed

end
