(* ===== verification/Gw_Json.thy ===== *)
theory Gw_Json
  imports Gw_Prelude
begin

text \<open>
  What both servers use of \<open>encoding/json\<close>: the grammar that \<open>json.Valid\<close> and \<open>json.Unmarshal\<close>
  accept, the decoding of string literals, the matching of object keys with struct fields, and the
  text that \<open>json.Marshal\<close> writes for strings, numbers, booleans and raw messages.

  A parsed object keeps with every member the text of its value, because \<open>json.RawMessage\<close> fields
  receive that text unchanged. The parser is driven by fuel; \<open>json_parse\<close> gives it twice the
  length of the input plus one, and \<open>parse_value_fuel\<close> shows that more fuel never changes the result.
\<close>

section \<open>Bytes and runes\<close>

definition dq :: char where "dq = CHR 0x22"
definition bs :: char where "bs = CHR 0x5C"

definition is_ws :: "char \<Rightarrow> bool" where
  "is_ws c \<longleftrightarrow> c = CHR '' '' \<or> c = CHR 0x09 \<or> c = CHR 0x0A \<or> c = CHR 0x0D"

definition skip_ws :: "string \<Rightarrow> string" where
  "skip_ws s = dropWhile is_ws s"

definition byte_val :: "char \<Rightarrow> nat" where
  "byte_val c = of_char c"

text \<open>The number of bytes of the valid UTF-8 encoding that a byte sequence starts with, 0 if there is none.\<close>

definition cont :: "nat \<Rightarrow> nat \<Rightarrow> char \<Rightarrow> bool" where
  "cont lo hi c \<longleftrightarrow> lo \<le> byte_val c \<and> byte_val c \<le> hi"

definition rune_len :: "string \<Rightarrow> nat" where
  "rune_len s =
     (case s of [] \<Rightarrow> 0
      | c # t \<Rightarrow>
        let b = byte_val c;
            lo = (if b = 0xE0 then 0xA0 else if b = 0xF0 then 0x90 else 0x80);
            hi = (if b = 0xED then 0x9F else if b = 0xF4 then 0x8F else 0xBF)
        in if b < 0x80 then 1
           else if 0xC2 \<le> b \<and> b \<le> 0xDF then
             (case t of c1 # _ \<Rightarrow> if cont 0x80 0xBF c1 then 2 else 0 | _ \<Rightarrow> 0)
           else if 0xE0 \<le> b \<and> b \<le> 0xEF then
             (case t of c1 # c2 # _ \<Rightarrow> if cont lo hi c1 \<and> cont 0x80 0xBF c2 then 3 else 0 | _ \<Rightarrow> 0)
           else if 0xF0 \<le> b \<and> b \<le> 0xF4 then
             (case t of c1 # c2 # c3 # _ \<Rightarrow>
                if cont lo hi c1 \<and> cont 0x80 0xBF c2 \<and> cont 0x80 0xBF c3 then 4 else 0 | _ \<Rightarrow> 0)
           else 0)"

definition utf8_encode :: "nat \<Rightarrow> string" where
  "utf8_encode r =
     (if r < 0x80 then [char_of r]
      else if r < 0x800 then [char_of (0xC0 + r div 64), char_of (0x80 + r mod 64)]
      else if r < 0x10000 then
        [char_of (0xE0 + r div 4096), char_of (0x80 + r div 64 mod 64), char_of (0x80 + r mod 64)]
      else
        [char_of (0xF0 + r div 262144), char_of (0x80 + r div 4096 mod 64),
         char_of (0x80 + r div 64 mod 64), char_of (0x80 + r mod 64)])"

definition replacement :: string where
  "replacement = utf8_encode 0xFFFD"

section \<open>String literals\<close>

text \<open>A literal is a sequence of plain bytes (simple escapes resolved) and \<open>\u\<close> code units.\<close>

datatype jitem = JByte char | JUnit nat

definition hex_val :: "char \<Rightarrow> nat option" where
  "hex_val c =
     (let b = byte_val c in
      if 48 \<le> b \<and> b \<le> 57 then Some (b - 48)
      else if 97 \<le> b \<and> b \<le> 102 then Some (b - 87)
      else if 65 \<le> b \<and> b \<le> 70 then Some (b - 55)
      else None)"

definition hex4 :: "char \<Rightarrow> char \<Rightarrow> char \<Rightarrow> char \<Rightarrow> nat option" where
  "hex4 a b c d =
     (case (hex_val a, hex_val b, hex_val c, hex_val d) of
        (Some w, Some x, Some y, Some z) \<Rightarrow> Some (4096 * w + 256 * x + 16 * y + z)
      | _ \<Rightarrow> None)"

definition esc_char :: "char \<Rightarrow> char option" where
  "esc_char e =
     (if e = dq \<or> e = bs \<or> e = CHR ''/'' then Some e
      else if e = CHR ''b'' then Some (CHR 0x08)
      else if e = CHR ''f'' then Some (CHR 0x0C)
      else if e = CHR ''n'' then Some (CHR 0x0A)
      else if e = CHR ''r'' then Some (CHR 0x0D)
      else if e = CHR ''t'' then Some (CHR 0x09)
      else None)"

definition cons_item :: "jitem \<Rightarrow> (jitem list \<times> string) option \<Rightarrow> (jitem list \<times> string) option" where
  "cons_item i r = (case r of None \<Rightarrow> None | Some (is, rest) \<Rightarrow> Some (i # is, rest))"

fun scan_string :: "string \<Rightarrow> (jitem list \<times> string) option" where
  "scan_string [] = None"
| "scan_string (c # s) =
     (if c = dq then Some ([], s)
      else if c = bs then
        (case s of
           [] \<Rightarrow> None
         | e # s1 \<Rightarrow>
             if e = CHR ''u'' then
               (case s1 of
                  h1 # h2 # h3 # h4 # s2 \<Rightarrow>
                    (case hex4 h1 h2 h3 h4 of None \<Rightarrow> None | Some n \<Rightarrow> cons_item (JUnit n) (scan_string s2))
                | _ \<Rightarrow> None)
             else (case esc_char e of None \<Rightarrow> None | Some x \<Rightarrow> cons_item (JByte x) (scan_string s1)))
      else if byte_val c < 0x20 then None
      else cons_item (JByte c) (scan_string s))"

fun item_bytes :: "jitem list \<Rightarrow> string" where
  "item_bytes (JByte c # is) = c # item_bytes is"
| "item_bytes _ = []"

definition is_surrogate :: "nat \<Rightarrow> bool" where
  "is_surrogate n \<longleftrightarrow> 0xD800 \<le> n \<and> n < 0xE000"

text \<open>A surrogate pair gives one rune, a lone surrogate and an invalid byte the replacement rune.\<close>

fun assemble :: "jitem list \<Rightarrow> string" where
  "assemble [] = []"
| "assemble (JUnit n # is) =
     (if is_surrogate n then
        (case is of
           JUnit m # is' \<Rightarrow>
             if n < 0xDC00 \<and> 0xDC00 \<le> m \<and> m < 0xE000
             then utf8_encode (0x10000 + (n - 0xD800) * 1024 + (m - 0xDC00)) @ assemble is'
             else replacement @ assemble is
         | _ \<Rightarrow> replacement @ assemble is)
      else utf8_encode n @ assemble is)"
| "assemble (JByte c # is) =
     (let n = rune_len (take 4 (c # item_bytes is)) in
      if n = 0 then replacement @ assemble is
      else take n (c # item_bytes is) @ assemble (drop (n - 1) is))"

section \<open>Values\<close>

datatype jval =
    JNull
  | JBool bool
  | JNum string
  | JStr string
  | JArr "jval list"
  | JObj "(string \<times> string \<times> jval) list" \<comment> \<open>key, text of the value, value\<close>

definition is_digit :: "char \<Rightarrow> bool" where
  "is_digit c \<longleftrightarrow> 48 \<le> byte_val c \<and> byte_val c \<le> 57"

text \<open>The parts of a number, each with the rest of the input.\<close>

definition scan_int :: "string \<Rightarrow> (string \<times> string) option" where
  "scan_int s =
     (case s of
        [] \<Rightarrow> None
      | c # t \<Rightarrow>
          if c = CHR ''0'' then Some ([c], t)
          else if is_digit c then Some (c # takeWhile is_digit t, dropWhile is_digit t)
          else None)"

definition scan_frac :: "string \<Rightarrow> (string \<times> string) option" where
  "scan_frac s =
     (case s of
        c # t \<Rightarrow>
          if c = CHR ''.'' then
            (if takeWhile is_digit t = [] then None
             else Some (c # takeWhile is_digit t, dropWhile is_digit t))
          else Some ([], s)
      | [] \<Rightarrow> Some ([], s))"

definition scan_exp :: "string \<Rightarrow> (string \<times> string) option" where
  "scan_exp s =
     (case s of
        c # t \<Rightarrow>
          if c = CHR ''e'' \<or> c = CHR ''E'' then
            (let (sg, u) = (case t of d # t' \<Rightarrow> if d = CHR ''+'' \<or> d = CHR ''-'' then ([d], t') else ([], t) | [] \<Rightarrow> ([], t))
             in if takeWhile is_digit u = [] then None
                else Some (c # sg @ takeWhile is_digit u, dropWhile is_digit u))
          else Some ([], s)
      | [] \<Rightarrow> Some ([], s))"

definition scan_number :: "string \<Rightarrow> (string \<times> string) option" where
  "scan_number s =
     (let (sg, s1) = (case s of c # t \<Rightarrow> if c = CHR ''-'' then ([c], t) else ([], s) | [] \<Rightarrow> ([], s)) in
      case scan_int s1 of
        None \<Rightarrow> None
      | Some (ip, s2) \<Rightarrow>
          (case scan_frac s2 of
             None \<Rightarrow> None
           | Some (fp, s3) \<Rightarrow>
               (case scan_exp s3 of
                  None \<Rightarrow> None
                | Some (ep, s4) \<Rightarrow> Some (sg @ ip @ fp @ ep, s4))))"

definition max_nesting :: nat where "max_nesting = 10000"

definition scan_atom :: "string \<Rightarrow> (jval \<times> string) option" where
  "scan_atom s =
     (if has_prefix s ''null'' then Some (JNull, drop 4 s)
      else if has_prefix s ''true'' then Some (JBool True, drop 4 s)
      else if has_prefix s ''false'' then Some (JBool False, drop 5 s)
      else case scan_number s of None \<Rightarrow> None | Some (t, rest) \<Rightarrow> Some (JNum t, rest))"

text \<open>\<open>d\<close> is the number of arrays and objects that are open around the value.\<close>

fun parse_value :: "nat \<Rightarrow> nat \<Rightarrow> string \<Rightarrow> (jval \<times> string) option"
  and parse_elems :: "nat \<Rightarrow> nat \<Rightarrow> string \<Rightarrow> (jval list \<times> string) option"
  and parse_members :: "nat \<Rightarrow> nat \<Rightarrow> string \<Rightarrow> ((string \<times> string \<times> jval) list \<times> string) option"
where
  "parse_value 0 d s = None"
| "parse_value (Suc n) d s =
     (case s of
        [] \<Rightarrow> None
      | c # t \<Rightarrow>
          if c = dq then (case scan_string t of None \<Rightarrow> None | Some (is, rest) \<Rightarrow> Some (JStr (assemble is), rest))
          else if c = CHR ''['' then
            (if max_nesting \<le> d then None
             else case skip_ws t of
                 [] \<Rightarrow> None
               | c' # t' \<Rightarrow>
                   if c' = CHR '']'' then Some (JArr [], t')
                   else (case parse_elems n (Suc d) (c' # t') of None \<Rightarrow> None | Some (vs, rest) \<Rightarrow> Some (JArr vs, rest)))
          else if c = CHR ''{'' then
            (if max_nesting \<le> d then None
             else case skip_ws t of
                 [] \<Rightarrow> None
               | c' # t' \<Rightarrow>
                   if c' = CHR ''}'' then Some (JObj [], t')
                   else (case parse_members n (Suc d) (c' # t') of None \<Rightarrow> None | Some (ms, rest) \<Rightarrow> Some (JObj ms, rest)))
          else scan_atom s)"
| "parse_elems 0 d s = None"
| "parse_elems (Suc n) d s =
     (case parse_value n d s of
        None \<Rightarrow> None
      | Some (v, rest) \<Rightarrow>
          (case skip_ws rest of
             [] \<Rightarrow> None
           | c # t \<Rightarrow>
               if c = CHR '']'' then Some ([v], t)
               else if c = CHR '','' then
                 (case parse_elems n d (skip_ws t) of None \<Rightarrow> None | Some (vs, rest') \<Rightarrow> Some (v # vs, rest'))
               else None))"
| "parse_members 0 d s = None"
| "parse_members (Suc n) d s =
     (case s of
        [] \<Rightarrow> None
      | c # t \<Rightarrow>
          if c \<noteq> dq then None
          else (case scan_string t of
             None \<Rightarrow> None
           | Some (key, s1) \<Rightarrow>
               (case skip_ws s1 of
                  [] \<Rightarrow> None
                | c1 # s2 \<Rightarrow>
                    if c1 \<noteq> CHR '':'' then None
                    else
                      let s3 = skip_ws s2 in
                      (case parse_value n d s3 of
                         None \<Rightarrow> None
                       | Some (v, s4) \<Rightarrow>
                           let m = (assemble key, take (length s3 - length s4) s3, v) in
                           (case skip_ws s4 of
                              [] \<Rightarrow> None
                            | c2 # s5 \<Rightarrow>
                                if c2 = CHR ''}'' then Some ([m], s5)
                                else if c2 = CHR '','' then
                                  (case parse_members n d (skip_ws s5) of
                                     None \<Rightarrow> None | Some (ms, rest) \<Rightarrow> Some (m # ms, rest))
                                else None)))))"

text \<open>\<open>json.Unmarshal\<close> accepts one value surrounded by white space.\<close>

definition json_parse :: "string \<Rightarrow> jval option" where
  "json_parse s =
     (let s0 = skip_ws s in
      case parse_value (Suc (2 * length s0)) 0 s0 of
        None \<Rightarrow> None
      | Some (v, rest) \<Rightarrow> if skip_ws rest = [] then Some v else None)"

definition json_valid :: "string \<Rightarrow> bool" where
  "json_valid s \<longleftrightarrow> json_parse s \<noteq> None"

section \<open>The fuel is enough\<close>

lemma skip_ws_length: "length (skip_ws s) \<le> length s"
  by (simp add: skip_ws_def length_dropWhile_le)

lemma skip_ws_Cons_length: "skip_ws s = c # t \<Longrightarrow> length t < length s"
  using skip_ws_length [of s] by simp

lemma scan_string_length: "scan_string s = Some (is, rest) \<Longrightarrow> length rest < length s"
  by (induction s arbitrary: "is" rest rule: scan_string.induct)
    (auto simp: cons_item_def split: if_splits option.splits list.splits, fastforce+)

lemma scan_int_length: "scan_int s = Some (t, rest) \<Longrightarrow> length rest < length s"
  by (auto simp: scan_int_def length_dropWhile_le le_imp_less_Suc split: list.splits if_splits)

lemma scan_frac_length: "scan_frac s = Some (t, rest) \<Longrightarrow> length rest \<le> length s"
  by (auto simp: scan_frac_def length_dropWhile_le le_SucI split: list.splits if_splits)

lemma scan_exp_length: "scan_exp s = Some (t, rest) \<Longrightarrow> length rest \<le> length s"
  by (auto simp: scan_exp_def length_dropWhile_le le_SucI split: list.splits if_splits)

lemma scan_number_length: "scan_number s = Some (t, rest) \<Longrightarrow> length rest < length s"
  by (auto simp: scan_number_def Let_def split: list.splits if_splits option.splits
      dest!: scan_int_length scan_frac_length scan_exp_length)

lemma scan_atom_length: "scan_atom s = Some (v, rest) \<Longrightarrow> length rest < length s"
  by (auto simp: scan_atom_def has_prefix_iff split: if_splits option.splits dest: scan_number_length)

lemma parse_length:
  "(\<forall>d s v rest. parse_value n d s = Some (v, rest) \<longrightarrow> length rest < length s)
   \<and> (\<forall>d s vs rest. parse_elems n d s = Some (vs, rest) \<longrightarrow> length rest < length s)
   \<and> (\<forall>d s ms rest. parse_members n d s = Some (ms, rest) \<longrightarrow> length rest < length s)"
proof (induction n)
  case 0
  then show ?case by simp
next
  case (Suc n)
  have 1: "length rest < length s" if "parse_value (Suc n) d s = Some (v, rest)" for d s v rest
    using that Suc
    by (auto split: list.splits if_splits option.splits dest!: scan_string_length scan_atom_length skip_ws_Cons_length)
      fastforce+
  have 2: "length rest < length s" if e: "parse_elems (Suc n) d s = Some (vs, rest)" for d s vs rest
  proof -
    from e obtain v r c t where v: "parse_value n d s = Some (v, r)" and r: "skip_ws r = c # t"
      by (auto split: option.splits list.splits)
    then have "length r < length s" "length t < length r" using Suc by (blast, blast dest: skip_ws_Cons_length)
    moreover have "length rest \<le> length t" using e v r Suc skip_ws_length [of t]
      by (auto split: if_splits option.splits) (meson less_imp_le order_trans)
    ultimately show ?thesis by simp
  qed
  have 3: "length rest < length s" if e: "parse_members (Suc n) d s = Some (ms, rest)" for d s ms rest
  proof -
    from e obtain t key s1 s2 v s4 c s5 where
      t: "s = dq # t" and key: "scan_string t = Some (key, s1)" and s1: "skip_ws s1 = CHR '':'' # s2"
      and v: "parse_value n d (skip_ws s2) = Some (v, s4)" and s4: "skip_ws s4 = c # s5"
      by (auto simp: Let_def split: option.splits list.splits if_splits)
    have "length t < length s" using t by simp
    moreover have "length s1 < length t" using key by (rule scan_string_length)
    moreover have "length s2 < length s1" using s1 by (rule skip_ws_Cons_length)
    moreover have "length s4 < length (skip_ws s2)" using Suc v by blast
    moreover have "length s5 < length s4" using s4 by (rule skip_ws_Cons_length)
    moreover have "length rest \<le> length s5" using e t key s1 v s4 Suc skip_ws_length [of s5]
      by (auto simp: Let_def split: if_splits option.splits) (meson less_imp_le order_trans)
    ultimately show ?thesis using skip_ws_length [of s2] by linarith
  qed
  from 1 2 3 show ?case by blast
qed

lemma parse_lengthD:
  "parse_value n d s = Some (v, rest) \<Longrightarrow> length rest < length s"
  "parse_elems n d s = Some (vs, rest) \<Longrightarrow> length rest < length s"
  "parse_members n d s = Some (ms, rest) \<Longrightarrow> length rest < length s"
  using parse_length [of n] by blast+

lemma parse_fuel:
  "(\<forall>d s m. 2 * length s < n \<longrightarrow> 2 * length s < m \<longrightarrow> parse_value n d s = parse_value m d s)
   \<and> (\<forall>d s m. 2 * length s + 1 < n \<longrightarrow> 2 * length s + 1 < m \<longrightarrow> parse_elems n d s = parse_elems m d s)
   \<and> (\<forall>d s m. 2 * length s + 1 < n \<longrightarrow> 2 * length s + 1 < m \<longrightarrow> parse_members n d s = parse_members m d s)"
proof (induction n)
  case 0
  then show ?case by simp
next
  case (Suc n)
  have V: "parse_value n d s = parse_value m d s" if "2 * length s < n" "2 * length s < m" for d s m
    using Suc that by blast
  have E: "parse_elems n d s = parse_elems m d s" if "2 * length s + 1 < n" "2 * length s + 1 < m" for d s m
    using Suc that by blast
  have M: "parse_members n d s = parse_members m d s" if "2 * length s + 1 < n" "2 * length s + 1 < m" for d s m
    using Suc that by blast
  have 1: "parse_value (Suc n) d s = parse_value m d s" if l: "2 * length s < Suc n" "2 * length s < m" for d s m
  proof (cases s)
    case Nil
    with l show ?thesis by (cases m) auto
  next
    case (Cons c t)
    obtain m' where m: "m = Suc m'" using l by (cases m) auto
    have "parse_elems n (Suc d) (c' # t') = parse_elems m' (Suc d) (c' # t')
        \<and> parse_members n (Suc d) (c' # t') = parse_members m' (Suc d) (c' # t')"
      if "skip_ws t = c' # t'" for c' t'
    proof -
      have "length (c' # t') \<le> length t" using skip_ws_length [of t] that by simp
      then have "2 * length (c' # t') + 1 < n" "2 * length (c' # t') + 1 < m'" using l m Cons by simp_all
      then show ?thesis using E M by blast
    qed
    then show ?thesis unfolding m Cons by (simp only: parse_value.simps) (auto split: list.splits)
  qed
  have 2: "parse_elems (Suc n) d s = parse_elems m d s" if l: "2 * length s + 1 < Suc n" "2 * length s + 1 < m" for d s m
  proof -
    obtain m' where m: "m = Suc m'" using l by (cases m) auto
    have v: "parse_value n d s = parse_value m' d s" using l m by (intro V) simp_all
    have "parse_elems n d (skip_ws t) = parse_elems m' d (skip_ws t)"
      if "parse_value m' d s = Some (v, rest)" "skip_ws rest = c # t" for v rest c t
    proof -
      have "length (skip_ws t) + 1 < length s"
        using parse_lengthD(1) [OF that(1)] skip_ws_Cons_length [OF that(2)] skip_ws_length [of t] by linarith
      then show ?thesis using l m by (intro E) simp_all
    qed
    then show ?thesis unfolding m parse_elems.simps v by (auto split: option.splits list.splits)
  qed
  have 3: "parse_members (Suc n) d s = parse_members m d s" if l: "2 * length s + 1 < Suc n" "2 * length s + 1 < m" for d s m
  proof (cases s)
    case Nil
    with l show ?thesis by (cases m) auto
  next
    case (Cons c t)
    obtain m' where m: "m = Suc m'" using l by (cases m) auto
    have v: "parse_value n d (skip_ws s2) = parse_value m' d (skip_ws s2)"
      and r: "parse_value m' d (skip_ws s2) = Some (v, s4) \<Longrightarrow> skip_ws s4 = c2 # s5 \<Longrightarrow>
        parse_members n d (skip_ws s5) = parse_members m' d (skip_ws s5)"
      if "scan_string t = Some (key, s1)" "skip_ws s1 = c1 # s2" for key s1 c1 s2 v s4 c2 s5
    proof -
      have *: "length (skip_ws s2) + 2 < length s"
        using scan_string_length [OF that(1)] skip_ws_Cons_length [OF that(2)] skip_ws_length [of s2] Cons by simp
      then show "parse_value n d (skip_ws s2) = parse_value m' d (skip_ws s2)" using l m by (intro V) simp_all
      assume "parse_value m' d (skip_ws s2) = Some (v, s4)" "skip_ws s4 = c2 # s5"
      then have "length (skip_ws s5) + 2 < length s"
        using * parse_lengthD(1) skip_ws_Cons_length skip_ws_length [of s5] by fastforce
      then show "parse_members n d (skip_ws s5) = parse_members m' d (skip_ws s5)" using l m by (intro M) simp_all
    qed
    show ?thesis
    proof (cases "\<exists>key s1 c1 s2. scan_string t = Some (key, s1) \<and> skip_ws s1 = c1 # s2")
      case True
      then obtain key s1 c1 s2 where k: "scan_string t = Some (key, s1)" "skip_ws s1 = c1 # s2" by blast
      have v: "parse_value n d (skip_ws s2) = parse_value m' d (skip_ws s2)" by (rule v [OF k])
      show ?thesis
      proof (cases "\<exists>v s4 c2 s5. parse_value m' d (skip_ws s2) = Some (v, s4) \<and> skip_ws s4 = c2 # s5")
        case True
        then obtain v s4 c2 s5 where p: "parse_value m' d (skip_ws s2) = Some (v, s4)" "skip_ws s4 = c2 # s5" by blast
        show ?thesis unfolding m Cons by (simp add: k v p Let_def r [OF k p])
      next
        case False
        then have no: "parse_value m' d (skip_ws s2) = Some (v, s4) \<Longrightarrow> skip_ws s4 = []" for v s4
          by (cases "skip_ws s4") auto
        show ?thesis unfolding m Cons
        proof (cases "parse_value m' d (skip_ws s2)")
          case None
          then show "parse_members (Suc n) d (c # t) = parse_members (Suc m') d (c # t)" by (simp add: k v Let_def)
        next
          case (Some p)
          obtain v s4 where p: "p = (v, s4)" by force
          have "skip_ws s4 = []" using no Some p by blast
          with Some p show "parse_members (Suc n) d (c # t) = parse_members (Suc m') d (c # t)" by (simp add: k v Let_def)
        qed
      qed
    next
      case False
      then have no: "scan_string t = Some (key, s1) \<Longrightarrow> skip_ws s1 = []" for key s1
        by (cases "skip_ws s1") auto
      show ?thesis unfolding m Cons
      proof (cases "scan_string t")
        case (Some p)
        obtain key s1 where p: "p = (key, s1)" by force
        have "skip_ws s1 = []" using no Some p by blast
        with Some p show "parse_members (Suc n) d (c # t) = parse_members (Suc m') d (c # t)" by simp
      qed simp
    qed
  qed
  show ?case by (intro conjI allI impI) (rule 1 2 3; assumption)+
qed

lemma parse_value_fuel: "2 * length s < n \<Longrightarrow> parse_value n d s = parse_value (Suc (2 * length s)) d s"
  by (rule parse_fuel [THEN conjunct1, rule_format]) simp_all

section \<open>Decoding into structs\<close>

text \<open>
  \<open>encoding/json\<close> matches an object key with a field name up to Unicode simple folding. All field
  names here are ASCII, and the only runes outside ASCII that fold to an ASCII letter are the Kelvin
  sign (\<open>K\<close>) and the long s (\<open>S\<close>).
\<close>

fun fold_key :: "string \<Rightarrow> string" where
  "fold_key [] = []"
| "fold_key (c # s) =
     (if c = CHR 0xE2 \<and> take 2 s = [CHR 0x84, CHR 0xAA] then CHR ''K'' # fold_key (drop 2 s)
      else if c = CHR 0xC5 \<and> take 1 s = [CHR 0xBF] then CHR ''S'' # fold_key (drop 1 s)
      else (if 97 \<le> byte_val c \<and> byte_val c \<le> 122 then char_of (byte_val c - 32) else c) # fold_key s)"

definition key_is :: "string \<Rightarrow> string \<Rightarrow> bool" where
  "key_is name key \<longleftrightarrow> fold_key key = fold_key name"

text \<open>Setting a field of Go type \<open>string\<close>, \<open>int\<close> or \<open>json.RawMessage\<close>; \<open>null\<close> leaves the first two alone.\<close>

definition set_string :: "jval \<Rightarrow> string \<Rightarrow> string option" where
  "set_string v cur = (case v of JStr s \<Rightarrow> Some s | JNull \<Rightarrow> Some cur | _ \<Rightarrow> None)"

definition dec_val :: "string \<Rightarrow> int" where
  "dec_val s = foldl (\<lambda>n c. 10 * n + int (byte_val c - 48)) 0 s"

definition parse_int64 :: "string \<Rightarrow> int option" where
  "parse_int64 t =
     (let (neg, ds) = (case t of c # u \<Rightarrow> if c = CHR ''-'' then (True, u) else (False, t) | [] \<Rightarrow> (False, t));
          n = (if neg then - dec_val ds else dec_val ds)
      in if ds \<noteq> [] \<and> list_all is_digit ds \<and> - (2 ^ 63) \<le> n \<and> n < 2 ^ 63 then Some n else None)"

definition set_int :: "jval \<Rightarrow> int \<Rightarrow> int option" where
  "set_int v cur = (case v of JNum t \<Rightarrow> parse_int64 t | JNull \<Rightarrow> Some cur | _ \<Rightarrow> None)"

text \<open>
  One pass over the members in their order, so of several members for one field the last one wins;
  a member of the wrong type makes the whole decode an error.
\<close>

fun decode_members ::
  "(string \<Rightarrow> string \<Rightarrow> jval \<Rightarrow> 'm \<Rightarrow> 'm option) \<Rightarrow> (string \<times> string \<times> jval) list \<Rightarrow> 'm \<Rightarrow> 'm option"
where
  "decode_members step [] m = Some m"
| "decode_members step ((key, raw, v) # ms) m =
     (case step key raw v m of None \<Rightarrow> None | Some m' \<Rightarrow> decode_members step ms m')"

definition decode_struct ::
  "(string \<Rightarrow> string \<Rightarrow> jval \<Rightarrow> 'm \<Rightarrow> 'm option) \<Rightarrow> 'm \<Rightarrow> jval \<Rightarrow> 'm option"
where
  "decode_struct step zero v =
     (case v of JNull \<Rightarrow> Some zero | JObj ms \<Rightarrow> decode_members step ms zero | _ \<Rightarrow> None)"

definition unmarshal ::
  "(string \<Rightarrow> string \<Rightarrow> jval \<Rightarrow> 'm \<Rightarrow> 'm option) \<Rightarrow> 'm \<Rightarrow> string \<Rightarrow> 'm option"
where
  "unmarshal step zero data = (case json_parse data of None \<Rightarrow> None | Some v \<Rightarrow> decode_struct step zero v)"

text \<open>\<open>json.NewDecoder(r).Decode\<close> reads the first value and leaves the rest of the stream alone.\<close>

definition decode_first ::
  "(string \<Rightarrow> string \<Rightarrow> jval \<Rightarrow> 'm \<Rightarrow> 'm option) \<Rightarrow> 'm \<Rightarrow> string \<Rightarrow> 'm option"
where
  "decode_first step zero data =
     (let s = skip_ws data in
      case parse_value (Suc (2 * length s)) 0 s of None \<Rightarrow> None | Some (v, rest) \<Rightarrow> decode_struct step zero v)"

definition json_keys :: "string \<Rightarrow> string list" where
  "json_keys data = (case json_parse data of Some (JObj ms) \<Rightarrow> map fst ms | _ \<Rightarrow> [])"

section \<open>Encoding\<close>

definition hexd :: "nat \<Rightarrow> char" where
  "hexd n = ''0123456789abcdef'' ! n"

text \<open>An ASCII byte inside a string literal, with the HTML-sensitive ones escaped.\<close>

definition quote_ascii :: "char \<Rightarrow> string" where
  "quote_ascii c =
     (if c = dq \<or> c = bs then [bs, c]
      else if c = CHR 0x08 then [bs, CHR ''b'']
      else if c = CHR 0x0C then [bs, CHR ''f'']
      else if c = CHR 0x0A then [bs, CHR ''n'']
      else if c = CHR 0x0D then [bs, CHR ''r'']
      else if c = CHR 0x09 then [bs, CHR ''t'']
      else if byte_val c < 0x20 \<or> c = CHR ''<'' \<or> c = CHR ''>'' \<or> c = CHR ''&''
      then [bs, CHR ''u'', CHR ''0'', CHR ''0'', hexd (byte_val c div 16), hexd (byte_val c mod 16)]
      else [c])"

definition quote_rune :: "string \<Rightarrow> string" where
  "quote_rune r =
     (if r = [CHR 0xE2, CHR 0x80, CHR 0xA8] then [bs] @ ''u2028''
      else if r = [CHR 0xE2, CHR 0x80, CHR 0xA9] then [bs] @ ''u2029''
      else r)"

fun quote_body :: "string \<Rightarrow> string" where
  "quote_body [] = []"
| "quote_body (c # s) =
     (if byte_val c < 0x80 then quote_ascii c @ quote_body s
      else
        let n = rune_len (c # s) in
        if n = 0 then [bs] @ ''ufffd'' @ quote_body s
        else quote_rune (take n (c # s)) @ quote_body (drop (n - 1) s))"

definition json_quote :: "string \<Rightarrow> string" where
  "json_quote s = dq # quote_body s @ [dq]"

fun dec_nat :: "nat \<Rightarrow> string" where
  "dec_nat n = (if n < 10 then [char_of (48 + n)] else dec_nat (n div 10) @ [char_of (48 + n mod 10)])"

declare dec_nat.simps [simp del]

definition json_int :: "int \<Rightarrow> string" where
  "json_int n = (if n < 0 then CHR ''-'' # dec_nat (nat (- n)) else dec_nat (nat n))"

definition json_bool :: "bool \<Rightarrow> string" where
  "json_bool b = (if b then ''true'' else ''false'')"

text \<open>The fields of a struct in declaration order, each with its encoded value.\<close>

fun json_fields :: "(string \<times> string) list \<Rightarrow> string" where
  "json_fields [] = []"
| "json_fields [(k, t)] = json_quote k @ '':'' @ t"
| "json_fields ((k, t) # f # fs) = json_quote k @ '':'' @ t @ '','' @ json_fields (f # fs)"

definition json_obj :: "(string \<times> string) list \<Rightarrow> string" where
  "json_obj fs = ''{'' @ json_fields fs @ ''}''"

text \<open>
  A \<open>json.RawMessage\<close> is written compacted: white space outside strings is dropped and the
  HTML-sensitive characters inside strings are escaped. \<open>None\<close> is the error for text that is not
  JSON; the nil message is written \<open>null\<close>.
\<close>

definition line_sep :: "string \<Rightarrow> bool" where
  "line_sep s \<longleftrightarrow> take 3 s = [CHR 0xE2, CHR 0x80, CHR 0xA8] \<or> take 3 s = [CHR 0xE2, CHR 0x80, CHR 0xA9]"

fun compact_text :: "bool \<Rightarrow> string \<Rightarrow> string" where
  "compact_text in_str [] = []"
| "compact_text in_str (c # s) =
     (if \<not> in_str then
        (if is_ws c then compact_text False s else c # compact_text (c = dq) s)
      else if c = bs then (case s of [] \<Rightarrow> [c] | e # s' \<Rightarrow> c # e # compact_text True s')
      else if c = dq then c # compact_text False s
      else if c = CHR ''<'' \<or> c = CHR ''>'' \<or> c = CHR ''&'' then quote_ascii c @ compact_text True s
      else if line_sep (c # s) then quote_rune (take 3 (c # s)) @ compact_text True (drop 2 s)
      else c # compact_text True s)"

definition json_raw :: "string \<Rightarrow> string option" where
  "json_raw raw = (if raw = [] then Some ''null'' else if json_valid raw then Some (compact_text False raw) else None)"

section \<open>Reading back what was written\<close>

fun valid_utf8 :: "string \<Rightarrow> bool" where
  "valid_utf8 [] = True"
| "valid_utf8 (c # s) = (let n = rune_len (c # s) in n \<noteq> 0 \<and> valid_utf8 (drop (n - 1) s))"

lemma rune_len_ascii: "byte_val c < 0x80 \<Longrightarrow> rune_len (c # s) = 1"
  by (simp add: rune_len_def)

lemma rune_len_le: "rune_len s \<le> length s"
  by (auto simp: rune_len_def Let_def split: list.splits)

lemma rune_len_le4: "rune_len s \<le> 4"
  by (auto simp: rune_len_def Let_def split: list.splits)

lemma rune_len_take4: "rune_len (take 4 s) = rune_len s"
proof -
  consider "s = []" | a where "s = [a]" | a b where "s = [a, b]" | a b c where "s = [a, b, c]"
    | a b c d t where "s = a # b # c # d # t"
    by (metis list.exhaust)
  then show ?thesis by cases (simp_all add: rune_len_def Let_def)
qed

text \<open>The length of a rune in closed form, one line per length.\<close>

lemma rune_len_cases:
  assumes "rune_len s \<noteq> 0"
  obtains a t where "s = a # t" "rune_len s = 1" "byte_val a < 0x80"
    | a b t where "s = a # b # t" "rune_len s = 2" "0xC2 \<le> byte_val a" "0x80 \<le> byte_val b" "\<And>u. rune_len (a # b # u) = 2"
    | a b c t where "s = a # b # c # t" "rune_len s = 3" "0xE0 \<le> byte_val a" "0x80 \<le> byte_val b" "0x80 \<le> byte_val c"
        "\<And>u. rune_len (a # b # c # u) = 3"
    | a b c d t where "s = a # b # c # d # t" "rune_len s = 4" "0xF0 \<le> byte_val a" "0x80 \<le> byte_val b" "0x80 \<le> byte_val c"
        "0x80 \<le> byte_val d" "\<And>u. rune_len (a # b # c # d # u) = 4"
proof -
  obtain a t where s: "s = a # t" using assms by (cases s) (auto simp: rune_len_def)
  consider "byte_val a < 0x80" | "0xC2 \<le> byte_val a" "byte_val a \<le> 0xDF"
    | "0xE0 \<le> byte_val a" "byte_val a \<le> 0xEF" | "0xF0 \<le> byte_val a" "byte_val a \<le> 0xF4"
    using assms unfolding s rune_len_def by (auto simp: Let_def split: if_splits)
  then show thesis
  proof cases
    case 1
    then show thesis using that(1) [of a t] s by (simp add: rune_len_def)
  next
    case 2
    with assms s obtain b u where "t = b # u" "cont 0x80 0xBF b"
      by (auto simp: rune_len_def Let_def split: list.splits if_splits)
    with 2 s show thesis using that(2) [of a b u] by (simp add: rune_len_def cont_def)
  next
    case 3
    with assms s obtain b c u where "t = b # c # u" "cont (if byte_val a = 0xE0 then 0xA0 else 0x80) (if byte_val a = 0xED then 0x9F else 0xBF) b" "cont 0x80 0xBF c"
      by (auto simp: rune_len_def Let_def split: list.splits if_splits)
    with 3 s show thesis using that(3) [of a b c u] by (simp add: rune_len_def cont_def split: if_splits)
  next
    case 4
    with assms s obtain b c d u where "t = b # c # d # u" "cont (if byte_val a = 0xF0 then 0x90 else 0x80) (if byte_val a = 0xF4 then 0x8F else 0xBF) b" "cont 0x80 0xBF c" "cont 0x80 0xBF d"
      by (auto simp: rune_len_def Let_def split: list.splits if_splits)
    with 4 s show thesis using that(4) [of a b c d u] by (simp add: rune_len_def cont_def split: if_splits)
  qed
qed

text \<open>Scanning and assembling what the encoder wrote for one rune.\<close>

lemma scan_byte: "0x80 \<le> byte_val c \<Longrightarrow> scan_string (c # s) = cons_item (JByte c) (scan_string s)"
  by (auto simp: dq_def bs_def byte_val_def)

lemma scan_quote: "scan_string (dq # s) = Some ([], s)"
  by simp

lemma byte_val_hexd: "n < 16 \<Longrightarrow> hex_val (hexd n) = Some n"
proof -
  have "list_all (\<lambda>n. hex_val (hexd n) = Some n) [0 ..< 16]"
    by (simp add: upt_rec hexd_def hex_val_def byte_val_def)
  then show "n < 16 \<Longrightarrow> hex_val (hexd n) = Some n" by (simp add: list_all_iff)
qed

lemma char_of_byte_val [simp]: "char_of (byte_val c) = c"
  by (simp add: byte_val_def)

lemma scan_quote_ascii:
  assumes "byte_val c < 0x80"
  obtains i where "\<And>s. scan_string (quote_ascii c @ s) = cons_item i (scan_string s)" "\<And>is. assemble (i # is) = c # assemble is"
proof -
  have asm: "assemble (JByte c # is) = c # assemble is" for "is"
    using rune_len_ascii [OF assms, of "take 3 (item_bytes is)"] by simp
  have dist: "quote_ascii c = [c] \<and> c \<noteq> dq \<and> c \<noteq> bs \<and> \<not> byte_val c < 0x20
      \<or> quote_ascii c = [bs, CHR ''u'', CHR ''0'', CHR ''0'', hexd (byte_val c div 16), hexd (byte_val c mod 16)]"
    if "\<not> (c = dq \<or> c = bs)" "\<not> (c = CHR 0x08 \<or> c = CHR 0x0C \<or> c = CHR 0x0A \<or> c = CHR 0x0D \<or> c = CHR 0x09)"
    using that by (simp add: quote_ascii_def del: char.inject)
  consider "c = dq \<or> c = bs" | "c = CHR 0x08 \<or> c = CHR 0x0C \<or> c = CHR 0x0A \<or> c = CHR 0x0D \<or> c = CHR 0x09"
    | "quote_ascii c = [c]" "c \<noteq> dq" "c \<noteq> bs" "\<not> byte_val c < 0x20"
    | "quote_ascii c = [bs, CHR ''u'', CHR ''0'', CHR ''0'', hexd (byte_val c div 16), hexd (byte_val c mod 16)]"
    using dist by blast
  then show thesis
  proof cases
    case 1
    then have "scan_string (quote_ascii c @ s) = cons_item (JByte c) (scan_string s)" for s
      by (elim disjE) (simp_all add: quote_ascii_def dq_def bs_def esc_char_def)
    with asm that show thesis by blast
  next
    case 2
    then have "scan_string (quote_ascii c @ s) = cons_item (JByte c) (scan_string s)" for s
      by (elim disjE) (simp_all add: quote_ascii_def dq_def bs_def esc_char_def)
    with asm that show thesis by blast
  next
    case 3
    then have "scan_string (quote_ascii c @ s) = cons_item (JByte c) (scan_string s)" for s by simp
    with asm that show thesis by blast
  next
    case 4
    have "hex_val (CHR ''0'') = Some 0" by (simp add: hex_val_def byte_val_def)
    moreover have "byte_val c div 16 < 16" using assms by simp
    ultimately have "hex4 (CHR ''0'') (CHR ''0'') (hexd (byte_val c div 16)) (hexd (byte_val c mod 16)) = Some (byte_val c)"
      by (simp add: hex4_def byte_val_hexd)
    then have "scan_string (quote_ascii c @ s) = cons_item (JUnit (byte_val c)) (scan_string s)" for s
      by (simp add: 4 dq_def bs_def)
    moreover have "assemble (JUnit (byte_val c) # is) = c # assemble is" for "is"
      using assms by (simp add: is_surrogate_def utf8_encode_def)
    ultimately show thesis using that by blast
  qed
qed


lemma rune_len_take:
  assumes "rune_len s = n" "n \<noteq> 0"
  shows "rune_len (take n s @ t) = n"
proof -
  have "rune_len s \<noteq> 0" using assms by simp
  then show ?thesis
    using assms by (cases rule: rune_len_cases) (auto simp: rune_len_ascii numeral_eq_Suc)
qed

lemma rune_len_bytes:
  assumes "rune_len (c # s) = n" "\<not> byte_val c < 0x80" "x \<in> set (take n (c # s))"
  shows "0x80 \<le> byte_val x"
proof (cases "n = 0")
  case False
  then have "rune_len (c # s) \<noteq> 0" using assms by simp
  then show ?thesis
    using assms(1-3) by (cases rule: rune_len_cases) (auto simp: numeral_eq_Suc)
qed (use assms in simp)

lemma assemble_rune:
  assumes "rune_len r = length r" "r \<noteq> []"
  shows "assemble (map JByte r @ is) = r @ assemble is"
proof -
  have "rune_len r \<noteq> 0" using assms by simp
  then show ?thesis
  proof (cases rule: rune_len_cases)
    case (1 a t)
    with assms rune_len_ascii [of a "take 3 (item_bytes is)"] show ?thesis by simp
  next
    case (2 a b t)
    with assms show ?thesis by (simp add: numeral_eq_Suc)
  next
    case (3 a b c t)
    with assms show ?thesis by (simp add: numeral_eq_Suc)
  next
    case (4 a b c d t)
    with assms show ?thesis by (simp add: numeral_eq_Suc)
  qed
qed

lemma scan_bytes:
  "\<forall>c \<in> set r. 0x80 \<le> byte_val c \<Longrightarrow> scan_string s = Some (is, rest) \<Longrightarrow>
   scan_string (r @ s) = Some (map JByte r @ is, rest)"
proof (induction r)
  case (Cons c r)
  then show ?case using scan_byte [of c "r @ s"] by (simp add: cons_item_def)
qed simp

lemma byte_val_char: "byte_val c = n \<Longrightarrow> char_of n = c"
  by auto

lemma utf8_seps:
  "utf8_encode 0x2028 = [CHR 0xE2, CHR 0x80, CHR 0xA8]" "utf8_encode 0x2029 = [CHR 0xE2, CHR 0x80, CHR 0xA9]"
proof -
  have "char_of (226 :: nat) = CHR 0xE2" "char_of (128 :: nat) = CHR 0x80" "char_of (168 :: nat) = CHR 0xA8"
    "char_of (169 :: nat) = CHR 0xA9"
    by (rule byte_val_char, simp add: byte_val_def)+
  then show "utf8_encode 0x2028 = [CHR 0xE2, CHR 0x80, CHR 0xA8]" "utf8_encode 0x2029 = [CHR 0xE2, CHR 0x80, CHR 0xA9]"
    by (simp_all add: utf8_encode_def)
qed

lemma scan_quote_rune:
  assumes "rune_len r = length r" "r \<noteq> []" "\<forall>c \<in> set r. 0x80 \<le> byte_val c"
    and "scan_string s = Some (is, rest)"
  shows "\<exists>js. scan_string (quote_rune r @ s) = Some (js, rest) \<and> assemble js = r @ assemble is"
proof -
  have l: "scan_string (bs # ''u202'' @ c # s) = Some (JUnit (0x2020 + n) # is, rest)"
    if "hex_val c = Some n" for c n
  proof -
    have "hex_val (CHR ''2'') = Some 2" "hex_val (CHR ''0'') = Some 0" by (simp_all add: hex_val_def byte_val_def)
    with that have "hex4 (CHR ''2'') (CHR ''0'') (CHR ''2'') c = Some (0x2020 + n)" by (simp add: hex4_def)
    with assms(4) show ?thesis by (simp add: dq_def bs_def cons_item_def)
  qed
  consider "r = [CHR 0xE2, CHR 0x80, CHR 0xA8]" | "r = [CHR 0xE2, CHR 0x80, CHR 0xA9]" | "quote_rune r = r"
    unfolding quote_rune_def by presburger
  then show ?thesis
  proof cases
    case 1
    have "hex_val (CHR ''8'') = Some 8" by (simp add: hex_val_def byte_val_def)
    from l [OF this] 1 show ?thesis
      by (simp add: quote_rune_def is_surrogate_def utf8_seps del: scan_string.simps)
  next
    case 2
    have "hex_val (CHR ''9'') = Some 9" by (simp add: hex_val_def byte_val_def)
    from l [OF this] 2 show ?thesis
      by (simp add: quote_rune_def is_surrogate_def utf8_seps del: scan_string.simps)
  next
    case 3
    with scan_bytes [OF assms(3,4)] assemble_rune [OF assms(1,2)] show ?thesis by auto
  qed
qed

lemma scan_quote_body:
  "valid_utf8 s \<Longrightarrow> \<exists>is. scan_string (quote_body s @ dq # rest) = Some (is, rest) \<and> assemble is = s"
proof (induction s rule: quote_body.induct)
  case 1
  then show ?case by (simp del: scan_string.simps add: scan_quote)
next
  case (2 c s)
  show ?case
  proof (cases "byte_val c < 0x80")
    case True
    have "valid_utf8 s" using 2(4) rune_len_ascii [OF True, of s] by simp
    with 2(1) True obtain "is" where "scan_string (quote_body s @ dq # rest) = Some (is, rest)" "assemble is = s" by blast
    moreover obtain i where "\<And>s. scan_string (quote_ascii c @ s) = cons_item i (scan_string s)" "\<And>is. assemble (i # is) = c # assemble is"
      by (rule scan_quote_ascii [OF True]) blast
    ultimately show ?thesis using True by (simp add: cons_item_def)
  next
    case False
    define n where "n = rune_len (c # s)"
    have n: "n \<noteq> 0" and v: "valid_utf8 (drop (n - 1) s)" using 2(4) by (auto simp: n_def Let_def)
    from 2(3) False n v obtain "is" where s: "scan_string (quote_body (drop (n - 1) s) @ dq # rest) = Some (is, rest)"
      and a: "assemble is = drop (n - 1) s" unfolding n_def by blast
    let ?r = "take n (c # s)"
    have "length ?r = n" using rune_len_le [of "c # s"] by (simp add: n_def)
    moreover have "rune_len ?r = n" using rune_len_take [of "c # s" n "[]"] n by (simp add: n_def)
    ultimately have r: "rune_len ?r = length ?r" by simp
    have ne: "?r \<noteq> []" using n by simp
    have b: "\<forall>x \<in> set ?r. 0x80 \<le> byte_val x" using rune_len_bytes [of c s n] False n_def by blast
    have q: "quote_body (c # s) = quote_rune ?r @ quote_body (drop (n - 1) s)"
      using False n by (simp add: n_def Let_def)
    have "?r @ drop (n - 1) s = c # s" using n by (cases n) simp_all
    with scan_quote_rune [OF r ne b s] a show ?thesis unfolding q by auto
  qed
qed

lemma parse_quote:
  assumes "valid_utf8 s"
  shows "parse_value (Suc n) d (json_quote s @ rest) = Some (JStr s, rest)"
  using scan_quote_body [OF assms, of rest] by (auto simp: json_quote_def)

text \<open>\<open>encodes t v\<close>: \<open>t\<close> is the text of \<open>v\<close> wherever a member of an outermost object ends after it.\<close>

definition ends_value :: "string \<Rightarrow> bool" where
  "ends_value rest \<longleftrightarrow> rest = [] \<or> hd rest = CHR '','' \<or> hd rest = CHR ''}'' \<or> hd rest = CHR '']''"

definition encodes :: "string \<Rightarrow> jval \<Rightarrow> bool" where
  "encodes t v \<longleftrightarrow> t \<noteq> [] \<and> \<not> is_ws (hd t) \<and>
     (\<forall>n rest. 2 * length t \<le> n \<longrightarrow> ends_value rest \<longrightarrow> parse_value n 1 (t @ rest) = Some (v, rest))"

lemma encodesI:
  assumes "t \<noteq> []" and "\<not> is_ws (hd t)" and "\<And>n d rest. ends_value rest \<Longrightarrow> parse_value (Suc n) d (t @ rest) = Some (v, rest)"
  shows "encodes t v"
proof -
  have "parse_value n 1 (t @ rest) = Some (v, rest)" if "2 * length t \<le> n" "ends_value rest" for n rest
    using assms(1,3) that by (cases n) simp_all
  with assms show ?thesis by (simp add: encodes_def)
qed

lemma skip_ws_nonws: "\<not> is_ws c \<Longrightarrow> skip_ws (c # s) = c # s"
  by (simp add: skip_ws_def)

lemma skip_ws_encoded: "encodes t v \<Longrightarrow> skip_ws (t @ s) = t @ s"
  by (cases t) (auto simp: encodes_def skip_ws_def)

lemma encodes_quote: "valid_utf8 s \<Longrightarrow> encodes (json_quote s) (JStr s)"
  using parse_quote [of s] by (intro encodesI) (simp_all add: json_quote_def is_ws_def dq_def del: parse_value.simps)

lemma encodes_bool: "encodes (json_bool b) (JBool b)"
  by (rule encodesI) (auto simp: json_bool_def is_ws_def scan_atom_def dq_def)

lemma dec_nat_digits: "dec_nat n \<noteq> [] \<and> list_all is_digit (dec_nat n) \<and> (hd (dec_nat n) = CHR ''0'' \<longrightarrow> dec_nat n = ''0'')"
proof (induction n rule: dec_nat.induct)
  case (1 n)
  have dig: "is_digit (char_of (48 + k))" if "k < 10" for k :: nat
    using that by (simp add: is_digit_def byte_val_def)
  show ?case
  proof (cases "n < 10")
    case True
    have "char_of (48 + n) = CHR ''0'' \<longrightarrow> n = 0"
    proof
      assume "char_of (48 + n) = CHR ''0''"
      then have "byte_val (char_of (48 + n)) = byte_val (CHR ''0'')" by simp
      with True show "n = 0" by (simp add: byte_val_def)
    qed
    with True dig [of n] show ?thesis by (auto simp: dec_nat.simps [of n])
  next
    case False
    then have "hd (dec_nat (n div 10)) \<noteq> CHR ''0'' \<or> dec_nat (n div 10) = ''0''" using 1 by blast
    moreover have "dec_nat (n div 10) \<noteq> ''0''"
    proof
      assume e: "dec_nat (n div 10) = ''0''"
      show False
      proof (cases "n div 10 < 10")
        case True
        with e have "byte_val (char_of (48 + n div 10)) = byte_val (CHR ''0'')" by (simp add: dec_nat.simps [of "n div 10"])
        with True False show False by (simp add: byte_val_def)
      next
        case F: False
        then have "dec_nat (n div 10 div 10) = []" using e by (subst (asm) dec_nat.simps) (auto split: if_splits simp: append_eq_Cons_conv)
        then show False by (subst (asm) dec_nat.simps) (auto split: if_splits)
      qed
    qed
    ultimately show ?thesis using False 1 dig [of "n mod 10"] by (auto simp: dec_nat.simps [of n])
  qed
qed

lemma scan_int_digits:
  assumes "ds \<noteq> []" "list_all is_digit ds" "hd ds = CHR ''0'' \<longrightarrow> ds = ''0''" "rest = [] \<or> \<not> is_digit (hd rest)"
  shows "scan_int (ds @ rest) = Some (ds, rest)"
proof -
  obtain c cs where c: "ds = c # cs" using assms(1) by (cases ds) auto
  have "takeWhile is_digit (cs @ rest) = cs \<and> dropWhile is_digit (cs @ rest) = rest"
  proof -
    have "\<forall>x \<in> set cs. is_digit x" using assms(2) c by (simp add: list_all_iff)
    moreover have "takeWhile is_digit rest = [] \<and> dropWhile is_digit rest = rest" using assms(4) by (cases rest) auto
    ultimately show ?thesis by simp
  qed
  with assms c show ?thesis by (auto simp: scan_int_def)
qed

lemma encodes_int: "encodes (json_int k) (JNum (json_int k))"
proof -
  let ?ds = "dec_nat (nat \<bar>k\<bar>)"
  note d = dec_nat_digits [of "nat \<bar>k\<bar>"]
  have fp: "scan_frac rest = Some ([], rest)" "scan_exp rest = Some ([], rest)" "rest = [] \<or> \<not> is_digit (hd rest)"
    if "ends_value rest" for rest
    using that by (cases rest; auto simp: ends_value_def scan_frac_def scan_exp_def is_digit_def byte_val_def)+
  have hd: "is_digit (hd ?ds)" "?ds \<noteq> []" using d by (cases ?ds; simp)+
  then have ne: "hd ?ds \<noteq> CHR ''-''" "hd ?ds \<noteq> dq" "hd ?ds \<noteq> CHR ''[''" "hd ?ds \<noteq> CHR ''{''" "hd ?ds \<noteq> CHR ''n''"
    "hd ?ds \<noteq> CHR ''t''" "hd ?ds \<noteq> CHR ''f''" "\<not> is_ws (hd ?ds)"
    by (auto simp: is_digit_def byte_val_def dq_def is_ws_def)
  have e: "json_int k = (if k < 0 then CHR ''-'' # ?ds else ?ds)" by (simp add: json_int_def)
  have num: "scan_number (json_int k @ rest) = Some (json_int k, rest)"
    if r: "ends_value rest" for rest
  proof -
    have "scan_int (?ds @ rest) = Some (?ds, rest)" using d fp(3) [OF r] by (intro scan_int_digits) auto
    with fp [OF r] ne(1) hd show ?thesis by (cases ?ds) (auto simp: scan_number_def e)
  qed
  have "parse_value (Suc n) d (json_int k @ rest) = Some (JNum (json_int k), rest)"
    if r: "ends_value rest" for n d rest
  proof -
    obtain c s where c: "json_int k = c # s" "c = CHR ''-'' \<or> c = hd ?ds"
      using hd(2) by (cases "k < 0"; cases ?ds) (simp_all add: e)
    then have "c \<noteq> dq" "c \<noteq> CHR ''[''" "c \<noteq> CHR ''{''" "c \<noteq> CHR ''n''" "c \<noteq> CHR ''t''" "c \<noteq> CHR ''f''"
      using ne by (auto simp: dq_def)
    with num [OF r] show ?thesis by (simp add: c(1) scan_atom_def)
  qed
  moreover have "json_int k \<noteq> []" "\<not> is_ws (hd (json_int k))" using hd ne by (auto simp: e is_ws_def)
  ultimately show ?thesis by (intro encodesI)
qed

lemma parse_fields:
  assumes "ms \<noteq> []" "\<forall>(k, t, v) \<in> set ms. valid_utf8 k \<and> encodes t v"
    "2 * length (json_fields (map (\<lambda>(k, t, v). (k, t)) ms)) < n"
  shows "parse_members n 1 (json_fields (map (\<lambda>(k, t, v). (k, t)) ms) @ CHR ''}'' # rest) = Some (ms, rest)"
  using assms
proof (induction ms arbitrary: n)
  case (Cons m ms)
  obtain k t v where m: "m = (k, t, v)" by (metis prod_cases3)
  have k: "valid_utf8 k" and t: "encodes t v" using Cons.prems(2) m by auto
  have len: "2 * length t + 2 * length (json_fields (map (\<lambda>(k, t, v). (k, t)) ms)) + 2 \<le> 2 * length (json_fields (map (\<lambda>(k, t, v). (k, t)) (m # ms)))"
    using m by (cases ms) (auto simp: json_quote_def)
  obtain n1 where n: "n = Suc (Suc n1)" "2 * length t \<le> Suc n1" "2 * length (json_fields (map (\<lambda>(k, t, v). (k, t)) ms)) < Suc n1"
    using Cons.prems(3) len by (cases n; cases "n - 1") auto
  have key: "\<exists>is. scan_string (quote_body k @ dq # s) = Some (is, s) \<and> assemble is = k" for s
    by (rule scan_quote_body [OF k])
  have val: "parse_value (Suc n1) (Suc 0) (t @ c # s) = Some (v, c # s)" if "c = CHR '','' \<or> c = CHR ''}''" for c s
    using t that n(2) unfolding encodes_def One_nat_def
    by (elim conjE allE [of _ "Suc n1"] allE [of _ "c # s"]) (auto simp: ends_value_def simp del: parse_value.simps)
  note ws = skip_ws_encoded [OF t]
  have colon: "skip_ws (CHR '':'' # s) = CHR '':'' # s" "skip_ws (CHR '','' # s) = CHR '','' # s"
    "skip_ws (CHR ''}'' # s) = CHR ''}'' # s" for s by (simp_all add: skip_ws_def is_ws_def)
  show ?case
  proof (cases ms)
    case Nil
    obtain "is" where "scan_string (quote_body k @ dq # CHR '':'' # t @ CHR ''}'' # rest) = Some (is, CHR '':'' # t @ CHR ''}'' # rest)"
      "assemble is = k" using key by blast
    with Nil show ?thesis by (simp add: m n json_quote_def colon ws val Let_def del: parse_value.simps)
  next
    case (Cons m2 ms2)
    let ?r = "json_fields (map (\<lambda>(k, t, v). (k, t)) ms) @ CHR ''}'' # rest"
    have r: "?r = dq # tl ?r" using Cons by (cases m2; cases ms2) (auto simp: json_quote_def)
    have sk: "skip_ws ?r = ?r" by (subst (1 2) r) (simp add: skip_ws_def is_ws_def dq_def)
    have ih: "parse_members (Suc n1) (Suc 0) ?r = Some (ms, rest)"
      using Cons n Cons.prems(2) Cons.IH [of "Suc n1"] by (simp del: json_fields.simps parse_members.simps)
    obtain "is" where "scan_string (quote_body k @ dq # CHR '':'' # t @ CHR '','' # ?r) = Some (is, CHR '':'' # t @ CHR '','' # ?r)"
      "assemble is = k" using key by blast
    moreover have "json_fields (map (\<lambda>(k, t, v). (k, t)) (m # ms)) @ CHR ''}'' # rest
        = dq # quote_body k @ dq # CHR '':'' # t @ CHR '','' # ?r"
      using Cons m by (cases m2) (simp add: json_quote_def)
    ultimately show ?thesis
      by (simp add: n(1) parse_members.simps(2) [of "Suc n1"] colon ws val Let_def sk ih m
          del: parse_value.simps parse_members.simps json_fields.simps list.map)
  qed
qed simp

lemma json_parse_obj:
  assumes "ms \<noteq> []" "\<forall>(k, t, v) \<in> set ms. valid_utf8 k \<and> encodes t v"
  shows "json_parse (json_obj (map (\<lambda>(k, t, v). (k, t)) ms)) = Some (JObj ms)"
proof -
  let ?fs = "json_fields (map (\<lambda>(k, t, v). (k, t)) ms)"
  obtain m ms' where m: "ms = m # ms'" using assms(1) by (cases ms) auto
  have f: "?fs = dq # tl ?fs" using m by (cases m; cases ms') (auto simp: json_quote_def)
  have sk: "skip_ws (?fs @ s) = dq # tl ?fs @ s" for s by (subst f) (simp add: skip_ws_def is_ws_def dq_def)
  have ob: "skip_ws (json_obj (map (\<lambda>(k, t, v). (k, t)) ms)) = json_obj (map (\<lambda>(k, t, v). (k, t)) ms)"
    by (simp add: json_obj_def skip_ws_def is_ws_def)
  have "2 * length (json_fields (map (\<lambda>(k, t, v). (k, t)) ms)) < 2 * length (json_obj (map (\<lambda>(k, t, v). (k, t)) ms))"
    by (simp add: json_obj_def)
  from parse_fields [OF assms this, of "[]"]
  have "parse_members (2 * length (json_obj (map (\<lambda>(k, t, v). (k, t)) ms))) (Suc 0) (dq # tl ?fs @ ''}'') = Some (ms, [])"
    by (subst (asm) f) simp
  moreover have "CHR ''{'' \<noteq> dq" "dq \<noteq> CHR ''}''" by (simp_all add: dq_def)
  ultimately have "parse_value (Suc (2 * length (json_obj (map (\<lambda>(k, t, v). (k, t)) ms)))) 0 (''{'' @ ?fs @ ''}'') = Some (JObj ms, [])"
    by (simp add: sk max_nesting_def)
  then have "parse_value (Suc (2 * length (json_obj (map (\<lambda>(k, t, v). (k, t)) ms)))) 0
      (json_obj (map (\<lambda>(k, t, v). (k, t)) ms)) = Some (JObj ms, [])"
    by (simp only: json_obj_def)
  then show ?thesis by (simp only: json_parse_def ob Let_def option.case prod.case) (simp add: skip_ws_def)
qed



lemma char_of_iff: "(c = char_of n) = (of_char c = n mod (256 :: nat))" "(char_of n = c) = (n mod (256 :: nat) = of_char c)"
  by (metis char_of_char of_char_of)+

text \<open>The names and type strings of the protocols are ASCII.\<close>

lemma valid_utf8_ascii: "byte_val c < 0x80 \<Longrightarrow> valid_utf8 (c # s) = valid_utf8 s"
  by (simp add: rune_len_ascii)

lemma byte_val_less: "\<not> digit7 c \<Longrightarrow> byte_val c < 0x80"
  by (cases c) (auto simp: byte_val_def of_char_def split: if_splits)

lemma valid_utf8_digit7: "list_all (\<lambda>c. \<not> digit7 c) s \<Longrightarrow> valid_utf8 s"
  by (induction s) (auto simp: valid_utf8_ascii byte_val_less simp del: valid_utf8.simps(2))

lemmas valid_utf8_simps = valid_utf8_digit7

declare valid_utf8.simps(2) [simp del]

section \<open>Structs\<close>

text \<open>A field value of a struct that is marshalled; \<open>VRaw\<close> is a \<open>json.RawMessage\<close>.\<close>

datatype fval = VStr string | VInt int | VBool bool | VRaw string

definition encode_fval :: "fval \<Rightarrow> string option" where
  "encode_fval v =
     (case v of VStr s \<Rightarrow> Some (json_quote s) | VInt n \<Rightarrow> Some (json_int n) | VBool b \<Rightarrow> Some (json_bool b)
      | VRaw r \<Rightarrow> json_raw r)"

fun encode_fields :: "(string \<times> fval) list \<Rightarrow> (string \<times> string) list option" where
  "encode_fields [] = Some []"
| "encode_fields ((k, v) # fs) =
     (case encode_fval v of
        None \<Rightarrow> None
      | Some t \<Rightarrow> map_option (\<lambda>ts. (k, t) # ts) (encode_fields fs))"

definition json_struct :: "(string \<times> fval) list \<Rightarrow> string option" where
  "json_struct fs = map_option json_obj (encode_fields fs)"

text \<open>What a reader gets for a field; \<open>raw\<close> gives the value of a raw message.\<close>

definition fval_value :: "(string \<Rightarrow> jval) \<Rightarrow> fval \<Rightarrow> jval" where
  "fval_value raw v =
     (case v of VStr s \<Rightarrow> JStr s | VInt n \<Rightarrow> JNum (json_int n) | VBool b \<Rightarrow> JBool b | VRaw r \<Rightarrow> raw r)"

definition fval_ok :: "(string \<Rightarrow> jval) \<Rightarrow> fval \<Rightarrow> bool" where
  "fval_ok raw v \<longleftrightarrow>
     (case v of VStr s \<Rightarrow> valid_utf8 s | VRaw r \<Rightarrow> \<exists>t. json_raw r = Some t \<and> encodes t (raw r) | _ \<Rightarrow> True)"

lemma fval_ok_simps [simp]:
  "fval_ok raw (VStr s) = valid_utf8 s" "fval_ok raw (VInt n)" "fval_ok raw (VBool b)"
  "fval_ok raw (VRaw r) = (\<exists>t. json_raw r = Some t \<and> encodes t (raw r))"
  by (simp_all add: fval_ok_def)

lemma encode_fval_ok: "fval_ok raw v \<Longrightarrow> \<exists>t. encode_fval v = Some t \<and> encodes t (fval_value raw v)"
  by (cases v) (auto simp: encode_fval_def fval_value_def encodes_quote encodes_int encodes_bool)

lemma encode_fields_ok:
  assumes "\<forall>(k, v) \<in> set fs. valid_utf8 k \<and> fval_ok raw v"
  shows "\<exists>ms. encode_fields fs = Some (map (\<lambda>(k, t, v). (k, t)) ms) \<and> (\<forall>(k, t, v) \<in> set ms. valid_utf8 k \<and> encodes t v)
    \<and> map (\<lambda>(k, t, v). (k, v)) ms = map (\<lambda>(k, v). (k, fval_value raw v)) fs"
  using assms
proof (induction fs)
  case (Cons f fs)
  obtain k v where f: "f = (k, v)" by force
  obtain ms where "encode_fields fs = Some (map (\<lambda>(k, t, v). (k, t)) ms)" "\<forall>(k, t, v) \<in> set ms. valid_utf8 k \<and> encodes t v"
    "map (\<lambda>(k, t, v). (k, v)) ms = map (\<lambda>(k, v). (k, fval_value raw v)) fs"
    using Cons by auto
  moreover obtain t where "encode_fval v = Some t" "encodes t (fval_value raw v)"
    using encode_fval_ok [of raw v] Cons.prems f by auto
  ultimately show ?case
    using Cons.prems f by (intro exI [of _ "(k, t, fval_value raw v) # ms"]) auto
qed simp

text \<open>Every struct with at least one field reads back as its fields.\<close>

lemma json_struct_roundtrip:
  assumes "fs \<noteq> []" and "\<forall>(k, v) \<in> set fs. valid_utf8 k \<and> fval_ok raw v"
  shows "\<exists>text ms. json_struct fs = Some text \<and> json_parse text = Some (JObj ms)
    \<and> map (\<lambda>(k, t, v). (k, v)) ms = map (\<lambda>(k, v). (k, fval_value raw v)) fs"
proof -
  obtain ms where ms: "encode_fields fs = Some (map (\<lambda>(k, t, v). (k, t)) ms)" "\<forall>(k, t, v) \<in> set ms. valid_utf8 k \<and> encodes t v"
    "map (\<lambda>(k, t, v). (k, v)) ms = map (\<lambda>(k, v). (k, fval_value raw v)) fs"
    using encode_fields_ok [OF assms(2)] by blast
  have "ms \<noteq> []" using ms(3) assms(1) by auto
  from json_parse_obj [OF this ms(2)] ms show ?thesis by (auto simp: json_struct_def)
qed

text \<open>The same with the text of every member spelled out.\<close>

lemma json_struct_parse:
  assumes "fs \<noteq> []" and "\<forall>(k, v) \<in> set fs. valid_utf8 k \<and> fval_ok raw v"
  shows "\<exists>text. json_struct fs = Some text
    \<and> json_parse text = Some (JObj (map (\<lambda>(k, v). (k, the (encode_fval v), fval_value raw v)) fs))"
proof -
  let ?ms = "map (\<lambda>(k, v). (k, the (encode_fval v), fval_value raw v)) fs"
  have "encode_fields fs = Some (map (\<lambda>(k, v). (k, the (encode_fval v))) fs)"
    using assms(2)
  proof (induction fs)
    case (Cons f fs)
    obtain k v where f: "f = (k, v)" by force
    with encode_fval_ok [of raw v] Cons show ?case by auto
  qed simp
  then have "encode_fields fs = Some (map (\<lambda>(k, t, v). (k, t)) ?ms)" by (simp add: case_prod_unfold comp_def)
  moreover have "\<forall>(k, t, v) \<in> set ?ms. valid_utf8 k \<and> encodes t v"
    using assms(2) encode_fval_ok [of raw] by fastforce
  ultimately show ?thesis using json_parse_obj [of ?ms] assms(1) by (auto simp: json_struct_def)
qed

lemma decode_members_append:
  "decode_members step (xs @ ys) m = (case decode_members step xs m of None \<Rightarrow> None | Some m' \<Rightarrow> decode_members step ys m')"
  by (induction xs arbitrary: m) (auto split: option.split)

lemma dec_nat_eval:
  "n < 10 \<Longrightarrow> dec_nat n = [char_of (48 + n)]"
  "\<not> n < 10 \<Longrightarrow> dec_nat n = dec_nat (n div 10) @ [char_of (48 + n mod 10)]"
  by (simp_all add: dec_nat.simps [of n])

lemma dec_val_nat: "dec_val (dec_nat n) = int n"
proof (induction n rule: dec_nat.induct)
  case (1 n)
  show ?case
  proof (cases "n < 10")
    case True
    then show ?thesis by (simp add: dec_nat_eval dec_val_def byte_val_def)
  next
    case False
    then have "dec_val (dec_nat n) = 10 * dec_val (dec_nat (n div 10)) + int (n mod 10)"
      by (subst dec_nat_eval) (auto simp: dec_val_def byte_val_def)
    with 1 [OF False] show ?thesis by (simp add: zdiv_int zmod_int)
  qed
qed

lemma parse_int64_json_int:
  assumes "- (2 ^ 63) \<le> n" "n < 2 ^ 63"
  shows "parse_int64 (json_int n) = Some n"
proof -
  obtain c cs where d: "dec_nat (nat \<bar>n\<bar>) = c # cs" "is_digit c" "list_all is_digit (c # cs)"
    using dec_nat_digits [of "nat \<bar>n\<bar>"] by (cases "dec_nat (nat \<bar>n\<bar>)") auto
  then have "c \<noteq> CHR ''-''" by (auto simp: is_digit_def byte_val_def)
  moreover have "dec_val (c # cs) = \<bar>n\<bar>" using dec_val_nat [of "nat \<bar>n\<bar>"] d by simp
  ultimately show ?thesis
  proof (cases "n < 0")
    case True
    then have "json_int n = CHR ''-'' # c # cs" using d by (simp add: json_int_def)
    with True assms d \<open>dec_val (c # cs) = \<bar>n\<bar>\<close> show ?thesis by (simp add: parse_int64_def)
  next
    case False
    then have "json_int n = c # cs" using d by (simp add: json_int_def)
    with False assms d \<open>dec_val (c # cs) = \<bar>n\<bar>\<close> \<open>c \<noteq> CHR ''-''\<close> show ?thesis by (simp add: parse_int64_def)
  qed
qed

end
