(* ===== verification/Gw_Compact.thy ===== *)
theory Gw_Compact
  imports Gw_Json
begin

text \<open>
  Raw messages on their way through the gateway: the encoder drops the white space outside strings and
  escapes a few characters inside them. What it writes for a text that parses inside an object is again
  such a text, so an embedded payload can never break the frame around it.
\<close>

section \<open>String literals\<close>

lemma cons_item_Some: "cons_item i x = Some (is, rest) \<longleftrightarrow> (\<exists>is0. x = Some (is0, rest) \<and> is = i # is0)"
  by (auto simp: cons_item_def split: option.split prod.split)

lemma scan_string_cases:
  assumes "scan_string s = Some (is, rest)"
  obtains (quote) "s = dq # rest" "is = []"
  | (unit) h1 h2 h3 h4 s2 n is0 where "s = bs # CHR ''u'' # h1 # h2 # h3 # h4 # s2" "hex4 h1 h2 h3 h4 = Some n"
      "scan_string s2 = Some (is0, rest)" "is = JUnit n # is0"
  | (escape) e x s2 is0 where "s = bs # e # s2" "e \<noteq> CHR ''u''" "esc_char e = Some x" "scan_string s2 = Some (is0, rest)"
      "is = JByte x # is0"
  | (plain) c s2 is0 where "s = c # s2" "c \<noteq> dq" "c \<noteq> bs" "\<not> byte_val c < 0x20" "scan_string s2 = Some (is0, rest)"
      "is = JByte c # is0"
proof (cases s)
  case (Cons c s1)
  show thesis
  proof (cases "c = dq \<or> c \<noteq> bs")
    case True
    then show thesis using assms Cons that(1,4) by (auto simp: cons_item_Some split: if_splits)
  next
    case False
    then have c: "c = bs" "bs \<noteq> dq" by (simp_all add: bs_def dq_def)
    obtain e s2 where e: "s1 = e # s2" using assms Cons c by (cases s1) auto
    show thesis
    proof (cases "e = CHR ''u''")
      case True
      obtain h1 h2 h3 h4 s3 where h: "s2 = h1 # h2 # h3 # h4 # s3"
        using assms Cons c e True by (auto split: list.splits)
      then show thesis using assms Cons c e True that(2) by (auto simp: cons_item_Some split: option.splits)
    next
      case False
      then show thesis using assms Cons c e that(3) by (auto simp: cons_item_Some split: option.splits)
    qed
  qed
qed (use assms in simp)

lemma hex_plain:
  assumes "hex_val h \<noteq> None"
  shows "h \<noteq> dq" "h \<noteq> bs" "h \<noteq> CHR ''<''" "h \<noteq> CHR ''>''" "h \<noteq> CHR ''&''" "h \<noteq> CHR 0xE2"
  using assms by (auto simp: hex_val_def dq_def bs_def byte_val_def split: if_splits)

lemma line_sep_Cons: "line_sep (c # s) \<longleftrightarrow> c = CHR 0xE2 \<and> (take 2 s = [CHR 0x80, CHR 0xA8] \<or> take 2 s = [CHR 0x80, CHR 0xA9])"
  by (auto simp: line_sep_def numeral_3_eq_3 numeral_2_eq_2)

text \<open>The text of a literal after its opening quote, compacted.\<close>

definition string_text :: "string \<Rightarrow> string \<Rightarrow> bool" where
  "string_text t q \<longleftrightarrow> t \<noteq> [] \<and> last t = dq \<and> (\<forall>u. compact_text True (t @ u) = q @ compact_text False u)
     \<and> (\<exists>is. \<forall>r. scan_string (q @ r) = Some (is, r))"

lemma string_text_dq: "string_text [dq] [dq]"
  by (auto simp: string_text_def dq_def bs_def)

lemma string_text_cons:
  assumes "string_text t q" and "\<And>u. compact_text True (p @ t @ u) = p' @ compact_text True (t @ u)"
    and "\<And>r. scan_string (p' @ r) = map_option (\<lambda>(is, rest). (js @ is, rest)) (scan_string r)"
  shows "string_text (p @ t) (p' @ q)"
proof -
  obtain "is" where "\<And>r. scan_string (q @ r) = Some (is, r)" using assms(1) by (auto simp: string_text_def)
  then have "scan_string ((p' @ q) @ r) = Some (js @ is, r)" for r by (simp add: assms(3))
  then show ?thesis using assms(1,2) by (auto simp: string_text_def)
qed

lemma scan_compact: "scan_string s = Some (is, rest) \<Longrightarrow> \<exists>t q. s = t @ rest \<and> string_text t q"
proof (induction "length s" arbitrary: s "is" rule: less_induct)
  case less
  from less.prems show ?case
  proof (cases rule: scan_string_cases)
    case quote
    then show ?thesis using string_text_dq by (intro exI [of _ "[dq]"]) auto
  next
    case (unit h1 h2 h3 h4 s2 n is0)
    obtain t q where t: "s2 = t @ rest" "string_text t q" using less.hyps [of s2 is0] unit by auto
    have h: "hex_val h \<noteq> None" if "h \<in> {h1, h2, h3, h4}" for h using unit(2) that by (auto simp: hex4_def split: option.splits)
    have "string_text ([bs, CHR ''u'', h1, h2, h3, h4] @ t) ([bs, CHR ''u'', h1, h2, h3, h4] @ q)"
    proof (rule string_text_cons [OF t(2), where js = "[JUnit n]"])
      show "compact_text True ([bs, CHR ''u'', h1, h2, h3, h4] @ t @ u) = [bs, CHR ''u'', h1, h2, h3, h4] @ compact_text True (t @ u)" for u
        using hex_plain [OF h, of h1] hex_plain [OF h, of h2] hex_plain [OF h, of h3] hex_plain [OF h, of h4]
        by (simp add: line_sep_Cons)
      show "scan_string ([bs, CHR ''u'', h1, h2, h3, h4] @ r) = map_option (\<lambda>(is, rest). ([JUnit n] @ is, rest)) (scan_string r)" for r
        using unit(2) by (simp add: bs_def dq_def cons_item_def split: option.split)
    qed
    with t(1) unit(1) show ?thesis by (metis append_Cons append_Nil append_assoc)
  next
    case (escape e x s2 is0)
    obtain t q where t: "s2 = t @ rest" "string_text t q" using less.hyps [of s2 is0] escape by auto
    have "string_text ([bs, e] @ t) ([bs, e] @ q)"
    proof (rule string_text_cons [OF t(2), where js = "[JByte x]"])
      show "scan_string ([bs, e] @ r) = map_option (\<lambda>(is, rest). ([JByte x] @ is, rest)) (scan_string r)" for r
        using escape(2,3) by (simp add: bs_def dq_def cons_item_def split: option.split)
    qed simp
    with t(1) escape(1) show ?thesis by (metis append_Cons append_Nil append_assoc)
  next
    case (plain c s2 is0)
    obtain t q where t: "s2 = t @ rest" "string_text t q" using less.hyps [of s2 is0] plain by auto
    have one: "scan_string ([c] @ r) = map_option (\<lambda>(is, rest). ([JByte c] @ is, rest)) (scan_string r)" for r
      using plain by (simp add: cons_item_def split: option.split)
    consider (html) "c \<in> {CHR ''<'', CHR ''>'', CHR ''&''}" | (sep) "line_sep (c # s2)" | (copy) "c \<notin> {CHR ''<'', CHR ''>'', CHR ''&''}" "\<not> line_sep (c # s2)"
      by blast
    then show ?thesis
    proof cases
      case html
      have "string_text ([c] @ t) (quote_ascii c @ q)"
      proof (rule string_text_cons [OF t(2), where js = "[JUnit (byte_val c)]"])
        show "compact_text True ([c] @ t @ u) = quote_ascii c @ compact_text True (t @ u)" for u
          using html plain(2,3) by simp
        have "hex4 (CHR ''0'') (CHR ''0'') (hexd (byte_val c div 16)) (hexd (byte_val c mod 16)) = Some (byte_val c)"
          using html by (auto simp: hex4_def hex_val_def hexd_def byte_val_def)
        moreover have "quote_ascii c = [bs, CHR ''u'', CHR ''0'', CHR ''0'', hexd (byte_val c div 16), hexd (byte_val c mod 16)]"
          using html by (auto simp: quote_ascii_def dq_def bs_def)
        ultimately show "scan_string (quote_ascii c @ r) = map_option (\<lambda>(is, rest). ([JUnit (byte_val c)] @ is, rest)) (scan_string r)" for r
          by (simp add: bs_def dq_def cons_item_def split: option.split)
      qed
      with t(1) plain(1) show ?thesis by (metis append_Cons append_Nil append_assoc)
    next
      case sep
      then obtain x s3 where x: "c = CHR 0xE2" "s2 = CHR 0x80 # x # s3" "x = CHR 0xA8 \<or> x = CHR 0xA9"
        by (auto simp: line_sep_Cons numeral_2_eq_2 split: list.splits; cases s2; cases "tl s2"; auto)
      have "\<exists>is3. scan_string s3 = Some (is3, rest)"
        using plain(5) x by (auto simp: cons_item_Some dq_def bs_def byte_val_def split: if_splits)
      then obtain t q where t: "s3 = t @ rest" "string_text t q" using less.hyps [of s3] plain(1) x(2) by auto
      let ?q = "quote_rune [c, CHR 0x80, x]"
      have "string_text ([c, CHR 0x80, x] @ t) (?q @ q)"
      proof (rule string_text_cons [OF t(2), where js = "[JUnit (if x = CHR 0xA8 then 0x2028 else 0x2029)]"])
        show "compact_text True ([c, CHR 0x80, x] @ t @ u) = ?q @ compact_text True (t @ u)" for u
          using x by (auto simp: line_sep_Cons bs_def dq_def)
        show "scan_string (?q @ r) = map_option (\<lambda>(is, rest). ([JUnit (if x = CHR 0xA8 then 0x2028 else 0x2029)] @ is, rest)) (scan_string r)" for r
          using x by (auto simp: quote_rune_def hex4_def hex_val_def byte_val_def bs_def dq_def cons_item_def split: option.split)
      qed
      with t(1) plain(1) x show ?thesis by (metis append_Cons append_Nil append_assoc)
    next
      case copy
      have "string_text ([c] @ t) ([c] @ q)"
      proof (rule string_text_cons [OF t(2) _ one])
        fix u
        have "\<not> line_sep (c # t @ u)"
        proof
          assume l: "line_sep (c # t @ u)"
          then have two: "take 2 (t @ u) = [CHR 0x80, CHR 0xA8] \<or> take 2 (t @ u) = [CHR 0x80, CHR 0xA9]" by (simp add: line_sep_Cons)
          have "length t \<ge> 2"
          proof (rule ccontr)
            assume "\<not> length t \<ge> 2"
            moreover have "t \<noteq> []" "last t = dq" using t(2) by (simp_all add: string_text_def)
            ultimately have "t = [dq]" by (cases t; cases "tl t") simp_all
            with two show False by (auto simp: dq_def)
          qed
          then have "take 2 (t @ u) = take 2 (t @ rest)" by simp
          with l copy(2) t(1) show False by (simp add: line_sep_Cons)
        qed
        then show "compact_text True ([c] @ t @ u) = [c] @ compact_text True (t @ u)" using plain(2,3) copy(1) by simp
      qed
      with t(1) plain(1) show ?thesis by (metis append_Cons append_Nil append_assoc)
    qed
  qed
qed

section \<open>Numbers\<close>

definition stops :: "string \<Rightarrow> bool" where
  "stops r \<longleftrightarrow> r = [] \<or> \<not> is_digit (hd r)"

lemma digits_stop:
  assumes "list_all is_digit ds" and "stops r"
  shows "takeWhile is_digit (ds @ r) = ds" "dropWhile is_digit (ds @ r) = r"
proof -
  have "takeWhile is_digit r = [] \<and> dropWhile is_digit r = r" using assms(2) by (cases r) (auto simp: stops_def)
  then show "takeWhile is_digit (ds @ r) = ds" "dropWhile is_digit (ds @ r) = r" using assms(1) by (induction ds) auto
qed

lemma takeWhile_digits: "list_all is_digit (takeWhile is_digit s)"
  by (induction s) auto

lemma scan_int_split:
  assumes "scan_int s = Some (t, r)"
  shows "s = t @ r" "t \<noteq> []" "list_all is_digit t" "stops r' \<Longrightarrow> scan_int (t @ r') = Some (t, r')"
  using assms takeWhile_digits digits_stop
  by (auto simp: scan_int_def is_digit_def byte_val_def split: list.splits if_splits)

lemma scan_frac_split:
  assumes "scan_frac s = Some (t, r)"
  shows "s = t @ r" "t = [] \<or> (\<exists>ds. t = CHR ''.'' # ds \<and> list_all is_digit ds \<and> ds \<noteq> [])"
    "stops r' \<Longrightarrow> (t = [] \<Longrightarrow> r' \<noteq> [] \<Longrightarrow> hd r' \<noteq> CHR ''.'') \<Longrightarrow> scan_frac (t @ r') = Some (t, r')"
proof -
  show "s = t @ r" and two: "t = [] \<or> (\<exists>ds. t = CHR ''.'' # ds \<and> list_all is_digit ds \<and> ds \<noteq> [])"
    using assms takeWhile_digits by (auto simp: scan_frac_def split: list.splits if_splits)
  show "scan_frac (t @ r') = Some (t, r')" if "stops r'" "t = [] \<Longrightarrow> r' \<noteq> [] \<Longrightarrow> hd r' \<noteq> CHR ''.''"
    using two that digits_stop by (auto simp: scan_frac_def split: list.split)
qed

lemma scan_exp_cases:
  assumes "scan_exp s = Some (t, r)"
  obtains (none) "t = []" "s = r"
  | (some) c sg u where "s = c # sg @ u" "c \<in> {CHR ''e'', CHR ''E''}" "sg \<in> {[], ''+'', ''-''}" "takeWhile is_digit u \<noteq> []"
      "t = c # sg @ takeWhile is_digit u" "r = dropWhile is_digit u"
proof (cases s)
  case (Cons c s1)
  show thesis
  proof (cases "c = CHR ''e'' \<or> c = CHR ''E''")
    case True
    then show thesis using assms Cons some [of c "[]" s1] some [of c "''+''" "tl s1"] some [of c "''-''" "tl s1"]
      by (cases s1) (auto simp: scan_exp_def split: if_splits)
  next
    case False
    then show thesis using assms Cons none by (simp add: scan_exp_def)
  qed
qed (use assms none in \<open>simp add: scan_exp_def\<close>)

lemma scan_exp_split:
  assumes "scan_exp s = Some (t, r)"
  shows "s = t @ r" "t = [] \<or> hd t \<in> {CHR ''e'', CHR ''E''}"
    "list_all (\<lambda>c. is_digit c \<or> c \<in> {CHR ''e'', CHR ''E'', CHR ''+'', CHR ''-''}) t"
    "stops r' \<Longrightarrow> (t = [] \<Longrightarrow> r' \<noteq> [] \<Longrightarrow> hd r' \<noteq> CHR ''e'' \<and> hd r' \<noteq> CHR ''E'') \<Longrightarrow> scan_exp (t @ r') = Some (t, r')"
proof -
  have dig: "list_all (\<lambda>c. is_digit c \<or> c \<in> {CHR ''e'', CHR ''E'', CHR ''+'', CHR ''-''}) (takeWhile is_digit u)" for u
    using takeWhile_digits [of u] by (simp add: list_all_iff)
  from assms show "s = t @ r" "t = [] \<or> hd t \<in> {CHR ''e'', CHR ''E''}"
    "list_all (\<lambda>c. is_digit c \<or> c \<in> {CHR ''e'', CHR ''E'', CHR ''+'', CHR ''-''}) t"
    using dig by (cases rule: scan_exp_cases; auto)+
  show "scan_exp (t @ r') = Some (t, r')" if "stops r'" "t = [] \<Longrightarrow> r' \<noteq> [] \<Longrightarrow> hd r' \<noteq> CHR ''e'' \<and> hd r' \<noteq> CHR ''E''"
    using assms
  proof (cases rule: scan_exp_cases)
    case none
    then show ?thesis using that by (auto simp: scan_exp_def split: list.split)
  next
    case (some c sg u)
    obtain d ds' where d: "takeWhile is_digit u = d # ds'" using some(4) by (cases "takeWhile is_digit u") auto
    then have "is_digit d" using takeWhile_digits [of u] by simp
    then have nd: "d \<noteq> CHR ''+''" "d \<noteq> CHR ''-''" by (auto simp: is_digit_def byte_val_def)
    then show ?thesis using some(2,3,5) d digits_stop [OF takeWhile_digits that(1), of u] by (auto simp: scan_exp_def)
  qed
qed

definition num_sign :: "string \<Rightarrow> string \<times> string" where
  "num_sign s = (case s of c # t \<Rightarrow> if c = CHR ''-'' then ([c], t) else ([], s) | [] \<Rightarrow> ([], s))"

lemma scan_number_iff:
  "scan_number s = Some (t, r) \<longleftrightarrow> (\<exists>sg s1 ip s2 fp s3 ep. num_sign s = (sg, s1) \<and> scan_int s1 = Some (ip, s2)
     \<and> scan_frac s2 = Some (fp, s3) \<and> scan_exp s3 = Some (ep, r) \<and> t = sg @ ip @ fp @ ep)"
  unfolding scan_number_def num_sign_def [symmetric] by (auto split: prod.split option.split)

lemma num_sign_split:
  assumes "num_sign s = (sg, s1)"
  shows "s = sg @ s1" "sg = [] \<or> sg = ''-''" "u \<noteq> [] \<Longrightarrow> hd u \<noteq> CHR ''-'' \<Longrightarrow> num_sign (sg @ u) = (sg, u)"
  using assms by (auto simp: num_sign_def split: list.splits if_splits)

lemma scan_number_split:
  assumes "scan_number s = Some (t, r)"
  shows "s = t @ r" "t \<noteq> []" "hd t = CHR ''-'' \<or> is_digit (hd t)" "list_all (\<lambda>c. \<not> is_ws c \<and> c \<noteq> dq) t"
    "ends_value r' \<Longrightarrow> scan_number (t @ r') = Some (t, r')"
proof -
  obtain sg s1 ip s2 fp s3 ep where sg: "num_sign s = (sg, s1)" and i: "scan_int s1 = Some (ip, s2)"
    and f: "scan_frac s2 = Some (fp, s3)" and e: "scan_exp s3 = Some (ep, r)" and t: "t = sg @ ip @ fp @ ep"
    using assms unfolding scan_number_iff by blast
  note sgs = num_sign_split [OF sg] and ints = scan_int_split [OF i] and fs = scan_frac_split [OF f] and es = scan_exp_split [OF e]
  show "s = t @ r" using sgs(1) ints(1) fs(1) es(1) by (simp add: t)
  show "t \<noteq> []" using ints(2) by (simp add: t)
  have ih: "is_digit (hd ip)" using ints(2,3) by (cases ip) auto
  then show "hd t = CHR ''-'' \<or> is_digit (hd t)" using sgs(2) ints(2) by (auto simp: t)
  have dig: "\<not> is_ws c \<and> c \<noteq> dq" if "is_digit c \<or> c \<in> {CHR ''.'', CHR ''e'', CHR ''E'', CHR ''-'', CHR ''+''}" for c
    using that by (auto simp: is_digit_def is_ws_def dq_def byte_val_def)
  have "is_digit c \<or> c \<in> {CHR ''.'', CHR ''e'', CHR ''E'', CHR ''-'', CHR ''+''}" if "c \<in> set t" for c
    using that sgs(2) ints(3) fs(2) es(3) by (auto simp: t list_all_iff)
  with dig show "list_all (\<lambda>c. \<not> is_ws c \<and> c \<noteq> dq) t" unfolding list_all_iff by blast
  show "scan_number (t @ r') = Some (t, r')" if r': "ends_value r'"
  proof -
    have n: "stops r'" "r' \<noteq> [] \<Longrightarrow> hd r' \<noteq> CHR ''.'' \<and> hd r' \<noteq> CHR ''e'' \<and> hd r' \<noteq> CHR ''E''"
      using r' by (auto simp: ends_value_def stops_def is_digit_def byte_val_def)
    have ep: "stops (ep @ r')" "ep @ r' \<noteq> [] \<Longrightarrow> hd (ep @ r') \<noteq> CHR ''.''"
      using es(2) n by (cases ep; auto simp: stops_def is_digit_def byte_val_def)+
    then have fp: "stops (fp @ ep @ r')" using fs(2) by (auto simp: stops_def is_digit_def byte_val_def)
    have "hd ip \<noteq> CHR ''-''" using ih by (auto simp: is_digit_def byte_val_def)
    then have "num_sign (sg @ ip @ fp @ ep @ r') = (sg, ip @ fp @ ep @ r')"
      using sgs(3) [of "ip @ fp @ ep @ r'"] ints(2) by simp
    moreover have "scan_int (ip @ fp @ ep @ r') = Some (ip, fp @ ep @ r')" using ints(4) [OF fp] .
    moreover have "scan_frac (fp @ ep @ r') = Some (fp, ep @ r')" using fs(3) [OF ep] by simp
    moreover have "scan_exp (ep @ r') = Some (ep, r')" using es(4) [OF n(1)] n(2) by simp
    ultimately show ?thesis unfolding scan_number_iff by (auto simp: t)
  qed
qed

section \<open>Values\<close>

text \<open>\<open>compacts t q\<close>: outside a literal the encoder writes \<open>t\<close> as \<open>q\<close>, whatever follows.\<close>

definition compacts :: "string \<Rightarrow> string \<Rightarrow> bool" where
  "compacts t q \<longleftrightarrow> (\<forall>u. compact_text False (t @ u) = q @ compact_text False u)"

named_theorems compact_intros

lemma compacts_Nil [compact_intros]: "compacts [] []"
  by (simp add: compacts_def)

lemma compacts_append [compact_intros]: "compacts t q \<Longrightarrow> compacts t' q' \<Longrightarrow> compacts (t @ t') (q @ q')"
  by (simp add: compacts_def)

lemma compacts_char [compact_intros]: "compacts t q \<Longrightarrow> \<not> is_ws c \<Longrightarrow> c \<noteq> dq \<Longrightarrow> compacts (c # t) (c # q)"
  by (simp add: compacts_def)

lemma compacts_string [compact_intros]: "string_text t q \<Longrightarrow> compacts (dq # t) (dq # q)"
  by (simp add: compacts_def string_text_def is_ws_def dq_def)

lemma compacts_plain: "list_all (\<lambda>c. \<not> is_ws c \<and> c \<noteq> dq) t \<Longrightarrow> compacts t t"
  by (induction t) (auto intro: compact_intros)

lemma compacts_ws: "compacts (takeWhile is_ws s) []"
proof -
  have "compact_text False (takeWhile is_ws s @ u) = compact_text False u" for u by (induction s) auto
  then show ?thesis by (simp add: compacts_def)
qed

lemma compacts_skip: "skip_ws s = t @ r \<Longrightarrow> compacts t q \<Longrightarrow> \<exists>t'. s = t' @ r \<and> compacts t' q"
  using compacts_append [OF compacts_ws [of s], of t q] takeWhile_dropWhile_id [of is_ws s]
  by (intro exI [of _ "takeWhile is_ws s @ t"]) (simp add: skip_ws_def)

text \<open>What the parser accepts from a text, it accepts again from the compacted text.\<close>

definition starts :: "string \<Rightarrow> bool" where
  "starts q \<longleftrightarrow> q \<noteq> [] \<and> \<not> is_ws (hd q) \<and> hd q \<noteq> CHR '']'' \<and> hd q \<noteq> CHR ''}''"

lemma starts_skip: "starts q \<Longrightarrow> skip_ws (q @ r) = q @ r"
  by (cases q) (simp_all add: starts_def skip_ws_def)

definition value_kept :: "nat \<Rightarrow> string \<Rightarrow> string \<Rightarrow> bool" where
  "value_kept d t q \<longleftrightarrow> starts q \<and> compacts t q
     \<and> (\<exists>v. \<forall>n r. 2 * length q \<le> n \<longrightarrow> ends_value r \<longrightarrow> parse_value n d (q @ r) = Some (v, r))"

definition elems_kept :: "nat \<Rightarrow> string \<Rightarrow> string \<Rightarrow> bool" where
  "elems_kept d t q \<longleftrightarrow> starts q \<and> compacts t q
     \<and> (\<exists>vs. \<forall>n r. 2 * length q < n \<longrightarrow> parse_elems n d (q @ r) = Some (vs, r))"

definition members_kept :: "nat \<Rightarrow> string \<Rightarrow> string \<Rightarrow> bool" where
  "members_kept d t q \<longleftrightarrow> starts q \<and> compacts t q
     \<and> (\<exists>ms. \<forall>n r. 2 * length q < n \<longrightarrow> parse_members n d (q @ r) = Some (ms, r))"

lemma atom_kept:
  assumes "scan_atom s = Some (v, rest)"
  shows "\<exists>t q. s = t @ rest \<and> value_kept d t q"
proof -
  have lit: "value_kept d t t" if "t \<in> {''null'', ''true'', ''false''}" for t
  proof -
    have "\<exists>v. \<forall>n r. parse_value (Suc n) d (t @ r) = Some (v, r)" using that by (auto simp: scan_atom_def dq_def)
    moreover have "n \<noteq> 0" if "2 * length t \<le> n" for n using that \<open>t \<in> _\<close> by auto
    ultimately have "\<exists>v. \<forall>n r. 2 * length t \<le> n \<longrightarrow> ends_value r \<longrightarrow> parse_value n d (t @ r) = Some (v, r)"
      by (metis not0_implies_Suc)
    moreover have "list_all (\<lambda>c. \<not> is_ws c \<and> c \<noteq> dq) t" "starts t" using that by (auto simp: starts_def is_ws_def dq_def)
    ultimately show ?thesis by (simp add: value_kept_def compacts_plain)
  qed
  have num: "value_kept d t t" "s = t @ rest" if t: "scan_number s = Some (t, rest)" for t
  proof -
    note p = scan_number_split [OF t]
    have h: "hd t = CHR ''-'' \<or> 48 \<le> byte_val (hd t) \<and> byte_val (hd t) \<le> 57" using p(3) by (simp add: is_digit_def)
    obtain c u where c: "t = c # u" using p(2) by (cases t) auto
    have ne: "c \<notin> {dq, CHR ''['', CHR ''{'', CHR '']'', CHR ''}'', CHR ''n'', CHR ''t'', CHR ''f''}"
      using h c by (auto simp: dq_def byte_val_def)
    have "parse_value (Suc n) d (t @ r) = Some (JNum t, r)" if "ends_value r" for n r
      using p(5) [OF that] ne by (simp add: c scan_atom_def)
    moreover have "n \<noteq> 0" if "2 * length t \<le> n" for n using that c by auto
    ultimately have "\<forall>n r. 2 * length t \<le> n \<longrightarrow> ends_value r \<longrightarrow> parse_value n d (t @ r) = Some (JNum t, r)"
      by (metis not0_implies_Suc)
    moreover have "starts t" using ne p(4) by (simp add: starts_def c)
    ultimately show "value_kept d t t" using compacts_plain [OF p(4)] by (auto simp: value_kept_def)
    show "s = t @ rest" by (rule p(1))
  qed
  show ?thesis
    using assms lit num by (auto simp: scan_atom_def has_prefix_iff split: if_splits option.splits prod.splits)
qed

lemma string_kept:
  assumes "string_text t q"
  shows "value_kept d (dq # t) (dq # q)"
proof -
  obtain "is" where sc: "\<And>r. scan_string (q @ r) = Some (is, r)" using assms by (auto simp: string_text_def)
  have "parse_value n d ((dq # q) @ r) = Some (JStr (assemble is), r)" if n: "2 * length (dq # q) \<le> n" for n r
    using n sc by (cases n) simp_all
  then show ?thesis using compacts_string [OF assms]
    by (auto simp: value_kept_def starts_def is_ws_def dq_def simp del: parse_value.simps)
qed

lemma empty_kept:
  assumes "d < max_nesting" and "x = CHR ''['' \<and> y = CHR '']'' \<or> x = CHR ''{'' \<and> y = CHR ''}''" and "compacts t [y]"
  shows "value_kept d (x # t) [x, y]"
proof -
  let ?v = "if x = CHR ''['' then JArr [] else JObj []"
  have sk: "skip_ws (y # r) = y # r" for r using assms(2) by (intro skip_ws_nonws) (auto simp: is_ws_def)
  have v: "parse_value (Suc n) d ([x, y] @ r) = Some (?v, r)" for n r
    using assms(2)
  proof (elim disjE conjE)
    assume x: "x = CHR ''[''" "y = CHR '']''"
    then show ?thesis using sk [of r] assms(1) by (simp add: dq_def)
  next
    assume x: "x = CHR ''{''" "y = CHR ''}''"
    then show ?thesis using sk [of r] assms(1) by (simp add: dq_def)
  qed
  have "parse_value n d ([x, y] @ r) = Some (?v, r)" if n: "2 * length [x, y] \<le> n" for n r
    using n v by (cases n) (simp_all del: parse_value.simps)
  moreover have "compacts (x # t) [x, y]" using assms(2,3) by (auto intro: compact_intros simp: is_ws_def dq_def)
  ultimately show ?thesis using assms(2)
    by (auto simp: value_kept_def starts_def is_ws_def simp del: parse_value.simps)
qed

lemma array_kept:
  assumes "d < max_nesting" and "compacts t q" and "elems_kept (Suc d) t' q"
  shows "value_kept d (CHR ''['' # t) (CHR ''['' # q)"
proof -
  obtain vs where vs: "\<And>n r. 2 * length q < n \<Longrightarrow> parse_elems n (Suc d) (q @ r) = Some (vs, r)" and st: "starts q"
    using assms(3) by (auto simp: elems_kept_def)
  obtain c u where c: "q = c # u" "c \<noteq> CHR '']''" using st by (cases q) (auto simp: starts_def)
  have "parse_value n d ((CHR ''['' # q) @ r) = Some (JArr vs, r)" if n: "2 * length (CHR ''['' # q) \<le> n" for n r
  proof -
    obtain m where m: "n = Suc m" "2 * length q < m" using n by (cases n) auto
    show ?thesis using vs [OF m(2), of r] starts_skip [OF st, of r] assms(1) c by (simp add: m(1) dq_def del: parse_elems.simps)
  qed
  moreover have "compacts (CHR ''['' # t) (CHR ''['' # q)" using assms(2) by (auto intro: compact_intros simp: is_ws_def dq_def)
  ultimately show ?thesis by (auto simp: value_kept_def starts_def is_ws_def)
qed

lemma object_kept:
  assumes "d < max_nesting" and "compacts t q" and "members_kept (Suc d) t' q"
  shows "value_kept d (CHR ''{'' # t) (CHR ''{'' # q)"
proof -
  obtain ms where ms: "\<And>n r. 2 * length q < n \<Longrightarrow> parse_members n (Suc d) (q @ r) = Some (ms, r)" and st: "starts q"
    using assms(3) by (auto simp: members_kept_def)
  obtain c u where c: "q = c # u" "c \<noteq> CHR ''}''" using st by (cases q) (auto simp: starts_def)
  have "parse_value n d ((CHR ''{'' # q) @ r) = Some (JObj ms, r)" if n: "2 * length (CHR ''{'' # q) \<le> n" for n r
  proof -
    obtain m where m: "n = Suc m" "2 * length q < m" using n by (cases n) auto
    show ?thesis using ms [OF m(2), of r] starts_skip [OF st, of r] assms(1) c by (simp add: m(1) dq_def del: parse_members.simps)
  qed
  moreover have "compacts (CHR ''{'' # t) (CHR ''{'' # q)" using assms(2) by (auto intro: compact_intros simp: is_ws_def dq_def)
  ultimately show ?thesis by (auto simp: value_kept_def starts_def is_ws_def)
qed

lemma starts_append: "starts q \<Longrightarrow> starts (q @ r)"
  by (simp add: starts_def)

lemma last_elem_kept:
  assumes "value_kept d t q" and "compacts t' '']''"
  shows "elems_kept d (t @ t') (q @ '']'')"
proof -
  obtain v where v: "\<And>n r. 2 * length q \<le> n \<Longrightarrow> ends_value r \<Longrightarrow> parse_value n d (q @ r) = Some (v, r)"
    using assms(1) by (auto simp: value_kept_def)
  have "parse_elems n d ((q @ '']'') @ r) = Some ([v], r)" if n: "2 * length (q @ '']'') < n" for n r
  proof -
    obtain m where m: "n = Suc m" "2 * length q \<le> m" using n by (cases n) auto
    show ?thesis using v [OF m(2), of "'']'' @ r"] by (simp add: m(1) ends_value_def skip_ws_def is_ws_def del: parse_value.simps)
  qed
  moreover have "compacts (t @ t') (q @ '']'')" using assms by (auto intro: compact_intros simp: value_kept_def)
  ultimately show ?thesis using assms(1) starts_append by (auto simp: elems_kept_def value_kept_def)
qed

lemma more_elems_kept:
  assumes "value_kept d t q" and "compacts t' (CHR '','' # q')" and "elems_kept d t'' q'"
  shows "elems_kept d (t @ t') (q @ CHR '','' # q')"
proof -
  obtain v where v: "\<And>n r. 2 * length q \<le> n \<Longrightarrow> ends_value r \<Longrightarrow> parse_value n d (q @ r) = Some (v, r)"
    using assms(1) by (auto simp: value_kept_def)
  obtain vs where vs: "\<And>n r. 2 * length q' < n \<Longrightarrow> parse_elems n d (q' @ r) = Some (vs, r)" and st: "starts q'"
    using assms(3) by (auto simp: elems_kept_def)
  have "parse_elems n d ((q @ CHR '','' # q') @ r) = Some (v # vs, r)" if n: "2 * length (q @ CHR '','' # q') < n" for n r
  proof -
    obtain m where m: "n = Suc m" "2 * length q \<le> m" "2 * length q' < m" using n by (cases n) auto
    show ?thesis using v [OF m(2), of "CHR '','' # q' @ r"] vs [OF m(3), of r] starts_skip [OF st, of r]
      by (simp add: m(1) parse_elems.simps(2) [of m] ends_value_def skip_ws_nonws is_ws_def del: parse_value.simps parse_elems.simps)
  qed
  moreover have "compacts (t @ t') (q @ CHR '','' # q')" using assms(1,2) by (auto intro: compact_intros simp: value_kept_def)
  ultimately show ?thesis using assms(1) starts_append by (auto simp: elems_kept_def value_kept_def)
qed

lemma member_step:
  assumes "\<And>r. scan_string (qk @ r) = Some (key, r)" and "value_kept d t q"
  shows "\<exists>v. \<forall>m c r. 2 * length q \<le> m \<longrightarrow> c = CHR '','' \<or> c = CHR ''}'' \<longrightarrow>
    parse_members (Suc m) d (dq # qk @ CHR '':'' # q @ c # r) =
      (if c = CHR ''}'' then Some ([(assemble key, q, v)], r)
       else map_option (\<lambda>(ms, rest). ((assemble key, q, v) # ms, rest)) (parse_members m d (skip_ws r)))"
proof -
  obtain v where v: "\<And>n r. 2 * length q \<le> n \<Longrightarrow> ends_value r \<Longrightarrow> parse_value n d (q @ r) = Some (v, r)" and st: "starts q"
    using assms(2) by (auto simp: value_kept_def)
  have "parse_members (Suc m) d (dq # qk @ CHR '':'' # q @ c # r) =
      (if c = CHR ''}'' then Some ([(assemble key, q, v)], r)
       else map_option (\<lambda>(ms, rest). ((assemble key, q, v) # ms, rest)) (parse_members m d (skip_ws r)))"
    if m: "2 * length q \<le> m" and c: "c = CHR '','' \<or> c = CHR ''}''" for m c r
  proof -
    have pv: "parse_value m d (q @ c # r) = Some (v, c # r)" using v [OF m, of "c # r"] c by (auto simp: ends_value_def)
    have tk: "take (length (q @ c # r) - length (c # r)) (q @ c # r) = q" by simp
    have sk: "skip_ws (c # r) = c # r" using c by (intro skip_ws_nonws) (auto simp: is_ws_def)
    show ?thesis using c
      by (simp add: assms(1) skip_ws_nonws is_ws_def starts_skip [OF st] pv tk sk Let_def del: length_append list.size take_append)
        (auto split: option.split)
  qed
  then show ?thesis by blast
qed

lemma last_member_kept:
  assumes "string_text k qk" and "compacts c '':''" and "value_kept d t q" and "compacts t' q" and "compacts e ''}''"
  shows "members_kept d (dq # k @ c @ t' @ e) (dq # qk @ CHR '':'' # q @ ''}'')"
proof -
  obtain key where "\<And>r. scan_string (qk @ r) = Some (key, r)" using assms(1) by (auto simp: string_text_def)
  from member_step [OF this assms(3)] obtain v where
    v: "\<And>m r. 2 * length q \<le> m \<Longrightarrow> parse_members (Suc m) d (dq # qk @ CHR '':'' # q @ CHR ''}'' # r) = Some ([(assemble key, q, v)], r)"
    by fastforce
  have "parse_members n d ((dq # qk @ CHR '':'' # q @ ''}'') @ r) = Some ([(assemble key, q, v)], r)"
    if n: "2 * length (dq # qk @ CHR '':'' # q @ ''}'') < n" for n r
    using n v [of "n - 1" r] by (cases n) (simp_all del: parse_members.simps)
  moreover have "compacts (dq # k @ c @ t' @ e) (dq # qk @ CHR '':'' # q @ ''}'')"
    using compacts_append [OF compacts_string [OF assms(1)] compacts_append [OF assms(2) compacts_append [OF assms(4,5)]]] by simp
  ultimately show ?thesis by (auto simp: members_kept_def starts_def is_ws_def dq_def simp del: parse_members.simps)
qed

lemma more_members_kept:
  assumes "string_text k qk" and "compacts c '':''" and "value_kept d t q" and "compacts t' q"
    and "compacts e (CHR '','' # q')" and "members_kept d t'' q'"
  shows "members_kept d (dq # k @ c @ t' @ e) (dq # qk @ CHR '':'' # q @ CHR '','' # q')"
proof -
  obtain key where "\<And>r. scan_string (qk @ r) = Some (key, r)" using assms(1) by (auto simp: string_text_def)
  from member_step [OF this assms(3)] obtain v where
    v: "\<And>m r. 2 * length q \<le> m \<Longrightarrow> parse_members (Suc m) d (dq # qk @ CHR '':'' # q @ CHR '','' # r) =
       map_option (\<lambda>(ms, rest). ((assemble key, q, v) # ms, rest)) (parse_members m d (skip_ws r))"
    by fastforce
  obtain ms where ms: "\<And>n r. 2 * length q' < n \<Longrightarrow> parse_members n d (q' @ r) = Some (ms, r)" and st: "starts q'"
    using assms(6) by (auto simp: members_kept_def)
  have "parse_members n d ((dq # qk @ CHR '':'' # q @ CHR '','' # q') @ r) = Some ((assemble key, q, v) # ms, r)"
    if n: "2 * length (dq # qk @ CHR '':'' # q @ CHR '','' # q') < n" for n r
    using n v [of "n - 1" "q' @ r"] ms [of "n - 1" r] starts_skip [OF st, of r] by (cases n) (simp_all del: parse_members.simps)
  moreover have "compacts (dq # k @ c @ t' @ e) (dq # qk @ CHR '':'' # q @ CHR '','' # q')"
    using compacts_append [OF compacts_string [OF assms(1)] compacts_append [OF assms(2) compacts_append [OF assms(4,5)]]] by simp
  ultimately show ?thesis by (auto simp: members_kept_def starts_def is_ws_def dq_def simp del: parse_members.simps)
qed

lemma compacts_one: "\<not> is_ws c \<Longrightarrow> c \<noteq> dq \<Longrightarrow> compacts [c] [c]"
  by (intro compact_intros)

lemma value_step_kept:
  assumes "parse_value (Suc n) d s = Some (v, rest)"
    and elems: "\<And>u vs. parse_elems n (Suc d) u = Some (vs, rest) \<Longrightarrow> \<exists>t q. u = t @ rest \<and> elems_kept (Suc d) t q"
    and members: "\<And>u ms. parse_members n (Suc d) u = Some (ms, rest) \<Longrightarrow> \<exists>t q. u = t @ rest \<and> members_kept (Suc d) t q"
  shows "\<exists>t q. s = t @ rest \<and> value_kept d t q"
proof -
  obtain c u where s: "s = c # u" using assms(1) by (cases s) auto
  have ws: "compacts '']'' '']''" "compacts ''}'' ''}''" by (simp_all add: compacts_one is_ws_def dq_def)
  have empty: "\<exists>t q. s = t @ rest \<and> value_kept d t q"
    if "skip_ws u = y # rest" "d < max_nesting" "c = CHR ''['' \<and> y = CHR '']'' \<or> c = CHR ''{'' \<and> y = CHR ''}''" for y
  proof -
    have "skip_ws u = [y] @ rest" "compacts [y] [y]" using that ws by auto
    from compacts_skip [OF this] show ?thesis using empty_kept [OF that(2,3)] s by fastforce
  qed
  consider (string) "c = dq" | (array) "c = CHR ''[''" "c \<noteq> dq" | (object) "c = CHR ''{''" "c \<noteq> dq" | (atom) "scan_atom s = Some (v, rest)"
    using assms(1) s by (auto split: if_splits)
  then show ?thesis
  proof cases
    case string
    then obtain "is" where "scan_string u = Some (is, rest)" using assms(1) s by (auto split: option.splits)
    with string s show ?thesis using scan_compact string_kept by (metis append_Cons)
  next
    case array
    then have d: "d < max_nesting" using assms(1) s by (simp split: if_splits)
    obtain c' u' where u: "skip_ws u = c' # u'" using assms(1) s array d by (auto split: list.splits)
    show ?thesis
    proof (cases "c' = CHR '']''")
      case True
      then show ?thesis using empty [of c'] assms(1) s array d u by simp
    next
      case False
      then obtain vs where "parse_elems n (Suc d) (skip_ws u) = Some (vs, rest)"
        using assms(1) s array d u by (auto split: option.splits)
      from elems [OF this] obtain t q where t: "skip_ws u = t @ rest" "elems_kept (Suc d) t q" by blast
      then have "compacts t q" by (simp add: elems_kept_def)
      from compacts_skip [OF t(1) this] array_kept [OF d _ t(2)] s array show ?thesis by fastforce
    qed
  next
    case object
    then have d: "d < max_nesting" using assms(1) s by (simp split: if_splits)
    obtain c' u' where u: "skip_ws u = c' # u'" using assms(1) s object d by (auto split: list.splits)
    show ?thesis
    proof (cases "c' = CHR ''}''")
      case True
      then show ?thesis using empty [of c'] assms(1) s object d u by simp
    next
      case False
      then obtain ms where "parse_members n (Suc d) (skip_ws u) = Some (ms, rest)"
        using assms(1) s object d u by (auto split: option.splits)
      from members [OF this] obtain t q where t: "skip_ws u = t @ rest" "members_kept (Suc d) t q" by blast
      then have "compacts t q" by (simp add: members_kept_def)
      from compacts_skip [OF t(1) this] object_kept [OF d _ t(2)] s object show ?thesis by fastforce
    qed
  next
    case atom
    then show ?thesis by (rule atom_kept)
  qed
qed

lemma comma_skip:
  assumes "skip_ws r = CHR '','' # u" and "skip_ws u = t @ rest" and "compacts t q"
  shows "\<exists>e. r = e @ rest \<and> compacts e (CHR '','' # q)"
proof -
  obtain t' where t': "u = t' @ rest" "compacts t' q" using compacts_skip [OF assms(2,3)] by blast
  then have "skip_ws r = (CHR '','' # t') @ rest" using assms(1) by simp
  from compacts_skip [OF this] t'(2) show ?thesis by (simp add: compacts_char is_ws_def dq_def)
qed

lemma elems_step_kept:
  assumes "parse_elems (Suc n) d s = Some (vs, rest)"
    and v: "\<And>u v r. parse_value n d u = Some (v, r) \<Longrightarrow> \<exists>t q. u = t @ r \<and> value_kept d t q"
    and elems: "\<And>u vs. parse_elems n d u = Some (vs, rest) \<Longrightarrow> \<exists>t q. u = t @ rest \<and> elems_kept d t q"
  shows "\<exists>t q. s = t @ rest \<and> elems_kept d t q"
proof -
  obtain v0 r c u where p: "parse_value n d s = Some (v0, r)" "skip_ws r = c # u"
    using assms(1) by (auto split: option.splits list.splits)
  obtain t q where t: "s = t @ r" "value_kept d t q" using v [OF p(1)] by blast
  show ?thesis
  proof (cases "c = CHR '']''")
    case True
    then have "skip_ws r = '']'' @ rest" using assms(1) p by simp
    from compacts_skip [OF this compacts_one] last_elem_kept [OF t(2)] t(1) show ?thesis by (fastforce simp: is_ws_def dq_def)
  next
    case False
    then obtain vs' where c: "c = CHR '',''" "parse_elems n d (skip_ws u) = Some (vs', rest)"
      using assms(1) p by (auto split: if_splits option.splits)
    obtain t' q' where t': "skip_ws u = t' @ rest" "elems_kept d t' q'" using elems [OF c(2)] by blast
    then have "compacts t' q'" by (simp add: elems_kept_def)
    from comma_skip [OF p(2) [unfolded c(1)] t'(1) this] more_elems_kept [OF t(2) _ t'(2)] t(1) show ?thesis by fastforce
  qed
qed

lemma members_step_kept:
  assumes "parse_members (Suc n) d s = Some (ms, rest)"
    and v: "\<And>u v r. parse_value n d u = Some (v, r) \<Longrightarrow> \<exists>t q. u = t @ r \<and> value_kept d t q"
    and members: "\<And>u ms. parse_members n d u = Some (ms, rest) \<Longrightarrow> \<exists>t q. u = t @ rest \<and> members_kept d t q"
  shows "\<exists>t q. s = t @ rest \<and> members_kept d t q"
proof -
  from assms(1) obtain u key s1 s2 v0 s4 c s5 where p: "s = dq # u" "scan_string u = Some (key, s1)" "skip_ws s1 = CHR '':'' # s2"
    "parse_value n d (skip_ws s2) = Some (v0, s4)" "skip_ws s4 = c # s5"
    by (auto simp: Let_def split: option.splits list.splits if_splits)
  obtain k qk where k: "u = k @ s1" "string_text k qk" using scan_compact [OF p(2)] by blast
  obtain co where co: "s1 = co @ s2" "compacts co '':''"
    using compacts_skip [of s1 "'':''" s2 "'':''"] p(3) by (auto simp: compacts_one is_ws_def dq_def)
  obtain t q where t: "skip_ws s2 = t @ s4" "value_kept d t q" using v [OF p(4)] by blast
  then have "compacts t q" by (simp add: value_kept_def)
  from compacts_skip [OF t(1) this] obtain t' where t': "s2 = t' @ s4" "compacts t' q" by blast
  show ?thesis
  proof (cases "c = CHR ''}''")
    case True
    then have "skip_ws s4 = ''}'' @ rest" using assms(1) p by (simp add: Let_def)
    from compacts_skip [OF this compacts_one] obtain e where "s4 = e @ rest" "compacts e ''}''" by (auto simp: is_ws_def dq_def)
    with last_member_kept [OF k(2) co(2) t(2) t'(2), of e] p(1) k(1) co(1) t'(1) show ?thesis by fastforce
  next
    case False
    then obtain ms' where c: "c = CHR '',''" "parse_members n d (skip_ws s5) = Some (ms', rest)"
      using assms(1) p by (auto simp: Let_def split: if_splits option.splits)
    obtain t'' q' where t'': "skip_ws s5 = t'' @ rest" "members_kept d t'' q'" using members [OF c(2)] by blast
    then have "compacts t'' q'" by (simp add: members_kept_def)
    from comma_skip [OF p(5) [unfolded c(1)] t''(1) this] obtain e where "s4 = e @ rest" "compacts e (CHR '','' # q')" by blast
    with more_members_kept [OF k(2) co(2) t(2) t'(2) _ t''(2), of e] p(1) k(1) co(1) t'(1) show ?thesis by fastforce
  qed
qed

lemma parse_kept:
  "(\<forall>d s v rest. parse_value n d s = Some (v, rest) \<longrightarrow> (\<exists>t q. s = t @ rest \<and> value_kept d t q))
   \<and> (\<forall>d s vs rest. parse_elems n d s = Some (vs, rest) \<longrightarrow> (\<exists>t q. s = t @ rest \<and> elems_kept d t q))
   \<and> (\<forall>d s ms rest. parse_members n d s = Some (ms, rest) \<longrightarrow> (\<exists>t q. s = t @ rest \<and> members_kept d t q))"
proof (induction n)
  case (Suc n)
  have 1: "\<exists>t q. u = t @ r \<and> value_kept d t q" if "parse_value n d u = Some (v, r)" for d u v r using Suc that by blast
  have 2: "\<exists>t q. u = t @ r \<and> elems_kept d t q" if "parse_elems n d u = Some (v, r)" for d u v r using Suc that by blast
  have 3: "\<exists>t q. u = t @ r \<and> members_kept d t q" if "parse_members n d u = Some (v, r)" for d u v r using Suc that by blast
  have 4: "\<exists>t q. s = t @ r \<and> value_kept d t q" if "parse_value (Suc n) d s = Some (v, r)" for d s v r
    using value_step_kept [OF that] 2 3 by blast
  have 5: "\<exists>t q. s = t @ r \<and> elems_kept d t q" if "parse_elems (Suc n) d s = Some (v, r)" for d s v r
    using elems_step_kept [OF that] 1 2 by blast
  have 6: "\<exists>t q. s = t @ r \<and> members_kept d t q" if "parse_members (Suc n) d s = Some (v, r)" for d s v r
    using members_step_kept [OF that] 1 3 by blast
  from 4 5 6 show ?case by blast
qed simp

section \<open>Embedding a raw message\<close>

text \<open>
  A payload can stand in a frame when it is empty (it is written \<open>null\<close>) or a value that still parses one level
  down; \<open>raw_value\<close> is what a reader of the frame gets for it.
\<close>

definition embeddable :: "string \<Rightarrow> bool" where
  "embeddable p \<longleftrightarrow> p = [] \<or> json_valid p \<and>
     (let s = skip_ws p in case parse_value (Suc (2 * length s)) 1 s of None \<Rightarrow> False | Some (v, r) \<Rightarrow> skip_ws r = [])"

definition raw_value :: "string \<Rightarrow> jval" where
  "raw_value p = (case json_raw p of None \<Rightarrow> JNull
     | Some t \<Rightarrow> (case parse_value (2 * length t) 1 t of None \<Rightarrow> JNull | Some (v, r) \<Rightarrow> v))"

lemma skip_ws_Nil: "skip_ws r = [] \<Longrightarrow> compact_text False r = []"
  by (induction r) (auto simp: skip_ws_def split: if_splits)

lemma embeddable_encodes:
  assumes "embeddable p"
  shows "\<exists>t. json_raw p = Some t \<and> encodes t (raw_value p)"
proof (cases "p = []")
  case True
  have "encodes ''null'' JNull" by (rule encodesI) (auto simp: is_ws_def scan_atom_def dq_def)
  moreover have "raw_value [] = JNull" by (simp add: raw_value_def json_raw_def scan_atom_def dq_def numeral_eq_Suc)
  ultimately show ?thesis using True by (simp add: json_raw_def)
next
  case False
  then obtain v r where p: "json_valid p" "parse_value (Suc (2 * length (skip_ws p))) 1 (skip_ws p) = Some (v, r)" "skip_ws r = []"
    using assms unfolding embeddable_def Let_def by (auto split: option.splits simp del: parse_value.simps)
  obtain t q where t: "skip_ws p = t @ r" "value_kept 1 t q" using parse_kept p(2) by blast
  then have "compacts t q" by (simp add: value_kept_def)
  from compacts_skip [OF t(1) this] have "compact_text False p = q" using skip_ws_Nil [OF p(3)] by (auto simp: compacts_def)
  then have raw: "json_raw p = Some q" using False p(1) by (simp add: json_raw_def)
  obtain v' where v': "\<And>n r. 2 * length q \<le> n \<Longrightarrow> ends_value r \<Longrightarrow> parse_value n 1 (q @ r) = Some (v', r)" and st: "starts q"
    using t(2) by (auto simp: value_kept_def)
  have "raw_value p = v'" using v' [of "2 * length q" "[]"] by (simp add: raw_value_def raw ends_value_def)
  then show ?thesis using raw v' st by (auto simp: encodes_def starts_def)
qed

end
