(* ===== verification/Sg_Protocol.thy ===== *)
theory Sg_Protocol
  imports Gw_Compact
begin

text \<open>
  The wire protocol of \<open>signal-go\<close> (\<open>internal/signal/protocol.go\<close>). A client message is the flat
  struct of the code; a server message is a datatype with one constructor per struct, whose \<open>type\<close>
  string is the one its constructor function fills in.
\<close>

section \<open>Vocabulary\<close>

definition SgTypeHello :: string where "SgTypeHello = ''hello''"
definition SgTypeSubscribe :: string where "SgTypeSubscribe = ''subscribe''"
definition SgTypeUnsubscribe :: string where "SgTypeUnsubscribe = ''unsubscribe''"
definition SgTypePublish :: string where "SgTypePublish = ''publish''"
definition SgTypePing :: string where "SgTypePing = ''ping''"

definition SgTypeWelcome :: string where "SgTypeWelcome = ''welcome''"
definition SgTypeSubscribed :: string where "SgTypeSubscribed = ''subscribed''"
definition SgTypeUnsubscribed :: string where "SgTypeUnsubscribed = ''unsubscribed''"
definition SgTypeDelivery :: string where "SgTypeDelivery = ''delivery''"
definition SgTypeError :: string where "SgTypeError = ''error''"
definition SgTypePong :: string where "SgTypePong = ''pong''"

definition SgCodeBadMessage :: string where "SgCodeBadMessage = ''bad_message''"
definition SgCodeHelloRequired :: string where "SgCodeHelloRequired = ''hello_required''"
definition SgCodeHelloInvalid :: string where "SgCodeHelloInvalid = ''hello_invalid''"

lemmas sg_vocabulary =
  SgTypeHello_def SgTypeSubscribe_def SgTypeUnsubscribe_def SgTypePublish_def SgTypePing_def
  SgTypeWelcome_def SgTypeSubscribed_def SgTypeUnsubscribed_def SgTypeDelivery_def SgTypeError_def SgTypePong_def
  SgCodeBadMessage_def SgCodeHelloRequired_def SgCodeHelloInvalid_def

section \<open>Client messages\<close>

record sg_client_message =
  sc_Type :: string
  sc_TenantID :: string
  sc_Room :: string
  sc_Payload :: string

definition sg_zero_message :: sg_client_message where
  "sg_zero_message = \<lparr>sc_Type = '''', sc_TenantID = '''', sc_Room = '''', sc_Payload = ''''\<rparr>"

definition sg_set_field :: "string \<Rightarrow> string \<Rightarrow> jval \<Rightarrow> sg_client_message \<Rightarrow> sg_client_message option" where
  "sg_set_field key raw v m =
     (if key_is ''type'' key then map_option (\<lambda>s. m\<lparr>sc_Type := s\<rparr>) (set_string v (sc_Type m))
      else if key_is ''tenant_id'' key then map_option (\<lambda>s. m\<lparr>sc_TenantID := s\<rparr>) (set_string v (sc_TenantID m))
      else if key_is ''room'' key then map_option (\<lambda>s. m\<lparr>sc_Room := s\<rparr>) (set_string v (sc_Room m))
      else if key_is ''payload'' key then Some (m\<lparr>sc_Payload := raw\<rparr>)
      else Some m)"

definition sg_has_field :: "string \<Rightarrow> string \<Rightarrow> bool" where
  "sg_has_field data key \<longleftrightarrow> key \<in> set (json_keys data)"

datatype sg_decode_error =
    SgBadJson
  | SgUnknownType string
  | SgMissingField string

definition sg_decode :: "string \<Rightarrow> sg_decode_error + sg_client_message" where
  "sg_decode data =
     (case unmarshal sg_set_field sg_zero_message data of
        None \<Rightarrow> Inl SgBadJson
      | Some msg \<Rightarrow>
          if sc_Type msg \<notin> {SgTypeHello, SgTypeSubscribe, SgTypeUnsubscribe, SgTypePublish, SgTypePing}
          then Inl (SgUnknownType (sc_Type msg))
          else if sc_Type msg = SgTypeHello then
            (if \<not> sg_has_field data ''tenant_id'' then Inl (SgMissingField (sc_Type msg)) else Inr msg)
          else if sc_Type msg = SgTypeSubscribe \<or> sc_Type msg = SgTypeUnsubscribe then
            (if \<not> sg_has_field data ''room'' then Inl (SgMissingField (sc_Type msg)) else Inr msg)
          else if sc_Type msg = SgTypePublish then
            (if \<not> sg_has_field data ''room'' \<or> \<not> sg_has_field data ''payload''
             then Inl (SgMissingField (sc_Type msg)) else Inr msg)
          else Inr msg)"

section \<open>Server messages\<close>

datatype sg_server_message =
    SgWelcome string
  | SgSubscribed string nat
  | SgUnsubscribed string
  | SgDelivery string string string
  | SgError string string
  | SgPong

definition sg_new_welcome :: "string \<Rightarrow> sg_server_message" where "sg_new_welcome sid = SgWelcome sid"
definition sg_new_subscribed :: "string \<Rightarrow> nat \<Rightarrow> sg_server_message" where "sg_new_subscribed room peers = SgSubscribed room peers"
definition sg_new_unsubscribed :: "string \<Rightarrow> sg_server_message" where "sg_new_unsubscribed room = SgUnsubscribed room"
definition sg_new_delivery :: "string \<Rightarrow> string \<Rightarrow> string \<Rightarrow> sg_server_message" where
  "sg_new_delivery room sender payload = SgDelivery room sender payload"
definition sg_new_error :: "string \<Rightarrow> string \<Rightarrow> sg_server_message" where "sg_new_error code message = SgError code message"
definition sg_new_pong :: sg_server_message where "sg_new_pong = SgPong"

lemmas sg_constructors [simp] =
  sg_new_welcome_def sg_new_subscribed_def sg_new_unsubscribed_def sg_new_delivery_def sg_new_error_def sg_new_pong_def

text \<open>The fields of each struct in declaration order.\<close>

definition sg_fields :: "sg_server_message \<Rightarrow> (string \<times> fval) list" where
  "sg_fields m =
     (case m of
        SgWelcome sid \<Rightarrow> [(''type'', VStr SgTypeWelcome), (''session_id'', VStr sid)]
      | SgSubscribed room peers \<Rightarrow>
          [(''type'', VStr SgTypeSubscribed), (''room'', VStr room), (''peers'', VInt (int peers))]
      | SgUnsubscribed room \<Rightarrow> [(''type'', VStr SgTypeUnsubscribed), (''room'', VStr room)]
      | SgDelivery room sender payload \<Rightarrow>
          [(''type'', VStr SgTypeDelivery), (''room'', VStr room), (''from'', VStr sender), (''payload'', VRaw payload)]
      | SgError code message \<Rightarrow>
          [(''type'', VStr SgTypeError), (''code'', VStr code), (''message'', VStr message)]
      | SgPong \<Rightarrow> [(''type'', VStr SgTypePong)])"

text \<open>\<open>None\<close> when a raw payload is not JSON.\<close>

definition sg_marshal :: "sg_server_message \<Rightarrow> string option" where
  "sg_marshal m = json_struct (sg_fields m)"

section \<open>Round trips\<close>

definition sg_strings :: "sg_server_message \<Rightarrow> string list" where
  "sg_strings m =
     (case m of
        SgWelcome sid \<Rightarrow> [sid] | SgSubscribed room _ \<Rightarrow> [room] | SgUnsubscribed room \<Rightarrow> [room]
      | SgDelivery room sender _ \<Rightarrow> [room, sender] | SgError code message \<Rightarrow> [code, message] | SgPong \<Rightarrow> [])"

text \<open>
  Every frame the signaling hub writes reads back as exactly its fields. For frames whose
  strings are valid UTF-8 (and whose payload, for a delivery, is JSON), \<open>MarshalServerMessage\<close>
  produces a JSON object whose members, in order, are the type discriminator and the fields of the
  frame, whatever quotes, control characters, HTML-sensitive characters or line separators the
  strings contain.
\<close>

theorem sg_frame_roundtrip:
  assumes "list_all valid_utf8 (sg_strings m)"
    and "\<And>room sender p. m = SgDelivery room sender p \<Longrightarrow> embeddable p"
  shows "\<exists>text ms. sg_marshal m = Some text \<and> json_parse text = Some (JObj ms)
    \<and> map (\<lambda>(k, t, v). (k, v)) ms = map (\<lambda>(k, v). (k, fval_value raw_value v)) (sg_fields m)"
  unfolding sg_marshal_def
proof (rule json_struct_roundtrip)
  show "sg_fields m \<noteq> []" by (simp add: sg_fields_def split: sg_server_message.split)
  show "\<forall>(k, v) \<in> set (sg_fields m). valid_utf8 k \<and> fval_ok raw_value v"
    using assms embeddable_encodes by (cases m) (simp_all add: sg_fields_def sg_strings_def sg_vocabulary valid_utf8_simps)
qed

theorem sg_frame_roundtrip_witness:
  "\<exists>text ms. sg_marshal (SgSubscribed ''calls'' 2) = Some text \<and> json_parse text = Some (JObj ms)
    \<and> map (\<lambda>(k, t, v). (k, v)) ms = [(''type'', JStr ''subscribed''), (''room'', JStr ''calls''), (''peers'', JNum (json_int 2))]"
  using sg_frame_roundtrip [of "SgSubscribed ''calls'' 2"]
  by (simp add: sg_strings_def sg_fields_def fval_value_def sg_vocabulary valid_utf8_simps)

lemmas sg_decode_eval = unmarshal_def decode_struct_def sg_set_field_def key_is_def set_string_def sg_zero_message_def
  byte_val_def char_of_iff

lemma sg_decode_known:
  assumes "unmarshal sg_set_field sg_zero_message data = Some msg"
    and "json_keys data = [''type'', ''tenant_id'', ''room'', ''payload'']"
  shows "sg_decode data = (if sc_Type msg \<in> {''hello'', ''subscribe'', ''unsubscribe'', ''publish'', ''ping''}
    then Inr msg else Inl (SgUnknownType (sc_Type msg)))"
  using assms by (simp add: sg_decode_def sg_has_field_def sg_vocabulary)

lemma sg_decode_fields:
  assumes "valid_utf8 ty" "valid_utf8 tenant" "valid_utf8 room" "encodes payload v"
  shows "sg_decode (json_obj [(''type'', json_quote ty), (''tenant_id'', json_quote tenant),
      (''room'', json_quote room), (''payload'', payload)])
    = (if ty \<in> {''hello'', ''subscribe'', ''unsubscribe'', ''publish'', ''ping''}
       then Inr \<lparr>sc_Type = ty, sc_TenantID = tenant, sc_Room = room, sc_Payload = payload\<rparr>
       else Inl (SgUnknownType ty))"
proof -
  let ?ms = "[(''type'', json_quote ty, JStr ty), (''tenant_id'', json_quote tenant, JStr tenant),
    (''room'', json_quote room, JStr room), (''payload'', payload, v)]"
  have "json_parse (json_obj (map (\<lambda>(k, t, v). (k, t)) ?ms)) = Some (JObj ?ms)"
    using assms by (intro json_parse_obj) (auto simp: valid_utf8_simps intro!: encodes_quote)
  then have p: "json_parse (json_obj [(''type'', json_quote ty), (''tenant_id'', json_quote tenant),
      (''room'', json_quote room), (''payload'', payload)]) = Some (JObj ?ms)" (is "json_parse ?data = _")
    by simp
  then have "unmarshal sg_set_field sg_zero_message ?data
      = Some \<lparr>sc_Type = ty, sc_TenantID = tenant, sc_Room = room, sc_Payload = payload\<rparr>"
    by (simp add: sg_decode_eval)
  moreover from p have "json_keys ?data = [''type'', ''tenant_id'', ''room'', ''payload'']" by (simp add: json_keys_def)
  ultimately show ?thesis using sg_decode_known [of ?data] by simp
qed

text \<open>
  What a client writes is what the hub decodes. For every known message type, a frame with the
  four members of the wire struct decodes to exactly these values, the payload as the bytes the
  client sent; the same frame with any other type string is refused as an unknown type.
\<close>

theorem sg_client_roundtrip:
  assumes "valid_utf8 ty" "valid_utf8 tenant" "valid_utf8 room" "encodes payload v"
  shows "sg_decode (json_obj [(''type'', json_quote ty), (''tenant_id'', json_quote tenant),
      (''room'', json_quote room), (''payload'', payload)])
    = (if ty \<in> {''hello'', ''subscribe'', ''unsubscribe'', ''publish'', ''ping''}
       then Inr \<lparr>sc_Type = ty, sc_TenantID = tenant, sc_Room = room, sc_Payload = payload\<rparr>
       else Inl (SgUnknownType ty))"
  using assms by (rule sg_decode_fields)

theorem sg_client_roundtrip_witness:
  "sg_decode (json_obj [(''type'', json_quote ''publish''), (''tenant_id'', json_quote ''''),
      (''room'', json_quote ''calls''), (''payload'', ''true'')])
    = Inr \<lparr>sc_Type = ''publish'', sc_TenantID = '''', sc_Room = ''calls'', sc_Payload = ''true''\<rparr>"
  using sg_client_roundtrip [of "''publish''" "''''" "''calls''" "''true''" "JBool True"] encodes_bool [of True]
  by (simp add: valid_utf8_simps json_bool_def)

text \<open>
  The presence test is not the strictness of a serde-tagged enum: a \<open>null\<close> tenant is accepted and
  decodes to the empty string, and a type key in capitals is accepted too.
\<close>

lemma encodes_null: "encodes ''null'' JNull"
  by (rule encodesI) (auto simp: is_ws_def scan_atom_def dq_def)

lemma sg_decode_lenient:
  "sg_decode (json_obj [(''type'', json_quote ''hello''), (''tenant_id'', ''null'')])
      = Inr \<lparr>sc_Type = ''hello'', sc_TenantID = '''', sc_Room = '''', sc_Payload = ''''\<rparr>"
  "sg_decode (json_obj [(''TYPE'', json_quote ''ping'')])
      = Inr \<lparr>sc_Type = ''ping'', sc_TenantID = '''', sc_Room = '''', sc_Payload = ''''\<rparr>"
proof -
  have "json_parse (json_obj [(''type'', json_quote ''hello''), (''tenant_id'', ''null'')])
      = Some (JObj [(''type'', json_quote ''hello'', JStr ''hello''), (''tenant_id'', ''null'', JNull)])"
    using json_parse_obj [of "[(''type'', json_quote ''hello'', JStr ''hello''), (''tenant_id'', ''null'', JNull)]"]
    by (simp add: valid_utf8_simps encodes_quote encodes_null)
  then show "sg_decode (json_obj [(''type'', json_quote ''hello''), (''tenant_id'', ''null'')])
      = Inr \<lparr>sc_Type = ''hello'', sc_TenantID = '''', sc_Room = '''', sc_Payload = ''''\<rparr>"
    by (simp add: sg_decode_def sg_decode_eval sg_has_field_def json_keys_def sg_vocabulary)
  have "json_parse (json_obj [(''TYPE'', json_quote ''ping'')]) = Some (JObj [(''TYPE'', json_quote ''ping'', JStr ''ping'')])"
    using json_parse_obj [of "[(''TYPE'', json_quote ''ping'', JStr ''ping'')]"]
    by (simp add: valid_utf8_simps encodes_quote)
  then show "sg_decode (json_obj [(''TYPE'', json_quote ''ping'')])
      = Inr \<lparr>sc_Type = ''ping'', sc_TenantID = '''', sc_Room = '''', sc_Payload = ''''\<rparr>"
    by (simp add: sg_decode_def sg_decode_eval sg_has_field_def json_keys_def sg_vocabulary)
qed

end
