(* ===== verification/Sg_Hub.thy ===== *)
theory Sg_Hub
  imports Gw_Rooms Sg_Protocol
begin

text \<open>
  The hub of \<open>signal-go\<close> (\<open>internal/signal/hub.go\<close>). Each method runs under the hub's mutex, so it is
  one function of the hub state. The outgoing channel of a session is named by its session id:
  \<open>qs sid\<close> is the channel that \<open>register\<close> returned for it. A buffered Go channel is its contents
  and its capacity; sends that would block are dropped (\<open>trySend\<close>).
\<close>

section \<open>Channels\<close>

record sg_chan =
  ch_buf :: "sg_server_message list"
  ch_cap :: nat

definition outgoing_buffer :: nat where "outgoing_buffer = 64"

definition make_chan :: sg_chan where "make_chan = \<lparr>ch_buf = [], ch_cap = outgoing_buffer\<rparr>"

definition try_send :: "sg_chan \<Rightarrow> sg_server_message \<Rightarrow> bool \<times> sg_chan" where
  "try_send ch msg =
     (if length (ch_buf ch) < ch_cap ch then (True, ch\<lparr>ch_buf := ch_buf ch @ [msg]\<rparr>) else (False, ch))"

definition chan_recv :: "sg_chan \<Rightarrow> (sg_server_message \<times> sg_chan) option" where
  "chan_recv ch = (case ch_buf ch of [] \<Rightarrow> None | m # ms \<Rightarrow> Some (m, ch\<lparr>ch_buf := ms\<rparr>))"

definition chan_wf :: "sg_chan \<Rightarrow> bool" where
  "chan_wf ch \<longleftrightarrow> length (ch_buf ch) \<le> ch_cap ch"

interpretation sgq: bounded_queue chan_wf ch_buf ch_cap try_send chan_recv
  by unfold_locales (auto simp: chan_wf_def try_send_def chan_recv_def split: list.splits if_splits)

section \<open>State\<close>

record sg_meta =
  sm_tenantID :: string
  sm_rooms :: "string fset"

record sg_hub =
  sh_rooms :: room_map
  sh_sessions :: "(string, sg_meta) fmap"

type_synonym sg_chans = "string \<Rightarrow> sg_chan"

definition sg_new_hub :: sg_hub where
  "sg_new_hub = \<lparr>sh_rooms = fmempty, sh_sessions = fmempty\<rparr>"

section \<open>Operations\<close>

definition sg_register :: "sg_hub \<Rightarrow> string \<Rightarrow> sg_chan \<times> sg_hub" where
  "sg_register h sid =
     (make_chan, h\<lparr>sh_sessions := fmupd sid \<lparr>sm_tenantID = '''', sm_rooms = {||}\<rparr> (sh_sessions h)\<rparr>)"

text \<open>\<open>ord\<close> is the order in which the loop visits the rooms of the session.\<close>

definition sg_remove_session :: "sg_hub \<Rightarrow> string list \<Rightarrow> string \<Rightarrow> sg_hub" where
  "sg_remove_session h ord sid =
     (case fmlookup (sh_sessions h) sid of
        None \<Rightarrow> h
      | Some meta \<Rightarrow>
          let h1 = h\<lparr>sh_sessions := fmdrop sid (sh_sessions h)\<rparr> in
          if sm_tenantID meta = '''' then h1
          else h1\<lparr>sh_rooms := fold (\<lambda>room. leave_room sid (sm_tenantID meta, room)) ord (sh_rooms h1)\<rparr>)"

definition hello_invalid_text :: string where
  "hello_invalid_text = ''hello may be sent exactly once with a non-empty tenant_id''"

definition sg_hello :: "sg_hub \<Rightarrow> string \<Rightarrow> string \<Rightarrow> sg_server_message option \<times> sg_hub" where
  "sg_hello h sid tenantID =
     (case fmlookup (sh_sessions h) sid of
        None \<Rightarrow> (None, h)
      | Some meta \<Rightarrow>
          if sm_tenantID meta \<noteq> '''' \<or> tenantID = '''' then
            (Some (sg_new_error SgCodeHelloInvalid hello_invalid_text), h)
          else (None, h\<lparr>sh_sessions := fmupd sid (meta\<lparr>sm_tenantID := tenantID\<rparr>) (sh_sessions h)\<rparr>))"

definition sg_subscribe :: "sg_hub \<Rightarrow> string \<Rightarrow> string \<Rightarrow> sg_server_message option \<times> sg_hub" where
  "sg_subscribe h sid room =
     (case fmlookup (sh_sessions h) sid of
        None \<Rightarrow> (None, h)
      | Some meta \<Rightarrow>
          if sm_tenantID meta = '''' then
            (Some (sg_new_error SgCodeHelloRequired ''send hello before subscribing''), h)
          else
            let key = (sm_tenantID meta, room);
                peers = finsert sid (peers_of (sh_rooms h) key)
            in (Some (sg_new_subscribed room (fcard peers)),
                h\<lparr>sh_sessions := fmupd sid (meta\<lparr>sm_rooms := finsert room (sm_rooms meta)\<rparr>) (sh_sessions h),
                  sh_rooms := fmupd key peers (sh_rooms h)\<rparr>))"

definition sg_unsubscribe :: "sg_hub \<Rightarrow> string \<Rightarrow> string \<Rightarrow> sg_server_message option \<times> sg_hub" where
  "sg_unsubscribe h sid room =
     (case fmlookup (sh_sessions h) sid of
        None \<Rightarrow> (None, h)
      | Some meta \<Rightarrow>
          if sm_tenantID meta = '''' then (None, h)
          else
            (Some (sg_new_unsubscribed room),
             h\<lparr>sh_sessions := fmupd sid (meta\<lparr>sm_rooms := sm_rooms meta |-| {|room|}\<rparr>) (sh_sessions h),
               sh_rooms := leave_room sid (sm_tenantID meta, room) (sh_rooms h)\<rparr>))"

text \<open>\<open>ord\<close> is the order in which the loop visits the peers of the room.\<close>

definition sg_publish ::
  "sg_hub \<Rightarrow> string list \<Rightarrow> string \<Rightarrow> string \<Rightarrow> string \<Rightarrow> sg_chans \<Rightarrow> nat \<times> sg_chans"
where
  "sg_publish h ord sid room payload qs =
     (case fmlookup (sh_sessions h) sid of
        None \<Rightarrow> (0, qs)
      | Some meta \<Rightarrow>
          if sm_tenantID meta = '''' then
            (0, qs(sid := snd (try_send (qs sid) (sg_new_error SgCodeHelloRequired ''send hello before publishing''))))
          else
            (case fmlookup (sh_rooms h) (sm_tenantID meta, room) of
               None \<Rightarrow> (0, qs)
             | Some peers \<Rightarrow>
                 let targets = filter (\<lambda>peer. peer \<noteq> sid \<and> fmlookup (sh_sessions h) peer \<noteq> None) ord;
                     ((delivered, dropped), qs') = offer_all try_send (sg_new_delivery room sid payload) targets qs
                 in (delivered, qs')))"

definition sg_session_count :: "sg_hub \<Rightarrow> nat" where
  "sg_session_count h = fmlen (sh_sessions h)"

definition sg_room_peers :: "sg_hub \<Rightarrow> string \<Rightarrow> string \<Rightarrow> nat" where
  "sg_room_peers h tenantID room =
     (case fmlookup (sh_rooms h) (tenantID, room) of None \<Rightarrow> 0 | Some peers \<Rightarrow> fcard peers)"

section \<open>The hub invariant\<close>

definition sg_tenant :: "sg_hub \<Rightarrow> string \<Rightarrow> string" where
  "sg_tenant h sid = (case fmlookup (sh_sessions h) sid of None \<Rightarrow> '''' | Some meta \<Rightarrow> sm_tenantID meta)"

definition sg_subscribed :: "sg_hub \<Rightarrow> string \<Rightarrow> string \<Rightarrow> bool" where
  "sg_subscribed h sid room =
     (case fmlookup (sh_sessions h) sid of None \<Rightarrow> False | Some meta \<Rightarrow> room |\<in>| sm_rooms meta)"

definition sg_inv :: "sg_hub \<Rightarrow> bool" where
  "sg_inv h \<longleftrightarrow> index_ok (sg_tenant h) (fmmap sm_rooms (sh_sessions h)) (sh_rooms h)"

lemma index_ok_cong:
  assumes "index_ok ten sess rooms" and "\<And>i. fmlookup sess i \<noteq> None \<Longrightarrow> ten' i = ten i"
  shows "index_ok ten' sess rooms"
proof (rule index_okI)
  fix i rs room assume "fmlookup sess i = Some rs" "room |\<in>| rs"
  with index_okD(1) [OF assms(1) this] assms(2) [of i] show "ten' i \<noteq> '''' \<and> i |\<in>| peers_of rooms (ten' i, room)" by simp
next
  fix t room i assume "i |\<in>| peers_of rooms (t, room)"
  from index_okD(2) [OF assms(1) this] assms(2) [of i]
  show "t \<noteq> '''' \<and> ten' i = t \<and> (\<exists>rs. fmlookup sess i = Some rs \<and> room |\<in>| rs)" by auto
qed (rule index_okD(3) [OF assms(1)])

lemma sg_inv_new: "sg_inv sg_new_hub"
  by (simp add: sg_inv_def sg_new_hub_def index_ok_empty)

lemma sg_inv_register:
  assumes "sg_inv h" and fresh: "fmlookup (sh_sessions h) sid = None"
  shows "sg_inv (snd (sg_register h sid))"
proof -
  have "index_ok (sg_tenant h) (fmupd sid {||} (fmmap sm_rooms (sh_sessions h))) (sh_rooms h)"
    using assms by (intro index_ok_register) (simp_all add: sg_inv_def)
  moreover have "sg_tenant (snd (sg_register h sid)) = sg_tenant h"
    using fresh by (auto simp: sg_tenant_def sg_register_def fun_eq_iff)
  ultimately show ?thesis by (simp add: sg_inv_def sg_register_def fmmap_fmupd)
qed

lemma sg_inv_remove:
  assumes inv: "sg_inv h" and ord: "fset_order ord (case fmlookup (sh_sessions h) sid of None \<Rightarrow> {||} | Some m \<Rightarrow> sm_rooms m)"
  shows "sg_inv (sg_remove_session h ord sid)"
proof (cases "fmlookup (sh_sessions h) sid")
  case None
  with inv show ?thesis by (simp add: sg_remove_session_def)
next
  case (Some meta)
  let ?h = "sg_remove_session h ord sid"
  have sess: "fmlookup (fmmap sm_rooms (sh_sessions h)) sid = Some (sm_rooms meta)" by (simp add: Some)
  have t: "sg_tenant h sid = sm_tenantID meta" by (simp add: sg_tenant_def Some)
  have sub: "fset (sm_rooms meta) \<subseteq> set ord" using ord by (simp add: Some fset_order_def)
  have "index_ok (sg_tenant h) (fmdrop sid (fmmap sm_rooms (sh_sessions h)))
      (fold (\<lambda>room. leave_room sid (sg_tenant h sid, room)) ord (sh_rooms h))"
    using inv by (intro index_ok_remove [OF _ sess sub]) (simp add: sg_inv_def)
  moreover have "sm_rooms meta = {||}" if "sm_tenantID meta = ''''"
  proof (rule ccontr)
    assume "sm_rooms meta \<noteq> {||}"
    then obtain room where "room |\<in>| sm_rooms meta" by auto
    with inv index_okD(1) [OF _ sess, of "sg_tenant h" "sh_rooms h" room] that t show False by (simp add: sg_inv_def)
  qed
  then have "sm_tenantID meta = '''' \<Longrightarrow> ord = []" using ord by (auto simp: fset_order_def Some)
  ultimately have "index_ok (sg_tenant h) (fmmap sm_rooms (sh_sessions ?h)) (sh_rooms ?h)"
    by (auto simp: sg_remove_session_def Some Let_def t)
  then show ?thesis unfolding sg_inv_def
    by (rule index_ok_cong) (auto simp: sg_tenant_def sg_remove_session_def Some Let_def split: if_splits option.splits)
qed

lemma sg_inv_hello:
  assumes inv: "sg_inv h"
  shows "sg_inv (snd (sg_hello h sid t))"
proof (cases "fmlookup (sh_sessions h) sid")
  case None
  with inv show ?thesis by (simp add: sg_hello_def)
next
  case (Some meta)
  show ?thesis
  proof (cases "sm_tenantID meta \<noteq> '''' \<or> t = ''''")
    case False
    let ?h = "snd (sg_hello h sid t)"
    have "sg_tenant h sid = ''''" using False by (simp add: sg_tenant_def Some)
    then have "index_ok ((sg_tenant h)(sid := t)) (fmmap sm_rooms (sh_sessions h)) (sh_rooms h)"
      using inv by (intro index_ok_pin) (simp_all add: sg_inv_def)
    moreover have "sg_tenant ?h = (sg_tenant h)(sid := t)"
      using False by (auto simp: sg_tenant_def sg_hello_def Some fun_eq_iff)
    moreover have "fmmap sm_rooms (sh_sessions ?h) = fmmap sm_rooms (sh_sessions h)"
      using False Some by (intro fmap_ext) (auto simp: sg_hello_def)
    moreover have "sh_rooms ?h = sh_rooms h" using False by (simp add: sg_hello_def Some)
    ultimately show ?thesis by (simp add: sg_inv_def)
  qed (use inv Some in \<open>simp add: sg_hello_def\<close>)
qed

lemma sg_inv_subscribe:
  assumes inv: "sg_inv h"
  shows "sg_inv (snd (sg_subscribe h sid room))"
proof (cases "fmlookup (sh_sessions h) sid")
  case None
  with inv show ?thesis by (simp add: sg_subscribe_def)
next
  case (Some meta)
  show ?thesis
  proof (cases "sm_tenantID meta = ''''")
    case False
    let ?h = "snd (sg_subscribe h sid room)"
    have t: "sg_tenant h sid = sm_tenantID meta" by (simp add: sg_tenant_def Some)
    have "index_ok (sg_tenant h) (fmupd sid (finsert room (sm_rooms meta)) (fmmap sm_rooms (sh_sessions h)))
        (fmupd (sg_tenant h sid, room) (finsert sid (peers_of (sh_rooms h) (sg_tenant h sid, room))) (sh_rooms h))"
      using inv False by (intro index_ok_join) (simp_all add: sg_inv_def Some t)
    moreover have "sg_tenant ?h = sg_tenant h"
      using False by (auto simp: sg_tenant_def sg_subscribe_def Some Let_def fun_eq_iff)
    ultimately show ?thesis using False by (simp add: sg_inv_def sg_subscribe_def Some Let_def t fmmap_fmupd)
  qed (use inv Some in \<open>simp add: sg_subscribe_def\<close>)
qed

lemma sg_inv_unsubscribe:
  assumes inv: "sg_inv h"
  shows "sg_inv (snd (sg_unsubscribe h sid room))"
proof (cases "fmlookup (sh_sessions h) sid")
  case None
  with inv show ?thesis by (simp add: sg_unsubscribe_def)
next
  case (Some meta)
  show ?thesis
  proof (cases "sm_tenantID meta = ''''")
    case False
    let ?h = "snd (sg_unsubscribe h sid room)"
    have t: "sg_tenant h sid = sm_tenantID meta" by (simp add: sg_tenant_def Some)
    have "index_ok (sg_tenant h) (fmupd sid (sm_rooms meta |-| {|room|}) (fmmap sm_rooms (sh_sessions h)))
        (leave_room sid (sg_tenant h sid, room) (sh_rooms h))"
      using inv by (intro index_ok_leave) (simp_all add: sg_inv_def Some)
    moreover have "sg_tenant ?h = sg_tenant h"
      using False by (auto simp: sg_tenant_def sg_unsubscribe_def Some fun_eq_iff)
    ultimately show ?thesis using False by (simp add: sg_inv_def sg_unsubscribe_def Some t fmmap_fmupd)
  qed (use inv Some in \<open>simp add: sg_unsubscribe_def\<close>)
qed

interpretation sgfan: tenant_fanout chan_wf ch_buf ch_cap try_send chan_recv sg_inv sg_tenant sg_subscribed
  "\<lambda>h t r. peers_of (sh_rooms h) (t, r)"
proof
  fix h sid t r assume "sg_inv h"
  then have ok: "index_ok (sg_tenant h) (fmmap sm_rooms (sh_sessions h)) (sh_rooms h)" by (simp add: sg_inv_def)
  have sub: "sg_subscribed h sid r \<longleftrightarrow> (\<exists>rs. fmlookup (fmmap sm_rooms (sh_sessions h)) sid = Some rs \<and> r |\<in>| rs)"
    by (auto simp: sg_subscribed_def split: option.splits)
  show "sid |\<in>| peers_of (sh_rooms h) (t, r) \<longleftrightarrow> t \<noteq> '''' \<and> sg_tenant h sid = t \<and> sg_subscribed h sid r"
    unfolding sub using index_okD(1,2) [OF ok] by blast
qed

end
