(* ===== verification/Sg_Server.thy ===== *)
theory Sg_Server
  imports Sg_Hub
begin

text \<open>
  The server of \<open>signal-go\<close> (\<open>internal/signal/server.go\<close>) and its whole system: any number of
  connections, each with its reader (\<open>readLoop\<close>, \<open>dispatch\<close>) and writer (\<open>writeLoop\<close>), over the one
  hub. A step is one critical section: a connection that opens, one client frame handled by its
  reader, one frame taken by its writer, or a connection that ends. The clock and the read deadlines
  are laid over these steps in \<open>Sg_Idle\<close>.
\<close>

section \<open>One connection\<close>

definition sg_idle_timeout :: duration where "sg_idle_timeout = 60 * second"
definition sg_write_wait :: duration where "sg_write_wait = 10 * second"

definition sg_listen_addr :: "string \<Rightarrow> string" where
  "sg_listen_addr env_port = (let port = (if env_port = '''' then ''8765'' else env_port) in ''0.0.0.0:'' @ port)"

definition sg_send :: "string \<Rightarrow> sg_server_message \<Rightarrow> sg_chans \<Rightarrow> sg_chans" where
  "sg_send sid msg qs = qs(sid := snd (try_send (qs sid) msg))"

definition sg_send_reply :: "string \<Rightarrow> sg_server_message option \<Rightarrow> sg_chans \<Rightarrow> sg_chans" where
  "sg_send_reply sid reply qs = (case reply of None \<Rightarrow> qs | Some msg \<Rightarrow> sg_send sid msg qs)"

text \<open>\<open>ord\<close> is the order in which a publish visits the peers of the room.\<close>

definition sg_dispatch :: "sg_hub \<Rightarrow> string list \<Rightarrow> string \<Rightarrow> sg_client_message \<Rightarrow> sg_chans \<Rightarrow> sg_hub \<times> sg_chans" where
  "sg_dispatch h ord sid msg qs =
     (if sc_Type msg = SgTypeHello then
        (let (reply, h') = sg_hello h sid (sc_TenantID msg) in (h', sg_send_reply sid reply qs))
      else if sc_Type msg = SgTypeSubscribe then
        (let (reply, h') = sg_subscribe h sid (sc_Room msg) in (h', sg_send_reply sid reply qs))
      else if sc_Type msg = SgTypeUnsubscribe then
        (let (reply, h') = sg_unsubscribe h sid (sc_Room msg) in (h', sg_send_reply sid reply qs))
      else if sc_Type msg = SgTypePublish then
        (h, snd (sg_publish h ord sid (sc_Room msg) (sc_Payload msg) qs))
      else if sc_Type msg = SgTypePing then (h, sg_send sid sg_new_pong qs)
      else (h, sg_send sid (sg_new_error SgCodeBadMessage ''unrecognized message type'') qs))"

text \<open>One round of \<open>readLoop\<close> on a frame that arrived before the idle deadline.\<close>

definition sg_on_frame :: "sg_hub \<Rightarrow> string list \<Rightarrow> string \<Rightarrow> string \<Rightarrow> sg_chans \<Rightarrow> sg_hub \<times> sg_chans" where
  "sg_on_frame h ord sid data qs =
     (case sg_decode data of
        Inl err \<Rightarrow> (h, sg_send sid (sg_new_error SgCodeBadMessage ''unrecognized message shape'') qs)
      | Inr msg \<Rightarrow> sg_dispatch h ord sid msg qs)"

text \<open>The part of \<open>serveConn\<close> before the read loop, for the session id it has drawn.\<close>

definition sg_serve_start :: "sg_hub \<Rightarrow> string \<Rightarrow> sg_chans \<Rightarrow> sg_hub \<times> sg_chans" where
  "sg_serve_start h sid qs =
     (let (outgoing, h') = sg_register h sid in (h', sg_send sid (sg_new_welcome sid) (qs(sid := outgoing))))"

section \<open>The system\<close>

text \<open>
  \<open>ss_out sid\<close> is what the writer of a session has taken so far and \<open>ss_tenant sid\<close> the tenant a
  session has said hello for; both outlive the session. Session ids are never reused
  (\<open>generated_ids_valid\<close>: they carry 122 random bits).
\<close>

record sg_sys =
  ss_hub :: sg_hub
  ss_chans :: sg_chans
  ss_out :: "string \<Rightarrow> sg_server_message list"
  ss_used :: "string fset"
  ss_tenant :: "string \<Rightarrow> string"

definition sg_initial :: "sg_sys \<Rightarrow> bool" where
  "sg_initial y \<longleftrightarrow> y = \<lparr>ss_hub = sg_new_hub, ss_chans = (\<lambda>sid. make_chan), ss_out = (\<lambda>sid. []),
     ss_used = {||}, ss_tenant = (\<lambda>sid. '''')\<rparr>"

definition sg_pinned :: "sg_hub \<Rightarrow> sg_sys \<Rightarrow> string \<Rightarrow> string" where
  "sg_pinned h y sid = (if ss_tenant y sid = '''' then sg_tenant h sid else ss_tenant y sid)"

inductive sg_step :: "sg_sys \<Rightarrow> sg_sys \<Rightarrow> bool" where
  sg_connect: "sid |\<notin>| ss_used y \<Longrightarrow> sg_serve_start (ss_hub y) sid (ss_chans y) = (h', qs') \<Longrightarrow>
     sg_step y (y\<lparr>ss_hub := h', ss_chans := qs', ss_used := finsert sid (ss_used y)\<rparr>)"
| sg_frame: "fmlookup (sh_sessions (ss_hub y)) sid \<noteq> None \<Longrightarrow>
     (\<forall>room. fset_order (ord room) (peers_of (sh_rooms (ss_hub y)) (sg_tenant (ss_hub y) sid, room))) \<Longrightarrow>
     sg_on_frame (ss_hub y) (case sg_decode data of Inl _ \<Rightarrow> [] | Inr msg \<Rightarrow> ord (sc_Room msg)) sid data (ss_chans y) = (h', qs') \<Longrightarrow>
     sg_step y (y\<lparr>ss_hub := h', ss_chans := qs', ss_tenant := (ss_tenant y)(sid := sg_pinned h' y sid)\<rparr>)"
| sg_write: "chan_recv (ss_chans y sid) = Some (msg, ch') \<Longrightarrow>
     sg_step y (y\<lparr>ss_chans := (ss_chans y)(sid := ch'), ss_out := (ss_out y)(sid := ss_out y sid @ [msg])\<rparr>)"
| sg_end: "fset_order ord (case fmlookup (sh_sessions (ss_hub y)) sid of None \<Rightarrow> {||} | Some m \<Rightarrow> sm_rooms m) \<Longrightarrow>
     sg_step y (y\<lparr>ss_hub := sg_remove_session (ss_hub y) ord sid\<rparr>)"

text \<open>Everything a session has been or will be sent, in order.\<close>

definition sg_stream :: "sg_sys \<Rightarrow> string \<Rightarrow> sg_server_message list" where
  "sg_stream y sid = ss_out y sid @ ch_buf (ss_chans y sid)"

definition sg_sys_inv :: "sg_sys \<Rightarrow> bool" where
  "sg_sys_inv y \<longleftrightarrow>
     sg_inv (ss_hub y)
     \<and> (\<forall>sid. chan_wf (ss_chans y sid) \<and> ch_cap (ss_chans y sid) = outgoing_buffer)
     \<and> (\<forall>sid. sid |\<notin>| ss_used y \<longrightarrow>
          fmlookup (sh_sessions (ss_hub y)) sid = None \<and> sg_stream y sid = [] \<and> ss_tenant y sid = '''')
     \<and> (\<forall>sid. sid |\<in>| ss_used y \<longrightarrow> (\<exists>ms. sg_stream y sid = SgWelcome sid # ms))
     \<and> (\<forall>sid. fmlookup (sh_sessions (ss_hub y)) sid \<noteq> None \<longrightarrow> sg_tenant (ss_hub y) sid = ss_tenant y sid)
     \<and> (\<forall>sid room sender p. SgDelivery room sender p \<in> set (sg_stream y sid) \<longrightarrow>
          sender \<noteq> sid \<and> ss_tenant y sid \<noteq> '''' \<and> ss_tenant y sender = ss_tenant y sid)"

section \<open>Effects of one frame\<close>

lemma try_send_buf:
  "\<exists>ms. ch_buf (snd (try_send ch m)) = ch_buf ch @ ms \<and> set ms \<subseteq> {m} \<and> ch_cap (snd (try_send ch m)) = ch_cap ch"
  by (auto simp: try_send_def)

lemma try_send_wf: "chan_wf ch \<Longrightarrow> chan_wf (snd (try_send ch m))"
  using sgq.offer_wf by blast

text \<open>\<open>grows P qs qs'\<close>: every channel only gets messages that \<open>P\<close> allows for its session.\<close>

definition grows :: "(string \<Rightarrow> sg_server_message \<Rightarrow> bool) \<Rightarrow> sg_chans \<Rightarrow> sg_chans \<Rightarrow> bool" where
  "grows P qs qs' \<longleftrightarrow> (\<forall>i. (\<exists>ms. ch_buf (qs' i) = ch_buf (qs i) @ ms \<and> (\<forall>m \<in> set ms. P i m))
     \<and> ch_cap (qs' i) = ch_cap (qs i) \<and> (chan_wf (qs i) \<longrightarrow> chan_wf (qs' i)))"

lemma grows_refl: "grows P qs qs"
  by (simp add: grows_def)

lemma grows_send: "P sid m \<Longrightarrow> grows P qs (sg_send sid m qs)"
  using try_send_buf [of "qs sid" m] try_send_wf [of "qs sid" m] by (fastforce simp: grows_def sg_send_def)

lemma grows_reply: "(\<And>m. reply = Some m \<Longrightarrow> P sid m) \<Longrightarrow> grows P qs (sg_send_reply sid reply qs)"
  by (cases reply) (simp_all add: sg_send_reply_def grows_refl grows_send)

lemma grows_offer_all:
  assumes "distinct sids" "\<And>i. i \<in> set sids \<Longrightarrow> P i m"
  shows "grows P qs (snd (offer_all try_send m sids qs))"
  unfolding grows_def
proof
  fix i
  show "(\<exists>ms. ch_buf (snd (offer_all try_send m sids qs) i) = ch_buf (qs i) @ ms \<and> (\<forall>m \<in> set ms. P i m))
     \<and> ch_cap (snd (offer_all try_send m sids qs) i) = ch_cap (qs i)
     \<and> (chan_wf (qs i) \<longrightarrow> chan_wf (snd (offer_all try_send m sids qs) i))"
  proof (cases "i \<in> set sids")
    case True
    then have "snd (offer_all try_send m sids qs) i = snd (try_send (qs i) m)" using assms(1) by (rule offer_all_each [rotated])
    with try_send_buf [of "qs i" m] try_send_wf [of "qs i" m] assms(2) [OF True] show ?thesis by fastforce
  qed (simp add: offer_all_frame)
qed

text \<open>Whether a message may be put on the channel of \<open>i\<close> by a frame of \<open>sid\<close>.\<close>

definition may_send :: "sg_hub \<Rightarrow> string \<Rightarrow> string \<Rightarrow> sg_server_message \<Rightarrow> bool" where
  "may_send h sid i m \<longleftrightarrow>
     (case m of
        SgDelivery room sender p \<Rightarrow>
          sender = sid \<and> i \<noteq> sid \<and> sg_tenant h sid \<noteq> '''' \<and> sg_tenant h i = sg_tenant h sid \<and> sg_subscribed h i room
      | _ \<Rightarrow> i = sid)"

lemma sg_hello_reply: "fst (sg_hello h sid t) = Some m \<Longrightarrow> may_send h sid sid m"
  by (auto simp: sg_hello_def may_send_def split: option.splits if_splits)

lemma sg_subscribe_reply: "fst (sg_subscribe h sid room) = Some m \<Longrightarrow> may_send h sid sid m"
  by (auto simp: sg_subscribe_def may_send_def Let_def split: option.splits if_splits)

lemma sg_unsubscribe_reply: "fst (sg_unsubscribe h sid room) = Some m \<Longrightarrow> may_send h sid sid m"
  by (auto simp: sg_unsubscribe_def may_send_def split: option.splits if_splits)

lemma publish_grows:
  assumes inv: "sg_inv h" and ord: "fset_order ord (peers_of (sh_rooms h) (sg_tenant h sid, room))"
  shows "grows (may_send h sid) qs (snd (sg_publish h ord sid room payload qs))"
proof (cases "fmlookup (sh_sessions h) sid")
  case None
  then show ?thesis by (simp add: sg_publish_def grows_refl)
next
  case (Some meta)
  then have t: "sg_tenant h sid = sm_tenantID meta" by (simp add: sg_tenant_def)
  show ?thesis
  proof (cases "sm_tenantID meta = ''''")
    case True
    have "grows (may_send h sid) qs (sg_send sid (sg_new_error SgCodeHelloRequired ''send hello before publishing'') qs)"
      by (rule grows_send) (simp add: may_send_def)
    then show ?thesis using Some True by (simp add: sg_publish_def sg_send_def)
  next
    case False
    let ?ts = "filter (\<lambda>peer. peer \<noteq> sid \<and> fmlookup (sh_sessions h) peer \<noteq> None) ord"
    have "may_send h sid i (SgDelivery room sid payload)" if "i \<in> set ?ts" for i
    proof -
      have "i |\<in>| peers_of (sh_rooms h) (sg_tenant h sid, room)" "i \<noteq> sid" using that ord by (auto simp: fset_order_def)
      then show ?thesis using sgfan.room_peers_iff [OF inv, of i "sg_tenant h sid" room] by (simp add: may_send_def)
    qed
    then have "grows (may_send h sid) qs (snd (offer_all try_send (SgDelivery room sid payload) ?ts qs))"
      using ord by (intro grows_offer_all) (auto simp: fset_order_def)
    then show ?thesis using Some False
      by (auto simp: sg_publish_def grows_refl case_prod_unfold Let_def split: option.splits)
  qed
qed

lemma sg_hub_frame:
  assumes "fmlookup (sh_sessions h) sid \<noteq> None"
  shows "fmdom' (sh_sessions (snd (sg_hello h sid t))) = fmdom' (sh_sessions h)"
    and "fmdom' (sh_sessions (snd (sg_subscribe h sid room))) = fmdom' (sh_sessions h)"
    and "fmdom' (sh_sessions (snd (sg_unsubscribe h sid room))) = fmdom' (sh_sessions h)"
  using assms
  by (auto simp: sg_hello_def sg_subscribe_def sg_unsubscribe_def Let_def fmlookup_dom'_iff split: option.splits if_splits)

lemma sg_hub_tenant:
  shows "i \<noteq> sid \<or> sg_tenant h i \<noteq> '''' \<Longrightarrow> sg_tenant (snd (sg_hello h sid t)) i = sg_tenant h i"
    and "sg_tenant (snd (sg_subscribe h sid room)) i = sg_tenant h i"
    and "sg_tenant (snd (sg_unsubscribe h sid room)) i = sg_tenant h i"
  by (auto simp: sg_hello_def sg_subscribe_def sg_unsubscribe_def sg_tenant_def Let_def split: option.splits if_splits)

lemma on_frame_effect:
  assumes inv: "sg_inv h" and reg: "fmlookup (sh_sessions h) sid \<noteq> None"
    and ord: "\<forall>room. fset_order (ord room) (peers_of (sh_rooms h) (sg_tenant h sid, room))"
    and run: "sg_on_frame h (case sg_decode data of Inl _ \<Rightarrow> [] | Inr msg \<Rightarrow> ord (sc_Room msg)) sid data qs = (h', qs')"
  shows "sg_inv h' \<and> fmdom' (sh_sessions h') = fmdom' (sh_sessions h) \<and> grows (may_send h sid) qs qs'
    \<and> (\<forall>i. i \<noteq> sid \<or> sg_tenant h i \<noteq> '''' \<longrightarrow> sg_tenant h' i = sg_tenant h i)"
proof (cases "sg_decode data")
  case (Inl e)
  have "grows (may_send h sid) qs (sg_send sid (SgError SgCodeBadMessage ''unrecognized message shape'') qs)"
    by (rule grows_send) (simp add: may_send_def)
  with Inl run inv show ?thesis by (auto simp: sg_on_frame_def)
next
  case (Inr msg)
  then have d: "sg_dispatch h (ord (sc_Room msg)) sid msg qs = (h', qs')" using run by (simp add: sg_on_frame_def)
  note defs = sg_dispatch_def case_prod_unfold Let_def sg_vocabulary
  consider "sc_Type msg = SgTypeHello" | "sc_Type msg = SgTypeSubscribe" | "sc_Type msg = SgTypeUnsubscribe"
    | "sc_Type msg = SgTypePublish"
    | "sc_Type msg \<notin> {SgTypeHello, SgTypeSubscribe, SgTypeUnsubscribe, SgTypePublish}"
    by blast
  then show ?thesis
  proof cases
    case 1
    with d have e: "h' = snd (sg_hello h sid (sc_TenantID msg))" "qs' = sg_send_reply sid (fst (sg_hello h sid (sc_TenantID msg))) qs"
      by (auto simp: defs)
    have "grows (may_send h sid) qs qs'" unfolding e by (rule grows_reply, rule sg_hello_reply)
    then show ?thesis unfolding e(1) using sg_inv_hello [OF inv] sg_hub_frame [OF reg] sg_hub_tenant by blast
  next
    case 2
    with d have e: "h' = snd (sg_subscribe h sid (sc_Room msg))" "qs' = sg_send_reply sid (fst (sg_subscribe h sid (sc_Room msg))) qs"
      by (auto simp: defs)
    have "grows (may_send h sid) qs qs'" unfolding e by (rule grows_reply, rule sg_subscribe_reply)
    then show ?thesis unfolding e(1) using sg_inv_subscribe [OF inv] sg_hub_frame [OF reg] sg_hub_tenant by blast
  next
    case 3
    with d have e: "h' = snd (sg_unsubscribe h sid (sc_Room msg))" "qs' = sg_send_reply sid (fst (sg_unsubscribe h sid (sc_Room msg))) qs"
      by (auto simp: defs)
    have "grows (may_send h sid) qs qs'" unfolding e by (rule grows_reply, rule sg_unsubscribe_reply)
    then show ?thesis unfolding e(1) using sg_inv_unsubscribe [OF inv] sg_hub_frame [OF reg] sg_hub_tenant by blast
  next
    case 4
    with d have e: "h' = h" "qs' = snd (sg_publish h (ord (sc_Room msg)) sid (sc_Room msg) (sc_Payload msg) qs)"
      by (auto simp: defs)
    then show ?thesis using publish_grows [OF inv] ord inv by simp
  next
    case 5
    with d obtain m where "h' = h" "qs' = sg_send sid m qs" "may_send h sid sid m"
      by (auto simp: defs may_send_def split: if_splits)
    then show ?thesis using grows_send [of "may_send h sid"] inv by simp
  qed
qed

section \<open>The system invariant\<close>

lemma sg_sys_invD:
  assumes "sg_sys_inv y"
  shows "sg_inv (ss_hub y)"
    and "chan_wf (ss_chans y sid)" "ch_cap (ss_chans y sid) = outgoing_buffer"
    and "sid |\<notin>| ss_used y \<Longrightarrow> fmlookup (sh_sessions (ss_hub y)) sid = None \<and> sg_stream y sid = [] \<and> ss_tenant y sid = ''''"
    and "sid |\<in>| ss_used y \<Longrightarrow> \<exists>ms. sg_stream y sid = SgWelcome sid # ms"
    and "fmlookup (sh_sessions (ss_hub y)) sid \<noteq> None \<Longrightarrow> sg_tenant (ss_hub y) sid = ss_tenant y sid"
    and "SgDelivery room sender p \<in> set (sg_stream y sid) \<Longrightarrow>
      sender \<noteq> sid \<and> ss_tenant y sid \<noteq> '''' \<and> ss_tenant y sender = ss_tenant y sid"
  using assms unfolding sg_sys_inv_def by blast+

lemma sg_sys_invI:
  assumes "sg_inv (ss_hub y)"
    and "\<And>sid. chan_wf (ss_chans y sid) \<and> ch_cap (ss_chans y sid) = outgoing_buffer"
    and "\<And>sid. sid |\<notin>| ss_used y \<Longrightarrow> fmlookup (sh_sessions (ss_hub y)) sid = None \<and> sg_stream y sid = [] \<and> ss_tenant y sid = ''''"
    and "\<And>sid. sid |\<in>| ss_used y \<Longrightarrow> \<exists>ms. sg_stream y sid = SgWelcome sid # ms"
    and "\<And>sid. fmlookup (sh_sessions (ss_hub y)) sid \<noteq> None \<Longrightarrow> sg_tenant (ss_hub y) sid = ss_tenant y sid"
    and "\<And>sid room sender p. SgDelivery room sender p \<in> set (sg_stream y sid) \<Longrightarrow>
      sender \<noteq> sid \<and> ss_tenant y sid \<noteq> '''' \<and> ss_tenant y sender = ss_tenant y sid"
  shows "sg_sys_inv y"
  using assms unfolding sg_sys_inv_def by blast

lemma sg_sys_inv_initial: "sg_initial y \<Longrightarrow> sg_sys_inv y"
  by (rule sg_sys_invI)
    (simp_all add: sg_initial_def sg_inv_new chan_wf_def make_chan_def sg_stream_def, simp_all add: sg_new_hub_def)

lemma sg_sys_inv_connect:
  assumes inv: "sg_sys_inv y" and new: "sid |\<notin>| ss_used y"
    and run: "sg_serve_start (ss_hub y) sid (ss_chans y) = (h', qs')"
  shows "sg_sys_inv (y\<lparr>ss_hub := h', ss_chans := qs', ss_used := finsert sid (ss_used y)\<rparr>)" (is "sg_sys_inv ?y")
proof -
  note fresh = sg_sys_invD(4) [OF inv new]
  have h': "h' = snd (sg_register (ss_hub y) sid)" and
    qs': "qs' = (ss_chans y)(sid := \<lparr>ch_buf = [SgWelcome sid], ch_cap = outgoing_buffer\<rparr>)"
    using run by (auto simp: sg_serve_start_def sg_register_def sg_send_def try_send_def make_chan_def outgoing_buffer_def)
  have lk: "fmlookup (sh_sessions h') i = (if i = sid then Some \<lparr>sm_tenantID = '''', sm_rooms = {||}\<rparr> else fmlookup (sh_sessions (ss_hub y)) i)" for i
    by (simp add: h' sg_register_def)
  have ten: "sg_tenant h' i = sg_tenant (ss_hub y) i" for i
    using fresh by (simp add: sg_tenant_def lk)
  have out: "ss_out y sid = []" using fresh by (simp add: sg_stream_def)
  have str: "sg_stream ?y i = (if i = sid then [SgWelcome sid] else sg_stream y i)" for i
    using out by (simp add: sg_stream_def qs')
  show ?thesis
  proof (rule sg_sys_invI)
    show "sg_inv (ss_hub ?y)" using sg_inv_register [OF sg_sys_invD(1) [OF inv]] fresh by (simp add: h')
    show "chan_wf (ss_chans ?y i) \<and> ch_cap (ss_chans ?y i) = outgoing_buffer" for i
      using sg_sys_invD(2,3) [OF inv] by (simp add: qs' chan_wf_def outgoing_buffer_def)
    show "fmlookup (sh_sessions (ss_hub ?y)) i = None \<and> sg_stream ?y i = [] \<and> ss_tenant ?y i = ''''"
      if "i |\<notin>| ss_used ?y" for i
      using sg_sys_invD(4) [OF inv, of i] that unfolding str by (simp add: lk)
    show "\<exists>ms. sg_stream ?y i = SgWelcome i # ms" if "i |\<in>| ss_used ?y" for i
      using sg_sys_invD(5) [OF inv, of i] that unfolding str by (cases "i = sid") simp_all
    show "sg_tenant (ss_hub ?y) i = ss_tenant ?y i" if "fmlookup (sh_sessions (ss_hub ?y)) i \<noteq> None" for i
      using sg_sys_invD(6) [OF inv, of i] that fresh ten [of i] by (cases "i = sid") (simp_all add: lk sg_tenant_def)
    show "sender \<noteq> i \<and> ss_tenant ?y i \<noteq> '''' \<and> ss_tenant ?y sender = ss_tenant ?y i"
      if "SgDelivery room sender p \<in> set (sg_stream ?y i)" for i room sender p
      using sg_sys_invD(7) [OF inv, of room sender p i] that unfolding str by (simp split: if_splits)
  qed
qed

lemma sg_sys_inv_frame:
  assumes inv: "sg_sys_inv y" and reg: "fmlookup (sh_sessions (ss_hub y)) sid \<noteq> None"
    and ord: "\<forall>room. fset_order (ord room) (peers_of (sh_rooms (ss_hub y)) (sg_tenant (ss_hub y) sid, room))"
    and run: "sg_on_frame (ss_hub y) (case sg_decode data of Inl _ \<Rightarrow> [] | Inr msg \<Rightarrow> ord (sc_Room msg)) sid data (ss_chans y) = (h', qs')"
  shows "sg_sys_inv (y\<lparr>ss_hub := h', ss_chans := qs', ss_tenant := (ss_tenant y)(sid := sg_pinned h' y sid)\<rparr>)" (is "sg_sys_inv ?y")
proof -
  note eff = on_frame_effect [OF sg_sys_invD(1) [OF inv] reg ord run]
  then have inv': "sg_inv h'" and dom: "fmdom' (sh_sessions h') = fmdom' (sh_sessions (ss_hub y))"
    and gr: "grows (may_send (ss_hub y) sid) (ss_chans y) qs'"
    and ten: "\<And>i. i \<noteq> sid \<or> sg_tenant (ss_hub y) i \<noteq> '''' \<Longrightarrow> sg_tenant h' i = sg_tenant (ss_hub y) i" by blast+
  have reg': "fmlookup (sh_sessions h') i = None \<longleftrightarrow> fmlookup (sh_sessions (ss_hub y)) i = None" for i
    using dom by (metis fmlookup_dom'_iff not_None_eq)
  have used: "sid |\<in>| ss_used y" using sg_sys_invD(4) [OF inv, of sid] reg by auto
  have old: "sg_tenant (ss_hub y) sid = ss_tenant y sid" by (rule sg_sys_invD(6) [OF inv reg])
  have pin: "sg_pinned h' y sid = sg_tenant h' sid" using ten [of sid] old by (simp add: sg_pinned_def)
  have keep: "ss_tenant ?y i = ss_tenant y i" if "ss_tenant y i \<noteq> '''' \<or> i \<noteq> sid" for i
    using that by (auto simp: sg_pinned_def)
  have str: "\<exists>ms. sg_stream ?y i = sg_stream y i @ ms \<and> (\<forall>m \<in> set ms. may_send (ss_hub y) sid i m)" for i
    using gr unfolding grows_def sg_stream_def by fastforce
  show ?thesis
  proof (rule sg_sys_invI)
    show "sg_inv (ss_hub ?y)" using inv' by simp
    show "chan_wf (ss_chans ?y i) \<and> ch_cap (ss_chans ?y i) = outgoing_buffer" for i
      using gr sg_sys_invD(2,3) [OF inv, of i] by (simp add: grows_def)
    show "fmlookup (sh_sessions (ss_hub ?y)) i = None \<and> sg_stream ?y i = [] \<and> ss_tenant ?y i = ''''"
      if new: "i |\<notin>| ss_used ?y" for i
    proof -
      have i: "i \<noteq> sid" "i |\<notin>| ss_used y" using new used by auto
      note f = sg_sys_invD(4) [OF inv i(2)]
      then have "sg_tenant (ss_hub y) i = ''''" "\<not> sg_subscribed (ss_hub y) i room" for room
        by (simp_all add: sg_tenant_def sg_subscribed_def)
      then have "\<not> may_send (ss_hub y) sid i m" for m using i(1) by (auto simp: may_send_def split: sg_server_message.splits)
      with str [of i] f have "sg_stream ?y i = []" by (metis append_Nil2 list.set_intros(1) neq_Nil_conv)
      with f i reg' show ?thesis by simp
    qed
    show "\<exists>ms. sg_stream ?y i = SgWelcome i # ms" if "i |\<in>| ss_used ?y" for i
      using sg_sys_invD(5) [OF inv, of i] that str [of i] by fastforce
    show "sg_tenant (ss_hub ?y) i = ss_tenant ?y i" if "fmlookup (sh_sessions (ss_hub ?y)) i \<noteq> None" for i
      using that sg_sys_invD(6) [OF inv, of i] ten [of i] pin by (cases "i = sid") (simp_all add: reg')
    show "sender \<noteq> i \<and> ss_tenant ?y i \<noteq> '''' \<and> ss_tenant ?y sender = ss_tenant ?y i"
      if d: "SgDelivery room sender p \<in> set (sg_stream ?y i)" for i room sender p
    proof -
      from str [of i] d consider "SgDelivery room sender p \<in> set (sg_stream y i)" | "may_send (ss_hub y) sid i (SgDelivery room sender p)"
        by auto
      then have "sender \<noteq> i \<and> ss_tenant y i \<noteq> '''' \<and> ss_tenant y sender = ss_tenant y i"
      proof cases
        case 1
        then show ?thesis by (rule sg_sys_invD(7) [OF inv])
      next
        case 2
        then have m: "sender = sid" "i \<noteq> sid" "sg_tenant (ss_hub y) sid \<noteq> ''''" "sg_tenant (ss_hub y) i = sg_tenant (ss_hub y) sid"
          by (auto simp: may_send_def)
        then have "fmlookup (sh_sessions (ss_hub y)) i \<noteq> None" by (auto simp: sg_tenant_def split: option.splits)
        then have "sg_tenant (ss_hub y) i = ss_tenant y i" by (rule sg_sys_invD(6) [OF inv])
        with m old show ?thesis by simp
      qed
      then show ?thesis using keep [of i] keep [of sender] by metis
    qed
  qed
qed

lemma sg_sys_inv_write:
  assumes inv: "sg_sys_inv y" and r: "chan_recv (ss_chans y sid) = Some (msg, ch')"
  shows "sg_sys_inv (y\<lparr>ss_chans := (ss_chans y)(sid := ch'), ss_out := (ss_out y)(sid := ss_out y sid @ [msg])\<rparr>)" (is "sg_sys_inv ?y")
proof -
  note rs = sgq.recv_Some [OF sg_sys_invD(2) [OF inv] r]
  have str: "sg_stream ?y i = sg_stream y i" for i using rs by (simp add: sg_stream_def)
  show ?thesis
  proof (rule sg_sys_invI)
    show "chan_wf (ss_chans ?y i) \<and> ch_cap (ss_chans ?y i) = outgoing_buffer" for i
      using rs sg_sys_invD(2,3) [OF inv] by simp
  qed (use sg_sys_invD [OF inv] in \<open>unfold str, simp_all\<close>)
qed

lemma sg_sys_inv_end:
  assumes inv: "sg_sys_inv y"
    and ord: "fset_order ord (case fmlookup (sh_sessions (ss_hub y)) sid of None \<Rightarrow> {||} | Some m \<Rightarrow> sm_rooms m)"
  shows "sg_sys_inv (y\<lparr>ss_hub := sg_remove_session (ss_hub y) ord sid\<rparr>)" (is "sg_sys_inv ?y")
proof -
  have lk: "fmlookup (sh_sessions (sg_remove_session (ss_hub y) ord sid)) i
      = (if i = sid then None else fmlookup (sh_sessions (ss_hub y)) i)" for i
    by (auto simp: sg_remove_session_def Let_def split: option.splits)
  have str: "sg_stream ?y i = sg_stream y i" for i by (simp add: sg_stream_def)
  show ?thesis
  proof (rule sg_sys_invI)
    show "sg_inv (ss_hub ?y)" using sg_inv_remove [OF sg_sys_invD(1) [OF inv] ord] by simp
    show "fmlookup (sh_sessions (ss_hub ?y)) i = None \<and> sg_stream ?y i = [] \<and> ss_tenant ?y i = ''''"
      if "i |\<notin>| ss_used ?y" for i
      using sg_sys_invD(4) [OF inv, of i] that unfolding str by (simp add: lk)
    show "sg_tenant (ss_hub ?y) i = ss_tenant ?y i" if "fmlookup (sh_sessions (ss_hub ?y)) i \<noteq> None" for i
    proof -
      have "i \<noteq> sid" "fmlookup (sh_sessions (ss_hub y)) i \<noteq> None" using that by (simp_all add: lk split: if_splits)
      with sg_sys_invD(6) [OF inv this(2)] show ?thesis by (simp add: sg_tenant_def lk)
    qed
  qed (use sg_sys_invD [OF inv] in \<open>unfold str, simp_all\<close>)
qed

lemma sg_step_inv: "sg_step y y' \<Longrightarrow> sg_sys_inv y \<Longrightarrow> sg_sys_inv y'"
  by (induction rule: sg_step.induct)
    (blast intro: sg_sys_inv_connect sg_sys_inv_frame sg_sys_inv_write sg_sys_inv_end)+

interpretation sgsys: invariant_system sg_initial sg_step sg_sys_inv
  by unfold_locales (blast intro: sg_sys_inv_initial sg_step_inv)+

section \<open>A concrete run\<close>

definition sgd_frame :: "string \<Rightarrow> string \<Rightarrow> string \<Rightarrow> string" where
  "sgd_frame ty tenant room = json_obj [(''type'', json_quote ty), (''tenant_id'', json_quote tenant),
      (''room'', json_quote room), (''payload'', ''true'')]"

lemma sgd_decode:
  assumes "ty \<in> {''hello'', ''subscribe'', ''publish''}" "tenant \<in> {'''', ''T''}" "room \<in> {'''', ''calls''}"
  shows "sg_decode (sgd_frame ty tenant room)
    = Inr \<lparr>sc_Type = ty, sc_TenantID = tenant, sc_Room = room, sc_Payload = ''true''\<rparr>"
proof -
  have "valid_utf8 ty" "valid_utf8 tenant" "valid_utf8 room" using assms by (auto simp: valid_utf8_simps)
  moreover have "encodes ''true'' (JBool True)" using encodes_bool [of True] by (simp add: json_bool_def)
  ultimately show ?thesis using assms(1) unfolding sgd_frame_def by (subst sg_decode_fields) auto
qed

text \<open>Sessions \<open>a\<close> and \<open>b\<close> of tenant \<open>T\<close>: \<open>b\<close> subscribes to \<open>calls\<close>, \<open>a\<close> publishes there.\<close>

definition sgd_frames :: "(string \<times> string) list" where
  "sgd_frames = [(''a'', sgd_frame ''hello'' ''T'' ''''), (''b'', sgd_frame ''hello'' ''T'' ''''),
     (''b'', sgd_frame ''subscribe'' '''' ''calls''), (''a'', sgd_frame ''publish'' '''' ''calls'')]"

definition sgd_y0 :: sg_sys where
  "sgd_y0 = \<lparr>ss_hub = sg_new_hub, ss_chans = (\<lambda>sid. make_chan), ss_out = (\<lambda>sid. []), ss_used = {||}, ss_tenant = (\<lambda>sid. '''')\<rparr>"

definition sgd_connect :: "string \<Rightarrow> sg_sys \<Rightarrow> sg_sys" where
  "sgd_connect sid y = (let (h', qs') = sg_serve_start (ss_hub y) sid (ss_chans y)
     in y\<lparr>ss_hub := h', ss_chans := qs', ss_used := finsert sid (ss_used y)\<rparr>)"

definition sgd_send :: "(string \<Rightarrow> string list) \<Rightarrow> string \<Rightarrow> sg_client_message \<Rightarrow> sg_sys \<Rightarrow> sg_sys" where
  "sgd_send ord sid msg y = (let (h', qs') = sg_dispatch (ss_hub y) (ord (sc_Room msg)) sid msg (ss_chans y)
     in y\<lparr>ss_hub := h', ss_chans := qs', ss_tenant := (ss_tenant y)(sid := sg_pinned h' y sid)\<rparr>)"

definition sgd_msg :: "string \<Rightarrow> string \<Rightarrow> string \<Rightarrow> sg_client_message" where
  "sgd_msg ty tenant room = \<lparr>sc_Type = ty, sc_TenantID = tenant, sc_Room = room, sc_Payload = ''true''\<rparr>"

definition sgd_y4 :: sg_sys where
  "sgd_y4 = sgd_send (\<lambda>r. []) ''b'' (sgd_msg ''subscribe'' '''' ''calls'')
     (sgd_send (\<lambda>r. []) ''b'' (sgd_msg ''hello'' ''T'' '''')
     (sgd_send (\<lambda>r. []) ''a'' (sgd_msg ''hello'' ''T'' '''')
     (sgd_connect ''b'' (sgd_connect ''a'' sgd_y0))))"

definition sgd_ord :: "string \<Rightarrow> string list" where
  "sgd_ord room = (if room = ''calls'' then [''b''] else [])"

definition sgd_y5 :: sg_sys where
  "sgd_y5 = sgd_send sgd_ord ''a'' (sgd_msg ''publish'' '''' ''calls'') sgd_y4"

lemma sgd_step_connect: "sid |\<notin>| ss_used y \<Longrightarrow> sg_step y (sgd_connect sid y)"
  unfolding sgd_connect_def by (cases "sg_serve_start (ss_hub y) sid (ss_chans y)") (simp add: sg_connect)

lemma sgd_step_send:
  assumes "fmlookup (sh_sessions (ss_hub y)) sid \<noteq> None"
    and "\<forall>room. fset_order (ord room) (peers_of (sh_rooms (ss_hub y)) (sg_tenant (ss_hub y) sid, room))"
    and "ty \<in> {''hello'', ''subscribe'', ''publish''}" "tenant \<in> {'''', ''T''}" "room \<in> {'''', ''calls''}"
  shows "sg_step y (sgd_send ord sid (sgd_msg ty tenant room) y)"
proof -
  let ?d = "sgd_frame ty tenant room"
  have d: "sg_decode ?d = Inr (sgd_msg ty tenant room)" using sgd_decode [OF assms(3-5)] by (simp add: sgd_msg_def)
  obtain h' qs' where r: "sg_dispatch (ss_hub y) (ord room) sid (sgd_msg ty tenant room) (ss_chans y) = (h', qs')" by force
  have "sg_on_frame (ss_hub y) (case sg_decode ?d of Inl _ \<Rightarrow> [] | Inr msg \<Rightarrow> ord (sc_Room msg)) sid ?d (ss_chans y) = (h', qs')"
    using r by (simp add: sg_on_frame_def d sgd_msg_def)
  from sg_frame [OF assms(1,2) this] show ?thesis using r by (simp add: sgd_send_def sgd_msg_def)
qed

lemmas sgd_defs = sgd_connect_def sgd_send_def sgd_msg_def sg_serve_start_def sg_register_def sg_dispatch_def
  sg_hello_def sg_subscribe_def sg_publish_def sg_send_reply_def sg_send_def try_send_def make_chan_def outgoing_buffer_def
  sg_vocabulary sg_pinned_def sg_tenant_def peers_of_def sg_new_hub_def sgd_y0_def Let_def

lemma sgd_y4_eval:
  "ss_hub sgd_y4 = \<lparr>sh_rooms = fmupd (''T'', ''calls'') {|''b''|} fmempty,
     sh_sessions = fmupd ''b'' \<lparr>sm_tenantID = ''T'', sm_rooms = {|''calls''|}\<rparr> (fmupd ''b'' \<lparr>sm_tenantID = ''T'', sm_rooms = {||}\<rparr>
       (fmupd ''a'' \<lparr>sm_tenantID = ''T'', sm_rooms = {||}\<rparr> (fmupd ''b'' \<lparr>sm_tenantID = '''', sm_rooms = {||}\<rparr>
         (fmupd ''a'' \<lparr>sm_tenantID = '''', sm_rooms = {||}\<rparr> fmempty))))\<rparr>"
  by (simp add: sgd_y4_def sgd_defs)

lemma sgd_steps4: "sg_step\<^sup>*\<^sup>* sgd_y0 sgd_y4"
proof -
  let ?y1 = "sgd_connect ''a'' sgd_y0" and ?y2 = "sgd_connect ''b'' (sgd_connect ''a'' sgd_y0)"
  let ?y3 = "sgd_send (\<lambda>r. []) ''a'' (sgd_msg ''hello'' ''T'' '''') ?y2"
  let ?y3' = "sgd_send (\<lambda>r. []) ''b'' (sgd_msg ''hello'' ''T'' '''') ?y3"
  have "sg_step sgd_y0 ?y1" by (rule sgd_step_connect) (simp add: sgd_y0_def)
  moreover have "sg_step ?y1 ?y2" by (rule sgd_step_connect) (simp add: sgd_defs)
  moreover have "sg_step ?y2 ?y3" by (rule sgd_step_send) (simp_all add: sgd_defs fset_order_def)
  moreover have "sg_step ?y3 ?y3'" by (rule sgd_step_send) (simp_all add: sgd_defs fset_order_def)
  moreover have "sg_step ?y3' sgd_y4" unfolding sgd_y4_def
    by (rule sgd_step_send) (simp_all add: sgd_defs fset_order_def)
  ultimately show ?thesis by (meson converse_rtranclp_into_rtranclp rtranclp.rtrancl_refl)
qed

lemma sg_demo_reach: "sg_initial sgd_y0" "sg_step\<^sup>*\<^sup>* sgd_y0 sgd_y5"
proof -
  show "sg_initial sgd_y0" by (simp add: sg_initial_def sgd_y0_def)
  have "sg_step sgd_y4 sgd_y5" unfolding sgd_y5_def
    by (rule sgd_step_send) (simp_all add: sgd_y4_eval fset_order_def peers_of_def sg_tenant_def sgd_ord_def)
  with sgd_steps4 show "sg_step\<^sup>*\<^sup>* sgd_y0 sgd_y5" by (rule rtranclp.rtrancl_into_rtrancl)
qed

lemma sgd_stream: "sg_stream sgd_y5 ''b'' = [SgWelcome ''b'', SgSubscribed ''calls'' 1, SgDelivery ''calls'' ''a'' ''true'']"
  by (simp add: sg_stream_def sgd_y5_def sgd_y4_def sgd_ord_def sgd_defs fcard.rep_eq)

section \<open>Properties\<close>

lemma sg_step_tenant:
  assumes "sg_step y y'" "ss_tenant y sid \<noteq> ''''"
  shows "ss_tenant y' sid = ss_tenant y sid"
  using assms by (induction rule: sg_step.induct) (auto simp: sg_pinned_def)

lemma sg_steps_tenant: "sg_step\<^sup>*\<^sup>* y y' \<Longrightarrow> ss_tenant y sid \<noteq> '''' \<Longrightarrow> ss_tenant y' sid = ss_tenant y sid"
proof (induction rule: rtranclp_induct)
  case (step y1 y2)
  then show ?case using sg_step_tenant [of y1 y2 sid] by simp
qed simp

text \<open>
  C22. Deliveries never cross tenants. Over every interleaving of connections that open, say hello,
  subscribe, publish and leave: every payload a session was ever sent came from another session
  that had said hello for the same (non-empty) tenant, and the tenant a session has said hello for
  never changes afterwards.
\<close>

theorem sg_tenant_isolation:
  assumes "sg_initial y0" and "sg_step\<^sup>*\<^sup>* y0 y" and "sg_step\<^sup>*\<^sup>* y y'"
  shows "(\<forall>sid room sender p. SgDelivery room sender p \<in> set (sg_stream y sid) \<longrightarrow>
      sender \<noteq> sid \<and> ss_tenant y sid \<noteq> '''' \<and> ss_tenant y sender = ss_tenant y sid)
    \<and> (\<forall>sid. ss_tenant y sid \<noteq> '''' \<longrightarrow> ss_tenant y' sid = ss_tenant y sid)
    \<and> (\<forall>sid. fmlookup (sh_sessions (ss_hub y)) sid \<noteq> None \<longrightarrow> sg_tenant (ss_hub y) sid = ss_tenant y sid)"
proof -
  have inv: "sg_sys_inv y" by (rule sgsys.reachable_inv [OF assms(1,2)])
  show ?thesis using sg_sys_invD(6,7) [OF inv] sg_steps_tenant [OF assms(3)] by blast
qed

theorem sg_tenant_isolation_witness:
  "SgDelivery ''calls'' ''a'' ''true'' \<in> set (sg_stream sgd_y5 ''b'')
   \<and> ss_tenant sgd_y5 ''a'' = ss_tenant sgd_y5 ''b'' \<and> ss_tenant sgd_y5 ''b'' \<noteq> ''''"
  using sg_tenant_isolation [OF sg_demo_reach rtranclp.rtrancl_refl] by (simp add: sgd_stream)

text \<open>
  Welcome comes first, and the queue is bounded. Whatever else happens, the first frame a
  session is ever sent is its own welcome with its own session id, no other session's traffic can
  overtake it, and never more than 64 frames wait for its writer.
\<close>

theorem sg_welcome_first:
  assumes "sg_initial y0" and "sg_step\<^sup>*\<^sup>* y0 y"
  shows "(sid |\<in>| ss_used y \<longrightarrow> (\<exists>ms. sg_stream y sid = SgWelcome sid # ms))
    \<and> (sid |\<notin>| ss_used y \<longrightarrow> sg_stream y sid = [])
    \<and> length (ch_buf (ss_chans y sid)) \<le> 64"
proof -
  have inv: "sg_sys_inv y" by (rule sgsys.reachable_inv [OF assms])
  have "length (ch_buf (ss_chans y sid)) \<le> 64"
    using sg_sys_invD(2,3) [OF inv, of sid] by (simp add: chan_wf_def outgoing_buffer_def)
  then show ?thesis using sg_sys_invD(4,5) [OF inv] by blast
qed

theorem sg_welcome_first_witness: "\<exists>ms. sg_stream sgd_y5 ''b'' = SgWelcome ''b'' # ms"
proof -
  have "''b'' |\<in>| ss_used sgd_y5" by (simp add: sgd_y5_def sgd_y4_def sgd_defs sgd_ord_def)
  then show ?thesis using sg_welcome_first [OF sg_demo_reach, of "''b''"] by blast
qed

text \<open>
  A publish reaches everyone else in the room. In a reachable hub, for every order the room is
  visited in: the payload is appended once to the channel of every other session of the sender's
  tenant subscribed to the room that has space, every other channel (the sender's among them) is
  left alone, and the number returned is the number of channels that took it.
\<close>

theorem sg_publish_exact:
  assumes "sg_initial y0" and "sg_step\<^sup>*\<^sup>* y0 y" and "sg_tenant (ss_hub y) sid \<noteq> ''''"
    and "fset_order ord (peers_of (sh_rooms (ss_hub y)) (sg_tenant (ss_hub y) sid, room))"
    and "sg_publish (ss_hub y) ord sid room payload (ss_chans y) = (delivered, qs')"
  shows "(\<forall>i. ch_buf (qs' i) = ch_buf (ss_chans y i) @
        (if i \<noteq> sid \<and> sg_tenant (ss_hub y) i = sg_tenant (ss_hub y) sid \<and> sg_subscribed (ss_hub y) i room
            \<and> length (ch_buf (ss_chans y i)) < outgoing_buffer
         then [SgDelivery room sid payload] else []))
    \<and> delivered = card {i. i \<noteq> sid \<and> sg_tenant (ss_hub y) i = sg_tenant (ss_hub y) sid
        \<and> sg_subscribed (ss_hub y) i room \<and> length (ch_buf (ss_chans y i)) < outgoing_buffer}"
proof -
  let ?h = "ss_hub y" and ?q = "ss_chans y" and ?t = "sg_tenant (ss_hub y) sid"
  have inv: "sg_sys_inv y" by (rule sgsys.reachable_inv [OF assms(1,2)])
  note hinv = sg_sys_invD(1) [OF inv] and wf = sg_sys_invD(2) [OF inv] and cap = sg_sys_invD(3) [OF inv]
  obtain meta where meta: "fmlookup (sh_sessions ?h) sid = Some meta" "sm_tenantID meta = ?t"
    using assms(3) by (auto simp: sg_tenant_def split: option.splits)
  have mem: "i \<in> set ord \<longleftrightarrow> sg_tenant ?h i = ?t \<and> sg_subscribed ?h i room" for i
    using sgfan.room_peers_iff [OF hinv, of i ?t room] assms(3,4) by (simp add: fset_order_def)
  have reg: "i \<in> set ord \<Longrightarrow> fmlookup (sh_sessions ?h) i \<noteq> None" for i
    using mem by (auto simp: sg_subscribed_def split: option.splits)
  let ?ts = "filter (\<lambda>peer. peer \<noteq> sid) ord"
  have ts: "filter (\<lambda>peer. peer \<noteq> sid \<and> fmlookup (sh_sessions ?h) peer \<noteq> None) ord = ?ts"
    using reg by (intro filter_cong) auto
  obtain dropped qs1 where off: "offer_all try_send (SgDelivery room sid payload) ?ts ?q = ((delivered, dropped), qs1)"
    and qs1: "qs1 = qs'"
  proof (cases "fmlookup (sh_rooms ?h) (?t, room)")
    case None
    then have "ord = []" using assms(4) by (simp add: peers_of_def fmget_def fset_order_def)
    with None show thesis using assms(3,5) meta that [of 0 qs'] by (simp add: sg_publish_def)
  next
    case (Some peers)
    obtain d e q1 where o: "offer_all try_send (SgDelivery room sid payload) ?ts ?q = ((d, e), q1)"
      by (metis prod.exhaust)
    have "sg_publish ?h ord sid room payload ?q = (d, q1)"
      using assms(3) meta Some unfolding sg_publish_def by (simp only: ts Let_def option.case if_False sg_new_delivery_def o prod.case)
    with o assms(5) that show thesis by simp
  qed
  have d: "distinct ?ts" "set ?ts \<subseteq> fset (peers_of (sh_rooms ?h) (?t, room))" using assms(4) by (auto simp: fset_order_def)
  note fan = sgfan.fanout [OF hinv wf d off, unfolded qs1]
  have "delivered = length (filter (\<lambda>i. length (ch_buf (?q i)) < outgoing_buffer) ?ts)"
    using fan(2) by (simp add: cap)
  also have "\<dots> = card (set (filter (\<lambda>i. length (ch_buf (?q i)) < outgoing_buffer) ?ts))"
    by (rule distinct_card [OF distinct_filter [OF d(1)], symmetric])
  also have "set (filter (\<lambda>i. length (ch_buf (?q i)) < outgoing_buffer) ?ts)
      = {i. i \<noteq> sid \<and> sg_tenant ?h i = ?t \<and> sg_subscribed ?h i room \<and> length (ch_buf (?q i)) < outgoing_buffer}"
    using mem by auto
  finally have del: "delivered = card {i. i \<noteq> sid \<and> sg_tenant ?h i = ?t \<and> sg_subscribed ?h i room
      \<and> length (ch_buf (?q i)) < outgoing_buffer}" .
  have "ch_buf (qs' i) = ch_buf (?q i) @ (if i \<noteq> sid \<and> sg_tenant ?h i = ?t \<and> sg_subscribed ?h i room
      \<and> length (ch_buf (?q i)) < outgoing_buffer then [SgDelivery room sid payload] else [])" for i
    using fan(3) [of i] mem [of i] by (simp add: cap)
  with del show ?thesis by blast
qed

theorem sg_publish_exact_witness:
  "ch_buf (snd (sg_publish (ss_hub sgd_y4) [''b''] ''a'' ''calls'' ''true'' (ss_chans sgd_y4)) ''b'')
   = [SgWelcome ''b'', SgSubscribed ''calls'' 1, SgDelivery ''calls'' ''a'' ''true'']"
proof -
  obtain n qs' where r: "sg_publish (ss_hub sgd_y4) [''b''] ''a'' ''calls'' ''true'' (ss_chans sgd_y4) = (n, qs')" by force
  have ten: "sg_tenant (ss_hub sgd_y4) ''a'' = ''T''" by (simp add: sgd_y4_eval sg_tenant_def)
  have ord: "fset_order [''b''] (peers_of (sh_rooms (ss_hub sgd_y4)) (sg_tenant (ss_hub sgd_y4) ''a'', ''calls''))"
    by (simp add: sgd_y4_eval sg_tenant_def peers_of_def fset_order_def)
  have b: "ch_buf (ss_chans sgd_y4 ''b'') = [SgWelcome ''b'', SgSubscribed ''calls'' 1]"
    by (simp add: sgd_y4_def sgd_defs fcard.rep_eq)
  have "sg_tenant (ss_hub sgd_y4) ''b'' = ''T''" "sg_subscribed (ss_hub sgd_y4) ''b'' ''calls''"
    by (simp_all add: sgd_y4_eval sg_tenant_def sg_subscribed_def)
  with sg_publish_exact [OF sg_demo_reach(1) sgd_steps4 _ ord r, THEN conjunct1, THEN spec, of "''b''"] ten b show ?thesis
    by (simp add: r outgoing_buffer_def)
qed

text \<open>
  A refused frame changes nothing. In any hub, a frame that does not decode, a second or empty
  hello, and a subscribe or publish before hello leave the hub as it is, put exactly the error frame
  for that refusal on the sender's own channel (if it has space), and touch no other channel.
\<close>

theorem sg_refused_frame:
  assumes "fmlookup (sh_sessions h) sid \<noteq> None"
    and "(\<exists>e. sg_decode data = Inl e) \<and> code = SgCodeBadMessage \<and> text = ''unrecognized message shape''
      \<or> (\<exists>msg. sg_decode data = Inr msg \<and> sc_Type msg = SgTypeHello
           \<and> (sg_tenant h sid \<noteq> '''' \<or> sc_TenantID msg = '''') \<and> code = SgCodeHelloInvalid \<and> text = hello_invalid_text)
      \<or> (\<exists>msg. sg_decode data = Inr msg \<and> sc_Type msg = SgTypeSubscribe \<and> sg_tenant h sid = ''''
           \<and> code = SgCodeHelloRequired \<and> text = ''send hello before subscribing'')
      \<or> (\<exists>msg. sg_decode data = Inr msg \<and> sc_Type msg = SgTypePublish \<and> sg_tenant h sid = ''''
           \<and> code = SgCodeHelloRequired \<and> text = ''send hello before publishing'')"
  shows "fst (sg_on_frame h ord sid data qs) = h
    \<and> (\<forall>i. i \<noteq> sid \<longrightarrow> snd (sg_on_frame h ord sid data qs) i = qs i)
    \<and> ch_buf (snd (sg_on_frame h ord sid data qs) sid)
        = ch_buf (qs sid) @ (if length (ch_buf (qs sid)) < ch_cap (qs sid) then [SgError code text] else [])"
proof -
  obtain meta where meta: "fmlookup (sh_sessions h) sid = Some meta" using assms(1) by auto
  then have t: "sg_tenant h sid = sm_tenantID meta" by (simp add: sg_tenant_def)
  have "sg_on_frame h ord sid data qs = (h, sg_send sid (SgError code text) qs)"
    using assms(2)
    by (elim disjE exE conjE) (simp_all add: sg_on_frame_def sg_dispatch_def sg_hello_def sg_subscribe_def sg_publish_def
        meta t sg_send_reply_def sg_send_def sg_vocabulary)
  then show ?thesis by (simp add: sg_send_def try_send_def)
qed

theorem sg_refused_frame_witness:
  "ch_buf (snd (sg_on_frame (snd (sg_register sg_new_hub ''a'')) [] ''a'' '''' (\<lambda>i. make_chan)) ''a'')
   = [SgError ''bad_message'' ''unrecognized message shape'']"
proof -
  have e: "sg_decode '''' = Inl SgBadJson" by (simp add: sg_decode_def unmarshal_def json_parse_def skip_ws_def)
  have r: "fmlookup (sh_sessions (snd (sg_register sg_new_hub ''a''))) ''a'' \<noteq> None" by (simp add: sg_register_def)
  from sg_refused_frame [OF r disjI1, of "''''" "SgCodeBadMessage" "''unrecognized message shape''" "[]" "\<lambda>i. make_chan"] e
  show ?thesis by (simp add: make_chan_def outgoing_buffer_def SgCodeBadMessage_def)
qed

text \<open>
  A subscription is acknowledged with the number of live sessions of the tenant that are then
  subscribed to the room, the new one included.
\<close>

lemma sg_subscribe_count:
  assumes "sg_sys_inv y" and "fmlookup (sh_sessions (ss_hub y)) sid \<noteq> None" and "sg_tenant (ss_hub y) sid = t" "t \<noteq> ''''"
  shows "sg_subscribe (ss_hub y) sid room = (reply, h') \<Longrightarrow>
    reply = Some (SgSubscribed room (sg_room_peers h' t room))
    \<and> sg_room_peers h' t room = card {i. sg_tenant h' i = t \<and> sg_subscribed h' i room}"
proof -
  assume r: "sg_subscribe (ss_hub y) sid room = (reply, h')"
  obtain meta where meta: "fmlookup (sh_sessions (ss_hub y)) sid = Some meta" using assms(2) by auto
  then have mt: "sm_tenantID meta = t" using assms(3) by (simp add: sg_tenant_def)
  have inv: "sg_inv h'" using sg_inv_subscribe [OF sg_sys_invD(1) [OF assms(1)], of sid room] r by simp
  have "fset (peers_of (sh_rooms h') (t, room)) = {i. sg_tenant h' i = t \<and> sg_subscribed h' i room}"
    using sgfan.room_peers_iff [OF inv, of _ t room] assms(4) by auto
  moreover have "fmlookup (sh_rooms h') (t, room) = Some (finsert sid (peers_of (sh_rooms (ss_hub y)) (t, room)))"
    and "reply = Some (SgSubscribed room (fcard (finsert sid (peers_of (sh_rooms (ss_hub y)) (t, room)))))"
    using r meta mt assms(4) by (auto simp: sg_subscribe_def Let_def)
  ultimately show ?thesis by (simp add: sg_room_peers_def fcard.rep_eq peers_of_def fmget_def)
qed

end
