(* ===== verification/Sg_Idle.thy ===== *)
theory Sg_Idle
  imports Sg_Server
begin

text \<open>
  The idle reaper of \<open>signal-go\<close> (\<open>readLoop\<close>, \<open>writeLoop\<close>, \<open>serveConn\<close>): the steps of the server with
  a clock and the read deadline of every connection. Reading a frame and writing one both push the
  connection's own deadline one idle timeout ahead; when the clock reaches the deadline, the read
  fails and the session is torn down, whether or not any frame ever comes again. Steps take no time;
  time passes in between, but never past a deadline that is still to be acted on.
\<close>

section \<open>Clock and deadlines\<close>

text \<open>\<open>st_deadline\<close> has an entry for every connection whose read loop is running.\<close>

record sg_timed =
  st_sys :: sg_sys
  st_now :: time
  st_deadline :: "(string, time) fmap"

text \<open>\<open>SetReadDeadline(time.Now().Add(s.idle))\<close>; after the read loop has returned it has no effect.\<close>

definition sg_arm :: "duration \<Rightarrow> string \<Rightarrow> sg_timed \<Rightarrow> sg_timed" where
  "sg_arm idle sid y = y\<lparr>st_deadline := fmupd sid (st_now y + idle) (st_deadline y)\<rparr>"

definition sg_rearm :: "duration \<Rightarrow> string \<Rightarrow> sg_timed \<Rightarrow> sg_timed" where
  "sg_rearm idle sid y = (if fmlookup (st_deadline y) sid = None then y else sg_arm idle sid y)"

text \<open>The frame the writer of a session takes next, with the system after it took it.\<close>

definition sg_take :: "string \<Rightarrow> sg_sys \<Rightarrow> (sg_server_message \<times> sg_sys) option" where
  "sg_take sid s =
     (case chan_recv (ss_chans s sid) of
        None \<Rightarrow> None
      | Some (msg, ch) \<Rightarrow> Some (msg, s\<lparr>ss_chans := (ss_chans s)(sid := ch), ss_out := (ss_out s)(sid := ss_out s sid @ [msg])\<rparr>))"

text \<open>The read loop has returned: the session is scrubbed from the hub.\<close>

definition sg_teardown :: "string list \<Rightarrow> string \<Rightarrow> sg_timed \<Rightarrow> sg_timed" where
  "sg_teardown ord sid y = y\<lparr>st_sys := (st_sys y)\<lparr>ss_hub := sg_remove_session (ss_hub (st_sys y)) ord sid\<rparr>,
     st_deadline := fmdrop sid (st_deadline y)\<rparr>"

abbreviation sg_rooms_of :: "sg_sys \<Rightarrow> string \<Rightarrow> string fset" where
  "sg_rooms_of s sid \<equiv> (case fmlookup (sh_sessions (ss_hub s)) sid of None \<Rightarrow> {||} | Some m \<Rightarrow> sm_rooms m)"

section \<open>Steps\<close>

datatype sg_event =
    SgOpened string
  | SgRead string string
  | SgWrote string string
  | SgSkipped string
  | SgBroken string
  | SgLeft string
  | SgExpired string
  | SgWaited duration

inductive sg_tick :: "duration \<Rightarrow> sg_timed \<Rightarrow> sg_event \<Rightarrow> sg_timed \<Rightarrow> bool" for idle :: duration where
  tk_open: "sid |\<notin>| ss_used s \<Longrightarrow> st_sys y = s \<Longrightarrow> sg_serve_start (ss_hub s) sid (ss_chans s) = (h', qs') \<Longrightarrow>
     sg_tick idle y (SgOpened sid)
       (sg_arm idle sid (y\<lparr>st_sys := s\<lparr>ss_hub := h', ss_chans := qs', ss_used := finsert sid (ss_used s)\<rparr>\<rparr>))"
| tk_read: "fmlookup (st_deadline y) sid \<noteq> None \<Longrightarrow> st_sys y = s \<Longrightarrow>
     (\<forall>room. fset_order (ord room) (peers_of (sh_rooms (ss_hub s)) (sg_tenant (ss_hub s) sid, room))) \<Longrightarrow>
     sg_on_frame (ss_hub s) (case sg_decode data of Inl _ \<Rightarrow> [] | Inr msg \<Rightarrow> ord (sc_Room msg)) sid data (ss_chans s) = (h', qs') \<Longrightarrow>
     sg_tick idle y (SgRead sid data)
       (sg_arm idle sid (y\<lparr>st_sys := s\<lparr>ss_hub := h', ss_chans := qs', ss_tenant := (ss_tenant s)(sid := sg_pinned h' s sid)\<rparr>\<rparr>))"
| tk_write: "sg_take sid (st_sys y) = Some (msg, s') \<Longrightarrow> sg_marshal msg = Some data \<Longrightarrow>
     sg_tick idle y (SgWrote sid data) (sg_rearm idle sid (y\<lparr>st_sys := s'\<rparr>))"
| tk_skip: "sg_take sid (st_sys y) = Some (msg, s') \<Longrightarrow> sg_marshal msg = None \<Longrightarrow> sg_tick idle y (SgSkipped sid) (y\<lparr>st_sys := s'\<rparr>)"
| tk_broken: "fmlookup (st_deadline y) sid \<noteq> None \<Longrightarrow> sg_take sid (st_sys y) = Some (msg, s') \<Longrightarrow>
     fset_order ord (sg_rooms_of (st_sys y) sid) \<Longrightarrow> sg_tick idle y (SgBroken sid) (sg_teardown ord sid (y\<lparr>st_sys := s'\<rparr>))"
| tk_leave: "fmlookup (st_deadline y) sid \<noteq> None \<Longrightarrow> fset_order ord (sg_rooms_of (st_sys y) sid) \<Longrightarrow>
     sg_tick idle y (SgLeft sid) (sg_teardown ord sid y)"
| tk_expire: "fmlookup (st_deadline y) sid = Some d \<Longrightarrow> d \<le> st_now y \<Longrightarrow> fset_order ord (sg_rooms_of (st_sys y) sid) \<Longrightarrow>
     sg_tick idle y (SgExpired sid) (sg_teardown ord sid y)"
| tk_wait: "0 \<le> dt \<Longrightarrow> (\<forall>sid d. fmlookup (st_deadline y) sid = Some d \<longrightarrow> st_now y + dt \<le> d) \<Longrightarrow>
     sg_tick idle y (SgWaited dt) (y\<lparr>st_now := st_now y + dt\<rparr>)"

inductive_cases sg_tickE: "sg_tick idle y ev y'"

text \<open>A run with its events and their instants.\<close>

inductive sg_trace :: "duration \<Rightarrow> sg_timed \<Rightarrow> (time \<times> sg_event) list \<Rightarrow> sg_timed \<Rightarrow> bool" for idle :: duration where
  tr_nil: "sg_trace idle y [] y"
| tr_snoc: "sg_trace idle y tr y1 \<Longrightarrow> sg_tick idle y1 ev y2 \<Longrightarrow> sg_trace idle y (tr @ [(st_now y1, ev)]) y2"

definition sg_timed_initial :: "sg_timed \<Rightarrow> bool" where
  "sg_timed_initial y \<longleftrightarrow> sg_initial (st_sys y) \<and> st_deadline y = fmempty"

abbreviation sg_live :: "sg_timed \<Rightarrow> string \<Rightarrow> bool" where
  "sg_live y sid \<equiv> fmlookup (sh_sessions (ss_hub (st_sys y))) sid \<noteq> None"

text \<open>The last moment a session showed life: it was opened, or a frame was read from it or written to it.\<close>

definition shows_life :: "string \<Rightarrow> sg_event \<Rightarrow> bool" where
  "shows_life sid ev = (case ev of SgOpened s \<Rightarrow> s = sid | SgRead s data \<Rightarrow> s = sid | SgWrote s data \<Rightarrow> s = sid | _ \<Rightarrow> False)"

definition last_life :: "string \<Rightarrow> (time \<times> sg_event) list \<Rightarrow> time option" where
  "last_life sid tr = (case filter (shows_life sid \<circ> snd) (rev tr) of [] \<Rightarrow> None | (t, ev) # _ \<Rightarrow> Some t)"

lemma last_life_snoc: "last_life sid (tr @ [(t, ev)]) = (if shows_life sid ev then Some t else last_life sid tr)"
  by (simp add: last_life_def)

lemma shows_life_simps [simp]:
  "shows_life sid (SgOpened s) = (s = sid)" "shows_life sid (SgRead s data) = (s = sid)" "shows_life sid (SgWrote s data) = (s = sid)"
  "\<not> shows_life sid (SgSkipped s)" "\<not> shows_life sid (SgBroken s)" "\<not> shows_life sid (SgLeft s)" "\<not> shows_life sid (SgExpired s)"
  "\<not> shows_life sid (SgWaited dt)"
  by (simp_all add: shows_life_def)

section \<open>The timed steps are steps of the server\<close>

lemma sg_arm_simps [simp]:
  "st_sys (sg_arm idle sid y) = st_sys y" "st_now (sg_arm idle sid y) = st_now y"
  "fmlookup (st_deadline (sg_arm idle sid y)) i = (if i = sid then Some (st_now y + idle) else fmlookup (st_deadline y) i)"
  by (simp_all add: sg_arm_def)

lemma sg_rearm_simps [simp]:
  "st_sys (sg_rearm idle sid y) = st_sys y" "st_now (sg_rearm idle sid y) = st_now y"
  "fmlookup (st_deadline (sg_rearm idle sid y)) i =
     (if i = sid \<and> fmlookup (st_deadline y) sid \<noteq> None then Some (st_now y + idle) else fmlookup (st_deadline y) i)"
  by (simp_all add: sg_rearm_def)

lemma sg_take_Some:
  assumes "sg_take sid s = Some (msg, s')"
  shows "sg_step s s'" "ss_hub s' = ss_hub s"
  using assms by (auto simp: sg_take_def intro: sg_write split: option.splits)

lemma sg_teardown_simps [simp]:
  "st_now (sg_teardown ord sid y) = st_now y"
  "fmlookup (st_deadline (sg_teardown ord sid y)) i = (if i = sid then None else fmlookup (st_deadline y) i)"
  "fmlookup (sh_sessions (ss_hub (st_sys (sg_teardown ord sid y)))) i =
     (if i = sid then None else fmlookup (sh_sessions (ss_hub (st_sys y))) i)"
  by (auto simp: sg_teardown_def sg_remove_session_def Let_def split: option.splits)

lemma sg_teardown_step:
  assumes "fset_order ord (sg_rooms_of (st_sys y) sid)"
  shows "sg_step (st_sys y) (st_sys (sg_teardown ord sid y))"
  using sg_end [OF assms] by (simp add: sg_teardown_def)

text \<open>Every registered session has a running read loop, and the other way round.\<close>

definition tracked :: "sg_timed \<Rightarrow> bool" where
  "tracked y \<longleftrightarrow> (\<forall>sid. fmlookup (st_deadline y) sid = None \<longleftrightarrow> fmlookup (sh_sessions (ss_hub (st_sys y))) sid = None)"

lemma serve_start_sessions:
  "sg_serve_start h sid qs = (h', qs') \<Longrightarrow> fmlookup (sh_sessions h') i = None \<longleftrightarrow> i \<noteq> sid \<and> fmlookup (sh_sessions h) i = None"
  by (auto simp: sg_serve_start_def sg_register_def split: if_splits)

lemma sg_tick_steps:
  assumes "sg_tick idle y ev y'" and "tracked y"
  shows "sg_step\<^sup>*\<^sup>* (st_sys y) (st_sys y')"
  using assms(1)
proof cases
  case (tk_open sid s h' qs')
  then show ?thesis using sg_connect by (auto intro!: r_into_rtranclp)
next
  case (tk_read sid s ord data h' qs')
  then have "fmlookup (sh_sessions (ss_hub s)) sid \<noteq> None" using assms(2) tk_read(3) unfolding tracked_def tk_read(4) by metis
  from sg_frame [OF this tk_read(5,6)] show ?thesis using tk_read(2,4) by auto
next
  case (tk_broken sid msg s' ord)
  have "sg_step s' (st_sys (sg_teardown ord sid (y\<lparr>st_sys := s'\<rparr>)))"
    using sg_teardown_step [of ord "y\<lparr>st_sys := s'\<rparr>" sid] tk_broken sg_take_Some(2) [OF tk_broken(4)] by simp
  with sg_take_Some(1) [OF tk_broken(4)] tk_broken(2) show ?thesis
    by (metis converse_rtranclp_into_rtranclp r_into_rtranclp)
qed (auto intro: sg_take_Some(1) sg_teardown_step)

text \<open>What a step of the connection does to the deadlines, and what every step keeps.\<close>

definition timed_inv :: "duration \<Rightarrow> (time \<times> sg_event) list \<Rightarrow> sg_timed \<Rightarrow> bool" where
  "timed_inv idle tr y \<longleftrightarrow> sg_sys_inv (st_sys y) \<and> tracked y
     \<and> (\<forall>sid d. fmlookup (st_deadline y) sid = Some d \<longrightarrow> st_now y \<le> d \<and> last_life sid tr = Some (d - idle))"

lemma timed_invD:
  assumes "timed_inv idle tr y"
  shows "sg_sys_inv (st_sys y)" "tracked y"
    and "fmlookup (st_deadline y) sid = Some d \<Longrightarrow> st_now y \<le> d \<and> last_life sid tr = Some (d - idle)"
  using assms by (simp_all add: timed_inv_def)

lemma tracked_tick:
  assumes "sg_tick idle y ev y'" and "sg_inv (ss_hub (st_sys y))" and "tracked y"
  shows "tracked y'"
  using assms(1)
proof cases
  case (tk_open sid s h' qs')
  then show ?thesis using assms(3) serve_start_sessions [OF tk_open(5)] by (simp add: tracked_def)
next
  case (tk_read sid s ord data h' qs')
  have reg: "fmlookup (sh_sessions (ss_hub s)) sid \<noteq> None" using assms(3) tk_read(3) unfolding tracked_def tk_read(4) by metis
  have "fmdom' (sh_sessions h') = fmdom' (sh_sessions (ss_hub s))"
    using on_frame_effect [OF _ reg tk_read(5,6)] assms(2) tk_read(4) by simp
  then have "fmlookup (sh_sessions h') i = None \<longleftrightarrow> fmlookup (sh_sessions (ss_hub s)) i = None" for i
    by (metis fmlookup_dom'_iff not_None_eq)
  then show ?thesis using assms(3) reg tk_read(2,4) by (simp add: tracked_def)
qed (use assms(3) in \<open>auto simp: tracked_def sg_take_Some(2)\<close>)

lemma timed_inv_tick:
  assumes "timed_inv idle tr y" and "sg_tick idle y ev y'" and "0 \<le> idle"
  shows "timed_inv idle (tr @ [(st_now y, ev)]) y'"
proof -
  note d = timed_invD [OF assms(1)]
  have "sg_sys_inv (st_sys y')"
    using sgsys.inv_steps [OF sg_tick_steps [OF assms(2) d(2)] d(1)] .
  moreover have "tracked y'" by (rule tracked_tick [OF assms(2) sg_sys_invD(1) [OF d(1)] d(2)])
  moreover have "st_now y' \<le> x \<and> last_life i (tr @ [(st_now y, ev)]) = Some (x - idle)" if "fmlookup (st_deadline y') i = Some x" for i x
    using assms(2) that d(3) [of i] assms(3) by cases (auto simp: last_life_snoc split: if_splits)
  ultimately show ?thesis by (simp add: timed_inv_def)
qed

lemma timed_inv_trace: "sg_trace idle y0 tr y \<Longrightarrow> sg_timed_initial y0 \<Longrightarrow> 0 \<le> idle \<Longrightarrow> timed_inv idle tr y"
proof (induction rule: sg_trace.induct)
  case (tr_nil y)
  then have "sg_initial (st_sys y)" by (simp add: sg_timed_initial_def)
  from sgsys.inv_init [OF this] this tr_nil show ?case
    by (simp add: timed_inv_def tracked_def sg_timed_initial_def sg_initial_def sg_new_hub_def)
qed (blast intro: timed_inv_tick)

lemma sg_trace_append: "sg_trace idle y1 tr' y2 \<Longrightarrow> sg_trace idle y tr y1 \<Longrightarrow> sg_trace idle y (tr @ tr') y2"
proof (induction rule: sg_trace.induct)
  case (tr_snoc y1 tr' y2 ev y3)
  from sg_trace.tr_snoc [OF tr_snoc.IH [OF tr_snoc.prems] tr_snoc.hyps(2)] show ?case by simp
qed simp

section \<open>Runs\<close>

lemma sg_trace_split:
  "sg_trace idle y tr y' \<Longrightarrow> tr = tr1 @ (t, ev) # tr2 \<Longrightarrow>
     \<exists>y1 y2. sg_trace idle y tr1 y1 \<and> st_now y1 = t \<and> sg_tick idle y1 ev y2"
proof (induction arbitrary: tr2 rule: sg_trace.induct)
  case (tr_snoc y tr y1 ev' y2)
  then show ?case by (cases tr2 rule: rev_cases) auto
qed simp

lemma sg_tick_later: "sg_tick idle y ev y' \<Longrightarrow> st_now y \<le> st_now y'"
  by (erule sg_tickE) auto

lemma sg_trace_past: "sg_trace idle y0 tr y \<Longrightarrow> (t, ev) \<in> set tr \<Longrightarrow> t \<le> st_now y"
  by (induction rule: sg_trace.induct) (auto dest: sg_tick_later)

lemma last_life_Some: "last_life sid tr = Some t \<Longrightarrow> \<exists>ev. (t, ev) \<in> set tr"
proof -
  assume l: "last_life sid tr = Some t"
  then obtain x xs where f: "filter (shows_life sid \<circ> snd) (rev tr) = x # xs" "fst x = t"
    by (auto simp: last_life_def split: list.splits)
  then have "x \<in> set (filter (shows_life sid \<circ> snd) (rev tr))" by simp
  then show ?thesis using f(2) by (metis filter_is_subset prod.collapse set_rev subsetD)
qed

lemma last_life_silent: "\<forall>x \<in> set tr'. \<not> shows_life sid (snd x) \<Longrightarrow> last_life sid (tr @ tr') = last_life sid tr"
  by (induction tr' rule: rev_induct) (auto simp: last_life_snoc simp flip: append_assoc)

text \<open>Waiting and reaping are the events nobody has a part in.\<close>

definition unattended :: "sg_event \<Rightarrow> bool" where
  "unattended ev = (case ev of SgExpired s \<Rightarrow> True | SgWaited dt \<Rightarrow> True | _ \<Rightarrow> False)"

lemma unattended_silent: "unattended ev \<Longrightarrow> \<not> shows_life sid ev"
  by (simp add: unattended_def split: sg_event.splits)

lemma earliest_deadline:
  fixes m :: "(string, time) fmap"
  assumes "fmlookup m s = Some x"
  obtains sid d where "fmlookup m sid = Some d" "\<forall>i z. fmlookup m i = Some z \<longrightarrow> d \<le> z"
proof -
  let ?D = "(\<lambda>i. the (fmlookup m i)) ` fset (fmdom m)"
  have "?D \<noteq> {}" using assms by (auto dest: fmdomI)
  then have "Min ?D \<in> ?D" by (intro Min_in) simp_all
  then obtain sid where sid: "sid |\<in>| fmdom m" "the (fmlookup m sid) = Min ?D" by auto
  then have "fmlookup m sid = Some (Min ?D)" by (auto simp: fmlookup_dom_iff)
  moreover have "Min ?D \<le> z" if "fmlookup m i = Some z" for i z
    using that by (intro Min_le) (auto intro!: image_eqI [of _ _ i] fmdomI)
  ultimately show thesis by (intro that) auto
qed

text \<open>Time can always pass: whatever deadline it reaches is acted on, and there are only finitely many.\<close>

lemma time_passes:
  assumes "timed_inv idle tr y" and "0 \<le> idle" and "0 \<le> dt"
  shows "\<exists>tr' y'. sg_trace idle y tr' y' \<and> st_now y' = st_now y + dt \<and> (\<forall>x \<in> set tr'. unattended (snd x))"
  using assms(1,3)
proof (induction "fcard (fmdom (st_deadline y))" arbitrary: y tr dt rule: less_induct)
  case less
  show ?case
  proof (cases "\<forall>sid d. fmlookup (st_deadline y) sid = Some d \<longrightarrow> st_now y + dt \<le> d")
    case True
    from tr_snoc [OF tr_nil tk_wait [OF less.prems(2) this]] show ?thesis
      by (intro exI conjI) (assumption, simp_all add: unattended_def)
  next
    case False
    then obtain s x where x: "fmlookup (st_deadline y) s = Some x" "x < st_now y + dt" by force
    obtain sid d where d: "fmlookup (st_deadline y) sid = Some d" "\<forall>i z. fmlookup (st_deadline y) i = Some z \<longrightarrow> d \<le> z"
      by (rule earliest_deadline [OF x(1)])
    have le: "st_now y \<le> d" using timed_invD(3) [OF less.prems(1) d(1)] by simp
    let ?y1 = "y\<lparr>st_now := d\<rparr>"
    obtain ord where ord: "fset_order ord (sg_rooms_of (st_sys ?y1) sid)" using fset_order_exists by blast
    let ?y2 = "sg_teardown ord sid ?y1"
    have t1: "sg_tick idle y (SgWaited (d - st_now y)) ?y1"
      using tk_wait [of "d - st_now y" y idle] le d(2) by simp
    have t2: "sg_tick idle ?y1 (SgExpired sid) ?y2" using tk_expire [OF _ _ ord, of d idle] d(1) by simp
    have inv: "timed_inv idle ((tr @ [(st_now y, SgWaited (d - st_now y))]) @ [(d, SgExpired sid)]) ?y2"
      using timed_inv_tick [OF timed_inv_tick [OF less.prems(1) t1 assms(2)] t2 assms(2)] by simp
    have dom: "fmdom (st_deadline ?y2) = fmdom (st_deadline y) |-| {|sid|}" by (simp add: sg_teardown_def)
    have "sid |\<in>| fmdom (st_deadline y)" using d(1) by (rule fmdomI)
    then have "fmdom (st_deadline ?y2) |\<subset>| fmdom (st_deadline y)" unfolding dom by blast
    then have "fcard (fmdom (st_deadline ?y2)) < fcard (fmdom (st_deadline y))" by (rule pfsubset_fcard_mono)
    moreover have "0 \<le> st_now y + dt - d" using x(2) d(2) [rule_format, OF x(1)] by simp
    ultimately obtain tr' y' where r: "sg_trace idle ?y2 tr' y'" "st_now y' = st_now y + dt" "\<forall>x \<in> set tr'. unattended (snd x)"
      using less.hyps [OF _ inv, of "st_now y + dt - d"] by auto
    have "sg_trace idle y [(st_now y, SgWaited (d - st_now y)), (d, SgExpired sid)] ?y2"
      using tr_snoc [OF tr_snoc [OF tr_nil t1] t2] by simp
    from sg_trace_append [OF r(1) this] r(2,3) show ?thesis
      by (intro exI conjI) (assumption, simp_all add: unattended_def)
  qed
qed

section \<open>The reaper\<close>

text \<open>
  C28. The idle reaper. In any timed run of the server: a session that is registered at some moment
  was opened, read from or written to at most one idle timeout ago, so no silent session outlives the
  timeout; a session that is reaped last showed life exactly one timeout before, so a session busy in
  either direction is never reaped; a session that is not registered is in no room; and time can pass
  by any amount with nothing happening but reaping, after more than one timeout of which no session
  is left.
\<close>

theorem sg_idle_reaper:
  assumes "sg_timed_initial y0" and "0 \<le> idle" and "sg_trace idle y0 tr y"
  shows "(\<forall>sid. sg_live y sid \<longrightarrow> (\<exists>t. last_life sid tr = Some t \<and> st_now y \<le> t + idle))
    \<and> (\<forall>sid tr1 t tr2. tr = tr1 @ (t, SgExpired sid) # tr2 \<longrightarrow> last_life sid tr1 = Some (t - idle))
    \<and> (\<forall>sid k. \<not> sg_live y sid \<longrightarrow> sid |\<notin>| peers_of (sh_rooms (ss_hub (st_sys y))) k)
    \<and> (\<forall>dt \<ge> 0. \<exists>tr' y'. sg_trace idle y tr' y' \<and> st_now y' = st_now y + dt \<and> (\<forall>x \<in> set tr'. unattended (snd x))
        \<and> (idle < dt \<longrightarrow> (\<forall>sid. \<not> sg_live y' sid)))"
proof -
  note inv = timed_inv_trace [OF assms(3,1,2)]
  have alive: "\<exists>t. last_life sid tr' = Some t \<and> st_now y' \<le> t + idle"
    if i: "timed_inv idle tr' y'" and l: "sg_live y' sid" for tr' y' sid
  proof -
    obtain d where "fmlookup (st_deadline y') sid = Some d" using timed_invD(2) [OF i] l unfolding tracked_def by (meson not_None_eq)
    from timed_invD(3) [OF i this] show ?thesis by auto
  qed
  have reaped: "last_life sid tr1 = Some (t - idle)" if tr: "tr = tr1 @ (t, SgExpired sid) # tr2" for sid tr1 t tr2
  proof -
    obtain y1 y2 where y: "sg_trace idle y0 tr1 y1" "st_now y1 = t" "sg_tick idle y1 (SgExpired sid) y2"
      using sg_trace_split [OF assms(3) tr] by blast
    from y(3) obtain d where "fmlookup (st_deadline y1) sid = Some d" "d \<le> t" by cases (auto simp: y(2))
    with timed_invD(3) [OF timed_inv_trace [OF y(1) assms(1,2)] this(1)] show ?thesis by (simp add: y(2))
  qed
  have scrubbed: "sid |\<notin>| peers_of (sh_rooms (ss_hub (st_sys y))) k" if "\<not> sg_live y sid" for sid k
    using sgfan.room_peers_iff [OF sg_sys_invD(1) [OF timed_invD(1) [OF inv]], of sid "fst k" "snd k"] that
    by (auto simp: sg_subscribed_def)
  have passing: "\<exists>tr' y'. sg_trace idle y tr' y' \<and> st_now y' = st_now y + dt \<and> (\<forall>x \<in> set tr'. unattended (snd x))
      \<and> (idle < dt \<longrightarrow> (\<forall>sid. \<not> sg_live y' sid))" if dt: "0 \<le> dt" for dt
  proof -
    obtain tr' y' where r: "sg_trace idle y tr' y'" "st_now y' = st_now y + dt" "\<forall>x \<in> set tr'. unattended (snd x)"
      using time_passes [OF inv assms(2) dt] by blast
    have "dt \<le> idle" if live: "sg_live y' sid" for sid
    proof -
      obtain t where "last_life sid (tr @ tr') = Some t" and t: "st_now y' \<le> t + idle"
        using alive [OF timed_inv_trace [OF sg_trace_append [OF r(1) assms(3)] assms(1,2)] live] by blast
      then have "last_life sid tr = Some t" using last_life_silent [of tr' sid tr] r(3) unattended_silent by auto
      then have "t \<le> st_now y" using last_life_Some sg_trace_past [OF assms(3)] by blast
      with t r(2) show ?thesis by simp
    qed
    with r show ?thesis by (intro exI conjI) (assumption, simp, simp, fastforce)
  qed
  show ?thesis using alive [OF inv] reaped scrubbed passing by blast
qed

text \<open>A connection that is opened, gets its welcome after 40 seconds and then falls silent.\<close>

definition sgt_y0 :: sg_timed where
  "sgt_y0 = \<lparr>st_sys = sgd_y0, st_now = 0, st_deadline = fmempty\<rparr>"

definition sgt_y2 :: sg_timed where
  "sgt_y2 = (sg_arm sg_idle_timeout ''a'' (sgt_y0\<lparr>st_sys := sgd_connect ''a'' sgd_y0\<rparr>))\<lparr>st_now := 40 * second\<rparr>"

lemma sgt_y2_trace:
  "sg_trace sg_idle_timeout sgt_y0 [(0, SgOpened ''a''), (0, SgWaited (40 * second))] sgt_y2"
proof -
  let ?y1 = "sg_arm sg_idle_timeout ''a'' (sgt_y0\<lparr>st_sys := sgd_connect ''a'' sgd_y0\<rparr>)"
  obtain h' qs' where s: "sg_serve_start (ss_hub sgd_y0) ''a'' (ss_chans sgd_y0) = (h', qs')" by force
  then have c: "sgd_connect ''a'' sgd_y0 = sgd_y0\<lparr>ss_hub := h', ss_chans := qs', ss_used := finsert ''a'' (ss_used sgd_y0)\<rparr>"
    by (simp add: sgd_connect_def)
  have "sg_tick sg_idle_timeout sgt_y0 (SgOpened ''a'') ?y1"
    using tk_open [of "''a''" sgd_y0 sgt_y0 h' qs' sg_idle_timeout] s unfolding c by (simp add: sgt_y0_def sgd_y0_def)
  moreover have "sg_tick sg_idle_timeout ?y1 (SgWaited (40 * second)) sgt_y2"
    using tk_wait [of "40 * second" ?y1 sg_idle_timeout]
    by (simp add: sgt_y2_def sgt_y0_def second_def sg_idle_timeout_def)
  ultimately show ?thesis
    using tr_snoc [OF tr_snoc [OF tr_nil]] by (fastforce simp: sgt_y0_def)
qed

theorem sg_idle_reaper_witness:
  "\<exists>tr y. sg_trace sg_idle_timeout sgt_y0 (tr @ [(100 * second, SgExpired ''a'')]) y
    \<and> last_life ''a'' tr = Some (40 * second) \<and> \<not> sg_live y ''a''
    \<and> (\<forall>k. ''a'' |\<notin>| peers_of (sh_rooms (ss_hub (st_sys y))) k)"
proof -
  obtain data where data: "sg_marshal (SgWelcome ''a'') = Some data"
    using sg_frame_roundtrip [of "SgWelcome ''a''"] by (auto simp: sg_strings_def valid_utf8_simps)
  obtain s' where s': "sg_take ''a'' (st_sys sgt_y2) = Some (SgWelcome ''a'', s')"
    by (simp add: sgt_y2_def sg_arm_def sg_take_def sgd_defs chan_recv_def)
  let ?y3 = "sg_rearm sg_idle_timeout ''a'' (sgt_y2\<lparr>st_sys := s'\<rparr>)"
  let ?y4 = "?y3\<lparr>st_now := 100 * second\<rparr>"
  have dl: "fmlookup (st_deadline ?y3) i = (if i = ''a'' then Some (100 * second) else None)" for i
    by (simp add: sgt_y2_def sgt_y0_def second_def sg_idle_timeout_def sg_arm_def)
  have now: "st_now ?y3 = 40 * second" by (simp add: sgt_y2_def)
  have t3: "sg_tick sg_idle_timeout sgt_y2 (SgWrote ''a'' data) ?y3" by (rule tk_write [OF s' data])
  have t4: "sg_tick sg_idle_timeout ?y3 (SgWaited (60 * second)) ?y4"
    using tk_wait [of "60 * second" ?y3 sg_idle_timeout] unfolding now by (simp add: dl second_def del: sg_rearm_simps)
  obtain ord where ord: "fset_order ord (sg_rooms_of (st_sys ?y4) ''a'')" using fset_order_exists by blast
  let ?y5 = "sg_teardown ord ''a'' ?y4"
  have t5: "sg_tick sg_idle_timeout ?y4 (SgExpired ''a'') ?y5"
    by (rule tk_expire [OF _ _ ord, of "100 * second"]) (simp_all add: dl del: sg_rearm_simps)
  let ?tr = "[(0, SgOpened ''a''), (0, SgWaited (40 * second)), (40 * second, SgWrote ''a'' data), (40 * second, SgWaited (60 * second))]"
  have run: "sg_trace sg_idle_timeout sgt_y0 (?tr @ [(100 * second, SgExpired ''a'')]) ?y5"
    using tr_snoc [OF tr_snoc [OF tr_snoc [OF sgt_y2_trace t3] t4] t5] by (simp add: now) (simp add: sgt_y2_def)
  have init: "sg_timed_initial sgt_y0" "0 \<le> sg_idle_timeout"
    using sg_demo_reach(1) by (simp_all add: sg_timed_initial_def sgt_y0_def sg_idle_timeout_def second_def)
  note reaper = sg_idle_reaper [OF init run]
  then have "last_life ''a'' ?tr = Some (100 * second - sg_idle_timeout)" by blast
  moreover have dead: "\<not> sg_live ?y5 ''a''" by simp
  moreover have "\<forall>k. ''a'' |\<notin>| peers_of (sh_rooms (ss_hub (st_sys ?y5))) k" using reaper dead by blast
  ultimately show ?thesis using run by (intro exI [of _ ?tr] exI [of _ ?y5]) (simp add: sg_idle_timeout_def second_def)
qed

end
