(* ===== verification/Gw_Protocol.thy ===== *)
theory Gw_Protocol
  imports Gw_Compact
begin

text \<open>
  The wire frames of the gateway (\<open>internal/protocol\<close>): the type and error vocabularies, the flat
  client message with the decoder that enforces its per-variant required fields, the server frames
  with their constructor functions and their encoding, and the shape checks of relayed payloads.
  A server frame carries the fields its constructor function fills in; times are formatted as
  RFC 3339 in UTC with the proleptic Gregorian calendar written out.
\<close>

section \<open>Vocabulary\<close>

definition TypeHello :: string where "TypeHello = ''hello''"
definition TypeSubscribe :: string where "TypeSubscribe = ''subscribe''"
definition TypeUnsubscribe :: string where "TypeUnsubscribe = ''unsubscribe''"
definition TypePing :: string where "TypePing = ''ping''"
definition TypeSessionStart :: string where "TypeSessionStart = ''session.start''"
definition TypeSessionJoin :: string where "TypeSessionJoin = ''session.join''"
definition TypeSessionEnd :: string where "TypeSessionEnd = ''session.end''"
definition TypeOffer :: string where "TypeOffer = ''offer''"
definition TypeAnswer :: string where "TypeAnswer = ''answer''"
definition TypeCandidate :: string where "TypeCandidate = ''candidate''"
definition TypeEngineOffer :: string where "TypeEngineOffer = ''engine.offer''"
definition TypeEngineCandidate :: string where "TypeEngineCandidate = ''engine.candidate''"
definition TypeEnginePublish :: string where "TypeEnginePublish = ''engine.publish''"
definition TypeEngineSubscribe :: string where "TypeEngineSubscribe = ''engine.subscribe''"
definition TypeEngineUnsubscribe :: string where "TypeEngineUnsubscribe = ''engine.unsubscribe''"
definition TypeWelcome :: string where "TypeWelcome = ''welcome''"
definition TypeReady :: string where "TypeReady = ''ready''"
definition TypeSubscribed :: string where "TypeSubscribed = ''subscribed''"
definition TypeUnsubscribed :: string where "TypeUnsubscribed = ''unsubscribed''"
definition TypeDelivery :: string where "TypeDelivery = ''delivery''"
definition TypeError :: string where "TypeError = ''error''"
definition TypePong :: string where "TypePong = ''pong''"
definition TypeSessionStarted :: string where "TypeSessionStarted = ''session.started''"
definition TypeSessionJoined :: string where "TypeSessionJoined = ''session.joined''"
definition TypeSessionPeerJoined :: string where "TypeSessionPeerJoined = ''session.peer_joined''"
definition TypeSessionEnded :: string where "TypeSessionEnded = ''session.ended''"
definition TypeSignalOffer :: string where "TypeSignalOffer = ''signal.offer''"
definition TypeSignalAnswer :: string where "TypeSignalAnswer = ''signal.answer''"
definition TypeSignalCandidate :: string where "TypeSignalCandidate = ''signal.candidate''"
definition TypeEngineAnswer :: string where "TypeEngineAnswer = ''engine.answer''"
definition TypeEngineTrackPublished :: string where "TypeEngineTrackPublished = ''engine.track_published''"

definition CodeBadMessage :: string where "CodeBadMessage = ''bad_message''"
definition CodeHelloRequired :: string where "CodeHelloRequired = ''hello_required''"
definition CodeAuthFailed :: string where "CodeAuthFailed = ''auth_failed''"
definition CodeRoomInvalid :: string where "CodeRoomInvalid = ''room_invalid''"
definition CodeOverLimit :: string where "CodeOverLimit = ''over_limit''"
definition CodeRateLimited :: string where "CodeRateLimited = ''rate_limited''"
definition CodeSessionUnknown :: string where "CodeSessionUnknown = ''session_unknown''"
definition CodeSessionFull :: string where "CodeSessionFull = ''session_full''"
definition CodeSessionNotReady :: string where "CodeSessionNotReady = ''session_not_ready''"
definition CodeAlreadyInSession :: string where "CodeAlreadyInSession = ''already_in_session''"
definition CodeWrongSignalState :: string where "CodeWrongSignalState = ''wrong_signal_state''"
definition CodeSteerModeBlocked :: string where "CodeSteerModeBlocked = ''steer_mode_blocked''"
definition CodeEngineUnavailable :: string where "CodeEngineUnavailable = ''engine_unavailable''"
definition CodeSignalTooLarge :: string where "CodeSignalTooLarge = ''signal_too_large''"

definition CloseNormal :: int where "CloseNormal = 1000"
definition CloseGoingAway :: int where "CloseGoingAway = 1001"
definition ClosePolicyViolation :: int where "ClosePolicyViolation = 1008"
definition CloseInternalError :: int where "CloseInternalError = 1011"

definition RoleInitiator :: string where "RoleInitiator = ''initiator''"
definition RoleResponder :: string where "RoleResponder = ''responder''"

lemmas client_types =
  TypeHello_def TypeSubscribe_def TypeUnsubscribe_def TypePing_def TypeSessionStart_def
  TypeSessionJoin_def TypeSessionEnd_def TypeOffer_def TypeAnswer_def TypeCandidate_def
  TypeEngineOffer_def TypeEngineCandidate_def TypeEnginePublish_def TypeEngineSubscribe_def
  TypeEngineUnsubscribe_def

lemmas server_types =
  TypeWelcome_def TypeReady_def TypeSubscribed_def TypeUnsubscribed_def TypeDelivery_def TypeError_def
  TypePong_def TypeSessionStarted_def TypeSessionJoined_def TypeSessionPeerJoined_def
  TypeSessionEnded_def TypeSignalOffer_def TypeSignalAnswer_def TypeSignalCandidate_def
  TypeEngineAnswer_def TypeEngineTrackPublished_def

lemmas error_codes =
  CodeBadMessage_def CodeHelloRequired_def CodeAuthFailed_def CodeRoomInvalid_def CodeOverLimit_def
  CodeRateLimited_def CodeSessionUnknown_def CodeSessionFull_def CodeSessionNotReady_def
  CodeAlreadyInSession_def CodeWrongSignalState_def CodeSteerModeBlocked_def CodeEngineUnavailable_def
  CodeSignalTooLarge_def

section \<open>Client messages\<close>

record client_message =
  cm_Type :: string
  cm_Token :: string
  cm_Room :: string
  cm_WSVersion :: int
  cm_SessionID :: string
  cm_SDP :: string
  cm_Candidate :: string
  cm_Track :: string
  cm_Kind :: string

definition zero_message :: client_message where
  "zero_message = \<lparr>cm_Type = '''', cm_Token = '''', cm_Room = '''', cm_WSVersion = 0, cm_SessionID = '''',
     cm_SDP = '''', cm_Candidate = '''', cm_Track = '''', cm_Kind = ''''\<rparr>"

definition set_field :: "string \<Rightarrow> string \<Rightarrow> jval \<Rightarrow> client_message \<Rightarrow> client_message option" where
  "set_field key raw v m =
     (if key_is ''type'' key then map_option (\<lambda>s. m\<lparr>cm_Type := s\<rparr>) (set_string v (cm_Type m))
      else if key_is ''token'' key then map_option (\<lambda>s. m\<lparr>cm_Token := s\<rparr>) (set_string v (cm_Token m))
      else if key_is ''room'' key then map_option (\<lambda>s. m\<lparr>cm_Room := s\<rparr>) (set_string v (cm_Room m))
      else if key_is ''ws'' key then map_option (\<lambda>n. m\<lparr>cm_WSVersion := n\<rparr>) (set_int v (cm_WSVersion m))
      else if key_is ''session_id'' key then map_option (\<lambda>s. m\<lparr>cm_SessionID := s\<rparr>) (set_string v (cm_SessionID m))
      else if key_is ''sdp'' key then map_option (\<lambda>s. m\<lparr>cm_SDP := s\<rparr>) (set_string v (cm_SDP m))
      else if key_is ''candidate'' key then Some (m\<lparr>cm_Candidate := raw\<rparr>)
      else if key_is ''track'' key then map_option (\<lambda>s. m\<lparr>cm_Track := s\<rparr>) (set_string v (cm_Track m))
      else if key_is ''kind'' key then map_option (\<lambda>s. m\<lparr>cm_Kind := s\<rparr>) (set_string v (cm_Kind m))
      else Some m)"

definition has_field :: "string \<Rightarrow> string \<Rightarrow> bool" where
  "has_field data key \<longleftrightarrow> key \<in> set (json_keys data)"

datatype decode_error = BadJson | UnknownType string | MissingField string string | UnknownKind string string

definition known_types :: "string list" where
  "known_types = [TypeHello, TypeSubscribe, TypeUnsubscribe, TypePing, TypeSessionStart, TypeSessionJoin, TypeSessionEnd,
     TypeOffer, TypeAnswer, TypeCandidate, TypeEngineOffer, TypeEngineCandidate, TypeEnginePublish,
     TypeEngineSubscribe, TypeEngineUnsubscribe]"

text \<open>The two \<open>switch\<close> statements over the variant, after the check that it is known.\<close>

definition first_switch :: "string \<Rightarrow> client_message \<Rightarrow> decode_error option" where
  "first_switch data msg =
     (if cm_Type msg = TypeHello then
        (if \<not> has_field data ''token'' \<or> cm_Token msg = '''' then Some (MissingField ''token'' (cm_Type msg)) else None)
      else if cm_Type msg \<in> {TypeSubscribe, TypeUnsubscribe} then
        (if \<not> has_field data ''room'' \<or> cm_Room msg = '''' then Some (MissingField ''room'' (cm_Type msg)) else None)
      else if cm_Type msg \<in> {TypeSessionJoin, TypeSessionEnd, TypeOffer, TypeAnswer, TypeCandidate,
          TypeEngineOffer, TypeEngineCandidate, TypeEnginePublish, TypeEngineSubscribe, TypeEngineUnsubscribe} then
        (if \<not> has_field data ''session_id'' \<or> cm_SessionID msg = ''''
         then Some (MissingField ''session_id'' (cm_Type msg)) else None)
      else None)"

definition second_switch :: "string \<Rightarrow> client_message \<Rightarrow> decode_error option" where
  "second_switch data msg =
     (if cm_Type msg \<in> {TypeOffer, TypeAnswer} then
        (if \<not> has_field data ''sdp'' \<or> cm_SDP msg = '''' then Some (MissingField ''sdp'' (cm_Type msg)) else None)
      else if cm_Type msg \<in> {TypeCandidate, TypeEngineCandidate} then
        (if \<not> has_field data ''candidate'' then Some (MissingField ''candidate'' (cm_Type msg)) else None)
      else if cm_Type msg = TypeEngineOffer then
        (if \<not> has_field data ''sdp'' \<or> cm_SDP msg = '''' then Some (MissingField ''sdp'' (cm_Type msg)) else None)
      else if cm_Type msg = TypeEnginePublish then
        (if \<not> has_field data ''track'' \<or> cm_Track msg = '''' \<or> \<not> has_field data ''kind'' \<or> cm_Kind msg = ''''
         then Some (MissingField ''track/kind'' (cm_Type msg))
         else if cm_Kind msg \<noteq> ''audio'' \<and> cm_Kind msg \<noteq> ''video'' \<and> cm_Kind msg \<noteq> ''data''
         then Some (UnknownKind (cm_Kind msg) (cm_Type msg)) else None)
      else if cm_Type msg \<in> {TypeEngineSubscribe, TypeEngineUnsubscribe} then
        (if \<not> has_field data ''track'' \<or> cm_Track msg = '''' then Some (MissingField ''track'' (cm_Type msg)) else None)
      else None)"

definition decode_client_message :: "string \<Rightarrow> decode_error + client_message" where
  "decode_client_message data =
     (case unmarshal set_field zero_message data of
        None \<Rightarrow> Inl BadJson
      | Some msg \<Rightarrow>
          if cm_Type msg \<notin> set known_types then Inl (UnknownType (cm_Type msg))
          else case first_switch data msg of Some e \<Rightarrow> Inl e | None \<Rightarrow>
            (case second_switch data msg of Some e \<Rightarrow> Inl e | None \<Rightarrow> Inr msg))"

section \<open>Payload guards\<close>

definition MaxSDPLength :: nat where "MaxSDPLength = 12 * 1024"
definition MaxCandidateBytes :: nat where "MaxCandidateBytes = 1024"

definition is_valid_sdp :: "string \<Rightarrow> bool" where
  "is_valid_sdp sdp \<longleftrightarrow> has_prefix (trim_space sdp) ''v=''"

definition candidate_is_object :: "string \<Rightarrow> bool" where
  "candidate_is_object raw \<longleftrightarrow>
     (let trimmed = trim_space raw in
      if trimmed = '''' \<or> trimmed = ''null'' then True
      else if length raw > MaxCandidateBytes then False
      else has_prefix trimmed ''{'' \<and> has_suffix trimmed ''}'')"

section \<open>RFC 3339 times\<close>

definition pad2 :: "int \<Rightarrow> string" where
  "pad2 n = (if n < 10 then ''0'' else '''') @ dec_nat (nat n)"

definition pad4 :: "int \<Rightarrow> string" where
  "pad4 n = replicate (4 - length (dec_nat (nat n))) (CHR ''0'') @ dec_nat (nat n)"

text \<open>Year, month and day of a day number counted from 1970-01-01.\<close>

definition civil_date :: "int \<Rightarrow> int \<times> int \<times> int" where
  "civil_date days =
     (let z = days + 719468;
          era = z div 146097;
          doe = z mod 146097;
          yoe = (doe - doe div 1460 + doe div 36524 - doe div 146096) div 365;
          doy = doe - (365 * yoe + yoe div 4 - yoe div 100);
          mp = (5 * doy + 2) div 153;
          d = doy - (153 * mp + 2) div 5 + 1;
          m = (if mp < 10 then mp + 3 else mp - 9);
          y = yoe + era * 400 + (if m \<le> 2 then 1 else 0)
      in (y, m, d))"

definition format_rfc3339 :: "time \<Rightarrow> string" where
  "format_rfc3339 t =
     (let secs = t div second;
          (y, m, d) = civil_date (secs div 86400);
          s = secs mod 86400
      in (if y < 0 then ''-'' @ pad4 (- y) else pad4 y) @ ''-'' @ pad2 m @ ''-'' @ pad2 d @ ''T''
         @ pad2 (s div 3600) @ '':'' @ pad2 (s div 60 mod 60) @ '':'' @ pad2 (s mod 60) @ ''Z'')"

lemma civil_date_example: "civil_date 19782 = (2024, 2, 29)"
  by code_simp

lemma format_rfc3339_example: "format_rfc3339 (1709210096 * second) = ''2024-02-29T12:34:56Z''"
proof -
  have "1709210096 * second div second = 1709210096" by (simp add: second_def)
  moreover have "(1709210096 :: int) div 86400 = 19782" "(1709210096 :: int) mod 86400 = 45296" by simp_all
  ultimately have "format_rfc3339 (1709210096 * second) =
      pad4 2024 @ ''-'' @ pad2 2 @ ''-'' @ pad2 29 @ ''T'' @ pad2 12 @ '':'' @ pad2 34 @ '':'' @ pad2 56 @ ''Z''"
    by (simp add: format_rfc3339_def civil_date_example)
  then show ?thesis by (simp add: pad2_def pad4_def dec_nat_eval char_of_iff)
qed

section \<open>Server frames\<close>

datatype frame =
    FWelcome string bool int int string
  | FReady string string string string
  | FSubscribed string int
  | FUnsubscribed string
  | FDelivery string string string string string
  | FPong string
  | FSessionStarted string string
  | FSessionJoined string string bool
  | FSessionPeerJoined string string bool
  | FSessionEnded string string
  | FSignalOffer string string
  | FSignalAnswer string string
  | FSignalCandidate string string
  | FEngineAnswer string string
  | FEngineTrackPublished string string string string
  | FError string string

definition new_welcome :: "string \<Rightarrow> duration \<Rightarrow> duration \<Rightarrow> time \<Rightarrow> frame" where
  "new_welcome sid authTimeout heartbeat now =
     FWelcome sid True (go_div authTimeout second) (go_div heartbeat second) (format_rfc3339 now)"

definition new_ready :: "string \<Rightarrow> string \<Rightarrow> string \<Rightarrow> time \<Rightarrow> frame" where
  "new_ready sid tenantID role expiresAt = FReady sid tenantID role (format_rfc3339 expiresAt)"

definition new_subscribed :: "string \<Rightarrow> int \<Rightarrow> frame" where "new_subscribed room peers = FSubscribed room peers"
definition new_unsubscribed :: "string \<Rightarrow> frame" where "new_unsubscribed room = FUnsubscribed room"

definition new_delivery :: "string \<Rightarrow> string \<Rightarrow> string \<Rightarrow> string \<Rightarrow> time \<Rightarrow> frame" where
  "new_delivery room kind eventID payload now = FDelivery room kind payload eventID (format_rfc3339 now)"

definition new_pong :: "time \<Rightarrow> frame" where "new_pong now = FPong (format_rfc3339 now)"
definition new_session_started :: "string \<Rightarrow> frame" where "new_session_started sid = FSessionStarted sid RoleInitiator"
definition new_session_joined :: "string \<Rightarrow> bool \<Rightarrow> frame" where
  "new_session_joined sid steer = FSessionJoined sid RoleResponder steer"
definition new_session_peer_joined :: "string \<Rightarrow> string \<Rightarrow> bool \<Rightarrow> frame" where
  "new_session_peer_joined sid peerRole steer = FSessionPeerJoined sid peerRole steer"
definition new_session_ended :: "string \<Rightarrow> string \<Rightarrow> frame" where "new_session_ended sid reason = FSessionEnded sid reason"
definition new_signal_offer :: "string \<Rightarrow> string \<Rightarrow> frame" where "new_signal_offer sid sdp = FSignalOffer sid sdp"
definition new_signal_answer :: "string \<Rightarrow> string \<Rightarrow> frame" where "new_signal_answer sid sdp = FSignalAnswer sid sdp"
definition new_signal_candidate :: "string \<Rightarrow> string \<Rightarrow> frame" where
  "new_signal_candidate sid candidate = FSignalCandidate sid candidate"
definition new_engine_answer :: "string \<Rightarrow> string \<Rightarrow> frame" where "new_engine_answer sid sdp = FEngineAnswer sid sdp"
definition new_engine_track_published :: "string \<Rightarrow> string \<Rightarrow> string \<Rightarrow> string \<Rightarrow> frame" where
  "new_engine_track_published sid participant track kind = FEngineTrackPublished sid participant track kind"
definition new_error :: "string \<Rightarrow> string \<Rightarrow> frame" where "new_error code message = FError code message"

lemmas frame_constructors = new_subscribed_def new_unsubscribed_def new_delivery_def new_pong_def new_session_started_def
  new_session_joined_def new_session_peer_joined_def new_session_ended_def new_signal_offer_def new_signal_answer_def
  new_signal_candidate_def new_engine_answer_def new_engine_track_published_def new_error_def new_ready_def new_welcome_def

definition frame_fields :: "frame \<Rightarrow> (string \<times> fval) list" where
  "frame_fields f =
     (case f of
        FWelcome sid authRequired authSecs hbSecs serverTime \<Rightarrow>
          [(''type'', VStr TypeWelcome), (''session_id'', VStr sid), (''auth_required'', VBool authRequired),
           (''auth_timeout_secs'', VInt authSecs), (''heartbeat_secs'', VInt hbSecs), (''server_time'', VStr serverTime)]
      | FReady sid tenantID role expiresAt \<Rightarrow>
          [(''type'', VStr TypeReady), (''session_id'', VStr sid), (''tenant_id'', VStr tenantID), (''role'', VStr role),
           (''token_expires_at'', VStr expiresAt)]
      | FSubscribed room peers \<Rightarrow> [(''type'', VStr TypeSubscribed), (''room'', VStr room), (''peers'', VInt peers)]
      | FUnsubscribed room \<Rightarrow> [(''type'', VStr TypeUnsubscribed), (''room'', VStr room)]
      | FDelivery room kind payload eventID sentAt \<Rightarrow>
          [(''type'', VStr TypeDelivery), (''room'', VStr room), (''kind'', VStr kind), (''payload'', VRaw payload)]
          @ (if eventID = '''' then [] else [(''event_id'', VStr eventID)]) @ [(''sent_at'', VStr sentAt)]
      | FPong serverTime \<Rightarrow> [(''type'', VStr TypePong), (''server_time'', VStr serverTime)]
      | FSessionStarted sid role \<Rightarrow> [(''type'', VStr TypeSessionStarted), (''session_id'', VStr sid), (''role'', VStr role)]
      | FSessionJoined sid role steer \<Rightarrow>
          [(''type'', VStr TypeSessionJoined), (''session_id'', VStr sid), (''role'', VStr role), (''steer'', VBool steer)]
      | FSessionPeerJoined sid peerRole steer \<Rightarrow>
          [(''type'', VStr TypeSessionPeerJoined), (''session_id'', VStr sid), (''peer_role'', VStr peerRole), (''steer'', VBool steer)]
      | FSessionEnded sid reason \<Rightarrow> [(''type'', VStr TypeSessionEnded), (''session_id'', VStr sid), (''reason'', VStr reason)]
      | FSignalOffer sid sdp \<Rightarrow> [(''type'', VStr TypeSignalOffer), (''session_id'', VStr sid), (''sdp'', VStr sdp)]
      | FSignalAnswer sid sdp \<Rightarrow> [(''type'', VStr TypeSignalAnswer), (''session_id'', VStr sid), (''sdp'', VStr sdp)]
      | FSignalCandidate sid candidate \<Rightarrow>
          [(''type'', VStr TypeSignalCandidate), (''session_id'', VStr sid), (''candidate'', VRaw candidate)]
      | FEngineAnswer sid sdp \<Rightarrow> [(''type'', VStr TypeEngineAnswer), (''session_id'', VStr sid), (''sdp'', VStr sdp)]
      | FEngineTrackPublished sid participant track kind \<Rightarrow>
          [(''type'', VStr TypeEngineTrackPublished), (''session_id'', VStr sid), (''participant'', VStr participant),
           (''track'', VStr track), (''kind'', VStr kind)]
      | FError code message \<Rightarrow> [(''type'', VStr TypeError), (''code'', VStr code), (''message'', VStr message)])"

definition frame_marshal :: "frame \<Rightarrow> string option" where
  "frame_marshal f = json_struct (frame_fields f)"

section \<open>Round trips\<close>

lemma dec_nat_ascii: "list_all (\<lambda>c. byte_val c < 0x80) (dec_nat n)"
  using dec_nat_digits [of n] by (simp add: list_all_iff is_digit_def) force

lemma valid_utf8_bytes: "list_all (\<lambda>c. byte_val c < 0x80) s \<Longrightarrow> valid_utf8 s"
  by (induction s) (simp_all add: valid_utf8_ascii)

lemma ascii_rfc3339: "valid_utf8 (format_rfc3339 t)"
proof (rule valid_utf8_bytes)
  have z: "byte_val (CHR ''0'') < 0x80" by (simp add: byte_val_def)
  have p2: "list_all (\<lambda>c. byte_val c < 0x80) (pad2 n)" for n using dec_nat_ascii by (simp add: pad2_def byte_val_def)
  have p4: "list_all (\<lambda>c. byte_val c < 0x80) (pad4 n)" for n using dec_nat_ascii z by (auto simp: pad4_def list_all_iff)
  show "list_all (\<lambda>c. byte_val c < 0x80) (format_rfc3339 t)"
    by (auto simp: format_rfc3339_def Let_def case_prod_unfold p2 [unfolded byte_val_def] p4 [unfolded byte_val_def] byte_val_def)
qed

text \<open>The fields of a client message as \<open>json.Marshal\<close> writes them: all but the type are \<open>omitempty\<close>.\<close>

definition opt_field :: "bool \<Rightarrow> string \<Rightarrow> fval \<Rightarrow> (string \<times> fval) list" where
  "opt_field present k v = (if present then [(k, v)] else [])"

definition client_fields :: "client_message \<Rightarrow> (string \<times> fval) list" where
  "client_fields m =
     [(''type'', VStr (cm_Type m))]
     @ opt_field (cm_Token m \<noteq> '''') ''token'' (VStr (cm_Token m))
     @ opt_field (cm_Room m \<noteq> '''') ''room'' (VStr (cm_Room m))
     @ opt_field (cm_WSVersion m \<noteq> 0) ''ws'' (VInt (cm_WSVersion m))
     @ opt_field (cm_SessionID m \<noteq> '''') ''session_id'' (VStr (cm_SessionID m))
     @ opt_field (cm_SDP m \<noteq> '''') ''sdp'' (VStr (cm_SDP m))
     @ opt_field (cm_Candidate m \<noteq> '''') ''candidate'' (VRaw (cm_Candidate m))
     @ opt_field (cm_Track m \<noteq> '''') ''track'' (VStr (cm_Track m))
     @ opt_field (cm_Kind m \<noteq> '''') ''kind'' (VStr (cm_Kind m))"

text \<open>The messages the protocol admits: a known type with the required fields of its variant.\<close>

definition admissible :: "client_message \<Rightarrow> bool" where
  "admissible m \<longleftrightarrow>
     (let ty = cm_Type m in
      ty \<in> set known_types
      \<and> (ty = TypeHello \<longrightarrow> cm_Token m \<noteq> '''')
      \<and> (ty \<in> {TypeSubscribe, TypeUnsubscribe} \<longrightarrow> cm_Room m \<noteq> '''')
      \<and> (ty \<notin> {TypeHello, TypeSubscribe, TypeUnsubscribe, TypePing, TypeSessionStart} \<longrightarrow> cm_SessionID m \<noteq> '''')
      \<and> (ty \<in> {TypeOffer, TypeAnswer, TypeEngineOffer} \<longrightarrow> cm_SDP m \<noteq> '''')
      \<and> (ty \<in> {TypeCandidate, TypeEngineCandidate} \<longrightarrow> cm_Candidate m \<noteq> '''')
      \<and> (ty \<in> {TypeEnginePublish, TypeEngineSubscribe, TypeEngineUnsubscribe} \<longrightarrow> cm_Track m \<noteq> '''')
      \<and> (ty = TypeEnginePublish \<longrightarrow> cm_Kind m \<in> {''audio'', ''video'', ''data''}))"

definition message_ok :: "client_message \<Rightarrow> bool" where
  "message_ok m \<longleftrightarrow>
     list_all valid_utf8 [cm_Type m, cm_Token m, cm_Room m, cm_SessionID m, cm_SDP m, cm_Track m, cm_Kind m]
     \<and> - (2 ^ 63) \<le> cm_WSVersion m \<and> cm_WSVersion m < 2 ^ 63
     \<and> (cm_Candidate m \<noteq> '''' \<longrightarrow> embeddable (cm_Candidate m) \<and> json_raw (cm_Candidate m) = Some (cm_Candidate m))"

definition seg :: "(string \<Rightarrow> jval) \<Rightarrow> (string \<times> fval) list \<Rightarrow> (string \<times> string \<times> jval) list" where
  "seg raw fs = map (\<lambda>(k, v). (k, the (encode_fval v), fval_value raw v)) fs"

lemmas seg_eval = seg_def opt_field_def set_field_def key_is_def set_string_def set_int_def fval_value_def encode_fval_def
  byte_val_def char_of_iff

lemma set_segments:
  "decode_members set_field (seg raw [(''type'', VStr s)]) m = Some (m\<lparr>cm_Type := s\<rparr>)"
  "cm_Token m = '''' \<Longrightarrow> decode_members set_field (seg raw (opt_field (s \<noteq> '''') ''token'' (VStr s))) m = Some (m\<lparr>cm_Token := s\<rparr>)"
  "cm_Room m = '''' \<Longrightarrow> decode_members set_field (seg raw (opt_field (s \<noteq> '''') ''room'' (VStr s))) m = Some (m\<lparr>cm_Room := s\<rparr>)"
  "cm_SessionID m = '''' \<Longrightarrow> decode_members set_field (seg raw (opt_field (s \<noteq> '''') ''session_id'' (VStr s))) m = Some (m\<lparr>cm_SessionID := s\<rparr>)"
  "cm_SDP m = '''' \<Longrightarrow> decode_members set_field (seg raw (opt_field (s \<noteq> '''') ''sdp'' (VStr s))) m = Some (m\<lparr>cm_SDP := s\<rparr>)"
  "cm_Track m = '''' \<Longrightarrow> decode_members set_field (seg raw (opt_field (s \<noteq> '''') ''track'' (VStr s))) m = Some (m\<lparr>cm_Track := s\<rparr>)"
  "cm_Kind m = '''' \<Longrightarrow> decode_members set_field (seg raw (opt_field (s \<noteq> '''') ''kind'' (VStr s))) m = Some (m\<lparr>cm_Kind := s\<rparr>)"
  "cm_WSVersion m = 0 \<Longrightarrow> - (2 ^ 63) \<le> n \<Longrightarrow> n < 2 ^ 63 \<Longrightarrow>
    decode_members set_field (seg raw (opt_field (n \<noteq> 0) ''ws'' (VInt n))) m = Some (m\<lparr>cm_WSVersion := n\<rparr>)"
  "cm_Candidate m = '''' \<Longrightarrow> (s \<noteq> '''' \<Longrightarrow> json_raw s = Some s) \<Longrightarrow>
    decode_members set_field (seg raw (opt_field (s \<noteq> '''') ''candidate'' (VRaw s))) m = Some (m\<lparr>cm_Candidate := s\<rparr>)"
  by (auto simp: seg_eval parse_int64_json_int)

lemma seg_append: "seg raw (xs @ ys) = seg raw xs @ seg raw ys"
  by (simp add: seg_def)

lemma unmarshal_client_fields:
  assumes "message_ok m"
  shows "\<exists>text. json_struct (client_fields m) = Some text \<and> unmarshal set_field zero_message text = Some m
    \<and> set (json_keys text) = set (map fst (client_fields m))"
proof -
  have "\<forall>(k, v) \<in> set (client_fields m). valid_utf8 k \<and> fval_ok raw_value v"
    using assms embeddable_encodes [of "cm_Candidate m"]
    by (auto simp: client_fields_def opt_field_def message_ok_def valid_utf8_simps)
  moreover have "client_fields m \<noteq> []" by (simp add: client_fields_def)
  ultimately obtain doc where doc: "json_struct (client_fields m) = Some doc"
    "json_parse doc = Some (JObj (seg raw_value (client_fields m)))"
    using json_struct_parse [of "client_fields m" raw_value] by (auto simp: seg_def)
  have "decode_members set_field (seg raw_value (client_fields m)) zero_message = Some m"
    using assms unfolding client_fields_def seg_append decode_members_append
    by (simp add: set_segments zero_message_def message_ok_def)
  then have "unmarshal set_field zero_message doc = Some m" by (simp add: unmarshal_def doc(2) decode_struct_def)
  moreover have "set (json_keys doc) = set (map fst (client_fields m))"
    by (simp add: json_keys_def doc(2) seg_def case_prod_unfold comp_def)
  ultimately show ?thesis using doc(1) by blast
qed

lemma present_fields:
  "''token'' \<in> set (map fst (client_fields m)) \<longleftrightarrow> cm_Token m \<noteq> ''''"
  "''room'' \<in> set (map fst (client_fields m)) \<longleftrightarrow> cm_Room m \<noteq> ''''"
  "''session_id'' \<in> set (map fst (client_fields m)) \<longleftrightarrow> cm_SessionID m \<noteq> ''''"
  "''sdp'' \<in> set (map fst (client_fields m)) \<longleftrightarrow> cm_SDP m \<noteq> ''''"
  "''candidate'' \<in> set (map fst (client_fields m)) \<longleftrightarrow> cm_Candidate m \<noteq> ''''"
  "''track'' \<in> set (map fst (client_fields m)) \<longleftrightarrow> cm_Track m \<noteq> ''''"
  "''kind'' \<in> set (map fst (client_fields m)) \<longleftrightarrow> cm_Kind m \<noteq> ''''"
  by (auto simp: client_fields_def opt_field_def)

lemma decode_admissible:
  assumes "unmarshal set_field zero_message data = Some m" and "set (json_keys data) = set (map fst (client_fields m))"
  shows "decode_client_message data = Inr m \<longleftrightarrow> admissible m" and "\<not> admissible m \<Longrightarrow> \<exists>e. decode_client_message data = Inl e"
proof -
  have hf: "has_field data ''token'' \<longleftrightarrow> cm_Token m \<noteq> ''''" "has_field data ''room'' \<longleftrightarrow> cm_Room m \<noteq> ''''"
    "has_field data ''session_id'' \<longleftrightarrow> cm_SessionID m \<noteq> ''''" "has_field data ''sdp'' \<longleftrightarrow> cm_SDP m \<noteq> ''''"
    "has_field data ''candidate'' \<longleftrightarrow> cm_Candidate m \<noteq> ''''" "has_field data ''track'' \<longleftrightarrow> cm_Track m \<noteq> ''''"
    "has_field data ''kind'' \<longleftrightarrow> cm_Kind m \<noteq> ''''"
    by (simp_all only: has_field_def assms(2) present_fields)
  note defs = decode_client_message_def first_switch_def second_switch_def admissible_def hf assms(1) known_types_def client_types
  have "(decode_client_message data = Inr m \<and> admissible m) \<or> ((\<exists>e. decode_client_message data = Inl e) \<and> \<not> admissible m)"
  proof (cases "cm_Type m \<in> set known_types")
    case False
    then show ?thesis by (simp add: decode_client_message_def admissible_def assms(1))
  next
    case True
    then show ?thesis unfolding known_types_def list.set insert_iff empty_iff
      by (elim disjE) (simp_all add: defs)
  qed
  then show "decode_client_message data = Inr m \<longleftrightarrow> admissible m" and "\<not> admissible m \<Longrightarrow> \<exists>e. decode_client_message data = Inl e"
    by auto
qed

text \<open>The strings and raw messages of a frame.\<close>

definition frame_ok :: "frame \<Rightarrow> bool" where
  "frame_ok f \<longleftrightarrow> list_all (\<lambda>(k, v). case v of VStr s \<Rightarrow> valid_utf8 s | VRaw p \<Rightarrow> embeddable p | _ \<Rightarrow> True) (frame_fields f)"

lemma frame_ok_fields: "frame_ok f \<Longrightarrow> (k, v) \<in> set (frame_fields f) \<Longrightarrow> fval_ok raw_value v"
  using embeddable_encodes by (cases v) (auto simp: frame_ok_def list_all_iff dest: bspec)

text \<open>A candidate object with white space, and its compacted text.\<close>

definition demo_candidate :: string where
  "demo_candidate = ''{ '' @ [CHR 0x22] @ ''m'' @ [CHR 0x22] @ '': [1] }''"

definition demo_compact :: string where
  "demo_compact = ''{'' @ [CHR 0x22] @ ''m'' @ [CHR 0x22] @ '':[1]}''"

lemma demo_raw: "json_raw demo_candidate = Some demo_compact"
  by code_simp

lemma demo_embeddable: "embeddable demo_candidate"
  by code_simp

lemma demo_value: "raw_value demo_candidate = JObj [(''m'', ''[1]'', JArr [JNum ''1''])]"
  by code_simp

lemma demo_compact_raw: "json_raw demo_compact = Some demo_compact"
  by code_simp

lemma demo_compact_embeddable: "embeddable demo_compact"
  by code_simp

lemmas demo_candidate_eval = demo_raw demo_embeddable demo_value demo_compact_raw demo_compact_embeddable

text \<open>
  C19. Every frame the gateway writes reads back as exactly its fields. If the strings of a frame
  are valid UTF-8 and its raw payload (of a delivery or a relayed candidate) is a JSON document that
  may be nested one level deeper, then the encoder succeeds, whatever white space and special
  characters the payload holds, and its text parses to an object whose members are the fields of the frame, in
  order; the payload is the compacted document that was put in, and the event id of a delivery is left out
  exactly when it is empty.
\<close>

theorem frame_roundtrip:
  assumes "frame_ok f"
  shows "\<exists>text ms. frame_marshal f = Some text \<and> json_parse text = Some (JObj ms)
    \<and> map (\<lambda>(k, t, v). (k, v)) ms = map (\<lambda>(k, v). (k, fval_value raw_value v)) (frame_fields f)"
  unfolding frame_marshal_def
proof (rule json_struct_roundtrip)
  show "frame_fields f \<noteq> []" by (cases f) (simp_all add: frame_fields_def)
  have "\<forall>k \<in> fst ` set (frame_fields f). valid_utf8 k"
    by (cases f) (auto simp: frame_fields_def valid_utf8_simps)
  then show "\<forall>(k, v) \<in> set (frame_fields f). valid_utf8 k \<and> fval_ok raw_value v"
    using frame_ok_fields [OF assms] by (auto simp: image_iff case_prod_unfold)
qed

theorem frame_roundtrip_witness:
  "\<exists>text ms. frame_marshal (new_signal_candidate ''s'' demo_candidate) = Some text \<and> json_parse text = Some (JObj ms)
    \<and> map (\<lambda>(k, t, v). (k, v)) ms = [(''type'', JStr ''signal.candidate''), (''session_id'', JStr ''s''),
        (''candidate'', JObj [(''m'', ''[1]'', JArr [JNum ''1''])])]"
proof -
  have "frame_ok (FSignalCandidate ''s'' demo_candidate)"
    by (simp add: frame_ok_def frame_fields_def server_types valid_utf8_simps demo_candidate_eval)
  from frame_roundtrip [OF this] show ?thesis
    by (simp add: new_signal_candidate_def frame_fields_def server_types fval_value_def demo_candidate_eval)
qed

text \<open>
  C20. The decoder admits exactly the messages of the protocol. A client message marshalled the way
  the struct's tags say decodes to itself if it is admissible (a known type with the required,
  non-empty fields of its variant and a media kind of the closed set) and is refused otherwise;
  strings may hold any valid UTF-8, the wire version any 64-bit integer and the candidate any
  compact JSON.
\<close>

theorem decode_exactly_admissible:
  assumes "message_ok m"
  shows "\<exists>text. json_struct (client_fields m) = Some text
    \<and> (if admissible m then decode_client_message text = Inr m else \<exists>e. decode_client_message text = Inl e)"
proof -
  obtain doc where d: "json_struct (client_fields m) = Some doc" "unmarshal set_field zero_message doc = Some m"
    "set (json_keys doc) = set (map fst (client_fields m))"
    using unmarshal_client_fields [OF assms] by blast
  show ?thesis
  proof (cases "admissible m")
    case True
    then show ?thesis using d(1) decode_admissible(1) [OF d(2,3)] by simp
  next
    case False
    then show ?thesis using d(1) decode_admissible(2) [OF d(2,3)] by simp
  qed
qed

theorem decode_exactly_admissible_witness:
  "\<exists>text. json_struct (client_fields (zero_message\<lparr>cm_Type := ''candidate'', cm_SessionID := ''s'', cm_Candidate := demo_compact\<rparr>)) = Some text
    \<and> decode_client_message text = Inr (zero_message\<lparr>cm_Type := ''candidate'', cm_SessionID := ''s'', cm_Candidate := demo_compact\<rparr>)"
proof -
  let ?m = "zero_message\<lparr>cm_Type := ''candidate'', cm_SessionID := ''s'', cm_Candidate := demo_compact\<rparr>"
  have "demo_compact \<noteq> []" by (simp add: demo_compact_def)
  then have "message_ok ?m" "admissible ?m"
    using demo_candidate_eval
    by (simp_all add: message_ok_def zero_message_def valid_utf8_simps admissible_def known_types_def client_types)
  from decode_exactly_admissible [OF this(1)] this(2) show ?thesis by simp
qed

end
