(* ===== verification/Gw_Number.thy ===== *)
theory Gw_Number
  imports Gw_Json Gw_Float
begin

text \<open>
  JSON numbers in values of type \<open>any\<close>, which \<open>encoding/json\<close> decodes to \<open>float64\<close>: the value of a
  literal, the range check, and the conversion back to \<open>int64\<close>. The token claims and the frames of the
  media engine are decoded this way.
\<close>

section \<open>Numbers inside an \<open>any\<close>\<close>

text \<open>The value of a JSON number literal and the \<open>float64\<close> Go decodes it to; \<open>None\<close> is out of range.\<close>

definition power_of_ten :: "int \<Rightarrow> rat" where
  "power_of_ten e = (if 0 \<le> e then 10 ^ nat e else 1 / 10 ^ nat (- e))"

definition exp_val :: "string \<Rightarrow> int" where
  "exp_val s = (case s of
      c # t \<Rightarrow> if c = CHR ''-'' then - dec_val t else if c = CHR ''+'' then dec_val t else dec_val s
    | [] \<Rightarrow> 0)"

definition number_value :: "string \<Rightarrow> rat" where
  "number_value t =
     (let neg = has_prefix t ''-'';
          u = (if neg then drop 1 t else t);
          mant = takeWhile (\<lambda>c. c \<noteq> CHR ''e'' \<and> c \<noteq> CHR ''E'') u;
          ex = exp_val (drop 1 (dropWhile (\<lambda>c. c \<noteq> CHR ''e'' \<and> c \<noteq> CHR ''E'') u));
          ip = takeWhile (\<lambda>c. c \<noteq> CHR ''.'') mant;
          fp = drop 1 (dropWhile (\<lambda>c. c \<noteq> CHR ''.'') mant);
          m = of_int (dec_val (ip @ fp)) * power_of_ten (ex - int (length fp))
      in if neg then - m else m)"

definition json_float :: "string \<Rightarrow> rat option" where
  "json_float t = (let x = rnd64 (number_value t) in if \<bar>x\<bar> \<ge> 2 ^ 1024 then None else Some x)"

text \<open>\<open>int64(n)\<close> of a \<open>float64\<close>.\<close>

definition to_int64 :: "rat \<Rightarrow> int" where
  "to_int64 x = (let n = whole x in if - (2 ^ 63) \<le> n \<and> n < 2 ^ 63 then n else - (2 ^ 63))"

text \<open>A value decoded into an \<open>any\<close> field: an error if a number inside is out of range; \<open>n\<close> bounds the nesting.\<close>

fun floats_ok :: "nat \<Rightarrow> jval \<Rightarrow> bool" where
  "floats_ok 0 v = True"
| "floats_ok (Suc n) v =
     (case v of
        JNum t \<Rightarrow> json_float t \<noteq> None
      | JArr vs \<Rightarrow> list_all (floats_ok n) vs
      | JObj ms \<Rightarrow> list_all (\<lambda>(k, t, x). floats_ok n x) ms
      | _ \<Rightarrow> True)"

definition set_any :: "string \<Rightarrow> jval \<Rightarrow> jval option" where
  "set_any raw v = (if floats_ok (Suc (length raw)) v then Some v else None)"

end
