(* ===== verification/Gw_Engine.thy ===== *)
theory Gw_Engine
  imports Gw_Protocol Gw_Number Gw_Validate
begin

text \<open>
  The control client of the media engine (\<open>internal/engineclient\<close>). The engine itself, a service
  outside this program, is the argument \<open>http\<close> of the operations: for a request body it gives the
  transport failure or the status and body of the reply. The request id and the monitor's probe
  results are arguments too. Numbers inside a candidate pass through Go's \<open>float64\<close>; \<open>num\<close> is the
  shortest decimal text that \<open>strconv\<close> prints for the number nearest to a literal.
\<close>

section \<open>Errors and frames\<close>

datatype engine_err = EngineErr string string | FrameErr string | TransportErr string

definition is_unavailable :: "engine_err \<Rightarrow> bool" where
  "is_unavailable err = (case err of EngineErr _ _ \<Rightarrow> False | FrameErr _ \<Rightarrow> True | TransportErr _ \<Rightarrow> True)"

text \<open>A \<open>Frame\<close> is a decoded object: its members in order, the last one of a name counting.\<close>

type_synonym engine_frame = "(string \<times> jval) list"

definition frame_member :: "engine_frame \<Rightarrow> string \<Rightarrow> jval option" where
  "frame_member f k = map_of (rev f) k"

definition str_field :: "engine_frame \<Rightarrow> string \<Rightarrow> string" where
  "str_field f k = (case frame_member f k of Some (JStr s) \<Rightarrow> s | _ \<Rightarrow> '''')"

section \<open>Encoding a request\<close>

text \<open>\<open>json.Marshal\<close> of a map sorts the keys; of members with one name the last one counts.\<close>

definition last_members :: "(string \<times> 'v) list \<Rightarrow> (string \<times> 'v) list" where
  "last_members ms = map (\<lambda>k. (k, the (map_of (rev ms) k))) (sorted_list_of_set (set (map fst ms)))"

fun encode_any :: "nat \<Rightarrow> (string \<Rightarrow> string) \<Rightarrow> jval \<Rightarrow> string" where
  "encode_any 0 num v = ''null''"
| "encode_any (Suc n) num v =
     (case v of
        JNull \<Rightarrow> ''null''
      | JBool b \<Rightarrow> json_bool b
      | JNum t \<Rightarrow> num t
      | JStr s \<Rightarrow> json_quote s
      | JArr vs \<Rightarrow> ''['' @ join_with '','' (map (encode_any n num) vs) @ '']''
      | JObj ms \<Rightarrow> json_obj (map (\<lambda>(k, w). (k, encode_any n num w)) (last_members (map (\<lambda>(k, t, w). (k, w)) ms))))"

definition WireVersion :: int where "WireVersion = 1"
definition max_request_body :: nat where "max_request_body = 48 * 1024"
definition max_reply_body :: nat where "max_reply_body = 1024 * 1024"

text \<open>The calls of the client. \<open>ETrickle\<close> carries the encoded candidate.\<close>

datatype engine_op =
    EJoin string string
  | ELeave string
  | EOffer string string
  | ETrickle string string
  | EPublish string string string
  | ESubscribe string string string
  | EUnsubscribe string string string

definition op_name :: "engine_op \<Rightarrow> string" where
  "op_name op =
     (case op of EJoin _ _ \<Rightarrow> ''join'' | ELeave _ \<Rightarrow> ''leave'' | EOffer _ _ \<Rightarrow> ''offer'' | ETrickle _ _ \<Rightarrow> ''trickle''
      | EPublish _ _ _ \<Rightarrow> ''publish'' | ESubscribe _ _ _ \<Rightarrow> ''subscribe'' | EUnsubscribe _ _ _ \<Rightarrow> ''unsubscribe'')"

definition op_frame :: "engine_op \<Rightarrow> (string \<times> string) list" where
  "op_frame op =
     (case op of
        EJoin room participant \<Rightarrow>
          [(''participant'', json_quote participant), (''room'', json_quote room), (''type'', json_quote ''join'')]
      | ELeave session \<Rightarrow> [(''session'', json_quote session), (''type'', json_quote ''leave'')]
      | EOffer session sdp \<Rightarrow> [(''sdp'', json_quote sdp), (''session'', json_quote session), (''type'', json_quote ''offer'')]
      | ETrickle session candidate \<Rightarrow>
          [(''candidate'', candidate), (''session'', json_quote session), (''type'', json_quote ''trickle'')]
      | EPublish session track kind \<Rightarrow>
          [(''kind'', json_quote kind), (''session'', json_quote session), (''track'', json_quote track), (''type'', json_quote ''publish'')]
      | ESubscribe session participant track \<Rightarrow>
          [(''participant'', json_quote participant), (''session'', json_quote session), (''track'', json_quote track),
           (''type'', json_quote ''subscribe'')]
      | EUnsubscribe session participant track \<Rightarrow>
          [(''participant'', json_quote participant), (''session'', json_quote session), (''track'', json_quote track),
           (''type'', json_quote ''unsubscribe'')])"

definition request_body :: "string \<Rightarrow> engine_op \<Rightarrow> string" where
  "request_body rid op = json_obj [(''frame'', json_obj (op_frame op)), (''id'', json_quote rid), (''v'', json_int WireVersion)]"

section \<open>Decoding a reply\<close>

record engine_wire =
  ew_V :: int
  ew_ID :: string
  ew_Frames :: "engine_frame list"
  ew_Err :: "(string \<times> string) option"

definition zero_wire :: engine_wire where
  "zero_wire = \<lparr>ew_V = 0, ew_ID = '''', ew_Frames = [], ew_Err = None\<rparr>"

text \<open>A frame is a \<open>map[string]any\<close>: a number of it that no \<open>float64\<close> holds is an error; \<open>n\<close> bounds the nesting.\<close>

fun decode_frames :: "nat \<Rightarrow> jval list \<Rightarrow> engine_frame list option" where
  "decode_frames n [] = Some []"
| "decode_frames n (v # vs) =
     (case decode_frames n vs of
        None \<Rightarrow> None
      | Some fs \<Rightarrow>
          (case v of
             JNull \<Rightarrow> Some ([] # fs)
           | JObj ms \<Rightarrow> if floats_ok n v then Some (map (\<lambda>(k, t, w). (k, w)) ms # fs) else None
           | _ \<Rightarrow> None))"

definition set_err_field :: "string \<Rightarrow> string \<Rightarrow> jval \<Rightarrow> string \<times> string \<Rightarrow> (string \<times> string) option" where
  "set_err_field key raw v e =
     (if key_is ''code'' key then map_option (\<lambda>s. (s, snd e)) (set_string v (fst e))
      else if key_is ''message'' key then map_option (\<lambda>s. (fst e, s)) (set_string v (snd e))
      else Some e)"

definition set_wire_field :: "string \<Rightarrow> string \<Rightarrow> jval \<Rightarrow> engine_wire \<Rightarrow> engine_wire option" where
  "set_wire_field key raw v w =
     (if key_is ''v'' key then map_option (\<lambda>n. w\<lparr>ew_V := n\<rparr>) (set_int v (ew_V w))
      else if key_is ''id'' key then map_option (\<lambda>s. w\<lparr>ew_ID := s\<rparr>) (set_string v (ew_ID w))
      else if key_is ''frames'' key then
        (case v of
           JNull \<Rightarrow> Some (w\<lparr>ew_Frames := []\<rparr>)
         | JArr vs \<Rightarrow> map_option (\<lambda>fs. w\<lparr>ew_Frames := fs\<rparr>) (decode_frames (length raw) vs)
         | _ \<Rightarrow> None)
      else if key_is ''error'' key then
        (case v of
           JNull \<Rightarrow> Some (w\<lparr>ew_Err := None\<rparr>)
         | JObj ms \<Rightarrow>
             map_option (\<lambda>e. w\<lparr>ew_Err := Some e\<rparr>)
               (decode_members set_err_field ms (case ew_Err w of None \<Rightarrow> ('''', '''') | Some e \<Rightarrow> e))
         | _ \<Rightarrow> None)
      else Some w)"

section \<open>A signaling call\<close>

type_synonym engine_http = "string \<Rightarrow> string + int \<times> string"

definition check_reply :: "string \<Rightarrow> engine_wire \<Rightarrow> engine_err + engine_frame list" where
  "check_reply rid wire =
     (case ew_Err wire of
        Some (code, message) \<Rightarrow> Inl (EngineErr code message)
      | None \<Rightarrow>
          if ew_V wire \<noteq> WireVersion then Inl (FrameErr ''reply version'')
          else if ew_ID wire \<noteq> rid then Inl (FrameErr ''correlation mismatch'')
          else Inr (ew_Frames wire))"

text \<open>The second component is what the observer is told; a request that is never sent is not observed.\<close>

definition engine_signal ::
  "engine_http \<Rightarrow> string \<Rightarrow> engine_op \<Rightarrow> (engine_err + engine_frame list) \<times> (string \<times> engine_err option) list"
where
  "engine_signal http rid op =
     (let body = request_body rid op in
      if length body > max_request_body then (Inl (FrameErr ''request exceeds the client cap''), [])
      else
        let r = (case http body of
              Inl err \<Rightarrow> Inl (TransportErr err)
            | Inr (status, reply) \<Rightarrow>
                if status \<noteq> 200 then Inl (FrameErr ''http status'')
                else case decode_first set_wire_field zero_wire (take max_reply_body reply) of
                    None \<Rightarrow> Inl (FrameErr ''reply body'')
                  | Some wire \<Rightarrow> check_reply rid wire)
        in (r, [(op_name op, case r of Inl e \<Rightarrow> Some e | Inr _ \<Rightarrow> None)]))"

definition engine_join :: "engine_err + engine_frame list \<Rightarrow> engine_err + string" where
  "engine_join r =
     (case r of
        Inl e \<Rightarrow> Inl e
      | Inr frames \<Rightarrow>
          (case find (\<lambda>f. str_field f ''type'' = ''ready'') frames of
             None \<Rightarrow> Inl (FrameErr ''join returned no ready frame'')
           | Some f \<Rightarrow>
               if str_field f ''session'' = '''' then Inl (FrameErr ''ready frame without session'')
               else Inr (str_field f ''session'')))"

section \<open>The availability monitor\<close>

record monitor =
  mo_up :: bool
  mo_lastErr :: string
  mo_backoff :: duration

definition new_monitor :: monitor where
  "new_monitor = \<lparr>mo_up = False, mo_lastErr = '''', mo_backoff = 200 * millisecond\<rparr>"

text \<open>\<open>transition\<close>; the flag says whether the observer and the log are told.\<close>

definition mo_transition :: "monitor \<Rightarrow> string option \<Rightarrow> bool \<times> monitor" where
  "mo_transition m err =
     (let up = (err = None)
      in (mo_up m \<noteq> up, m\<lparr>mo_up := up, mo_lastErr := (case err of None \<Rightarrow> '''' | Some e \<Rightarrow> e)\<rparr>))"

text \<open>One round of \<open>Monitor\<close> after a probe: whether it notifies, how long it waits, the new state.\<close>

definition mo_round :: "monitor \<Rightarrow> string option \<Rightarrow> bool \<times> duration \<times> monitor" where
  "mo_round m err =
     (let (notify, m1) = mo_transition m err;
          backoff = mo_backoff m1;
          backoff' = (if err \<noteq> None \<and> backoff < 5 * second then 2 * backoff else backoff)
      in if err = None then (notify, 2 * second, m1\<lparr>mo_backoff := 200 * millisecond\<rparr>)
         else (notify, backoff, m1\<lparr>mo_backoff := backoff'\<rparr>))"

fun mo_run :: "monitor \<Rightarrow> string option list \<Rightarrow> bool list \<times> duration list \<times> monitor" where
  "mo_run m [] = ([], [], m)"
| "mo_run m (err # errs) =
     (let (notify, wait, m1) = mo_round m err; (ns, ws, m2) = mo_run m1 errs in (notify # ns, wait # ws, m2))"

section \<open>Health probe\<close>

record health_info =
  hi_Engine :: string
  hi_Version :: string
  hi_Ready :: bool
  hi_Rooms :: int
  hi_Participants :: int
  hi_Tracks :: int
  hi_UptimeMS :: int

text \<open>The body is a struct that embeds \<open>HealthInfo\<close>, so its fields stand beside the version.\<close>

record health_body =
  hb_V :: int
  hb_Info :: health_info

definition zero_health :: health_body where
  "zero_health = \<lparr>hb_V = 0, hb_Info = \<lparr>hi_Engine = [], hi_Version = [], hi_Ready = False, hi_Rooms = 0, hi_Participants = 0,
     hi_Tracks = 0, hi_UptimeMS = 0\<rparr>\<rparr>"

definition set_bool :: "jval \<Rightarrow> bool \<Rightarrow> bool option" where
  "set_bool v cur = (case v of JBool b \<Rightarrow> Some b | JNull \<Rightarrow> Some cur | _ \<Rightarrow> None)"

definition set_health_field :: "string \<Rightarrow> string \<Rightarrow> jval \<Rightarrow> health_body \<Rightarrow> health_body option" where
  "set_health_field key raw v b =
     (let h = hb_Info b; info = (\<lambda>h'. b\<lparr>hb_Info := h'\<rparr>) in
      if key_is ''v'' key then map_option (\<lambda>n. b\<lparr>hb_V := n\<rparr>) (set_int v (hb_V b))
      else if key_is ''engine'' key then map_option (\<lambda>s. info (h\<lparr>hi_Engine := s\<rparr>)) (set_string v (hi_Engine h))
      else if key_is ''version'' key then map_option (\<lambda>s. info (h\<lparr>hi_Version := s\<rparr>)) (set_string v (hi_Version h))
      else if key_is ''ready'' key then map_option (\<lambda>r. info (h\<lparr>hi_Ready := r\<rparr>)) (set_bool v (hi_Ready h))
      else if key_is ''rooms'' key then map_option (\<lambda>n. info (h\<lparr>hi_Rooms := n\<rparr>)) (set_int v (hi_Rooms h))
      else if key_is ''participants'' key then map_option (\<lambda>n. info (h\<lparr>hi_Participants := n\<rparr>)) (set_int v (hi_Participants h))
      else if key_is ''tracks'' key then map_option (\<lambda>n. info (h\<lparr>hi_Tracks := n\<rparr>)) (set_int v (hi_Tracks h))
      else if key_is ''uptime_ms'' key then map_option (\<lambda>n. info (h\<lparr>hi_UptimeMS := n\<rparr>)) (set_int v (hi_UptimeMS h))
      else Some b)"

definition check_health :: "string + int \<times> string \<Rightarrow> engine_err + health_info" where
  "check_health r =
     (case r of
        Inl err \<Rightarrow> Inl (TransportErr err)
      | Inr (status, reply) \<Rightarrow>
          if status \<noteq> 200 then Inl (FrameErr ''health http status'')
          else case decode_first set_health_field zero_health (take max_reply_body reply) of
              None \<Rightarrow> Inl (FrameErr ''health body'')
            | Some b \<Rightarrow>
                if hb_V b \<noteq> WireVersion then Inl (FrameErr ''wire version'')
                else if \<not> hi_Ready (hb_Info b) then Inl (EngineErr ''not_ready'' ''engine reports ready=false'')
                else Inr (hb_Info b))"

section \<open>The client\<close>

definition err_text :: "engine_err \<Rightarrow> string" where
  "err_text err =
     (case err of EngineErr code message \<Rightarrow> ''engine: '' @ code @ '': '' @ message | FrameErr d \<Rightarrow> ''engine wire: '' @ d | TransportErr t \<Rightarrow> t)"

text \<open>The random id of a request; \<open>Inl\<close>: no randomness, and the text of the time that stands in.\<close>

definition random_id :: "string + 8 word list \<Rightarrow> string" where
  "random_id rnd = (case rnd of Inl time_text \<Rightarrow> time_text | Inr bytes \<Rightarrow> hex_bytes bytes)"

record engine_client =
  ec_url :: string
  ec_timeout :: duration
  ec_monitor :: monitor
  ec_lastHealth :: "health_info option"

definition new_client :: "string \<Rightarrow> duration \<Rightarrow> engine_client" where
  "new_client url timeout =
     \<lparr>ec_url = rev (dropWhile (\<lambda>c. c = CHR ''/'') (rev url)), ec_timeout = timeout, ec_monitor = new_monitor, ec_lastHealth = None\<rparr>"

definition call_deadline :: "engine_client \<Rightarrow> time option \<Rightarrow> time \<Rightarrow> time" where
  "call_deadline c ctx now = (case ctx of Some d \<Rightarrow> d | None \<Rightarrow> now + ec_timeout c)"

definition probe :: "engine_client \<Rightarrow> string + int \<times> string \<Rightarrow> engine_err option \<times> engine_client" where
  "probe c resp = (case check_health resp of Inl err \<Rightarrow> (Some err, c) | Inr h \<Rightarrow> (None, c\<lparr>ec_lastHealth := Some h\<rparr>))"

text \<open>\<open>HealthNow\<close>: its answer, whether the observer is told of a change, and the client.\<close>

definition health_now :: "engine_client \<Rightarrow> string + int \<times> string \<Rightarrow> (engine_err + health_info) \<times> bool \<times> engine_client" where
  "health_now c resp =
     (let (err, c1) = probe c resp; (notify, m) = mo_transition (ec_monitor c1) (map_option err_text err);
          c2 = c1\<lparr>ec_monitor := m\<rparr>
      in (case err of Some e \<Rightarrow> Inl e | None \<Rightarrow> Inr (the (ec_lastHealth c2)), notify, c2))"

definition client_round :: "engine_client \<Rightarrow> string + int \<times> string \<Rightarrow> bool \<times> duration \<times> engine_client" where
  "client_round c resp =
     (let (err, c1) = probe c resp; (notify, wait, m) = mo_round (ec_monitor c1) (map_option err_text err)
      in (notify, wait, c1\<lparr>ec_monitor := m\<rparr>))"

section \<open>Properties\<close>

text \<open>The waits the monitor can be in: 200 ms doubled at most five times.\<close>

definition backoff_level :: "duration \<Rightarrow> bool" where
  "backoff_level d = (d \<in> (\<lambda>k. k * millisecond) ` {200, 400, 800, 1600, 3200, 6400})"

lemma backoff_level_step:
  assumes "backoff_level d"
  shows "backoff_level (if d < 5 * second then 2 * d else d)" "d \<le> 6400 * millisecond" "200 * millisecond \<le> d"
  using assms unfolding backoff_level_def by (auto simp: millisecond_def second_def)

lemma backoff_level_init: "backoff_level (200 * millisecond)"
  unfolding backoff_level_def by simp

lemma mo_round_none:
  "mo_round m None = (mo_up m \<noteq> True, 2 * second, m\<lparr>mo_up := True, mo_lastErr := '''', mo_backoff := 200 * millisecond\<rparr>)"
  unfolding mo_round_def mo_transition_def Let_def by simp

lemma mo_round_some:
  "mo_round m (Some e) = (mo_up m, mo_backoff m, m\<lparr>mo_up := False, mo_lastErr := e,
     mo_backoff := (if mo_backoff m < 5 * second then 2 * mo_backoff m else mo_backoff m)\<rparr>)"
  unfolding mo_round_def mo_transition_def Let_def by simp

lemma mo_round_level:
  assumes "backoff_level (mo_backoff m)" and "mo_round m err = (notify, wait, m')"
  shows "backoff_level (mo_backoff m')" "200 * millisecond \<le> wait" "wait \<le> 6400 * millisecond"
    "mo_up m' = (err = None)" "notify = (mo_up m \<noteq> (err = None))"
  using assms backoff_level_step [OF assms(1)] backoff_level_init
  by (cases err; force simp: mo_round_none mo_round_some second_def millisecond_def)+

lemma mo_run_levels:
  "backoff_level (mo_backoff m) \<Longrightarrow>
     list_all (\<lambda>w. 200 * millisecond \<le> w \<and> w \<le> 6400 * millisecond) (fst (snd (mo_run m errs)))
     \<and> mo_up (snd (snd (mo_run m errs))) = (if errs = [] then mo_up m else last errs = None)
     \<and> fst (mo_run m errs) = map2 (\<noteq>) (mo_up m # map (\<lambda>e. e = None) errs) (map (\<lambda>e. e = None) errs)"
proof (induction errs arbitrary: m)
  case (Cons err errs)
  obtain notify wait m1 where r: "mo_round m err = (notify, wait, m1)" by (rule prod_cases3)
  obtain ns ws m2 where run: "mo_run m1 errs = (ns, ws, m2)" by (rule prod_cases3)
  note l = mo_round_level [OF Cons.prems r]
  show ?case using Cons.IH [OF l(1)] l(2-5) by (simp add: r run)
qed simp

text \<open>
  The availability monitor, over any sequence of probe results: every wait lies between 200 ms
  and 6.4 s, the client is up exactly when the last probe succeeded (and down before the first),
  and the observer is told exactly at the probes whose verdict differs from the one before. Six
  failures in a row do reach the wait of 6.4 s: the doubling is guarded by the old value, so the
  five seconds the documentation gives as the cap are exceeded.
\<close>

theorem monitor_waits_bounded:
  "list_all (\<lambda>w. 200 * millisecond \<le> w \<and> w \<le> 6400 * millisecond) (fst (snd (mo_run new_monitor errs)))
   \<and> mo_up (snd (snd (mo_run new_monitor errs))) = (errs \<noteq> [] \<and> last errs = None)
   \<and> fst (mo_run new_monitor errs) = map2 (\<noteq>) (False # map (\<lambda>e. e = None) errs) (map (\<lambda>e. e = None) errs)
   \<and> fst (snd (mo_run new_monitor (replicate 6 (Some e))))
       = map (\<lambda>k. k * millisecond) [200, 400, 800, 1600, 3200, 6400]"
proof -
  have new: "backoff_level (mo_backoff new_monitor)" "mo_up new_monitor = False"
    by (simp_all add: new_monitor_def backoff_level_init)
  have "fst (snd (mo_run new_monitor (replicate 6 (Some e)))) = map (\<lambda>k. k * millisecond) [200, 400, 800, 1600, 3200, 6400]"
    by (simp add: new_monitor_def mo_round_some numeral_eq_Suc millisecond_def second_def)
  then show ?thesis using mo_run_levels [OF new(1), of errs] new(2) by auto
qed

text \<open>
  Correlation of engine replies. A call succeeds exactly when the request fits the client's cap,
  the engine answered 200 with a body whose first MiB decodes, carries no error, speaks version 1 and echoes
  the request's own id; the frames are then the reply's. The observer hears exactly one outcome of
  each request that was sent. An error envelope is returned as the engine's refusal before its id
  and version are looked at.
\<close>

theorem engine_reply_correlated:
  "(fst (engine_signal http rid op) = Inr frames \<longleftrightarrow>
      length (request_body rid op) \<le> max_request_body \<and>
      (\<exists>reply wire. http (request_body rid op) = Inr (200, reply) \<and> decode_first set_wire_field zero_wire (take max_reply_body reply) = Some wire
         \<and> ew_Err wire = None \<and> ew_V wire = WireVersion \<and> ew_ID wire = rid \<and> ew_Frames wire = frames))
   \<and> snd (engine_signal http rid op) = (if length (request_body rid op) > max_request_body then []
        else [(op_name op, case fst (engine_signal http rid op) of Inl e \<Rightarrow> Some e | Inr _ \<Rightarrow> None)])
   \<and> check_reply rid (wire\<lparr>ew_Err := Some (code, message)\<rparr>) = Inl (EngineErr code message)"
  by (auto simp: engine_signal_def check_reply_def Let_def split: sum.splits option.splits prod.splits)

text \<open>What readiness reads of the client, after any mixture of monitor rounds and one-shot probes.\<close>

definition probed :: "engine_client \<Rightarrow> (bool \<times> (string + int \<times> string)) list \<Rightarrow> engine_client" where
  "probed c xs = foldl (\<lambda>c (once, resp). if once then snd (snd (health_now c resp)) else snd (snd (client_round c resp))) c xs"

text \<open>
  The availability facade tells the truth about the probes. The client is up exactly when the last
  probe was answered well, its error text is then empty, and otherwise that of the last probe; the
  health it shows is that of the last well-answered probe, however many failed since.
\<close>

theorem facade_follows_probes:
  fixes url :: string and timeout :: duration and xs :: "(bool \<times> (string + int \<times> string)) list"
  defines "c \<equiv> probed (new_client url timeout) xs" and "rs \<equiv> map (check_health \<circ> snd) xs"
  shows "mo_up (ec_monitor c) = (rs \<noteq> [] \<and> is_ok (last rs))"
    and "mo_lastErr (ec_monitor c) = (if rs = [] then [] else case last rs of Inl err \<Rightarrow> err_text err | Inr h \<Rightarrow> [])"
    and "ec_lastHealth c = (case filter is_ok (rev rs) of [] \<Rightarrow> None | r # _ \<Rightarrow> (case r of Inl _ \<Rightarrow> None | Inr h \<Rightarrow> Some h))"
proof -
  have f: "mo_up (snd (mo_transition m err)) = (err = None)" "mo_lastErr (snd (mo_transition m err)) = (case err of None \<Rightarrow> [] | Some e \<Rightarrow> e)"
    "mo_up (snd (snd (mo_round m err))) = (err = None)" "mo_lastErr (snd (snd (mo_round m err))) = (case err of None \<Rightarrow> [] | Some e \<Rightarrow> e)" for m err
    by (cases err; simp add: mo_transition_def mo_round_none mo_round_some)+
  have one: "let c' = (if once then snd (snd (health_now c resp)) else snd (snd (client_round c resp))) in
      mo_up (ec_monitor c') = is_ok (check_health resp)
      \<and> mo_lastErr (ec_monitor c') = (case check_health resp of Inl err \<Rightarrow> err_text err | Inr h \<Rightarrow> [])
      \<and> ec_lastHealth c' = (case check_health resp of Inl err \<Rightarrow> ec_lastHealth c | Inr h \<Rightarrow> Some h)" for c once resp
    by (cases "check_health resp") (simp_all add: health_now_def client_round_def probe_def case_prod_unfold f Let_def)
  have "mo_up (ec_monitor c) = (rs \<noteq> [] \<and> is_ok (last rs))
      \<and> mo_lastErr (ec_monitor c) = (if rs = [] then [] else case last rs of Inl err \<Rightarrow> err_text err | Inr h \<Rightarrow> [])
      \<and> ec_lastHealth c = (case filter is_ok (rev rs) of [] \<Rightarrow> None | r # _ \<Rightarrow> (case r of Inl _ \<Rightarrow> None | Inr h \<Rightarrow> Some h))"
    unfolding c_def rs_def
  proof (induction xs rule: rev_induct)
    case Nil
    show ?case by (simp add: probed_def new_client_def new_monitor_def)
  next
    case (snoc x xs)
    obtain once resp where x: "x = (once, resp)" by (cases x)
    have "probed (new_client url timeout) (xs @ [x]) = (if once then snd (snd (health_now (probed (new_client url timeout) xs) resp))
        else snd (snd (client_round (probed (new_client url timeout) xs) resp)))" by (simp add: probed_def x)
    then show ?case using one [of once "probed (new_client url timeout) xs" resp] snoc.IH
      by (cases "check_health resp") (simp_all add: x Let_def)
  qed
  then show "mo_up (ec_monitor c) = (rs \<noteq> [] \<and> is_ok (last rs))"
    "mo_lastErr (ec_monitor c) = (if rs = [] then [] else case last rs of Inl err \<Rightarrow> err_text err | Inr h \<Rightarrow> [])"
    "ec_lastHealth c = (case filter is_ok (rev rs) of [] \<Rightarrow> None | r # _ \<Rightarrow> (case r of Inl _ \<Rightarrow> None | Inr h \<Rightarrow> Some h))" by blast+
qed

end
