(* ===== verification/Gw_Metrics.thy ===== *)
theory Gw_Metrics
  imports Gw_Json Gw_Float "HOL-Library.Word"
begin

text \<open>
  The telemetry registry of the gateway (\<open>internal/observability/metrics\<close>): 64-bit atomic counters
  and gauges that wrap, and the Prometheus text of one scrape. The number of goroutines and the
  clock are arguments of the scrape.
\<close>

section \<open>Instruments\<close>

type_synonym int64 = "64 word"

record metrics_registry =
  mx_startedAt :: time
  mx_connectionsCurrent :: int64
  mx_connectionsTotal :: int64
  mx_connectionsRefused :: int64
  mx_authFailuresTotal :: int64
  mx_messagesReadTotal :: int64
  mx_rateLimitedTotal :: int64
  mx_deliveriesTotal :: int64
  mx_droppedTotal :: int64
  mx_ingestTotal :: int64
  mx_ingestDuplicates :: int64
  mx_ingestRejected :: int64
  mx_signalSessionsCurrent :: int64
  mx_signalSessionsTotal :: int64
  mx_signalRelayedTotal :: int64
  mx_presenceUsersCurrent :: int64
  mx_engineUp :: int64
  mx_engineCallsTotal :: int64
  mx_engineErrorsTotal :: int64
  mx_engineLatencySumMs :: int64
  mx_engineLatencyMaxMs :: int64
  mx_engineJoinTotal :: int64
  mx_engineJoinErrTotal :: int64
  mx_engineLeaveTotal :: int64
  mx_engineLeaveErrTotal :: int64
  mx_engineProbeTotal :: int64
  mx_engineProbeErrTotal :: int64

definition metrics_new :: "time \<Rightarrow> metrics_registry" where
  "metrics_new now =
     \<lparr>mx_startedAt = now,
      mx_connectionsCurrent = 0, mx_connectionsTotal = 0, mx_connectionsRefused = 0,
      mx_authFailuresTotal = 0, mx_messagesReadTotal = 0, mx_rateLimitedTotal = 0,
      mx_deliveriesTotal = 0, mx_droppedTotal = 0, mx_ingestTotal = 0,
      mx_ingestDuplicates = 0, mx_ingestRejected = 0, mx_signalSessionsCurrent = 0,
      mx_signalSessionsTotal = 0, mx_signalRelayedTotal = 0, mx_presenceUsersCurrent = 0,
      mx_engineUp = 0, mx_engineCallsTotal = 0, mx_engineErrorsTotal = 0,
      mx_engineLatencySumMs = 0, mx_engineLatencyMaxMs = 0, mx_engineJoinTotal = 0,
      mx_engineJoinErrTotal = 0, mx_engineLeaveTotal = 0, mx_engineLeaveErrTotal = 0,
      mx_engineProbeTotal = 0, mx_engineProbeErrTotal = 0\<rparr>"

definition conn_opened :: "metrics_registry \<Rightarrow> metrics_registry" where
  "conn_opened r = r\<lparr>mx_connectionsCurrent := mx_connectionsCurrent r + 1, mx_connectionsTotal := mx_connectionsTotal r + 1\<rparr>"
definition conn_closed :: "metrics_registry \<Rightarrow> metrics_registry" where
  "conn_closed r = r\<lparr>mx_connectionsCurrent := mx_connectionsCurrent r + (- 1)\<rparr>"
definition conn_refused :: "metrics_registry \<Rightarrow> metrics_registry" where
  "conn_refused r = r\<lparr>mx_connectionsRefused := mx_connectionsRefused r + 1\<rparr>"
definition metric_auth_failed :: "metrics_registry \<Rightarrow> metrics_registry" where
  "metric_auth_failed r = r\<lparr>mx_authFailuresTotal := mx_authFailuresTotal r + 1\<rparr>"
definition message_read :: "metrics_registry \<Rightarrow> metrics_registry" where
  "message_read r = r\<lparr>mx_messagesReadTotal := mx_messagesReadTotal r + 1\<rparr>"
definition metric_rate_limited :: "metrics_registry \<Rightarrow> metrics_registry" where
  "metric_rate_limited r = r\<lparr>mx_rateLimitedTotal := mx_rateLimitedTotal r + 1\<rparr>"
definition delivered :: "metrics_registry \<Rightarrow> int64 \<Rightarrow> metrics_registry" where
  "delivered r n = r\<lparr>mx_deliveriesTotal := mx_deliveriesTotal r + n\<rparr>"
definition dropped :: "metrics_registry \<Rightarrow> int64 \<Rightarrow> metrics_registry" where
  "dropped r n = r\<lparr>mx_droppedTotal := mx_droppedTotal r + n\<rparr>"
definition ingest_accepted :: "metrics_registry \<Rightarrow> metrics_registry" where
  "ingest_accepted r = r\<lparr>mx_ingestTotal := mx_ingestTotal r + 1\<rparr>"
definition ingest_duplicate :: "metrics_registry \<Rightarrow> metrics_registry" where
  "ingest_duplicate r = r\<lparr>mx_ingestDuplicates := mx_ingestDuplicates r + 1\<rparr>"
definition ingest_rejected :: "metrics_registry \<Rightarrow> metrics_registry" where
  "ingest_rejected r = r\<lparr>mx_ingestRejected := mx_ingestRejected r + 1\<rparr>"
definition signal_session_opened :: "metrics_registry \<Rightarrow> metrics_registry" where
  "signal_session_opened r = r\<lparr>mx_signalSessionsCurrent := mx_signalSessionsCurrent r + 1, mx_signalSessionsTotal := mx_signalSessionsTotal r + 1\<rparr>"
definition signal_session_closed :: "metrics_registry \<Rightarrow> metrics_registry" where
  "signal_session_closed r = r\<lparr>mx_signalSessionsCurrent := mx_signalSessionsCurrent r + (- 1)\<rparr>"
definition signal_relayed :: "metrics_registry \<Rightarrow> metrics_registry" where
  "signal_relayed r = r\<lparr>mx_signalRelayedTotal := mx_signalRelayedTotal r + 1\<rparr>"

definition set_presence_users :: "metrics_registry \<Rightarrow> int64 \<Rightarrow> metrics_registry" where
  "set_presence_users r n = r\<lparr>mx_presenceUsersCurrent := n\<rparr>"

definition presence_users_current :: "metrics_registry \<Rightarrow> int64" where
  "presence_users_current r = mx_presenceUsersCurrent r"

definition connections_current :: "metrics_registry \<Rightarrow> int64" where
  "connections_current r = mx_connectionsCurrent r"

section \<open>The engine link\<close>

definition milliseconds :: "duration \<Rightarrow> int" where
  "milliseconds d = go_div d millisecond"

definition latency_max :: "int64 \<Rightarrow> int64 \<Rightarrow> int64" where
  "latency_max prev ms = (if ms <=s prev then prev else ms)"

definition engine_call :: "metrics_registry \<Rightarrow> string \<Rightarrow> duration \<Rightarrow> bool \<Rightarrow> metrics_registry" where
  "engine_call r op took failed =
     (let r1 = r\<lparr>mx_engineCallsTotal := mx_engineCallsTotal r + 1\<rparr>;
          r2 = (if op = ''join'' then
                  r1\<lparr>mx_engineJoinTotal := mx_engineJoinTotal r1 + 1,
                     mx_engineJoinErrTotal := mx_engineJoinErrTotal r1 + (if failed then 1 else 0)\<rparr>
                else if op = ''leave'' then
                  r1\<lparr>mx_engineLeaveTotal := mx_engineLeaveTotal r1 + 1,
                     mx_engineLeaveErrTotal := mx_engineLeaveErrTotal r1 + (if failed then 1 else 0)\<rparr>
                else r1);
          r3 = (if failed then r2\<lparr>mx_engineErrorsTotal := mx_engineErrorsTotal r2 + 1\<rparr> else r2);
          ms = word_of_int (milliseconds took)
      in r3\<lparr>mx_engineLatencySumMs := mx_engineLatencySumMs r3 + ms,
            mx_engineLatencyMaxMs := latency_max (mx_engineLatencyMaxMs r3) ms\<rparr>)"

definition engine_probe :: "metrics_registry \<Rightarrow> duration \<Rightarrow> bool \<Rightarrow> metrics_registry" where
  "engine_probe r took failed =
     r\<lparr>mx_engineProbeTotal := mx_engineProbeTotal r + 1,
       mx_engineLatencySumMs := mx_engineLatencySumMs r + word_of_int (milliseconds took),
       mx_engineProbeErrTotal := mx_engineProbeErrTotal r + (if failed then 1 else 0)\<rparr>"

definition set_engine_up :: "metrics_registry \<Rightarrow> bool \<Rightarrow> metrics_registry" where
  "set_engine_up r up = r\<lparr>mx_engineUp := (if up then 1 else 0)\<rparr>"

definition engine_up :: "metrics_registry \<Rightarrow> bool" where
  "engine_up r = (mx_engineUp r = 1)"

section \<open>Exposition\<close>

datatype instrument_kind = Gauge | Counter

definition newline :: char where "newline = CHR 0x0A"

definition write_instrument :: "instrument_kind \<Rightarrow> string \<Rightarrow> string \<Rightarrow> int \<Rightarrow> string" where
  "write_instrument k name descr value =
     ''# HELP '' @ name @ '' '' @ descr @ [newline]
     @ ''# TYPE '' @ name @ '' '' @ (case k of Gauge \<Rightarrow> ''gauge'' | Counter \<Rightarrow> ''counter'') @ [newline]
     @ name @ '' '' @ json_int value @ [newline]"

definition exposition ::
  "metrics_registry \<Rightarrow> int \<Rightarrow> int \<Rightarrow> int \<Rightarrow> time \<Rightarrow> (instrument_kind \<times> string \<times> string \<times> int) list"
where
  "exposition r rooms tenants goroutines now =
     [(Gauge, ''voxdesk_gateway_connections_current'', ''Live WebSocket connections.'', sint (mx_connectionsCurrent r)),
      (Counter, ''voxdesk_gateway_connections_total'', ''Connections accepted since boot.'', sint (mx_connectionsTotal r)),
      (Counter, ''voxdesk_gateway_connections_refused_total'', ''Upgrades rejected by capacity limits.'', sint (mx_connectionsRefused r)),
      (Counter, ''voxdesk_gateway_auth_failures_total'', ''Hello frames rejected by token verification.'', sint (mx_authFailuresTotal r)),
      (Counter, ''voxdesk_gateway_messages_read_total'', ''Client frames read after upgrade.'', sint (mx_messagesReadTotal r)),
      (Counter, ''voxdesk_gateway_rate_limited_total'', ''Client frames rejected by the per-connection limiter.'', sint (mx_rateLimitedTotal r)),
      (Counter, ''voxdesk_gateway_deliveries_total'', ''Frames enqueued to subscriber queues.'', sint (mx_deliveriesTotal r)),
      (Counter, ''voxdesk_gateway_dropped_total'', ''Frames dropped from full subscriber queues (backpressure-drop).'', sint (mx_droppedTotal r)),
      (Counter, ''voxdesk_gateway_ingest_total'', ''Accepted ingest publishes.'', sint (mx_ingestTotal r)),
      (Counter, ''voxdesk_gateway_ingest_duplicates_total'', ''Ingest publishes suppressed by the replay cache.'', sint (mx_ingestDuplicates r)),
      (Counter, ''voxdesk_gateway_ingest_rejected_total'', ''Ingest requests rejected (auth/size/shape).'', sint (mx_ingestRejected r)),
      (Gauge, ''voxdesk_gateway_rooms_current'', ''Rooms with at least one subscriber.'', rooms),
      (Gauge, ''voxdesk_gateway_tenants_current'', ''Tenants with at least one live connection.'', tenants),
      (Gauge, ''voxdesk_gateway_signal_sessions_current'', ''Live signaling sessions (point-to-point negotiations).'', sint (mx_signalSessionsCurrent r)),
      (Counter, ''voxdesk_gateway_signal_sessions_total'', ''Signaling sessions created since boot.'', sint (mx_signalSessionsTotal r)),
      (Counter, ''voxdesk_gateway_signal_relayed_total'', ''Offer/answer/candidate frames forwarded to a peer.'', sint (mx_signalRelayedTotal r)),
      (Gauge, ''voxdesk_gateway_presence_users_current'', ''Reachable (tenant, user) pairs on this node (JWT-verified identities).'', sint (mx_presenceUsersCurrent r)),
      (Gauge, ''voxdesk_gateway_engine_up'', ''Media-engine availability as seen by the health monitor (0/1).'', sint (mx_engineUp r)),
      (Counter, ''voxdesk_gateway_engine_signal_calls_total'', ''Control-plane calls to the media engine.'', sint (mx_engineCallsTotal r)),
      (Counter, ''voxdesk_gateway_engine_signal_errors_total'', ''Control-plane calls that failed (any cause).'', sint (mx_engineErrorsTotal r)),
      (Counter, ''voxdesk_gateway_engine_join_total'', ''Engine join signals issued.'', sint (mx_engineJoinTotal r)),
      (Counter, ''voxdesk_gateway_engine_join_errors_total'', ''Engine joins refused or lost.'', sint (mx_engineJoinErrTotal r)),
      (Counter, ''voxdesk_gateway_engine_leave_total'', ''Engine leave signals issued.'', sint (mx_engineLeaveTotal r)),
      (Counter, ''voxdesk_gateway_engine_leave_errors_total'', ''Engine leaves refused or lost.'', sint (mx_engineLeaveErrTotal r)),
      (Counter, ''voxdesk_gateway_engine_probes_total'', ''Availability probes to /v1/health.'', sint (mx_engineProbeTotal r)),
      (Counter, ''voxdesk_gateway_engine_probe_errors_total'', ''Availability probes that failed.'', sint (mx_engineProbeErrTotal r)),
      (Gauge, ''voxdesk_gateway_engine_latency_ms_sum'', ''Sum of engine round-trip milliseconds ('' @ [CHR 0xC3, CHR 0xB7] @ ''calls for mean).'', sint (mx_engineLatencySumMs r)),
      (Gauge, ''voxdesk_gateway_engine_latency_ms_max'', ''Worst observed engine round trip (ms, never reset).'', sint (mx_engineLatencyMaxMs r)),
      (Gauge, ''voxdesk_gateway_goroutines'', ''Live goroutines (leak canary).'', goroutines),
      (Gauge, ''voxdesk_gateway_uptime_seconds'', ''Seconds since boot.'', whole (duration_seconds (time_sub now (mx_startedAt r))))]"

definition render :: "metrics_registry \<Rightarrow> int \<Rightarrow> int \<Rightarrow> int \<Rightarrow> time \<Rightarrow> string" where
  "render r rooms tenants goroutines now =
     concat (map (\<lambda>(k, name, descr, v). write_instrument k name descr v) (exposition r rooms tenants goroutines now))"

section \<open>What a scraper reads\<close>

text \<open>The samples of a scrape: the lines that are not comments, split at the first blank.\<close>

definition sample_line :: "string \<Rightarrow> (string \<times> string) list" where
  "sample_line l =
     (if l = [] \<or> hd l = CHR ''#'' then []
      else [(takeWhile (\<lambda>c. c \<noteq> CHR '' '') l, drop 1 (dropWhile (\<lambda>c. c \<noteq> CHR '' '') l))])"

definition samples :: "string \<Rightarrow> (string \<times> string) list" where
  "samples doc = concat (map sample_line (split_on newline doc))"

definition name_ok :: "string \<Rightarrow> bool" where
  "name_ok n \<longleftrightarrow> n \<noteq> [] \<and> hd n \<noteq> CHR ''#'' \<and> list_all (\<lambda>c. c \<noteq> CHR '' '' \<and> c \<noteq> newline) n"

lemma newline_not_in_int: "newline \<notin> set (json_int n)"
proof -
  have "newline \<notin> set (dec_nat k)" for k
    using dec_nat_digits [of k] by (auto simp: list_all_iff is_digit_def newline_def byte_val_def)
  then show ?thesis by (simp add: json_int_def newline_def)
qed

lemma samples_append:
  assumes "newline \<notin> set l"
  shows "samples (l @ newline # rest) = sample_line l @ samples rest"
  using assms by (simp add: samples_def split_on_append)

lemma sample_value: "name_ok n \<Longrightarrow> sample_line (n @ '' '' @ v) = [(n, v)]"
proof -
  assume n: "name_ok n"
  then have "\<forall>c \<in> set n. c \<noteq> CHR '' ''" by (auto simp: name_ok_def list_all_iff)
  then have "takeWhile (\<lambda>c. c \<noteq> CHR '' '') (n @ '' '' @ v) = n" "dropWhile (\<lambda>c. c \<noteq> CHR '' '') (n @ '' '' @ v) = '' '' @ v"
    by (simp_all add: takeWhile_append2 dropWhile_append2)
  with n show ?thesis by (simp add: sample_line_def name_ok_def)
qed

lemma samples_three_lines:
  assumes "newline \<notin> set a" and "newline \<notin> set b" and "newline \<notin> set c"
  shows "samples (a @ newline # b @ newline # c @ newline # rest) = sample_line a @ sample_line b @ sample_line c @ samples rest"
  using assms by (simp add: samples_append)

lemma samples_instrument:
  assumes "name_ok name" and "newline \<notin> set descr"
  shows "samples (write_instrument k name descr v @ rest) = (name, json_int v) # samples rest"
proof -
  have nl: "newline \<notin> set name" using assms(1) by (auto simp: name_ok_def list_all_iff)
  let ?descr = "''# HELP '' @ name @ '' '' @ descr"
  let ?type = "''# TYPE '' @ name @ '' '' @ (case k of Gauge \<Rightarrow> ''gauge'' | Counter \<Rightarrow> ''counter'')"
  have h: "newline \<notin> set ?descr" using nl assms(2) by (simp add: newline_def)
  have ty: "newline \<notin> set ?type" using nl by (simp add: newline_def split: instrument_kind.split)
  have val: "newline \<notin> set (name @ '' '' @ json_int v)" using nl newline_not_in_int [of v] by (simp add: newline_def)
  have "write_instrument k name descr v @ rest = ?descr @ newline # ?type @ newline # (name @ '' '' @ json_int v) @ newline # rest"
    by (simp add: write_instrument_def)
  moreover have "sample_line ?descr = []" "sample_line ?type = []" by (simp_all add: sample_line_def)
  ultimately show ?thesis
    using samples_three_lines [OF h ty val, of rest] sample_value [OF assms(1)] by (simp only: append_Nil append_Cons)
qed

lemma samples_concat:
  "list_all (\<lambda>(k, name, descr, v). name_ok name \<and> newline \<notin> set descr) rows \<Longrightarrow>
   samples (concat (map (\<lambda>(k, name, descr, v). write_instrument k name descr v) rows))
     = map (\<lambda>(k, name, descr, v). (name, json_int v)) rows"
proof (induction rows)
  case Nil
  then show ?case by (simp add: samples_def sample_line_def)
next
  case (Cons row rows)
  then show ?case by (cases row) (simp add: samples_instrument)
qed

lemma exposition_names_ok:
  "list_all (\<lambda>(k, name, descr, v). name_ok name \<and> newline \<notin> set descr) (exposition r rooms tenants goroutines now)"
  unfolding exposition_def by (simp add: name_ok_def newline_def)

lemma exposition_distinct: "distinct (map (\<lambda>(k, name, descr, v). name) (exposition r rooms tenants goroutines now))"
  unfolding exposition_def by simp

section \<open>Properties\<close>

text \<open>
  A scrape reads back the registry. The text of \<open>Render\<close>, read the way a Prometheus scraper reads
  it (comment lines dropped, name and value split at the blank), yields one sample per instrument, in
  order, with the decimal text of its value, under names that are all different.
\<close>

theorem scrape_reads_registry:
  "samples (render r rooms tenants goroutines now)
     = map (\<lambda>(k, name, descr, v). (name, json_int v)) (exposition r rooms tenants goroutines now)
   \<and> distinct (map fst (samples (render r rooms tenants goroutines now)))"
proof -
  have "samples (render r rooms tenants goroutines now)
      = map (\<lambda>(k, name, descr, v). (name, json_int v)) (exposition r rooms tenants goroutines now)"
    unfolding render_def by (rule samples_concat [OF exposition_names_ok])
  then show ?thesis using exposition_distinct [of r rooms tenants goroutines now]
    by (simp add: case_prod_unfold comp_def)
qed

text \<open>One observation of the engine client: a call with its operation, or a health probe.\<close>

definition observe_engine :: "string option \<times> duration \<times> bool \<Rightarrow> metrics_registry \<Rightarrow> metrics_registry" where
  "observe_engine obs r =
     (case obs of (Some op, took, failed) \<Rightarrow> engine_call r op took failed | (None, took, failed) \<Rightarrow> engine_probe r took failed)"

fun counted :: "(string \<Rightarrow> bool) \<Rightarrow> (bool \<Rightarrow> bool) \<Rightarrow> string option \<times> duration \<times> bool \<Rightarrow> bool" where
  "counted p q (Some op, took, failed) = (p op \<and> q failed)"
| "counted p q (None, took, failed) = False"

definition calls_with :: "(string \<Rightarrow> bool) \<Rightarrow> (bool \<Rightarrow> bool) \<Rightarrow> (string option \<times> duration \<times> bool) list \<Rightarrow> int64" where
  "calls_with p q obs = of_nat (length (filter (counted p q) obs))"

lemma calls_with_simps [simp]:
  "calls_with p q [] = 0"
  "calls_with p q (ob # obs) = (if counted p q ob then 1 else 0) + calls_with p q obs"
  by (simp_all add: calls_with_def)

lemma engine_call_simps:
  "mx_engineLatencySumMs (engine_call r op took failed) = mx_engineLatencySumMs r + word_of_int (milliseconds took)"
  "mx_engineCallsTotal (engine_call r op took failed) = mx_engineCallsTotal r + 1"
  "mx_engineErrorsTotal (engine_call r op took failed) = mx_engineErrorsTotal r + (if failed then 1 else 0)"
  "mx_engineJoinTotal (engine_call r op took failed) = mx_engineJoinTotal r + (if op = ''join'' then 1 else 0)"
  "mx_engineJoinErrTotal (engine_call r op took failed) = mx_engineJoinErrTotal r + (if op = ''join'' \<and> failed then 1 else 0)"
  "mx_engineLeaveTotal (engine_call r op took failed) = mx_engineLeaveTotal r + (if op = ''leave'' then 1 else 0)"
  "mx_engineLeaveErrTotal (engine_call r op took failed) = mx_engineLeaveErrTotal r + (if op = ''leave'' \<and> failed then 1 else 0)"
  by (auto simp: engine_call_def Let_def)

lemma observe_engine_simps:
  "mx_engineLatencySumMs (observe_engine (op, took, failed) r) = mx_engineLatencySumMs r + word_of_int (milliseconds took)"
  "mx_engineCallsTotal (observe_engine (op, took, failed) r)
     = mx_engineCallsTotal r + (if counted (\<lambda>op. True) (\<lambda>f. True) (op, took, failed) then 1 else 0)"
  "mx_engineErrorsTotal (observe_engine (op, took, failed) r)
     = mx_engineErrorsTotal r + (if counted (\<lambda>op. True) (\<lambda>f. f) (op, took, failed) then 1 else 0)"
  "mx_engineJoinTotal (observe_engine (op, took, failed) r)
     = mx_engineJoinTotal r + (if counted (\<lambda>op. op = ''join'') (\<lambda>f. True) (op, took, failed) then 1 else 0)"
  "mx_engineJoinErrTotal (observe_engine (op, took, failed) r)
     = mx_engineJoinErrTotal r + (if counted (\<lambda>op. op = ''join'') (\<lambda>f. f) (op, took, failed) then 1 else 0)"
  "mx_engineLeaveTotal (observe_engine (op, took, failed) r)
     = mx_engineLeaveTotal r + (if counted (\<lambda>op. op = ''leave'') (\<lambda>f. True) (op, took, failed) then 1 else 0)"
  "mx_engineLeaveErrTotal (observe_engine (op, took, failed) r)
     = mx_engineLeaveErrTotal r + (if counted (\<lambda>op. op = ''leave'') (\<lambda>f. f) (op, took, failed) then 1 else 0)"
  by (cases op; simp add: observe_engine_def engine_call_simps engine_probe_def)+

lemma observe_engine_sums:
  "mx_engineLatencySumMs (fold observe_engine obs r)
     = mx_engineLatencySumMs r + (\<Sum>(op, took, failed) \<leftarrow> obs. word_of_int (milliseconds took))"
  "mx_engineCallsTotal (fold observe_engine obs r) = mx_engineCallsTotal r + calls_with (\<lambda>op. True) (\<lambda>f. True) obs"
  "mx_engineErrorsTotal (fold observe_engine obs r) = mx_engineErrorsTotal r + calls_with (\<lambda>op. True) (\<lambda>f. f) obs"
  "mx_engineJoinTotal (fold observe_engine obs r) = mx_engineJoinTotal r + calls_with (\<lambda>op. op = ''join'') (\<lambda>f. True) obs"
  "mx_engineJoinErrTotal (fold observe_engine obs r) = mx_engineJoinErrTotal r + calls_with (\<lambda>op. op = ''join'') (\<lambda>f. f) obs"
  "mx_engineLeaveTotal (fold observe_engine obs r) = mx_engineLeaveTotal r + calls_with (\<lambda>op. op = ''leave'') (\<lambda>f. True) obs"
  "mx_engineLeaveErrTotal (fold observe_engine obs r) = mx_engineLeaveErrTotal r + calls_with (\<lambda>op. op = ''leave'') (\<lambda>f. f) obs"
  by (induction obs arbitrary: r; simp add: observe_engine_simps split_paired_all)+

text \<open>
  Engine telemetry after any mix of calls and health probes since boot: the call, join and leave
  counters and their error counters count exactly the calls of their kind (modulo \<open>2 ^ 64\<close>), while
  the latency sum adds up the calls \<^emph>\<open>and\<close> the probes. Dividing the exported sum by the exported
  number of calls is therefore not the mean call latency as soon as a probe took a millisecond.
\<close>

theorem engine_telemetry_counts:
  "let r = fold observe_engine obs (metrics_new t0) in
     mx_engineCallsTotal r = calls_with (\<lambda>op. True) (\<lambda>f. True) obs
     \<and> mx_engineErrorsTotal r = calls_with (\<lambda>op. True) (\<lambda>f. f) obs
     \<and> mx_engineJoinTotal r = calls_with (\<lambda>op. op = ''join'') (\<lambda>f. True) obs
     \<and> mx_engineJoinErrTotal r = calls_with (\<lambda>op. op = ''join'') (\<lambda>f. f) obs
     \<and> mx_engineLeaveTotal r = calls_with (\<lambda>op. op = ''leave'') (\<lambda>f. True) obs
     \<and> mx_engineLeaveErrTotal r = calls_with (\<lambda>op. op = ''leave'') (\<lambda>f. f) obs
     \<and> mx_engineLatencySumMs r = (\<Sum>(op, took, failed) \<leftarrow> obs. word_of_int (milliseconds took))"
  by (simp add: Let_def observe_engine_sums metrics_new_def)

end
