(* ===== verification/Gw_Router.thy ===== *)
theory Gw_Router
  imports Gw_Session_Spec Gw_Backpressure Gw_Engine Gw_Metrics
begin

text \<open>
  The signaling router of the gateway (\<open>internal/signaling\<close>): the relay between two connections of
  one session, the steer plane that sends a session's frames to the media engine instead, and the
  translation of session events and errors into frames on the outgoing queues. A handler runs to its
  end before the next one starts; what it reads of the connections (liveness, pinned tenant, steer
  marker), of the engine client and of the configuration is the record \<open>wiring\<close>. The engine's
  answer may depend on all calls made so far.
\<close>

section \<open>State\<close>

record wiring =
  w_live :: "string \<Rightarrow> bool" \<comment> \<open>the hub's lookup finds the connection\<close>
  w_tenant :: "string \<Rightarrow> string"
  w_steerCapable :: "string \<Rightarrow> bool"
  w_engine :: "(engine_op list \<Rightarrow> engine_op \<Rightarrow> engine_err + engine_frame list) option"
  w_up :: bool
  w_steerMode :: string
  w_num :: "string \<Rightarrow> string option" \<comment> \<open>a number literal printed again after \<open>float64\<close>; \<open>None\<close> out of range\<close>
  w_now :: time

record router =
  ro_m :: manager
  ro_engineSessions :: "(string, string) fmap"
  ro_steerSessions :: "string fset"
  ro_relayedTotal :: int64
  ro_reg :: metrics_registry
  ro_qs :: "string \<Rightarrow> frame queue" \<comment> \<open>the outgoing queue of every connection\<close>
  ro_calls :: "engine_op list" \<comment> \<open>the calls made to the engine, in order\<close>

definition new_router :: "manager \<Rightarrow> metrics_registry \<Rightarrow> (string \<Rightarrow> frame queue) \<Rightarrow> router" where
  "new_router m reg qs =
     \<lparr>ro_m = m, ro_engineSessions = fmempty, ro_steerSessions = {||}, ro_relayedTotal = 0, ro_reg = reg,
      ro_qs = qs, ro_calls = []\<rparr>"

definition sub_enqueue :: "router \<Rightarrow> string \<Rightarrow> frame \<Rightarrow> bool \<times> router" where
  "sub_enqueue r c f = (let (ok, q) = enqueue (ro_qs r c) f in (ok, r\<lparr>ro_qs := (ro_qs r)(c := q)\<rparr>))"

definition engine_do ::
  "(engine_op list \<Rightarrow> engine_op \<Rightarrow> engine_err + engine_frame list) \<Rightarrow> router \<Rightarrow> engine_op
    \<Rightarrow> (engine_err + engine_frame list) \<times> router"
where
  "engine_do eng r op = (eng (ro_calls r) op, r\<lparr>ro_calls := ro_calls r @ [op]\<rparr>)"

definition reg_dropped :: "router \<Rightarrow> router" where
  "reg_dropped r = r\<lparr>ro_reg := dropped (ro_reg r) 1\<rparr>"

section \<open>Refusals\<close>

definition refuse :: "router \<Rightarrow> string \<Rightarrow> string \<Rightarrow> string \<Rightarrow> router" where
  "refuse r c code message = snd (sub_enqueue r c (new_error code message))"

definition fail_code :: "session_error \<Rightarrow> string \<times> string" where
  "fail_code cause =
     (case cause of
        ErrUnknownSession \<Rightarrow> (CodeSessionUnknown, ''no such session'')
      | ErrTooManySessions \<Rightarrow> (CodeSessionFull, ''too many concurrent sessions for this account'')
      | ErrAlreadyInSession \<Rightarrow> (CodeAlreadyInSession, ''this connection already holds a session'')
      | ErrSessionNotReady \<Rightarrow> (CodeSessionNotReady, ''the peer has not joined yet'')
      | ErrWrongState \<Rightarrow> (CodeWrongSignalState, ''not possible in the session's current state'')
      | ErrSessionFull \<Rightarrow> (CodeWrongSignalState, ''not possible in the session's current state'')
      | ErrGenerateId e \<Rightarrow> (CodeBadMessage, ''could not process the signaling message''))"

definition fail :: "router \<Rightarrow> string \<Rightarrow> session_error \<Rightarrow> router" where
  "fail r c cause = snd (sub_enqueue r c (new_error (fst (fail_code cause)) (snd (fail_code cause))))"

section \<open>Engine hooks\<close>

definition engine_key :: "string \<Rightarrow> string \<Rightarrow> string" where
  "engine_key connID sessionID = connID @ '':'' @ sessionID"

definition engine_join_hook :: "wiring \<Rightarrow> router \<Rightarrow> string \<Rightarrow> string \<Rightarrow> router" where
  "engine_join_hook w r c sessionID =
     (case w_engine w of
        None \<Rightarrow> r
      | Some eng \<Rightarrow>
          let room = w_tenant w c @ '':'' @ sessionID;
              (res, r1) = engine_do eng r (EJoin room c)
          in case engine_join res of
               Inl err \<Rightarrow> r1
             | Inr s \<Rightarrow> r1\<lparr>ro_engineSessions := fmupd (engine_key c sessionID) s (ro_engineSessions r1)\<rparr>)"

definition engine_leave_key ::
  "(engine_op list \<Rightarrow> engine_op \<Rightarrow> engine_err + engine_frame list) \<Rightarrow> router \<Rightarrow> string \<Rightarrow> router"
where
  "engine_leave_key eng r key =
     (case fmlookup (ro_engineSessions r) key of
        None \<Rightarrow> r
      | Some s \<Rightarrow> snd (engine_do eng (r\<lparr>ro_engineSessions := fmdrop key (ro_engineSessions r)\<rparr>) (ELeave s)))"

definition engine_leave_hook :: "wiring \<Rightarrow> router \<Rightarrow> string \<Rightarrow> string \<Rightarrow> router" where
  "engine_leave_hook w r connID sessionID =
     (case w_engine w of None \<Rightarrow> r | Some eng \<Rightarrow> engine_leave_key eng r (engine_key connID sessionID))"

text \<open>\<open>ord\<close> is the order in which \<open>Range\<close> visits the map.\<close>

definition engine_leave_all_for_conn :: "wiring \<Rightarrow> router \<Rightarrow> string list \<Rightarrow> string \<Rightarrow> router" where
  "engine_leave_all_for_conn w r ord connID =
     (case w_engine w of
        None \<Rightarrow> r
      | Some eng \<Rightarrow>
          let prefix = connID @ '':'';
              keys = filter (\<lambda>k. length k > length prefix \<and> has_prefix k prefix) ord
          in fold (\<lambda>k r. engine_leave_key eng r k) keys r)"

section \<open>Events to frames\<close>

record emit_state =
  em_ended :: "string fset"
  em_cleared :: "string fset"
  em_r :: router

definition forwarded :: "router \<Rightarrow> router" where
  "forwarded r = r\<lparr>ro_relayedTotal := ro_relayedTotal r + 1, ro_reg := signal_relayed (ro_reg r)\<rparr>"

definition clear_steer :: "string \<Rightarrow> emit_state \<Rightarrow> emit_state" where
  "clear_steer sid e =
     (if sid |\<in>| em_cleared e then e
      else e\<lparr>em_cleared := finsert sid (em_cleared e),
             em_r := (em_r e)\<lparr>ro_steerSessions := ro_steerSessions (em_r e) |-| {|sid|}\<rparr>\<rparr>)"

text \<open>The \<open>switch\<close> over the kind: the frame, whether it is a relayed one, and the state after its side effects.\<close>

definition translate :: "wiring \<Rightarrow> (string \<Rightarrow> bool) \<Rightarrow> emit_state \<Rightarrow> event \<Rightarrow> frame \<times> bool \<times> emit_state" where
  "translate w steerByID e ev =
     (let sid = ev_SessionID ev; c = ev_Recipient ev in
      case ev_Kind ev of
        EvStarted \<Rightarrow>
          (new_session_started sid, False,
           e\<lparr>em_r := engine_join_hook w ((em_r e)\<lparr>ro_reg := signal_session_opened (ro_reg (em_r e))\<rparr>) c sid\<rparr>)
      | EvJoined \<Rightarrow> (new_session_joined sid (steerByID sid), False, e\<lparr>em_r := engine_join_hook w (em_r e) c sid\<rparr>)
      | EvPeerJoined \<Rightarrow> (new_session_peer_joined sid (ev_PeerRole ev) (steerByID sid), False, e)
      | EvEnded \<Rightarrow>
          (new_session_ended sid (ev_Reason ev), False,
           if sid |\<in>| em_ended e then e
           else e\<lparr>em_ended := finsert sid (em_ended e),
                  em_r := (em_r e)\<lparr>ro_reg := signal_session_closed (ro_reg (em_r e))\<rparr>\<rparr>)
      | EvForwardOffer \<Rightarrow> (new_signal_offer sid (ev_SDP ev), True, e)
      | EvForwardAnswer \<Rightarrow> (new_signal_answer sid (ev_SDP ev), True, e)
      | EvForwardCandidate \<Rightarrow> (new_signal_candidate sid (ev_Candidate ev), True, e))"

text \<open>A full queue: the session is ended and the events of that end are thrown away.\<close>

definition drop_on_full :: "wiring \<Rightarrow> router \<Rightarrow> event \<Rightarrow> router" where
  "drop_on_full w r ev =
     (let r1 = reg_dropped r
      in r1\<lparr>ro_m := snd (mgr_end (ro_m r1) (w_tenant w (ev_Recipient ev)) (ev_SessionID ev) (ev_Recipient ev)
              ReasonPeerDisconnected (w_now w))\<rparr>)"

definition emit_event :: "wiring \<Rightarrow> (string \<Rightarrow> bool) \<Rightarrow> event \<Rightarrow> emit_state \<Rightarrow> emit_state" where
  "emit_event w steerByID ev e0 =
     (let e1 = (if ev_Kind ev = EvEnded
                then clear_steer (ev_SessionID ev)
                  (e0\<lparr>em_r := engine_leave_hook w (em_r e0) (ev_Recipient ev) (ev_SessionID ev)\<rparr>)
                else e0)
      in if \<not> w_live w (ev_Recipient ev) then e1
         else
           let (f, relayed, e2) = translate w steerByID e1 ev;
               (ok, r) = sub_enqueue (em_r e2) (ev_Recipient ev) f
           in if \<not> ok then e2\<lparr>em_r := drop_on_full w r ev\<rparr>
              else if relayed then e2\<lparr>em_r := forwarded r\<rparr>
              else e2\<lparr>em_r := r\<rparr>)"

definition emit_with_steer :: "wiring \<Rightarrow> router \<Rightarrow> event list \<Rightarrow> (string \<Rightarrow> bool) \<Rightarrow> router" where
  "emit_with_steer w r events steerByID =
     em_r (fold (emit_event w steerByID) events \<lparr>em_ended = {||}, em_cleared = {||}, em_r = r\<rparr>)"

definition emit :: "wiring \<Rightarrow> router \<Rightarrow> event list \<Rightarrow> router" where
  "emit w r events = emit_with_steer w r events (\<lambda>sid. False)"

section \<open>Steer negotiation\<close>

definition steer_decision :: "wiring \<Rightarrow> string \<Rightarrow> event list \<Rightarrow> bool" where
  "steer_decision w joined events =
     (if w_engine w = None \<or> w_steerMode w = '''' \<or> w_steerMode w = ''off'' \<or> \<not> w_up w then False
      else if w_steerMode w = ''force'' then True
      else if \<not> w_steerCapable w joined then False
      else
        let initiatorID = (case find (\<lambda>ev. ev_Kind ev = EvPeerJoined) events of None \<Rightarrow> '''' | Some ev \<Rightarrow> ev_Recipient ev)
        in if initiatorID = '''' then False
           else if \<not> w_live w initiatorID \<or> \<not> w_steerCapable w initiatorID then False
           else True)"

definition negotiate_steer :: "wiring \<Rightarrow> router \<Rightarrow> string \<Rightarrow> string \<Rightarrow> event list \<Rightarrow> (string \<Rightarrow> bool) \<times> router" where
  "negotiate_steer w r joined sessionID events =
     (let steer = steer_decision w joined events
      in (\<lambda>sid. sid = sessionID \<and> steer,
          if steer then r\<lparr>ro_steerSessions := finsert sessionID (ro_steerSessions r)\<rparr> else r))"

definition is_steered :: "router \<Rightarrow> string \<Rightarrow> bool" where
  "is_steered r sessionID \<longleftrightarrow> sessionID |\<in>| ro_steerSessions r"

section \<open>Relay handlers\<close>

text \<open>The tail of every handler: an error goes to the sender, events are emitted.\<close>

definition settle :: "wiring \<Rightarrow> router \<Rightarrow> string \<Rightarrow> (session_error + event list) \<times> manager \<Rightarrow> router" where
  "settle w r c res =
     (case res of
        (Inl err, m) \<Rightarrow> fail (r\<lparr>ro_m := m\<rparr>) c err
      | (Inr events, m) \<Rightarrow> emit w (r\<lparr>ro_m := m\<rparr>) events)"

definition handle_offer :: "wiring \<Rightarrow> router \<Rightarrow> string \<Rightarrow> client_message \<Rightarrow> router" where
  "handle_offer w r c msg =
     (if is_steered r (cm_SessionID msg) then
        refuse r c CodeSteerModeBlocked ''session is steered to the media engine; use engine.offer''
      else if \<not> is_valid_sdp (cm_SDP msg) then
        refuse r c CodeBadMessage ''sdp must be an SDP blob (the 'v=' version line first)''
      else if length (cm_SDP msg) > MaxSDPLength then
        refuse r c CodeSignalTooLarge ''sdp body exceeds the relay cap''
      else settle w r c (mgr_offer (ro_m r) (w_tenant w c) (cm_SessionID msg) c (cm_SDP msg) (w_now w)))"

definition handle_answer :: "wiring \<Rightarrow> router \<Rightarrow> string \<Rightarrow> client_message \<Rightarrow> router" where
  "handle_answer w r c msg =
     (if is_steered r (cm_SessionID msg) then
        refuse r c CodeSteerModeBlocked ''session is steered to the media engine; use engine.offer''
      else if \<not> is_valid_sdp (cm_SDP msg) then
        refuse r c CodeBadMessage ''sdp must be an SDP blob (the 'v=' version line first)''
      else if length (cm_SDP msg) > MaxSDPLength then
        refuse r c CodeSignalTooLarge ''sdp body exceeds the relay cap''
      else settle w r c (mgr_answer (ro_m r) (w_tenant w c) (cm_SessionID msg) c (cm_SDP msg) (w_now w)))"

definition handle_candidate :: "wiring \<Rightarrow> router \<Rightarrow> string \<Rightarrow> client_message \<Rightarrow> router" where
  "handle_candidate w r c msg =
     (if is_steered r (cm_SessionID msg) then
        refuse r c CodeSteerModeBlocked ''session is steered to the media engine; use engine.candidate''
      else if \<not> candidate_is_object (cm_Candidate msg) then
        refuse r c CodeBadMessage ''candidate must be an ICE candidate object or null''
      else settle w r c (mgr_candidate (ro_m r) (w_tenant w c) (cm_SessionID msg) c (cm_Candidate msg)))"

section \<open>Engine handlers\<close>

definition engine_wire_code :: "string \<Rightarrow> string" where
  "engine_wire_code code =
     (if code = ''bad_message'' then CodeBadMessage
      else if code = ''room_full'' \<or> code = ''over_limit'' then CodeOverLimit
      else if code = ''wrong_state'' then CodeWrongSignalState
      else CodeBadMessage)"

definition engine_refusal :: "router \<Rightarrow> string \<Rightarrow> engine_err \<Rightarrow> router" where
  "engine_refusal r c err =
     (if is_unavailable err
      then refuse r c CodeEngineUnavailable ''media engine is temporarily unavailable; retry in a moment''
      else refuse r c CodeBadMessage ''media engine refused the frame; check the frame shape'')"

definition fanout_track_published :: "wiring \<Rightarrow> router \<Rightarrow> string \<Rightarrow> string \<Rightarrow> string \<Rightarrow> string \<Rightarrow> string \<Rightarrow> router" where
  "fanout_track_published w r caller sessionID participant track kind =
     (case other_member (ro_m r) (w_tenant w caller) sessionID caller of
        None \<Rightarrow> r
      | Some peerConn \<Rightarrow>
          if \<not> w_live w peerConn then r
          else
            let (ok, r1) = sub_enqueue r peerConn (new_engine_track_published sessionID participant track kind)
            in if ok then r1 else reg_dropped r1)"

definition dispatch_engine_frame :: "wiring \<Rightarrow> string \<Rightarrow> string \<Rightarrow> engine_frame \<Rightarrow> router \<Rightarrow> router" where
  "dispatch_engine_frame w caller sessionID f r =
     (let frameType = str_field f ''type'' in
      if frameType = ''answer'' then
        (let sdp = str_field f ''sdp'' in
         if sdp = '''' then reg_dropped r
         else
           let (ok, r1) = sub_enqueue r caller (new_engine_answer sessionID sdp)
           in if ok then r1 else reg_dropped r1)
      else if frameType = ''track.published'' then
        (let participant = str_field f ''participant''; track = str_field f ''track''; kind = str_field f ''kind'' in
         if participant = '''' \<or> track = '''' \<or> kind = '''' then reg_dropped r
         else fanout_track_published w r caller sessionID participant track kind)
      else if frameType = ''error'' then refuse r caller (engine_wire_code (str_field f ''code'')) (str_field f ''message'')
      else reg_dropped r)"

definition dispatch_engine_frames :: "wiring \<Rightarrow> router \<Rightarrow> string \<Rightarrow> string \<Rightarrow> engine_frame list \<Rightarrow> router" where
  "dispatch_engine_frames w r caller sessionID frames = fold (dispatch_engine_frame w caller sessionID) frames r"

text \<open>The number literals of a decoded value, to any depth; \<open>n\<close> bounds the nesting.\<close>

fun numbers_of :: "nat \<Rightarrow> jval \<Rightarrow> string list" where
  "numbers_of 0 v = []"
| "numbers_of (Suc n) v =
     (case v of
        JNum t \<Rightarrow> [t]
      | JArr vs \<Rightarrow> concat (map (numbers_of n) vs)
      | JObj ms \<Rightarrow> concat (map (\<lambda>(k, t, x). numbers_of n x) ms)
      | _ \<Rightarrow> [])"

text \<open>\<open>json.Unmarshal\<close> into an \<open>any\<close> and the payload's encoding in the request; a value of \<open>n\<close> bytes nests at most \<open>n\<close> deep.\<close>

definition trickle_payload :: "wiring \<Rightarrow> string \<Rightarrow> string option" where
  "trickle_payload w raw =
     (case json_parse raw of
        None \<Rightarrow> None
      | Some v \<Rightarrow>
          if list_all (\<lambda>t. w_num w t \<noteq> None) (numbers_of (Suc (length raw)) v)
          then Some (encode_any (Suc (length raw)) (\<lambda>t. the (w_num w t)) v) else None)"

definition relay_engine ::
  "wiring \<Rightarrow> (engine_op list \<Rightarrow> engine_op \<Rightarrow> engine_err + engine_frame list) \<Rightarrow> router \<Rightarrow> string \<Rightarrow> string \<Rightarrow> engine_op \<Rightarrow> router"
where
  "relay_engine w eng r c sessionID op =
     (case engine_do eng r op of
        (Inl err, r1) \<Rightarrow> engine_refusal r1 c err
      | (Inr frames, r1) \<Rightarrow> dispatch_engine_frames w r1 c sessionID frames)"

definition handle_engine_signal :: "wiring \<Rightarrow> router \<Rightarrow> string \<Rightarrow> client_message \<Rightarrow> router" where
  "handle_engine_signal w r c msg =
     (let sid = cm_SessionID msg in
      if \<not> is_steered r sid then
        refuse r c CodeSteerModeBlocked ''session is not steered to the media engine (negotiated mode is P2P)''
      else case w_engine w of
        None \<Rightarrow> refuse r c CodeEngineUnavailable ''no media engine is configured on this gateway''
      | Some eng \<Rightarrow>
          if mgr_session_for_conn (ro_m r) c \<noteq> Some sid then refuse r c CodeSessionUnknown ''no such session''
          else case fmlookup (ro_engineSessions r) (engine_key c sid) of
            None \<Rightarrow> refuse r c CodeEngineUnavailable ''engine session is not enrolled for this connection''
          | Some esid \<Rightarrow>
              if cm_Type msg = TypeEngineOffer then
                (if \<not> is_valid_sdp (cm_SDP msg) then
                   refuse r c CodeBadMessage ''sdp must be an SDP blob (the 'v=' version line first)''
                 else if length (cm_SDP msg) > MaxSDPLength then
                   refuse r c CodeSignalTooLarge ''sdp body exceeds the relay cap''
                 else relay_engine w eng r c sid (EOffer esid (cm_SDP msg)))
              else if cm_Type msg = TypeEngineCandidate then
                (if \<not> candidate_is_object (cm_Candidate msg) then
                   refuse r c CodeBadMessage ''candidate must be an ICE candidate object or the null end marker''
                 else case trickle_payload w (cm_Candidate msg) of
                     None \<Rightarrow> refuse r c CodeBadMessage ''candidate is not parseable JSON''
                   | Some payload \<Rightarrow> relay_engine w eng r c sid (ETrickle esid payload))
              else if cm_Type msg = TypeEnginePublish then
                relay_engine w eng r c sid (EPublish esid (cm_Track msg) (cm_Kind msg))
              else if cm_Type msg = TypeEngineSubscribe \<or> cm_Type msg = TypeEngineUnsubscribe then
                (case other_member (ro_m r) (w_tenant w c) sid c of
                   None \<Rightarrow> refuse r c CodeSessionNotReady ''the peer has not joined yet''
                 | Some peerConn \<Rightarrow>
                     (case engine_do eng r (if cm_Type msg = TypeEngineSubscribe then ESubscribe esid peerConn (cm_Track msg)
                                            else EUnsubscribe esid peerConn (cm_Track msg)) of
                        (Inl err, r1) \<Rightarrow> engine_refusal r1 c err
                      | (Inr frames, r1) \<Rightarrow> r1))
              else r)"

section \<open>The front\<close>

text \<open>\<open>gen\<close> is what the id generator yields if a session is started.\<close>

definition handle_message :: "wiring \<Rightarrow> router \<Rightarrow> string \<Rightarrow> client_message \<Rightarrow> string + string \<Rightarrow> router" where
  "handle_message w r c msg gen =
     (if cm_Type msg = TypeSessionStart then
        (if w_tenant w c = '''' then refuse r c CodeHelloRequired ''authenticate first''
         else case mgr_start (ro_m r) (w_tenant w c) c gen (w_now w) of
             (Inl err, m) \<Rightarrow> fail (r\<lparr>ro_m := m\<rparr>) c err
           | (Inr (sid, events), m) \<Rightarrow> emit w (r\<lparr>ro_m := m\<rparr>) events)
      else if cm_Type msg = TypeSessionJoin then
        (case mgr_join (ro_m r) (w_tenant w c) (cm_SessionID msg) c (w_now w) of
           (Inl err, m) \<Rightarrow> fail (r\<lparr>ro_m := m\<rparr>) c err
         | (Inr events, m) \<Rightarrow>
             let (steerByID, r1) = negotiate_steer w (r\<lparr>ro_m := m\<rparr>) c (cm_SessionID msg) events
             in emit_with_steer w r1 events steerByID)
      else if cm_Type msg = TypeSessionEnd then
        settle w r c (mgr_end (ro_m r) (w_tenant w c) (cm_SessionID msg) c ReasonMemberEnded (w_now w))
      else if cm_Type msg = TypeOffer then handle_offer w r c msg
      else if cm_Type msg = TypeAnswer then handle_answer w r c msg
      else if cm_Type msg = TypeCandidate then handle_candidate w r c msg
      else if cm_Type msg \<in> {TypeEngineOffer, TypeEngineCandidate, TypeEnginePublish, TypeEngineSubscribe, TypeEngineUnsubscribe}
      then handle_engine_signal w r c msg
      else refuse r c CodeBadMessage ''unrecognized signaling message type'')"

definition router_conn_closed :: "wiring \<Rightarrow> router \<Rightarrow> string list \<Rightarrow> string \<Rightarrow> router" where
  "router_conn_closed w r ord c =
     (let r1 = engine_leave_all_for_conn w r ord c;
          (events, m) = conn_dropped (ro_m r1) c (w_now w)
      in emit w (r1\<lparr>ro_m := m\<rparr>) events)"

definition router_reap :: "wiring \<Rightarrow> router \<Rightarrow> string list \<Rightarrow> router" where
  "router_reap w r ord =
     (let (events, m) = mgr_reap (ro_m r) ord (w_now w) in emit w (r\<lparr>ro_m := m\<rparr>) events)"

end
