(* ===== verification/Gw_Router_Inv.thy ===== *)
theory Gw_Router_Inv
  imports Gw_Router
begin

text \<open>
  What the router keeps: the ledger stays well formed and seats only connections of the session's
  own tenant, whatever messages, closes and reaps come in whatever order; and which queues one
  handler can touch.
\<close>

section \<open>Frames of the helpers\<close>

lemma sub_enqueue_simps [simp]:
  "ro_m (snd (sub_enqueue r c f)) = ro_m r"
  "ro_engineSessions (snd (sub_enqueue r c f)) = ro_engineSessions r"
  "ro_steerSessions (snd (sub_enqueue r c f)) = ro_steerSessions r"
  "ro_relayedTotal (snd (sub_enqueue r c f)) = ro_relayedTotal r"
  "ro_reg (snd (sub_enqueue r c f)) = ro_reg r"
  "ro_calls (snd (sub_enqueue r c f)) = ro_calls r"
  "ro_qs (snd (sub_enqueue r c f)) = (ro_qs r)(c := snd (enqueue (ro_qs r c) f))"
  "fst (sub_enqueue r c f) = fst (enqueue (ro_qs r c) f)"
  by (simp_all add: sub_enqueue_def case_prod_unfold Let_def)

lemma refuse_simps [simp]:
  "ro_m (refuse r c code message) = ro_m r"
  "ro_qs (refuse r c code message) = (ro_qs r)(c := snd (enqueue (ro_qs r c) (new_error code message)))"
  "ro_calls (refuse r c code message) = ro_calls r"
  "ro_steerSessions (refuse r c code message) = ro_steerSessions r"
  "ro_engineSessions (refuse r c code message) = ro_engineSessions r"
  by (simp_all add: refuse_def)

lemma fail_refuse: "fail r c cause = refuse r c (fst (fail_code cause)) (snd (fail_code cause))"
  by (simp add: fail_def refuse_def)

lemma engine_refusal_simps [simp]:
  "ro_m (engine_refusal r c err) = ro_m r"
  "d \<noteq> c \<Longrightarrow> ro_qs (engine_refusal r c err) d = ro_qs r d"
  by (simp_all add: engine_refusal_def)

lemma engine_do_simps [simp]:
  "ro_m (snd (engine_do eng r op)) = ro_m r"
  "ro_qs (snd (engine_do eng r op)) = ro_qs r"
  "ro_reg (snd (engine_do eng r op)) = ro_reg r"
  "ro_steerSessions (snd (engine_do eng r op)) = ro_steerSessions r"
  "ro_engineSessions (snd (engine_do eng r op)) = ro_engineSessions r"
  "ro_relayedTotal (snd (engine_do eng r op)) = ro_relayedTotal r"
  "ro_calls (snd (engine_do eng r op)) = ro_calls r @ [op]"
  by (simp_all add: engine_do_def)

lemma engine_join_hook_simps [simp]:
  "ro_m (engine_join_hook w r c sid) = ro_m r"
  "ro_qs (engine_join_hook w r c sid) = ro_qs r"
  "ro_reg (engine_join_hook w r c sid) = ro_reg r"
  "ro_steerSessions (engine_join_hook w r c sid) = ro_steerSessions r"
  by (simp_all add: engine_join_hook_def case_prod_unfold Let_def split: option.split sum.split)

lemma engine_leave_key_simps [simp]:
  "ro_m (engine_leave_key eng r key) = ro_m r"
  "ro_qs (engine_leave_key eng r key) = ro_qs r"
  "ro_reg (engine_leave_key eng r key) = ro_reg r"
  "ro_steerSessions (engine_leave_key eng r key) = ro_steerSessions r"
  by (simp_all add: engine_leave_key_def split: option.split)

lemma engine_leave_hook_simps [simp]:
  "ro_m (engine_leave_hook w r c sid) = ro_m r"
  "ro_qs (engine_leave_hook w r c sid) = ro_qs r"
  "ro_reg (engine_leave_hook w r c sid) = ro_reg r"
  by (simp_all add: engine_leave_hook_def split: option.split)

lemma fold_leave_simps:
  "ro_m (fold (\<lambda>k r. engine_leave_key eng r k) keys r) = ro_m r \<and> ro_qs (fold (\<lambda>k r. engine_leave_key eng r k) keys r) = ro_qs r"
  by (induction keys arbitrary: r) simp_all

lemma engine_leave_all_simps [simp]:
  "ro_m (engine_leave_all_for_conn w r ord c) = ro_m r"
  "ro_qs (engine_leave_all_for_conn w r ord c) = ro_qs r"
  by (simp_all add: engine_leave_all_for_conn_def Let_def fold_leave_simps split: option.split)

lemma reg_dropped_simps [simp]:
  "ro_m (reg_dropped r) = ro_m r" "ro_qs (reg_dropped r) = ro_qs r" "ro_calls (reg_dropped r) = ro_calls r"
  "ro_steerSessions (reg_dropped r) = ro_steerSessions r" "ro_engineSessions (reg_dropped r) = ro_engineSessions r"
  by (simp_all add: reg_dropped_def)

lemma forwarded_simps [simp]: "ro_m (forwarded r) = ro_m r" "ro_qs (forwarded r) = ro_qs r"
  by (simp_all add: forwarded_def)

lemma clear_steer_simps [simp]:
  "ro_m (em_r (clear_steer sid e)) = ro_m (em_r e)" "ro_qs (em_r (clear_steer sid e)) = ro_qs (em_r e)"
  "ro_reg (em_r (clear_steer sid e)) = ro_reg (em_r e)"
  by (simp_all add: clear_steer_def)

lemma translate_simps [simp]:
  "ro_m (em_r (snd (snd (translate w sb e ev)))) = ro_m (em_r e)"
  "ro_qs (em_r (snd (snd (translate w sb e ev)))) = ro_qs (em_r e)"
  by (simp_all add: translate_def Let_def split: event_kind.split)

lemma drop_on_full_simps [simp]:
  "ro_qs (drop_on_full w r ev) = ro_qs r"
  "ro_m (drop_on_full w r ev) = snd (mgr_end (ro_m r) (w_tenant w (ev_Recipient ev)) (ev_SessionID ev) (ev_Recipient ev)
     ReasonPeerDisconnected (w_now w))"
  by (simp_all add: drop_on_full_def Let_def)

section \<open>One event\<close>

lemma emit_event_frame:
  "d \<noteq> ev_Recipient ev \<Longrightarrow> ro_qs (em_r (emit_event w sb ev e)) d = ro_qs (em_r e) d"
  by (simp add: emit_event_def Let_def case_prod_unfold)

lemma emit_event_m:
  "ro_m (em_r (emit_event w sb ev e)) = ro_m (em_r e)
   \<or> ro_m (em_r (emit_event w sb ev e)) = snd (mgr_end (ro_m (em_r e)) (w_tenant w (ev_Recipient ev)) (ev_SessionID ev)
       (ev_Recipient ev) ReasonPeerDisconnected (w_now w))"
  by (simp add: emit_event_def Let_def case_prod_unfold)

lemma fold_emit_frame:
  "d \<notin> ev_Recipient ` set evs \<Longrightarrow> ro_qs (em_r (fold (emit_event w sb) evs e)) d = ro_qs (em_r e) d"
  by (induction evs arbitrary: e) (simp_all add: emit_event_frame)

lemma emit_with_steer_frame: "d \<notin> ev_Recipient ` set evs \<Longrightarrow> ro_qs (emit_with_steer w r evs sb) d = ro_qs r d"
  by (simp add: emit_with_steer_def fold_emit_frame)

lemma emit_frame: "d \<notin> ev_Recipient ` set evs \<Longrightarrow> ro_qs (emit w r evs) d = ro_qs r d"
  by (simp add: emit_def emit_with_steer_frame)

section \<open>Seats and tenants\<close>

definition seated :: "(string \<Rightarrow> string) \<Rightarrow> manager \<Rightarrow> bool" where
  "seated ten m \<longleftrightarrow>
     (\<forall>sid s. reg_get (g_reg m) sid = Some s \<longrightarrow> s_TenantID s \<noteq> '''' \<and> (\<forall>d \<in> conns_of s. ten d = s_TenantID s))"

lemma seatedD: "seated ten m \<Longrightarrow> reg_get (g_reg m) sid = Some s \<Longrightarrow> d \<in> conns_of s \<Longrightarrow> ten d = s_TenantID s"
  by (simp add: seated_def)

lemma seated_nonempty: "seated ten m \<Longrightarrow> reg_get (g_reg m) sid = Some s \<Longrightarrow> s_TenantID s \<noteq> ''''"
  by (simp add: seated_def)

lemma seated_remove: "seated ten m \<Longrightarrow> seated ten (m\<lparr>g_reg := reg_remove (g_reg m) sid\<rparr>)"
  by (cases "reg_get (g_reg m) sid") (auto simp: seated_def reg_remove_simps)

lemma seated_store:
  assumes "seated ten m" and "s_TenantID s \<noteq> ''''" and "\<forall>d \<in> conns_of s. ten d = s_TenantID s"
  shows "seated ten (m\<lparr>g_reg := reg_store (g_reg m) s\<rparr>)"
  using assms by (auto simp: seated_def reg_store_simps)

lemma seated_restore:
  assumes "seated ten m" and "lookup_member m t sid c = Inr s"
    and "s_TenantID s' = s_TenantID s" and "conns_of s' = conns_of s"
  shows "seated ten (m\<lparr>g_reg := reg_store (g_reg m) s'\<rparr>)"
  using assms by (intro seated_store) (auto simp: seated_def lookup_member_Inr)

lemma conns_of_frame [simp]:
  "conns_of (touch_change s now) = conns_of s" "s_TenantID (touch_change s now) = s_TenantID s"
  "conns_of (s\<lparr>s_State := st, s_offerBy := ob\<rparr>) = conns_of s"
  "conns_of (s\<lparr>s_members := ms\<rparr>) = m_ConnID ` set ms"
  by (simp_all add: touch_change_def conns_of_def)

lemma seated_end: "seated ten m \<Longrightarrow> seated ten (snd (mgr_end m t sid c reason now))"
  by (auto simp: mgr_end_def case_prod_unfold Let_def snd_end_locked seated_remove split: sum.splits)

lemma seated_offer: "seated ten m \<Longrightarrow> seated ten (snd (mgr_offer m t sid c sdp now))"
  by (auto simp: mgr_offer_def Let_def intro!: seated_restore split: sum.splits)

lemma seated_answer: "seated ten m \<Longrightarrow> seated ten (snd (mgr_answer m t sid c sdp now))"
  by (auto simp: mgr_answer_def Let_def intro!: seated_restore split: sum.splits)

lemma seated_start: "seated ten m \<Longrightarrow> t \<noteq> '''' \<Longrightarrow> ten c = t \<Longrightarrow> seated ten (snd (mgr_start m t c gen now))"
  by (auto simp: mgr_start_def Let_def seated_def reg_insert_simps new_session_def conns_of_def split: sum.splits)

lemma bind_conn_get [simp]: "reg_get (bind_conn r c sid) x = reg_get r x"
  by (simp add: bind_conn_def reg_get_def)

lemma seated_join:
  assumes "seated ten m" and "ten c = t"
  shows "seated ten (snd (mgr_join m t sid c now))"
proof (cases "reg_get (g_reg m) sid")
  case None
  with assms show ?thesis by (simp add: mgr_join_def)
next
  case (Some s)
  let ?s = "touch_change (s\<lparr>s_members := s_members s @ [\<lparr>m_ConnID = c, m_Role = ''responder''\<rparr>]\<rparr>) now"
  let ?m = "m\<lparr>g_reg := bind_conn (g_reg m) c (s_ID s)\<rparr>"
  have "seated ten ?m" using assms(1) by (simp add: seated_def)
  from seated_store [OF this, of ?s] have "seated ten (?m\<lparr>g_reg := reg_store (g_reg ?m) ?s\<rparr>)" if "s_TenantID s = t"
    using that assms(2) seated_nonempty [OF assms(1) Some] seatedD [OF assms(1) Some] by (auto simp: conns_of_def)
  then show ?thesis using assms(1) Some by (simp add: mgr_join_def Let_def)
qed

lemma seated_end_all: "seated ten m \<Longrightarrow> seated ten (snd (end_all m ss now))"
  by (induction ss arbitrary: m) (simp_all add: case_prod_unfold Let_def snd_end_locked seated_remove)

lemma seated_unbind: "seated ten m \<Longrightarrow> seated ten (m\<lparr>g_reg := unbind_conn (g_reg m) c\<rparr>)"
  by (simp add: seated_def unbind_conn_def reg_get_def)

lemma seated_dropped: "seated ten m \<Longrightarrow> seated ten (snd (conn_dropped m c now))"
  by (auto simp: conn_dropped_def case_prod_unfold Let_def snd_end_locked seated_remove seated_unbind
      split: option.splits)

section \<open>The invariant\<close>

definition router_inv :: "(string \<Rightarrow> string) \<Rightarrow> router \<Rightarrow> bool" where
  "router_inv ten r \<longleftrightarrow> mgr_inv (ro_m r) \<and> seated ten (ro_m r)"

lemma emit_event_inv: "router_inv ten (em_r e) \<Longrightarrow> router_inv ten (em_r (emit_event w sb ev e))"
  using emit_event_m [of w sb ev e] by (auto simp: router_inv_def mgr_inv_end seated_end)

lemma fold_emit_inv: "router_inv ten (em_r e) \<Longrightarrow> router_inv ten (em_r (fold (emit_event w sb) evs e))"
  by (induction evs arbitrary: e) (simp_all add: emit_event_inv)

lemma emit_inv: "router_inv ten r \<Longrightarrow> router_inv ten (emit_with_steer w r evs sb)" "router_inv ten r \<Longrightarrow> router_inv ten (emit w r evs)"
  by (simp_all add: emit_def emit_with_steer_def fold_emit_inv)

lemma router_inv_cong: "ro_m r = ro_m r' \<Longrightarrow> router_inv ten r = router_inv ten r'"
  by (simp add: router_inv_def)

lemma settle_inv:
  assumes "router_inv ten (r\<lparr>ro_m := snd res\<rparr>)"
  shows "router_inv ten (settle w r c res)"
proof (cases "fst res")
  case (Inl err)
  then show ?thesis using assms by (cases res) (simp add: settle_def fail_refuse router_inv_def)
next
  case (Inr evs)
  then show ?thesis using assms emit_inv(2) [of ten "r\<lparr>ro_m := snd res\<rparr>" w evs] by (cases res) (simp add: settle_def)
qed

lemma fanout_m [simp]: "ro_m (fanout_track_published w r c sid p t k) = ro_m r"
  by (simp add: fanout_track_published_def case_prod_unfold Let_def split: option.split)

lemma dispatch_m [simp]: "ro_m (dispatch_engine_frames w r c sid frames) = ro_m r"
proof -
  have "ro_m (dispatch_engine_frame w c sid f x) = ro_m x" for f x
    by (simp add: dispatch_engine_frame_def case_prod_unfold Let_def)
  then have "ro_m (fold (dispatch_engine_frame w c sid) frames r) = ro_m r" for r
    by (induction frames arbitrary: r) simp_all
  then show ?thesis by (simp add: dispatch_engine_frames_def)
qed

lemma relay_engine_m [simp]: "ro_m (relay_engine w eng r c sid op) = ro_m r"
  by (simp add: relay_engine_def engine_do_def split: sum.split)

lemma handle_engine_m [simp]: "ro_m (handle_engine_signal w r c msg) = ro_m r"
  by (simp add: handle_engine_signal_def Let_def engine_do_def split: option.split sum.split)

lemma handle_message_inv:
  assumes "router_inv ten r" and "w_tenant w = ten" and "\<And>sid. gen = Inr sid \<Longrightarrow> reg_get (g_reg (ro_m r)) sid = None"
  shows "router_inv ten (handle_message w r c msg gen)"
proof -
  have inv: "mgr_inv (ro_m r)" "seated ten (ro_m r)" using assms(1) by (simp_all add: router_inv_def)
  have start: "router_inv ten (r\<lparr>ro_m := snd (mgr_start (ro_m r) (ten c) c gen (w_now w))\<rparr>)" if "ten c \<noteq> ''''"
    using inv that assms(3) by (simp add: router_inv_def mgr_inv_start seated_start)
  have join: "router_inv ten (r\<lparr>ro_m := snd (mgr_join (ro_m r) (ten c) sid c (w_now w))\<rparr>)" for sid
    using inv by (simp add: router_inv_def mgr_inv_join seated_join)
  have others: "router_inv ten (r\<lparr>ro_m := snd (mgr_end (ro_m r) t sid c reason now)\<rparr>)"
    "router_inv ten (r\<lparr>ro_m := snd (mgr_offer (ro_m r) t sid c sdp now)\<rparr>)"
    "router_inv ten (r\<lparr>ro_m := snd (mgr_answer (ro_m r) t sid c sdp now)\<rparr>)"
    "router_inv ten (r\<lparr>ro_m := snd (mgr_candidate (ro_m r) t sid c raw)\<rparr>)" for t sid reason now sdp raw
    using inv by (simp_all add: router_inv_def gw_inv snd_mgr_candidate seated_end seated_offer seated_answer)
  have ref: "router_inv ten (refuse r c code message)" for code message using inv by (simp add: router_inv_def)
  show ?thesis
  proof (cases "cm_Type msg = TypeSessionStart")
    case True
    then show ?thesis
      using start emit_inv(2) [OF start] ref assms(2)
      by (auto simp: handle_message_def fail_refuse router_inv_def case_prod_unfold split: sum.split)
  next
    case s: False
    show ?thesis
    proof (cases "cm_Type msg = TypeSessionJoin")
      case True
      let ?res = "mgr_join (ro_m r) (ten c) (cm_SessionID msg) c (w_now w)"
      have "router_inv ten (snd (negotiate_steer w (r\<lparr>ro_m := snd ?res\<rparr>) c (cm_SessionID msg) evs))" for evs
        using join [of "cm_SessionID msg"] by (simp add: negotiate_steer_def Let_def router_inv_def)
      then show ?thesis using True s join [of "cm_SessionID msg"] assms(2)
        by (cases ?res) (auto simp: handle_message_def fail_refuse case_prod_unfold Let_def emit_inv router_inv_def [of _ "refuse _ _ _ _"]
            router_inv_def [of _ "_\<lparr>ro_m := _\<rparr>"] split: sum.split)
    next
      case False
      with s assms(1) others [THEN settle_inv] show ?thesis
        by (simp add: handle_message_def handle_offer_def handle_answer_def handle_candidate_def
            router_inv_cong [of "refuse _ _ _ _"] router_inv_cong [of "handle_engine_signal _ _ _ _" r])
    qed
  qed
qed

lemma conn_closed_inv: "router_inv ten r \<Longrightarrow> router_inv ten (router_conn_closed w r ord c)"
  by (auto simp: router_conn_closed_def case_prod_unfold Let_def router_inv_def [of _ "_\<lparr>ro_m := _\<rparr>"] mgr_inv_conn_dropped
      seated_dropped router_inv_def [of _ r] intro!: emit_inv)

lemma reap_inv: "router_inv ten r \<Longrightarrow> router_inv ten (router_reap w r ord)"
  by (auto simp: router_reap_def case_prod_unfold Let_def router_inv_def [of _ "_\<lparr>ro_m := _\<rparr>"] mgr_inv_reap mgr_reap_def
      mgr_inv_end_all seated_end_all router_inv_def [of _ r] intro!: emit_inv)

text \<open>
  The handlers in any order. \<open>ten\<close> is the tenant each connection pins at hello; \<open>ws\<close> may differ from
  step to step in everything else. A generated session id is fresh.
\<close>

inductive router_step :: "(string \<Rightarrow> string) \<Rightarrow> router \<Rightarrow> router \<Rightarrow> bool" for ten :: "string \<Rightarrow> string" where
  rs_message: "w_tenant w = ten \<Longrightarrow> (\<And>sid. gen = Inr sid \<Longrightarrow> reg_get (g_reg (ro_m r)) sid = None) \<Longrightarrow>
     router_step ten r (handle_message w r c msg gen)"
| rs_closed: "w_tenant w = ten \<Longrightarrow> range_order ord (ro_engineSessions r) \<Longrightarrow> router_step ten r (router_conn_closed w r ord c)"
| rs_reap: "w_tenant w = ten \<Longrightarrow> range_order ord (r_byID (g_reg (ro_m r))) \<Longrightarrow> router_step ten r (router_reap w r ord)"

definition router_initial :: "router \<Rightarrow> bool" where
  "router_initial r \<longleftrightarrow> mgr_initial (ro_m r) \<and> r = new_router (ro_m r) (ro_reg r) (ro_qs r)"

lemma router_initial_inv: "router_initial r \<Longrightarrow> router_inv ten r"
proof -
  assume "router_initial r"
  then have m: "mgr_initial (ro_m r)" by (simp add: router_initial_def)
  then have "mgr_inv (ro_m r)" by (rule ledger.inv_init)
  moreover have "reg_get (g_reg (ro_m r)) sid = None" for sid
    using m unfolding mgr_initial_def by (metis fmempty_lookup manager.select_convs(1) new_manager_def new_registry_def
        reg_get_def registry.select_convs(1))
  ultimately show ?thesis by (simp add: router_inv_def seated_def)
qed

lemma router_step_inv: "router_step ten r r' \<Longrightarrow> router_inv ten r \<Longrightarrow> router_inv ten r'"
  by (induction rule: router_step.induct) (auto intro: handle_message_inv conn_closed_inv reap_inv)

interpretation relay: invariant_system router_initial "router_step ten" "router_inv ten"
  by unfold_locales (auto intro: router_initial_inv router_step_inv)

end
