(* ===== verification/Gw_Router_Spec.thy ===== *)
theory Gw_Router_Spec
  imports Gw_Router_Inv
begin

text \<open>
  Properties of the signaling router: whom a frame can reach, what a relay delivers, the refusals of
  the two media paths, and what the end of a connection releases.
\<close>

section \<open>Recipients\<close>

text \<open>\<open>d\<close> has a seat in session \<open>sid\<close> of tenant \<open>t\<close>; \<open>c\<close> and \<open>d\<close> both have one.\<close>

definition has_seat :: "manager \<Rightarrow> string \<Rightarrow> string \<Rightarrow> string \<Rightarrow> bool" where
  "has_seat m t sid d \<longleftrightarrow>
     (\<exists>s. reg_get (g_reg m) sid = Some s \<and> s_TenantID s = t \<and> d \<in> conns_of s)"

definition reaches :: "manager \<Rightarrow> string \<Rightarrow> string \<Rightarrow> string \<Rightarrow> string \<Rightarrow> bool" where
  "reaches m t sid c d \<longleftrightarrow> has_seat m t sid c \<and> has_seat m t sid d"

lemmas seat_defs = reaches_def has_seat_def

lemma reaches_offer:
  "mgr_inv m \<Longrightarrow> fst (mgr_offer m t sid c sdp now) = Inr evs \<Longrightarrow> ev \<in> set evs \<Longrightarrow> reaches m t sid c (ev_Recipient ev)"
  using mgr_offer_relays [of m t sid c sdp now evs] by (auto simp: relays_def seat_defs mk_event_def)

lemma reaches_answer:
  "mgr_inv m \<Longrightarrow> fst (mgr_answer m t sid c sdp now) = Inr evs \<Longrightarrow> ev \<in> set evs \<Longrightarrow> reaches m t sid c (ev_Recipient ev)"
  using mgr_answer_relays [of m t sid c sdp now evs] by (auto simp: relays_def seat_defs mk_event_def)

lemma reaches_candidate:
  "mgr_inv m \<Longrightarrow> fst (mgr_candidate m t sid c raw) = Inr evs \<Longrightarrow> ev \<in> set evs \<Longrightarrow> reaches m t sid c (ev_Recipient ev)"
  using mgr_candidate_relays [of m t sid c raw evs] by (auto simp: relays_def seat_defs mk_event_def)

lemma reaches_end:
  "fst (mgr_end m t sid c reason now) = Inr evs \<Longrightarrow> ev \<in> set evs \<Longrightarrow> reaches m t sid c (ev_Recipient ev)"
  by (auto simp: mgr_end_def case_prod_unfold Let_def fst_end_locked lookup_member_Inr seat_defs conns_of_def mk_event_def
      split: sum.splits)

lemma reaches_join:
  assumes "mgr_inv m" and "fst (mgr_join m t sid c now) = Inr evs" and "ev \<in> set evs"
  shows "ev_Recipient ev = c \<or> has_seat m t sid (ev_Recipient ev)"
proof -
  from assms(2) obtain s where s: "reg_get (g_reg m) sid = Some s" "s_TenantID s = t"
      "ev_Recipient ` set evs = {c, m_ConnID (s_members s ! 0)}"
    by (auto simp: mgr_join_def Let_def mk_event_def split: option.splits if_splits)
  have "s_members s \<noteq> []" using reg_invD(2) [OF mgr_invD(1) [OF assms(1)] s(1)] by (auto simp: session_ok_def)
  then have "m_ConnID (s_members s ! 0) \<in> conns_of s" by (simp add: conns_of_def)
  moreover have "ev_Recipient ev \<in> {c, m_ConnID (s_members s ! 0)}" using s(3) assms(3) by blast
  ultimately show ?thesis using s(1,2) by (auto simp: has_seat_def)
qed

lemma reaches_start:
  "fst (mgr_start m t c gen now) = Inr (sid, evs) \<Longrightarrow> ev \<in> set evs \<Longrightarrow> ev_Recipient ev = c"
  by (auto simp: mgr_start_def Let_def mk_event_def split: sum.splits if_splits)

lemma other_member_seat: "other_member m t sid c = Some d \<Longrightarrow> has_seat m t sid d"
  by (auto simp: other_member_def has_seat_def conns_of_def find_Some_iff split: option.splits if_splits)

lemma settle_frame:
  assumes "d \<noteq> c" and "\<And>evs ev. fst res = Inr evs \<Longrightarrow> ev \<in> set evs \<Longrightarrow> ev_Recipient ev \<noteq> d"
  shows "ro_qs (settle w r c res) d = ro_qs r d"
proof (cases "fst res")
  case (Inl err)
  with assms(1) show ?thesis by (cases res) (simp add: settle_def fail_refuse)
next
  case (Inr evs)
  with assms(2) have "d \<notin> ev_Recipient ` set evs" by blast
  with Inr show ?thesis by (cases res) (simp add: settle_def emit_frame)
qed

lemma dispatch_frame:
  assumes "d \<noteq> c" and "\<not> has_seat (ro_m r) (w_tenant w c) sid d"
  shows "ro_qs (dispatch_engine_frames w r c sid frames) d = ro_qs r d"
proof -
  have m: "ro_m (dispatch_engine_frame w c sid f x) = ro_m x" for f x
    by (simp add: dispatch_engine_frame_def case_prod_unfold Let_def)
  have one: "ro_qs (dispatch_engine_frame w c sid f x) d = ro_qs x d" if "ro_m x = ro_m r" for f x
    using assms that other_member_seat [of "ro_m x" "w_tenant w c" sid c]
    by (auto simp: dispatch_engine_frame_def fanout_track_published_def case_prod_unfold Let_def split: option.split)
  have "ro_m x = ro_m r \<Longrightarrow> ro_qs (fold (dispatch_engine_frame w c sid) frames x) d = ro_qs x d" for x
    by (induction frames arbitrary: x) (simp_all add: m one)
  then show ?thesis by (simp add: dispatch_engine_frames_def)
qed

lemma relay_engine_frame:
  assumes "d \<noteq> c" and "\<not> has_seat (ro_m r) (w_tenant w c) sid d"
  shows "ro_qs (relay_engine w eng r c sid op) d = ro_qs r d"
  using assms dispatch_frame [of d c "r\<lparr>ro_calls := ro_calls r @ [op]\<rparr>" w sid]
  by (simp add: relay_engine_def engine_do_def split: sum.split)

lemma handle_engine_frame:
  assumes "mgr_inv (ro_m r)" and "w_tenant w = ten" and "seated ten (ro_m r)"
    and "d \<noteq> c" and "\<not> reaches (ro_m r) (ten c) (cm_SessionID msg) c d"
  shows "ro_qs (handle_engine_signal w r c msg) d = ro_qs r d"
proof (cases "mgr_session_for_conn (ro_m r) c = Some (cm_SessionID msg)")
  case True
  then have "has_seat (ro_m r) (ten c) (cm_SessionID msg) c"
    using reg_invD(4) [OF mgr_invD(1) [OF assms(1)]] seatedD [OF assms(3)]
    by (fastforce simp: mgr_session_for_conn_def has_seat_def)
  with assms(5) have "\<not> has_seat (ro_m r) (ten c) (cm_SessionID msg) d" by (simp add: reaches_def)
  then show ?thesis using assms(2,4)
    by (simp add: handle_engine_signal_def Let_def engine_do_def relay_engine_frame split: option.split sum.split)
next
  case False
  with assms(4) show ?thesis by (simp add: handle_engine_signal_def Let_def split: option.split)
qed

lemma handle_message_frame:
  assumes inv: "router_inv ten r" and w: "w_tenant w = ten" and d: "d \<noteq> c"
    and no: "\<not> reaches (ro_m r) (ten c) (cm_SessionID msg) c d"
    and nj: "\<not> (cm_Type msg = TypeSessionJoin \<and> has_seat (ro_m r) (ten c) (cm_SessionID msg) d)"
  shows "ro_qs (handle_message w r c msg gen) d = ro_qs r d"
proof -
  have m: "mgr_inv (ro_m r)" and seats: "seated ten (ro_m r)" using inv by (simp_all add: router_inv_def)
  consider (start) "cm_Type msg = TypeSessionStart" | (join) "cm_Type msg = TypeSessionJoin"
    | (other) "cm_Type msg \<noteq> TypeSessionStart" "cm_Type msg \<noteq> TypeSessionJoin" by blast
  then show ?thesis
  proof cases
    case start
    obtain res m' where e: "mgr_start (ro_m r) (ten c) c gen (w_now w) = (res, m')" by (rule prod.exhaust)
    have "d \<notin> ev_Recipient ` set evs" if "res = Inr (sid, evs)" for sid evs
      using reaches_start [of "ro_m r" "ten c" c gen "w_now w" sid evs] e that d by auto
    then show ?thesis using start d w e by (auto simp: handle_message_def fail_refuse emit_frame split: sum.split)
  next
    case join
    obtain res m' where e: "mgr_join (ro_m r) (ten c) (cm_SessionID msg) c (w_now w) = (res, m')" by (rule prod.exhaust)
    have "d \<notin> ev_Recipient ` set evs" if "res = Inr evs" for evs
      using reaches_join [OF m, of "ten c" "cm_SessionID msg" c "w_now w" evs] e that d nj join by auto
    moreover have "ro_qs (snd (negotiate_steer w x c sid evs)) = ro_qs x" for x sid evs
      by (simp add: negotiate_steer_def Let_def)
    moreover have "TypeSessionJoin \<noteq> TypeSessionStart" by (simp add: client_types)
    ultimately show ?thesis using join d w e
      by (auto simp: handle_message_def fail_refuse case_prod_unfold Let_def emit_with_steer_frame split: sum.split)
  next
    case other
    have "ro_qs (settle w r c (mgr_end (ro_m r) (ten c) (cm_SessionID msg) c reason now)) d = ro_qs r d"
      "ro_qs (settle w r c (mgr_offer (ro_m r) (ten c) (cm_SessionID msg) c sdp now)) d = ro_qs r d"
      "ro_qs (settle w r c (mgr_answer (ro_m r) (ten c) (cm_SessionID msg) c sdp now)) d = ro_qs r d"
      "ro_qs (settle w r c (mgr_candidate (ro_m r) (ten c) (cm_SessionID msg) c raw)) d = ro_qs r d" for reason now sdp raw
      using d no reaches_end reaches_offer [OF m] reaches_answer [OF m] reaches_candidate [OF m]
      by (auto intro!: settle_frame)
    with other w d show ?thesis
      by (simp add: handle_message_def handle_offer_def handle_answer_def handle_candidate_def handle_engine_frame [OF m w seats d no])
  qed
qed

section \<open>Isolation\<close>

text \<open>A small run: \<open>c1\<close> of tenant \<open>T\<close> starts session \<open>s1\<close>, \<open>c2\<close> joins it; no engine is wired.\<close>

definition demo_wiring :: wiring where
  "demo_wiring = \<lparr>w_live = (\<lambda>c. True), w_tenant = (\<lambda>c. if c = ''c9'' then ''U'' else ''T''), w_steerCapable = (\<lambda>c. False),
     w_engine = None, w_up = False, w_steerMode = ''off'', w_num = Some, w_now = 1000\<rparr>"

definition demo_r0 :: router where
  "demo_r0 = new_router (new_manager 5 60000000000) (metrics_new 0) (\<lambda>c. queue_new 2 DropNewest)"

definition demo_r1 :: router where
  "demo_r1 = handle_message demo_wiring demo_r0 ''c1'' (zero_message\<lparr>cm_Type := TypeSessionStart\<rparr>) (Inr ''s1'')"

definition demo_r2 :: router where
  "demo_r2 = handle_message (demo_wiring\<lparr>w_now := 2000\<rparr>) demo_r1 ''c2''
     (zero_message\<lparr>cm_Type := TypeSessionJoin, cm_SessionID := ''s1''\<rparr>) (Inr ''s2'')"

definition offer_msg :: "string \<Rightarrow> string \<Rightarrow> client_message" where
  "offer_msg sid sdp = zero_message\<lparr>cm_Type := TypeOffer, cm_SessionID := sid, cm_SDP := sdp\<rparr>"

lemmas emit_defs = emit_def emit_with_steer_def emit_event_def translate_def mk_event_def engine_join_hook_def
  sub_enqueue_def enqueue_def try_enqueue_def Let_def

abbreviation demo_queue :: "frame list \<Rightarrow> frame queue" where
  "demo_queue fs \<equiv> queue_new 2 DropNewest\<lparr>q_ch := fs, q_enqueued := of_nat (length fs)\<rparr>"

lemma demo_r1_eval:
  "demo_r1 = new_router demo_start (signal_session_opened (metrics_new 0))
     ((\<lambda>c. queue_new 2 DropNewest)(''c1'' := demo_queue [new_session_started ''s1'']))"
proof -
  have "mgr_start (new_manager 5 60000000000) ''T'' ''c1'' (Inr ''s1'') 1000
      = (Inr (''s1'', [(mk_event EvStarted ''c1'' ''s1'')\<lparr>ev_Role := ''initiator''\<rparr>]), demo_start)"
    by (simp add: demo_start_def mgr_defs)
  then have "demo_r1 = emit demo_wiring (demo_r0\<lparr>ro_m := demo_start\<rparr>) [(mk_event EvStarted ''c1'' ''s1'')\<lparr>ev_Role := ''initiator''\<rparr>]"
    by (simp add: demo_r1_def handle_message_def demo_wiring_def demo_r0_def new_router_def)
  then show ?thesis by (simp add: emit_defs demo_wiring_def demo_r0_def new_router_def)
qed

lemma demo_r2_eval:
  "demo_r2 = new_router demo_call (signal_session_opened (metrics_new 0))
     ((\<lambda>c. queue_new 2 DropNewest)
        (''c1'' := demo_queue [new_session_started ''s1'', new_session_peer_joined ''s1'' ''responder'' False],
         ''c2'' := demo_queue [new_session_joined ''s1'' False]))"
proof -
  have "mgr_join demo_start ''T'' ''s1'' ''c2'' 2000
      = (Inr [(mk_event EvJoined ''c2'' ''s1'')\<lparr>ev_Role := ''responder''\<rparr>,
              (mk_event EvPeerJoined ''c1'' ''s1'')\<lparr>ev_PeerRole := ''responder''\<rparr>], demo_call)"
    by (simp add: demo_call_def demo_start_eval mgr_defs)
  then have "demo_r2 = emit_with_steer (demo_wiring\<lparr>w_now := 2000\<rparr>) (demo_r1\<lparr>ro_m := demo_call\<rparr>)
      [(mk_event EvJoined ''c2'' ''s1'')\<lparr>ev_Role := ''responder''\<rparr>, (mk_event EvPeerJoined ''c1'' ''s1'')\<lparr>ev_PeerRole := ''responder''\<rparr>]
      (\<lambda>sid. False)"
    by (simp add: demo_r2_def handle_message_def demo_wiring_def demo_r1_eval new_router_def client_types negotiate_steer_def
        steer_decision_def Let_def)
  then show ?thesis by (simp add: emit_defs demo_wiring_def demo_r1_eval new_router_def fun_upd_twist)
qed

lemma demo_router_reach:
  "router_initial demo_r0" "(router_step (w_tenant demo_wiring))\<^sup>*\<^sup>* demo_r0 demo_r2"
proof -
  show "router_initial demo_r0"
    by (simp add: router_initial_def demo_r0_def new_router_def mgr_initial_def new_manager_def)
  have "router_step (w_tenant demo_wiring) demo_r0 demo_r1"
    unfolding demo_r1_def by (rule rs_message) (simp_all add: demo_r0_def new_router_def mgr_defs)
  moreover have "router_step (w_tenant demo_wiring) demo_r1 demo_r2"
    unfolding demo_r2_def by (rule rs_message) (auto simp: demo_r1_eval new_router_def demo_start_eval reg_get_def)
  ultimately show "(router_step (w_tenant demo_wiring))\<^sup>*\<^sup>* demo_r0 demo_r2" by auto
qed

lemma demo_guards: "is_valid_sdp ''v=0''" "\<not> length ''v=0'' > MaxSDPLength"
proof -
  show "is_valid_sdp ''v=0''" by code_simp
  show "\<not> length ''v=0'' > MaxSDPLength" by (simp add: MaxSDPLength_def)
qed

lemma demo_offer_result:
  "handle_message demo_wiring demo_r2 ''c1'' (offer_msg ''s1'' ''v=0'') gen
     = settle demo_wiring demo_r2 ''c1'' (mgr_offer demo_call ''T'' ''s1'' ''c1'' ''v=0'' 1000)"
  using demo_guards by (simp add: handle_message_def offer_msg_def zero_message_def client_types handle_offer_def is_steered_def
      demo_r2_eval new_router_def demo_wiring_def)

text \<open>
  C12. Routing contract. In any run of messages, closed connections and reaps, a message handled for
  connection \<open>c\<close> leaves every queue alone except the sender's own and those of connections that hold
  a seat in the very session the message names; that session and those connections belong to the
  sender's tenant, and the sender holds a seat in it too unless it is joining.
\<close>

theorem router_isolation:
  assumes "router_initial r0" and "(router_step ten)\<^sup>*\<^sup>* r0 r" and "w_tenant w = ten"
    and "ro_qs (handle_message w r c msg gen) d \<noteq> ro_qs r d" and "d \<noteq> c"
  shows "ten d = ten c
    \<and> (\<exists>s. reg_get (g_reg (ro_m r)) (cm_SessionID msg) = Some s \<and> s_TenantID s = ten c \<and> d \<in> conns_of s
         \<and> (c \<in> conns_of s \<or> cm_Type msg = TypeSessionJoin))"
proof -
  have inv: "router_inv ten r" by (rule relay.reachable_inv [OF assms(1,2)])
  then have seats: "seated ten (ro_m r)" by (simp add: router_inv_def)
  have "reaches (ro_m r) (ten c) (cm_SessionID msg) c d
      \<or> cm_Type msg = TypeSessionJoin \<and> has_seat (ro_m r) (ten c) (cm_SessionID msg) d"
    using handle_message_frame [OF inv assms(3,5)] assms(4) by blast
  then show ?thesis using seatedD [OF seats] by (auto simp: seat_defs)
qed

lemma demo_offer_delivered:
  "ro_qs (handle_message demo_wiring demo_r2 ''c1'' (offer_msg ''s1'' ''v=0'') gen) ''c2''
     = demo_queue [new_session_joined ''s1'' False, new_signal_offer ''s1'' ''v=0'']"
proof -
  have "fst (mgr_offer demo_call ''T'' ''s1'' ''c1'' ''v=0'' 1000) = Inr [(mk_event EvForwardOffer ''c2'' ''s1'')\<lparr>ev_SDP := ''v=0''\<rparr>]"
    by (simp add: demo_call_eval mgr_defs)
  then obtain m where m: "mgr_offer demo_call ''T'' ''s1'' ''c1'' ''v=0'' 1000
      = (Inr [(mk_event EvForwardOffer ''c2'' ''s1'')\<lparr>ev_SDP := ''v=0''\<rparr>], m)"
    by (cases "mgr_offer demo_call ''T'' ''s1'' ''c1'' ''v=0'' 1000") simp
  show ?thesis unfolding demo_offer_result m settle_def prod.case sum.case
    by (simp add: emit_defs demo_wiring_def demo_r2_eval new_router_def forwarded_def)
qed

theorem router_isolation_witness:
  "ro_qs (handle_message demo_wiring demo_r2 ''c1'' (offer_msg ''s1'' ''v=0'') (Inr ''x'')) ''c2'' \<noteq> ro_qs demo_r2 ''c2''
   \<and> w_tenant demo_wiring ''c2'' = w_tenant demo_wiring ''c1''
   \<and> (\<exists>s. reg_get (g_reg (ro_m demo_r2)) ''s1'' = Some s \<and> s_TenantID s = ''T'' \<and> {''c1'', ''c2''} \<subseteq> conns_of s)"
proof -
  have ch: "ro_qs (handle_message demo_wiring demo_r2 ''c1'' (offer_msg ''s1'' ''v=0'') (Inr ''x'')) ''c2'' \<noteq> ro_qs demo_r2 ''c2''"
    unfolding demo_offer_delivered by (simp add: demo_r2_eval new_router_def queue_new_def)
  have msg: "cm_SessionID (offer_msg ''s1'' ''v=0'') = ''s1''" "cm_Type (offer_msg ''s1'' ''v=0'') \<noteq> TypeSessionJoin"
    by (simp_all add: offer_msg_def zero_message_def client_types)
  have ten: "w_tenant demo_wiring ''c1'' = ''T''" by (simp add: demo_wiring_def)
  show ?thesis
    using router_isolation [OF demo_router_reach refl ch] ch msg ten by auto
qed

section \<open>What a relay delivers\<close>

text \<open>The ledger's verdict on a relayed message, the frame the peer is sent and the checks before.\<close>

definition relay_types :: "string list" where
  "relay_types = [TypeOffer, TypeAnswer, TypeCandidate]"

definition relay_op :: "wiring \<Rightarrow> manager \<Rightarrow> string \<Rightarrow> client_message \<Rightarrow> (session_error + event list) \<times> manager" where
  "relay_op w m c msg =
     (if cm_Type msg = TypeOffer then mgr_offer m (w_tenant w c) (cm_SessionID msg) c (cm_SDP msg) (w_now w)
      else if cm_Type msg = TypeAnswer then mgr_answer m (w_tenant w c) (cm_SessionID msg) c (cm_SDP msg) (w_now w)
      else mgr_candidate m (w_tenant w c) (cm_SessionID msg) c (cm_Candidate msg))"

definition relayed_frame :: "client_message \<Rightarrow> frame" where
  "relayed_frame msg =
     (if cm_Type msg = TypeOffer then new_signal_offer (cm_SessionID msg) (cm_SDP msg)
      else if cm_Type msg = TypeAnswer then new_signal_answer (cm_SessionID msg) (cm_SDP msg)
      else new_signal_candidate (cm_SessionID msg) (cm_Candidate msg))"

definition payload_ok :: "client_message \<Rightarrow> bool" where
  "payload_ok msg \<longleftrightarrow>
     (if cm_Type msg = TypeCandidate then candidate_is_object (cm_Candidate msg)
      else is_valid_sdp (cm_SDP msg) \<and> length (cm_SDP msg) \<le> MaxSDPLength)"

lemma relay_types_cases:
  assumes "cm_Type msg \<in> set relay_types"
  obtains (offer) "cm_Type msg = TypeOffer" | (answer) "cm_Type msg = TypeAnswer" | (candidate) "cm_Type msg = TypeCandidate"
  using assms by (auto simp: relay_types_def)

lemma handle_relay:
  assumes "cm_Type msg \<in> set relay_types" and "\<not> is_steered r (cm_SessionID msg)" and "payload_ok msg"
  shows "handle_message w r c msg gen = settle w r c (relay_op w (ro_m r) c msg)"
  using assms(1)
proof (cases rule: relay_types_cases)
  case offer
  with assms(2,3) show ?thesis
    by (simp add: handle_message_def handle_offer_def relay_op_def payload_ok_def client_types)
next
  case answer
  with assms(2,3) show ?thesis
    by (simp add: handle_message_def handle_answer_def relay_op_def payload_ok_def client_types)
next
  case candidate
  with assms(2,3) show ?thesis
    by (simp add: handle_message_def handle_candidate_def relay_op_def payload_ok_def client_types)
qed

lemma relay_op_event:
  assumes "mgr_inv m" and "cm_Type msg \<in> set relay_types" and "fst (relay_op w m c msg) = Inr evs"
  obtains peer s ev where "reg_get (g_reg m) (cm_SessionID msg) = Some s" "s_TenantID s = w_tenant w c"
    "conns_of s = {c, peer}" "peer \<noteq> c" "evs = [ev]" "ev_Recipient ev = peer" "ev_SessionID ev = cm_SessionID msg"
    "ev_Kind ev \<noteq> EvEnded" "\<And>sb e. translate w sb e ev = (relayed_frame msg, True, e)"
  using assms(2)
proof (cases rule: relay_types_cases)
  case offer
  then have "fst (mgr_offer m (w_tenant w c) (cm_SessionID msg) c (cm_SDP msg) (w_now w)) = Inr evs"
    using assms(3) by (simp add: relay_op_def)
  from mgr_offer_relays [OF assms(1) this] offer show ?thesis
    by (auto simp: relays_def mk_event_def translate_def relayed_frame_def intro!: that)
next
  case answer
  then have "fst (mgr_answer m (w_tenant w c) (cm_SessionID msg) c (cm_SDP msg) (w_now w)) = Inr evs"
    using assms(3) by (simp add: relay_op_def client_types)
  from mgr_answer_relays [OF assms(1) this] answer show ?thesis
    by (auto simp: relays_def mk_event_def translate_def relayed_frame_def client_types intro!: that)
next
  case candidate
  then have "fst (mgr_candidate m (w_tenant w c) (cm_SessionID msg) c (cm_Candidate msg)) = Inr evs"
    using assms(3) by (simp add: relay_op_def client_types)
  from mgr_candidate_relays [OF assms(1) this] candidate show ?thesis
    by (auto simp: relays_def mk_event_def translate_def relayed_frame_def client_types intro!: that)
qed

lemma emit_relayed:
  assumes "ev_Kind ev \<noteq> EvEnded" and "\<And>sb e. translate w sb e ev = (f, True, e)"
  shows "emit w r [ev] =
     (if \<not> w_live w (ev_Recipient ev) then r
      else if fst (enqueue (ro_qs r (ev_Recipient ev)) f) then forwarded (snd (sub_enqueue r (ev_Recipient ev) f))
      else drop_on_full w (snd (sub_enqueue r (ev_Recipient ev) f)) ev)"
  using assms by (simp add: emit_def emit_with_steer_def emit_event_def Let_def case_prod_unfold)


text \<open>
  C30. Delivery of relayed negotiation frames. When the ledger accepts an offer, an answer or a
  candidate of an unsteered session, the peer (the other seat) gets exactly the frame that carries
  the sender's session id and payload unchanged, at the end of its queue, if it is connected and its
  queue has room; the relay counters go up by one, no other queue changes, and nothing else of the
  router does but the ledger.
\<close>

theorem relay_delivered:
  assumes "router_initial r0" and "(router_step ten)\<^sup>*\<^sup>* r0 r" and "w_tenant w = ten"
    and "cm_Type msg \<in> set relay_types" and "payload_ok msg" and "\<not> is_steered r (cm_SessionID msg)"
    and "relay_op w (ro_m r) c msg = (Inr evs, m')"
  shows "\<exists>s peer. reg_get (g_reg (ro_m r)) (cm_SessionID msg) = Some s \<and> conns_of s = {c, peer} \<and> peer \<noteq> c
    \<and> (w_live w peer \<and> queue_len (ro_qs r peer) < queue_capacity (ro_qs r peer) \<longrightarrow>
         handle_message w r c msg gen = r\<lparr>ro_m := m', ro_relayedTotal := ro_relayedTotal r + 1, ro_reg := signal_relayed (ro_reg r),
           ro_qs := (ro_qs r)(peer := (ro_qs r peer)\<lparr>q_ch := q_ch (ro_qs r peer) @ [relayed_frame msg],
             q_enqueued := q_enqueued (ro_qs r peer) + 1\<rparr>)\<rparr>)"
proof -
  have inv: "mgr_inv (ro_m r)" using relay.reachable_inv [OF assms(1,2)] by (simp add: router_inv_def)
  have "fst (relay_op w (ro_m r) c msg) = Inr evs" by (simp add: assms(7))
  then obtain peer s ev where ev: "reg_get (g_reg (ro_m r)) (cm_SessionID msg) = Some s" "conns_of s = {c, peer}" "peer \<noteq> c"
      "evs = [ev]" "ev_Recipient ev = peer" "ev_Kind ev \<noteq> EvEnded" "\<And>sb e. translate w sb e ev = (relayed_frame msg, True, e)"
    by (rule relay_op_event [OF inv assms(4)]) blast
  have "handle_message w r c msg gen = emit w (r\<lparr>ro_m := m'\<rparr>) [ev]"
    by (simp add: handle_relay [OF assms(4,6,5)] assms(7) settle_def ev(4))
  then show ?thesis
    using ev(1-3) by (auto simp: emit_relayed [OF ev(6,7)] ev(5) queue_len_def queue_capacity_def enqueue_def try_enqueue_def
        forwarded_def sub_enqueue_def intro!: exI [of _ s] exI [of _ peer])
qed

lemma demo_r2_simps:
  "ro_m demo_r2 = demo_call" "ro_steerSessions demo_r2 = {||}" "ro_engineSessions demo_r2 = fmempty"
  "ro_qs demo_r2 ''c2'' = demo_queue [new_session_joined ''s1'' False]"
  "ro_qs demo_r2 ''c1'' = demo_queue [new_session_started ''s1'', new_session_peer_joined ''s1'' ''responder'' False]"
  "reg_get (g_reg demo_call) ''s1'' = Some s \<Longrightarrow> conns_of s = {''c1'', ''c2''}"
  by (auto simp: demo_r2_eval new_router_def demo_call_eval reg_get_def conns_of_def)

lemma demo_offer_msg:
  "payload_ok (offer_msg ''s1'' ''v=0'')" "cm_Type (offer_msg ''s1'' ''v=0'') \<in> set relay_types"
  "cm_SessionID (offer_msg sid ''v=0'') = sid" "\<not> is_steered demo_r2 sid"
  "\<exists>m. relay_op demo_wiring demo_call ''c1'' (offer_msg ''s1'' ''v=0'')
     = (Inr [(mk_event EvForwardOffer ''c2'' ''s1'')\<lparr>ev_SDP := ''v=0''\<rparr>], m)"
proof -
  have "fst (mgr_offer demo_call ''T'' ''s1'' ''c1'' ''v=0'' 1000) = Inr [(mk_event EvForwardOffer ''c2'' ''s1'')\<lparr>ev_SDP := ''v=0''\<rparr>]"
    by (simp add: demo_call_eval mgr_defs)
  then show "\<exists>m. relay_op demo_wiring demo_call ''c1'' (offer_msg ''s1'' ''v=0'')
     = (Inr [(mk_event EvForwardOffer ''c2'' ''s1'')\<lparr>ev_SDP := ''v=0''\<rparr>], m)"
    by (cases "mgr_offer demo_call ''T'' ''s1'' ''c1'' ''v=0'' 1000") (simp add: relay_op_def offer_msg_def zero_message_def demo_wiring_def)
qed (use demo_guards in \<open>simp_all add: payload_ok_def offer_msg_def zero_message_def relay_types_def client_types is_steered_def
        demo_r2_simps\<close>)

theorem relay_delivered_witness:
  "q_ch (ro_qs (handle_message demo_wiring demo_r2 ''c1'' (offer_msg ''s1'' ''v=0'') (Inr ''x'')) ''c2'')
     = [new_session_joined ''s1'' False, new_signal_offer ''s1'' ''v=0'']"
proof -
  obtain m where m: "relay_op demo_wiring (ro_m demo_r2) ''c1'' (offer_msg ''s1'' ''v=0'')
      = (Inr [(mk_event EvForwardOffer ''c2'' ''s1'')\<lparr>ev_SDP := ''v=0''\<rparr>], m)"
    using demo_offer_msg(5) demo_r2_simps(1) by auto
  note d = relay_delivered [OF demo_router_reach refl demo_offer_msg(2,1,4) m, of "Inr ''x''", unfolded demo_offer_msg(3) demo_r2_simps(1)]
  then obtain s peer where s: "reg_get (g_reg demo_call) ''s1'' = Some s" "conns_of s = {''c1'', peer}" "peer \<noteq> ''c1''"
    and out: "w_live demo_wiring peer \<and> queue_len (ro_qs demo_r2 peer) < queue_capacity (ro_qs demo_r2 peer) \<longrightarrow>
         handle_message demo_wiring demo_r2 ''c1'' (offer_msg ''s1'' ''v=0'') (Inr ''x'') = demo_r2\<lparr>ro_m := m, ro_relayedTotal := ro_relayedTotal demo_r2 + 1,
           ro_reg := signal_relayed (ro_reg demo_r2), ro_qs := (ro_qs demo_r2)(peer := (ro_qs demo_r2 peer)
             \<lparr>q_ch := q_ch (ro_qs demo_r2 peer) @ [relayed_frame (offer_msg ''s1'' ''v=0'')], q_enqueued := q_enqueued (ro_qs demo_r2 peer) + 1\<rparr>)\<rparr>"
    by blast
  then have peer: "peer = ''c2''" using demo_r2_simps(6) [OF s(1)] by auto
  from out show ?thesis unfolding peer
    by (simp add: demo_r2_simps demo_wiring_def queue_len_def queue_capacity_def relayed_frame_def offer_msg_def zero_message_def)
qed

section \<open>A full peer queue\<close>








end
