(* ===== verification/Gw_Router_Close.thy ===== *)
theory Gw_Router_Close
  imports Gw_Router_Spec "HOL-Library.Multiset"
begin

text \<open>
  The refusals of the two media paths and the release of a closed connection's engine sessions.
\<close>

section \<open>Media paths\<close>

definition engine_types :: "string list" where
  "engine_types = [TypeEngineOffer, TypeEngineCandidate, TypeEnginePublish, TypeEngineSubscribe, TypeEngineUnsubscribe]"

lemma refuse_eq: "refuse r c code msg = r\<lparr>ro_qs := (ro_qs r)(c := snd (enqueue (ro_qs r c) (new_error code msg)))\<rparr>"
  by (simp add: refuse_def sub_enqueue_def case_prod_unfold Let_def)

lemma steered_relay_refused:
  assumes "is_steered r (cm_SessionID msg)" and "cm_Type msg \<in> set relay_types"
  shows "\<exists>m. handle_message w r c msg gen = refuse r c CodeSteerModeBlocked m"
  using assms(2)
proof (cases rule: relay_types_cases)
  case offer
  with assms(1) show ?thesis by (auto simp: handle_message_def handle_offer_def client_types)
next
  case answer
  with assms(1) show ?thesis by (auto simp: handle_message_def handle_answer_def client_types)
next
  case candidate
  with assms(1) show ?thesis by (auto simp: handle_message_def handle_candidate_def client_types)
qed

lemma unsteered_engine_refused:
  assumes "\<not> is_steered r (cm_SessionID msg)" and "cm_Type msg \<in> set engine_types"
  shows "\<exists>m. handle_message w r c msg gen = refuse r c CodeSteerModeBlocked m"
proof -
  have "handle_message w r c msg gen = handle_engine_signal w r c msg"
    using assms(2) by (auto simp: engine_types_def handle_message_def client_types)
  then show ?thesis using assms(1) by (auto simp: handle_engine_signal_def Let_def)
qed

text \<open>
  A frame on the wrong path of its session is answered with \<open>steer_mode_blocked\<close>, in both directions
  (the vocabulary in \<open>protocol/message.go\<close> announces \<open>steer_mode_not_active\<close> for engine frames on a plain
  session; no such code exists), and nothing else happens.
\<close>

lemma misaddressed_refused:
  assumes "cm_Type msg \<in> set (if is_steered r (cm_SessionID msg) then relay_types else engine_types)"
  shows "\<exists>m. handle_message w r c msg gen =
    r\<lparr>ro_qs := (ro_qs r)(c := snd (enqueue (ro_qs r c) (new_error CodeSteerModeBlocked m)))\<rparr>"
  using assms steered_relay_refused [of r msg w c gen] unsteered_engine_refused [of r msg w c gen]
  by (auto simp: refuse_eq split: if_splits)

section \<open>Steered sessions are visible to strangers\<close>

text \<open>A run with an engine wired and forced steering: the join of \<open>c2\<close> steers session \<open>s1\<close>.\<close>

definition forced_wiring :: wiring where
  "forced_wiring = demo_wiring\<lparr>w_engine := Some (\<lambda>calls op. Inl (TransportErr ''refused'')), w_up := True, w_steerMode := ''force''\<rparr>"

definition demo_s2 :: router where
  "demo_s2 = handle_message (forced_wiring\<lparr>w_now := 2000\<rparr>) demo_r1 ''c2''
     (zero_message\<lparr>cm_Type := TypeSessionJoin, cm_SessionID := ''s1''\<rparr>) (Inr ''s2'')"

lemma demo_s2_simps: "ro_steerSessions demo_s2 = {|''s1''|}" "ro_m demo_s2 = demo_call"
proof -
  have j: "mgr_join demo_start ''T'' ''s1'' ''c2'' 2000
      = (Inr [(mk_event EvJoined ''c2'' ''s1'')\<lparr>ev_Role := ''responder''\<rparr>,
              (mk_event EvPeerJoined ''c1'' ''s1'')\<lparr>ev_PeerRole := ''responder''\<rparr>], demo_call)"
    by (simp add: demo_call_def demo_start_eval mgr_defs)
  have e: "demo_s2 = emit_with_steer (forced_wiring\<lparr>w_now := 2000\<rparr>) (demo_r1\<lparr>ro_m := demo_call, ro_steerSessions := {|''s1''|}\<rparr>)
      [(mk_event EvJoined ''c2'' ''s1'')\<lparr>ev_Role := ''responder''\<rparr>, (mk_event EvPeerJoined ''c1'' ''s1'')\<lparr>ev_PeerRole := ''responder''\<rparr>]
      (\<lambda>sid. sid = ''s1'')"
    using j by (simp add: demo_s2_def handle_message_def forced_wiring_def demo_wiring_def demo_r1_eval new_router_def client_types
        negotiate_steer_def steer_decision_def Let_def)
  show "ro_steerSessions demo_s2 = {|''s1''|}" "ro_m demo_s2 = demo_call"
    unfolding e by (simp_all add: emit_defs forced_wiring_def demo_wiring_def demo_r1_eval new_router_def engine_do_def engine_join_def)
qed

lemma relay_unknown:
  assumes "cm_Type msg \<in> set relay_types" and "\<forall>s. reg_get (g_reg m) (cm_SessionID msg) = Some s \<longrightarrow> s_TenantID s \<noteq> w_tenant w c \<or> c \<notin> conns_of s"
  shows "relay_op w m c msg = (Inl ErrUnknownSession, m)"
proof -
  have "lookup_member m (w_tenant w c) (cm_SessionID msg) c = Inl ErrUnknownSession" using assms(2) by (simp add: lookup_member_Inl)
  then show ?thesis by (simp add: relay_op_def mgr_offer_def mgr_answer_def mgr_candidate_def)
qed

text \<open>
  A stranger can tell a steered session from one that does not exist. For any connection, of any
  tenant, a well-formed offer, answer or candidate naming a steered session is answered
  \<open>steer_mode_blocked\<close>, while naming an unsteered session in which it holds no seat (unknown or
  another tenant's) is answered \<open>session_unknown\<close>: the mode is tested before the membership, so the
  collapse of the three \<open>session_unknown\<close> cases that the protocol promises does not hold for
  steered sessions.
\<close>

theorem steered_session_disclosed:
  assumes "cm_Type msg \<in> set relay_types" and "payload_ok msg" and "is_steered r sid" and "\<not> is_steered r sid'"
    and "\<forall>s. reg_get (g_reg (ro_m r)) sid' = Some s \<longrightarrow> s_TenantID s \<noteq> w_tenant w c \<or> c \<notin> conns_of s"
  shows "(\<exists>m. handle_message w r c (msg\<lparr>cm_SessionID := sid\<rparr>) gen = refuse r c CodeSteerModeBlocked m)
    \<and> handle_message w r c (msg\<lparr>cm_SessionID := sid'\<rparr>) gen = refuse r c CodeSessionUnknown ''no such session''"
proof
  show "\<exists>m. handle_message w r c (msg\<lparr>cm_SessionID := sid\<rparr>) gen = refuse r c CodeSteerModeBlocked m"
    using assms(1,3) by (intro steered_relay_refused) simp_all
  have p: "payload_ok (msg\<lparr>cm_SessionID := sid'\<rparr>)" using assms(2) by (simp add: payload_ok_def)
  have "relay_op w (ro_m r) c (msg\<lparr>cm_SessionID := sid'\<rparr>) = (Inl ErrUnknownSession, ro_m r)"
    using assms(1,5) by (intro relay_unknown) simp_all
  then show "handle_message w r c (msg\<lparr>cm_SessionID := sid'\<rparr>) gen = refuse r c CodeSessionUnknown ''no such session''"
    using assms(1,4) by (simp add: handle_relay [OF _ _ p] settle_def fail_refuse fail_code_def)
qed

theorem steered_session_disclosed_witness:
  "(\<exists>m. handle_message forced_wiring demo_s2 ''c9'' (offer_msg ''s1'' ''v=0'') (Inr ''x'') = refuse demo_s2 ''c9'' CodeSteerModeBlocked m)
   \<and> handle_message forced_wiring demo_s2 ''c9'' (offer_msg ''s7'' ''v=0'') (Inr ''x'') = refuse demo_s2 ''c9'' CodeSessionUnknown ''no such session''"
  using steered_session_disclosed [OF demo_offer_msg(2,1), of demo_s2 "''s1''" "''s7''" forced_wiring "''c9''" "Inr ''x''"]
  by (simp add: is_steered_def demo_s2_simps offer_msg_def zero_message_def demo_call_eval reg_get_def)

section \<open>Closed connections\<close>

text \<open>The two components the engine hooks of leaving touch.\<close>

definition engine_side :: "router \<Rightarrow> (string, string) fmap \<times> engine_op list" where
  "engine_side r = (ro_engineSessions r, ro_calls r)"

fun leave_pair :: "string \<Rightarrow> (string, string) fmap \<times> engine_op list \<Rightarrow> (string, string) fmap \<times> engine_op list" where
  "leave_pair k (es, calls) = (case fmlookup es k of None \<Rightarrow> (es, calls) | Some s \<Rightarrow> (fmdrop k es, calls @ [ELeave s]))"

lemma engine_side_leave: "engine_side (engine_leave_key eng r k) = leave_pair k (engine_side r)"
  by (simp add: engine_side_def engine_leave_key_def engine_do_def split: option.split)

lemma engine_side_fold: "engine_side (fold (\<lambda>k r. engine_leave_key eng r k) ks r) = fold leave_pair ks (engine_side r)"
  by (induction ks arbitrary: r) (simp_all add: engine_side_leave)

lemma fold_leave_pair:
  "fold leave_pair ks (es, calls) = (es', calls') \<Longrightarrow>
     es' = fmfilter (\<lambda>k. k \<notin> set ks) es
     \<and> mset calls' = mset calls + image_mset (\<lambda>k. ELeave (the (fmlookup es k))) (mset_set (set ks \<inter> fmdom' es))"
proof (induction ks arbitrary: es calls)
  case (Cons k ks)
  show ?case
  proof (cases "fmlookup es k")
    case None
    then have dom: "set (k # ks) \<inter> fmdom' es = set ks \<inter> fmdom' es" by (auto simp: fmdom'_notI)
    have "fmfilter (\<lambda>x. x \<notin> set (k # ks)) es = fmfilter (\<lambda>x. x \<notin> set ks) es" using None by (intro fmap_ext) auto
    then show ?thesis using Cons.IH [of es calls] Cons.prems None unfolding dom by simp
  next
    case (Some s)
    let ?es = "fmdrop k es"
    have dom: "set (k # ks) \<inter> fmdom' es = insert k (set ks \<inter> fmdom' ?es)" using Some by (auto simp: fmdom'I)
    have "fmfilter (\<lambda>x. x \<notin> set (k # ks)) es = fmfilter (\<lambda>x. x \<notin> set ks) ?es" by (intro fmap_ext) auto
    moreover have "image_mset (\<lambda>x. ELeave (the (fmlookup ?es x))) (mset_set (set ks \<inter> fmdom' ?es))
        = image_mset (\<lambda>x. ELeave (the (fmlookup es x))) (mset_set (set ks \<inter> fmdom' ?es))"
      by (rule multiset.map_cong [OF refl]) auto
    ultimately show ?thesis using Cons.IH [of ?es "calls @ [ELeave s]"] Cons.prems Some unfolding dom by simp
  qed
qed (simp add: fmap_ext)

lemma fold_leave_reg: "ro_reg (fold (\<lambda>k r. engine_leave_key eng r k) ks r) = ro_reg r"
  by (induction ks arbitrary: r) simp_all

lemma engine_side_emit_ended:
  assumes "ev_Kind ev = EvEnded" and "w_engine w = Some eng"
  shows "engine_side (em_r (emit_event w sb ev e)) = leave_pair (engine_key (ev_Recipient ev) (ev_SessionID ev)) (engine_side (em_r e))"
proof -
  have frame: "engine_side (em_r (emit_event w sb ev e)) = engine_side (engine_leave_hook w (em_r e) (ev_Recipient ev) (ev_SessionID ev))"
    using assms(1) by (simp add: emit_event_def translate_def Let_def case_prod_unfold engine_side_def clear_steer_def drop_on_full_def
        reg_dropped_def)
  show ?thesis unfolding frame using assms(2) by (simp add: engine_leave_hook_def engine_side_leave)
qed

lemma engine_side_emit_all_ended:
  assumes "\<forall>ev \<in> set evs. ev_Kind ev = EvEnded" and "w_engine w = Some eng"
  shows "engine_side (emit w r evs) = fold leave_pair (map (\<lambda>ev. engine_key (ev_Recipient ev) (ev_SessionID ev)) evs) (engine_side r)"
proof -
  have "engine_side (em_r (fold (emit_event w sb) evs e))
      = fold leave_pair (map (\<lambda>ev. engine_key (ev_Recipient ev) (ev_SessionID ev)) evs) (engine_side (em_r e))" for sb e
    using assms by (induction evs arbitrary: e) (simp_all add: engine_side_emit_ended)
  then show ?thesis by (simp add: emit_def emit_with_steer_def)
qed

text \<open>The engine sessions recorded for a connection, and for the other seats of its session.\<close>

definition own_key :: "string \<Rightarrow> string \<Rightarrow> bool" where
  "own_key c k \<longleftrightarrow> length k > length (c @ '':'') \<and> has_prefix k (c @ '':'')"

definition ended_key :: "manager \<Rightarrow> string \<Rightarrow> string \<Rightarrow> bool" where
  "ended_key m c k \<longleftrightarrow>
     (\<exists>sid s d. session_for_conn (g_reg m) c = Some sid \<and> reg_get (g_reg m) sid = Some s \<and> d \<in> conns_of s \<and> d \<noteq> c \<and> k = engine_key d sid)"

lemma conn_dropped_events:
  assumes "mgr_inv m"
  shows "\<forall>ev \<in> set (fst (conn_dropped m c now)). ev_Kind ev = EvEnded"
    and "(\<lambda>ev. engine_key (ev_Recipient ev) (ev_SessionID ev)) ` set (fst (conn_dropped m c now)) = {k. ended_key m c k}"
proof -
  show "\<forall>ev \<in> set (fst (conn_dropped m c now)). ev_Kind ev = EvEnded"
    by (auto simp: conn_dropped_def case_prod_unfold Let_def fst_end_locked mk_event_def split: option.split)
  show "(\<lambda>ev. engine_key (ev_Recipient ev) (ev_SessionID ev)) ` set (fst (conn_dropped m c now)) = {k. ended_key m c k}"
  proof (cases "session_for_conn (g_reg m) c")
    case None
    then show ?thesis by (simp add: conn_dropped_def ended_key_def)
  next
    case (Some sid)
    with reg_invD(4) [OF mgr_invD(1) [OF assms]] obtain s where s: "reg_get (g_reg m) sid = Some s" by blast
    then have "s_ID s = sid" by (rule reg_invD(1) [OF mgr_invD(1) [OF assms]])
    with Some s have "fst (conn_dropped m c now) = map (\<lambda>mb. (mk_event EvEnded (m_ConnID mb) sid)\<lparr>ev_Reason := ReasonPeerDisconnected\<rparr>)
        (filter (\<lambda>mb. m_ConnID mb \<noteq> c) (s_members s))"
      by (simp add: conn_dropped_def case_prod_unfold Let_def fst_end_locked mk_event_def filter_map comp_def)
    then have "(\<lambda>ev. engine_key (ev_Recipient ev) (ev_SessionID ev)) ` set (fst (conn_dropped m c now))
        = (\<lambda>mb. engine_key (m_ConnID mb) sid) ` {mb \<in> set (s_members s). m_ConnID mb \<noteq> c}"
      by (simp add: image_image mk_event_def)
    then show ?thesis using Some s by (auto simp: ended_key_def conns_of_def)
  qed
qed

lemma conn_dropped_free: "mgr_inv m \<Longrightarrow> session_for_conn (g_reg (snd (conn_dropped m c now))) c = None"
proof (cases "session_for_conn (g_reg m) c")
  case None
  then show ?thesis by (simp add: conn_dropped_def)
next
  case (Some sid)
  assume inv: "mgr_inv m"
  with Some reg_invD(4) [OF mgr_invD(1)] obtain s where s: "reg_get (g_reg m) sid = Some s" "c \<in> conns_of s" by blast
  then have "s_ID s = sid" by (intro reg_invD(1) [OF mgr_invD(1) [OF inv]])
  with Some s show ?thesis
    by (simp add: conn_dropped_def case_prod_unfold Let_def snd_end_locked reg_remove_simps)
qed

lemma free_after_remove: "session_for_conn r c = None \<Longrightarrow> session_for_conn (reg_remove r sid) c = None"
  by (cases "reg_get r sid") (auto simp: reg_remove_simps)

lemma free_after_end: "session_for_conn (g_reg m) c = None \<Longrightarrow> session_for_conn (g_reg (snd (mgr_end m t sid d reason now))) c = None"
  by (simp add: mgr_end_def case_prod_unfold Let_def snd_end_locked free_after_remove split: sum.split)

lemma free_after_emit: "session_for_conn (g_reg (ro_m r)) c = None \<Longrightarrow> session_for_conn (g_reg (ro_m (emit w r evs))) c = None"
proof -
  have "session_for_conn (g_reg (ro_m (em_r e))) c = None \<Longrightarrow> session_for_conn (g_reg (ro_m (em_r (fold (emit_event w sb) evs e)))) c = None"
    for sb e
  proof (induction evs arbitrary: e)
    case (Cons ev evs)
    have "session_for_conn (g_reg (ro_m (em_r (emit_event w sb ev e)))) c = None"
      using emit_event_m [of w sb ev e] Cons.prems free_after_end by (elim disjE) simp_all
    then show ?case using Cons.IH by simp
  qed simp
  then show "session_for_conn (g_reg (ro_m r)) c = None \<Longrightarrow> ?thesis" by (simp add: emit_def emit_with_steer_def)
qed

text \<open>
  The end of a connection releases what it held. Its seat is gone; the router forgets exactly the
  engine sessions recorded for the connection itself and those of the other seats of its session, and
  sends the engine exactly one leave for each of them. (If it was the only seat of its session, no
  event is produced at all: the gauge of live sessions keeps counting a session that is gone.)
\<close>

theorem closed_connection_released:
  fixes ord :: "string list" and c :: string
  assumes "router_initial r0" and "(router_step ten)\<^sup>*\<^sup>* r0 r" and "range_order ord (ro_engineSessions r)"
    and "w_engine w = Some eng"
  defines "r' \<equiv> router_conn_closed w r ord c" and "K \<equiv> {k. own_key c k \<or> ended_key (ro_m r) c k}"
  shows "session_for_conn (g_reg (ro_m r')) c = None
    \<and> ro_engineSessions r' = fmfilter (\<lambda>k. k \<notin> K) (ro_engineSessions r)
    \<and> mset (ro_calls r') = mset (ro_calls r)
        + image_mset (\<lambda>k. ELeave (the (fmlookup (ro_engineSessions r) k))) (mset_set (K \<inter> fmdom' (ro_engineSessions r)))
    \<and> (\<forall>sid s. session_for_conn (g_reg (ro_m r)) c = Some sid \<and> reg_get (g_reg (ro_m r)) sid = Some s \<and> conns_of s = {c}
        \<longrightarrow> mx_signalSessionsCurrent (ro_reg r') = mx_signalSessionsCurrent (ro_reg r))"
proof -
  have inv: "mgr_inv (ro_m r)" using relay.reachable_inv [OF assms(1,2)] by (simp add: router_inv_def)
  let ?keys = "filter (\<lambda>k. length k > length (c @ '':'') \<and> has_prefix k (c @ '':'')) ord"
  let ?r1 = "fold (\<lambda>k r. engine_leave_key eng r k) ?keys r"
  let ?evs = "fst (conn_dropped (ro_m r) c (w_now w))" and ?m = "snd (conn_dropped (ro_m r) c (w_now w))"
  let ?ks = "?keys @ map (\<lambda>ev. engine_key (ev_Recipient ev) (ev_SessionID ev)) ?evs"
  have r': "r' = emit w (?r1\<lparr>ro_m := ?m\<rparr>) ?evs"
    by (simp add: r'_def router_conn_closed_def engine_leave_all_for_conn_def assms(4) Let_def case_prod_unfold fold_leave_simps)
  have "session_for_conn (g_reg (ro_m r')) c = None"
    unfolding r' by (intro free_after_emit) (simp add: conn_dropped_free [OF inv])
  moreover have side: "engine_side (?r1\<lparr>ro_m := ?m\<rparr>) = fold leave_pair ?keys (engine_side r)"
    using engine_side_fold [of eng ?keys r] by (simp add: engine_side_def)
  have "engine_side r' = fold leave_pair ?ks (engine_side r)"
    unfolding r' engine_side_emit_all_ended [OF conn_dropped_events(1) [OF inv] assms(4)] side by simp
  note fold_leave_pair [OF this [symmetric, unfolded engine_side_def]]
  moreover have keys: "set ?ks \<inter> fmdom' (ro_engineSessions r) = K \<inter> fmdom' (ro_engineSessions r)"
    using assms(3) conn_dropped_events(2) [OF inv, of c "w_now w"] range_order_set [OF assms(3)]
    by (auto simp: K_def own_key_def fmdom'_notI fmlookup_dom'_iff)
  moreover have "fmfilter (\<lambda>k. k \<notin> set ?ks) (ro_engineSessions r) = fmfilter (\<lambda>k. k \<notin> K) (ro_engineSessions r)"
    using keys by (intro fmfilter_cong) (blast intro: fmdom'I)
  moreover have "mx_signalSessionsCurrent (ro_reg r') = mx_signalSessionsCurrent (ro_reg r)"
    if "session_for_conn (g_reg (ro_m r)) c = Some sid" "reg_get (g_reg (ro_m r)) sid = Some s" "conns_of s = {c}" for sid s
  proof -
    have "?evs = []"
      using that by (auto simp: conn_dropped_def case_prod_unfold Let_def fst_end_locked mk_event_def conns_of_def filter_empty_conv)
    then show ?thesis by (simp add: r' emit_def emit_with_steer_def fold_leave_reg)
  qed
  ultimately show ?thesis by auto
qed

text \<open>A run with an engine that admits every join.\<close>

definition admitting_wiring :: wiring where
  "admitting_wiring = demo_wiring\<lparr>w_engine := Some (\<lambda>calls op. Inr [[(''type'', JStr ''ready''), (''session'', JStr ''e1'')]])\<rparr>"

definition demo_e1 :: router where
  "demo_e1 = handle_message admitting_wiring demo_r0 ''c1'' (zero_message\<lparr>cm_Type := TypeSessionStart\<rparr>) (Inr ''s1'')"

lemma demo_e1_simps:
  "ro_m demo_e1 = demo_start" "ro_engineSessions demo_e1 = fmupd ''c1:s1'' ''e1'' fmempty" "ro_calls demo_e1 = [EJoin ''T:s1'' ''c1'']"
proof -
  have "mgr_start (new_manager 5 60000000000) ''T'' ''c1'' (Inr ''s1'') 1000
      = (Inr (''s1'', [(mk_event EvStarted ''c1'' ''s1'')\<lparr>ev_Role := ''initiator''\<rparr>]), demo_start)"
    by (simp add: demo_start_def mgr_defs)
  then have e: "demo_e1 = emit admitting_wiring (demo_r0\<lparr>ro_m := demo_start\<rparr>) [(mk_event EvStarted ''c1'' ''s1'')\<lparr>ev_Role := ''initiator''\<rparr>]"
    by (simp add: demo_e1_def handle_message_def admitting_wiring_def demo_wiring_def demo_r0_def new_router_def)
  show "ro_m demo_e1 = demo_start" "ro_engineSessions demo_e1 = fmupd ''c1:s1'' ''e1'' fmempty" "ro_calls demo_e1 = [EJoin ''T:s1'' ''c1'']"
    unfolding e by (simp_all add: emit_defs admitting_wiring_def demo_wiring_def demo_r0_def new_router_def engine_do_def engine_join_def
        str_field_def frame_member_def engine_key_def)
qed

theorem closed_connection_released_witness:
  "ro_engineSessions (router_conn_closed admitting_wiring demo_e1 [''c1:s1''] ''c1'') = fmempty
   \<and> mset (ro_calls (router_conn_closed admitting_wiring demo_e1 [''c1:s1''] ''c1'')) = {# EJoin ''T:s1'' ''c1'', ELeave ''e1'' #}"
proof -
  have "router_step (w_tenant admitting_wiring) demo_r0 demo_e1"
    unfolding demo_e1_def by (rule rs_message) (simp_all add: demo_r0_def new_router_def mgr_defs)
  then have reach: "(router_step (w_tenant admitting_wiring))\<^sup>*\<^sup>* demo_r0 demo_e1" by auto
  have "range_order [''c1:s1''] (ro_engineSessions demo_e1)" by (simp add: range_order_def demo_e1_simps)
  moreover have "own_key ''c1'' ''c1:s1''" by (simp add: own_key_def)
  moreover have "w_engine admitting_wiring = Some (\<lambda>calls op. Inr [[(''type'', JStr ''ready''), (''session'', JStr ''e1'')]])"
    by (simp add: admitting_wiring_def)
  ultimately show ?thesis
    using closed_connection_released [OF demo_router_reach(1) reach, of "[''c1:s1'']" admitting_wiring _ "''c1''", unfolded demo_e1_simps]
    by (simp add: demo_e1_simps)
qed

end
