(* ===== verification/Gw_Router_Media.thy ===== *)
theory Gw_Router_Media
  imports Gw_Router_Close
begin

text \<open>
  The two media paths of a session (negotiation relayed between the peers, or steered to the media
  engine): which frames and engine calls a step of the router may produce, given the mode of each
  session before it, and that the mode of a call in progress does not change.
\<close>

section \<open>What belongs to which path\<close>

text \<open>The session of a relayed negotiation frame, that of a frame made from an engine reply, and the engine session of a media call.\<close>

fun p2p_session :: "frame \<Rightarrow> string option" where
  "p2p_session (FSignalOffer sid sdp) = Some sid"
| "p2p_session (FSignalAnswer sid sdp) = Some sid"
| "p2p_session (FSignalCandidate sid candidate) = Some sid"
| "p2p_session f = None"

fun sfu_session :: "frame \<Rightarrow> string option" where
  "sfu_session (FEngineAnswer sid sdp) = Some sid"
| "sfu_session (FEngineTrackPublished sid participant track kind) = Some sid"
| "sfu_session f = None"


definition on_path :: "router \<Rightarrow> frame \<Rightarrow> bool" where
  "on_path r f \<longleftrightarrow> (\<forall>sid. p2p_session f = Some sid \<longrightarrow> \<not> is_steered r sid) \<and> (\<forall>sid. sfu_session f = Some sid \<longrightarrow> is_steered r sid)"


lemma on_path_plain: "p2p_session f = None \<Longrightarrow> sfu_session f = None \<Longrightarrow> on_path r f"
  by (simp add: on_path_def)

lemma plain_error [simp]: "on_path r (new_error code message)"
  by (simp add: on_path_plain new_error_def)


section \<open>Growth of queues and calls\<close>













section \<open>Events\<close>







section \<open>Engine replies\<close>





section \<open>The handlers\<close>









section \<open>The mode of a call in progress\<close>




lemma steer_dispatch [simp]: "is_steered (dispatch_engine_frames w r c s frames) sid = is_steered r sid"
proof -
  have "is_steered (dispatch_engine_frame w c s f x) sid = is_steered x sid" for f x
    by (simp add: dispatch_engine_frame_def fanout_track_published_def case_prod_unfold Let_def is_steered_def split: option.split)
  then have "is_steered (fold (dispatch_engine_frame w c s) frames x) sid = is_steered x sid" for x
    by (induction frames arbitrary: x) simp_all
  then show ?thesis by (simp add: dispatch_engine_frames_def)
qed




lemma steer_simple [simp]: "is_steered (r\<lparr>ro_m := m\<rparr>) sid = is_steered r sid" "is_steered (refuse r c code message) sid = is_steered r sid"
  by (simp_all add: is_steered_def)




section \<open>The two paths\<close>


text \<open>A steered call: \<open>c2\<close> joins under forced steering with an engine that admits every join, then \<open>c1\<close> publishes a track.\<close>

definition steering_wiring :: wiring where
  "steering_wiring = admitting_wiring\<lparr>w_up := True, w_steerMode := ''force'', w_now := 2000\<rparr>"




lemma steering_simps [simp]:
  "w_live steering_wiring c" "w_tenant steering_wiring = w_tenant demo_wiring" "w_up steering_wiring" "w_steerMode steering_wiring = ''force''"
  "w_engine steering_wiring = Some (\<lambda>calls op. Inr [[(''type'', JStr ''ready''), (''session'', JStr ''e1'')]])" "w_now steering_wiring = 2000"
  by (simp_all add: steering_wiring_def admitting_wiring_def demo_wiring_def)




end
