(* ===== verification/Gw_Auth.thy ===== *)
theory Gw_Auth
  imports Gw_Number Gw_Validate "HOL-Library.Word"
begin

text \<open>
  Verification of dashboard access tokens (\<open>internal/auth\<close>): the compact JWS envelope with its
  base64url segments, the payload claims with their coercions, and the shared helpers for bearer
  credentials. HMAC-SHA256 and SHA-256 are the arguments \<open>hmac\<close> and \<open>sha\<close>; the lower-casing of
  non-ASCII text is \<open>ul\<close>. Conversion of an out-of-range \<open>float64\<close> to \<open>int64\<close> is that of amd64.
\<close>

section \<open>Base64url\<close>

definition b64_alphabet :: string where
  "b64_alphabet = ''ABCDEFGHIJKLMNOPQRSTUVWXYZabcdefghijklmnopqrstuvwxyz0123456789-_''"

fun index_of :: "char \<Rightarrow> string \<Rightarrow> nat option" where
  "index_of c [] = None"
| "index_of c (x # xs) = (if c = x then Some 0 else map_option Suc (index_of c xs))"

text \<open>\<open>DecodeString\<close> skips carriage returns and line feeds; unused bits of the last digit are not checked.\<close>

fun b64_values :: "string \<Rightarrow> nat list option" where
  "b64_values [] = Some []"
| "b64_values (c # cs) =
     (if c = CHR 0x0D \<or> c = CHR 0x0A then b64_values cs
      else case index_of c b64_alphabet of
          None \<Rightarrow> None
        | Some n \<Rightarrow> map_option ((#) n) (b64_values cs))"

fun b64_bytes :: "nat list \<Rightarrow> nat list option" where
  "b64_bytes [] = Some []"
| "b64_bytes [a] = None"
| "b64_bytes [a, b] = Some [4 * a + b div 16]"
| "b64_bytes [a, b, c] = Some [4 * a + b div 16, 16 * (b mod 16) + c div 4]"
| "b64_bytes (a # b # c # d # ds) =
     map_option (\<lambda>bs. (4 * a + b div 16) # (16 * (b mod 16) + c div 4) # (64 * (c mod 4) + d) # bs) (b64_bytes ds)"

definition raw_url_decode :: "string \<Rightarrow> string option" where
  "raw_url_decode s =
     (case b64_values s of None \<Rightarrow> None | Some ns \<Rightarrow> map_option (map char_of) (b64_bytes ns))"

section \<open>Claims\<close>

datatype auth_error =
    ErrMalformed | ErrAlgorithm | ErrSignature | ErrExpired | ErrNotYet
  | ErrIssuer | ErrAudience | ErrTokenType | ErrClaims | ErrBadSubject

record claims =
  cl_UserID :: string
  cl_TenantID :: string
  cl_Role :: string
  cl_TokenVersion :: int
  cl_ExpiresAt :: time
  cl_JTI :: string

record payload =
  pl_Subject :: string
  pl_TenantID :: string
  pl_Role :: string
  pl_TokenVer :: jval
  pl_Type :: string
  pl_IssuedAt :: jval
  pl_NotBefore :: jval
  pl_ExpiresAt :: jval
  pl_Issuer :: string
  pl_AudienceRaw :: jval
  pl_JTI :: string

definition zero_payload :: payload where
  "zero_payload = \<lparr>pl_Subject = '''', pl_TenantID = '''', pl_Role = '''', pl_TokenVer = JNull, pl_Type = '''',
     pl_IssuedAt = JNull, pl_NotBefore = JNull, pl_ExpiresAt = JNull, pl_Issuer = '''', pl_AudienceRaw = JNull, pl_JTI = ''''\<rparr>"

definition set_claim :: "string \<Rightarrow> string \<Rightarrow> jval \<Rightarrow> payload \<Rightarrow> payload option" where
  "set_claim key raw v p =
     (if key_is ''sub'' key then map_option (\<lambda>s. p\<lparr>pl_Subject := s\<rparr>) (set_string v (pl_Subject p))
      else if key_is ''tid'' key then map_option (\<lambda>s. p\<lparr>pl_TenantID := s\<rparr>) (set_string v (pl_TenantID p))
      else if key_is ''role'' key then map_option (\<lambda>s. p\<lparr>pl_Role := s\<rparr>) (set_string v (pl_Role p))
      else if key_is ''tv'' key then map_option (\<lambda>x. p\<lparr>pl_TokenVer := x\<rparr>) (set_any raw v)
      else if key_is ''typ'' key then map_option (\<lambda>s. p\<lparr>pl_Type := s\<rparr>) (set_string v (pl_Type p))
      else if key_is ''iat'' key then map_option (\<lambda>x. p\<lparr>pl_IssuedAt := x\<rparr>) (set_any raw v)
      else if key_is ''nbf'' key then map_option (\<lambda>x. p\<lparr>pl_NotBefore := x\<rparr>) (set_any raw v)
      else if key_is ''exp'' key then map_option (\<lambda>x. p\<lparr>pl_ExpiresAt := x\<rparr>) (set_any raw v)
      else if key_is ''iss'' key then map_option (\<lambda>s. p\<lparr>pl_Issuer := s\<rparr>) (set_string v (pl_Issuer p))
      else if key_is ''aud'' key then map_option (\<lambda>x. p\<lparr>pl_AudienceRaw := x\<rparr>) (set_any raw v)
      else if key_is ''jti'' key then map_option (\<lambda>s. p\<lparr>pl_JTI := s\<rparr>) (set_string v (pl_JTI p))
      else Some p)"

definition audience_matches :: "jval \<Rightarrow> string \<Rightarrow> bool" where
  "audience_matches raw expected =
     (case raw of
        JStr s \<Rightarrow> s = expected
      | JArr vs \<Rightarrow> list_ex (\<lambda>v. v = JStr expected) vs
      | _ \<Rightarrow> False)"

definition unix_seconds :: "jval \<Rightarrow> int option" where
  "unix_seconds v = (case v of JNum t \<Rightarrow> map_option to_int64 (json_float t) | _ \<Rightarrow> None)"

text \<open>
  \<open>fmt.Sscanf(n, "%d", &i)\<close>: blanks (but no line feed), an optional sign, digits; what follows is not
  looked at. \<open>None\<close> when it reports an error.
\<close>

definition sscanf_d :: "string \<Rightarrow> int option" where
  "sscanf_d s =
     (let t = strip_prefixes (filter (\<lambda>w. w \<noteq> [CHR 0x0A]) space_runes) s;
          (sg, u) = (case t of c # t' \<Rightarrow> if c = CHR ''+'' \<or> c = CHR ''-'' then ([c], t') else ([], t) | [] \<Rightarrow> ([], t));
          ds = takeWhile is_digit u;
          n = (if sg = ''-'' then - dec_val ds else dec_val ds)
      in if ds = [] then None
         else if - (2 ^ 63) \<le> n \<and> n < 2 ^ 63 then Some n else None)"

definition int_version :: "jval \<Rightarrow> int" where
  "int_version v =
     (case v of
        JNum t \<Rightarrow> (case json_float t of None \<Rightarrow> 0 | Some x \<Rightarrow> to_int64 x)
      | JStr s \<Rightarrow> (case sscanf_d s of None \<Rightarrow> 0 | Some n \<Rightarrow> n)
      | _ \<Rightarrow> 0)"

section \<open>Times\<close>

definition clock_leeway :: duration where "clock_leeway = 30 * second"

text \<open>
  \<open>time.Unix(sec, 0)\<close> stores the seconds since year 1 in 64 bits and wraps; adding a duration
  saturates.
\<close>

definition unix_to_internal :: int where "unix_to_internal = 62135596800"

definition go_unix :: "int \<Rightarrow> time" where
  "go_unix sec = (sint (word_of_int (sec + unix_to_internal) :: 64 word) - unix_to_internal) * second"

definition time_add :: "time \<Rightarrow> duration \<Rightarrow> time" where
  "time_add t d = min (t + d) ((2 ^ 63 - 1 - unix_to_internal) * second)"

definition validate_payload :: "(string \<Rightarrow> string) \<Rightarrow> payload \<Rightarrow> string \<Rightarrow> string \<Rightarrow> time \<Rightarrow> auth_error + claims" where
  "validate_payload ul p issuer audience now =
     (if pl_Subject p = '''' \<or> pl_TenantID p = '''' \<or> pl_Role p = '''' then Inl ErrClaims
      else if pl_Type p \<noteq> ''access'' then Inl ErrTokenType
      else if pl_Issuer p \<noteq> issuer then Inl ErrIssuer
      else if \<not> audience_matches (pl_AudienceRaw p) audience then Inl ErrAudience
      else case unix_seconds (pl_ExpiresAt p) of
        None \<Rightarrow> Inl ErrClaims
      | Some expiry \<Rightarrow>
          if \<not> now < time_add (go_unix expiry) clock_leeway then Inl ErrExpired
          else case unix_seconds (pl_IssuedAt p) of
            None \<Rightarrow> Inl ErrClaims
          | Some iat \<Rightarrow>
              if go_unix iat > time_add now clock_leeway then Inl ErrNotYet
              else if (case unix_seconds (pl_NotBefore p) of None \<Rightarrow> False | Some nbf \<Rightarrow> go_unix nbf > time_add now clock_leeway)
              then Inl ErrNotYet
              else if \<not> is_uuid (pl_Subject p) \<or> \<not> is_uuid (pl_TenantID p) then Inl ErrBadSubject
              else Inr \<lparr>cl_UserID = to_lower ul (pl_Subject p), cl_TenantID = to_lower ul (pl_TenantID p), cl_Role = pl_Role p,
                cl_TokenVersion = int_version (pl_TokenVer p), cl_ExpiresAt = go_unix expiry, cl_JTI = pl_JTI p\<rparr>)"

section \<open>The envelope\<close>

definition set_alg :: "string \<Rightarrow> string \<Rightarrow> jval \<Rightarrow> string \<Rightarrow> string option" where
  "set_alg key raw v a = (if key_is ''alg'' key then set_string v a else Some a)"

record verifier =
  v_secret :: string
  v_issuer :: string
  v_audience :: string

definition new_verifier :: "string \<Rightarrow> string \<Rightarrow> string \<Rightarrow> verifier" where
  "new_verifier secret issuer audience = \<lparr>v_secret = secret, v_issuer = issuer, v_audience = audience\<rparr>"

definition verify :: "(string \<Rightarrow> string \<Rightarrow> string) \<Rightarrow> (string \<Rightarrow> string) \<Rightarrow> verifier \<Rightarrow> string \<Rightarrow> time \<Rightarrow> auth_error + claims" where
  "verify hmac ul v token now =
     (case split_on (CHR ''.'') token of
        [h, p, s] \<Rightarrow>
          if h = '''' \<or> p = '''' then Inl ErrMalformed
          else (case raw_url_decode h of
            None \<Rightarrow> Inl ErrMalformed
          | Some headerBytes \<Rightarrow>
              (case unmarshal set_alg '''' headerBytes of
                 None \<Rightarrow> Inl ErrMalformed
               | Some alg \<Rightarrow>
                   if alg \<noteq> ''HS256'' then Inl ErrAlgorithm
                   else (case raw_url_decode s of
                     None \<Rightarrow> Inl ErrMalformed
                   | Some signature \<Rightarrow>
                       if hmac (v_secret v) (h @ ''.'' @ p) \<noteq> signature then Inl ErrSignature
                       else (case raw_url_decode p of
                         None \<Rightarrow> Inl ErrMalformed
                       | Some payloadBytes \<Rightarrow>
                           (case unmarshal set_claim zero_payload payloadBytes of
                              None \<Rightarrow> Inl ErrMalformed
                            | Some pl \<Rightarrow> validate_payload ul pl (v_issuer v) (v_audience v) now)))))
      | _ \<Rightarrow> Inl ErrMalformed)"

section \<open>Bearer credentials\<close>

definition extract_bearer :: "string \<Rightarrow> string \<times> bool" where
  "extract_bearer header =
     (if has_prefix header ''Bearer '' \<and> drop 7 header \<noteq> '''' then (drop 7 header, True) else ('''', False))"

definition constant_time_token_equal :: "(string \<Rightarrow> string) \<Rightarrow> string \<Rightarrow> string \<Rightarrow> bool" where
  "constant_time_token_equal sha presented expected \<longleftrightarrow> sha presented = sha expected"

end
