(* ===== verification/Gw_Auth_Spec.thy ===== *)
theory Gw_Auth_Spec
  imports Gw_Auth
begin

text \<open>
  Soundness and completeness of token verification. The encoder of the reference tokens (the Python
  API mints them) is stated here: base64url without padding, the claims as JSON, the signature over
  the two encoded segments.
\<close>

section \<open>Base64url round trip\<close>

fun b64_digits :: "nat list \<Rightarrow> nat list" where
  "b64_digits [] = []"
| "b64_digits [x] = [x div 4, 16 * (x mod 4)]"
| "b64_digits [x, y] = [x div 4, 16 * (x mod 4) + y div 16, 4 * (y mod 16)]"
| "b64_digits (x # y # z # xs) =
     (x div 4) # (16 * (x mod 4) + y div 16) # (4 * (y mod 16) + z div 64) # (z mod 64) # b64_digits xs"

definition raw_url_encode :: "string \<Rightarrow> string" where
  "raw_url_encode s = map (\<lambda>n. b64_alphabet ! n) (b64_digits (map byte_val s))"

lemma b64_digits_range: "list_all (\<lambda>x. x < 256) xs \<Longrightarrow> list_all (\<lambda>n. n < 64) (b64_digits xs)"
  by (induction xs rule: b64_digits.induct) (auto simp: less_mult_imp_div_less)

lemma b64_bytes_digits: "list_all (\<lambda>x. x < 256) xs \<Longrightarrow> b64_bytes (b64_digits xs) = Some xs"
proof (induction xs rule: b64_digits.induct)
  case (4 x y z xs)
  then have "x < 256" "y < 256" "z < 256" by simp_all
  then have "4 * (x div 4) + (16 * (x mod 4) + y div 16) div 16 = x" "16 * ((16 * (x mod 4) + y div 16) mod 16) + (4 * (y mod 16) + z div 64) div 4 = y"
    "64 * ((4 * (y mod 16) + z div 64) mod 4) + z mod 64 = z"
    by (simp_all add: less_mult_imp_div_less)
  with 4 show ?case by simp
qed (auto simp: less_mult_imp_div_less)

lemma alphabet_index: "n < 64 \<Longrightarrow> index_of (b64_alphabet ! n) b64_alphabet = Some n \<and> b64_alphabet ! n \<notin> {CHR ''.'', CHR 0x0A, CHR 0x0D}"
proof -
  have "list_all (\<lambda>n. index_of (b64_alphabet ! n) b64_alphabet = Some n \<and> b64_alphabet ! n \<noteq> CHR ''.'' \<and> b64_alphabet ! n \<noteq> CHR 0x0A
      \<and> b64_alphabet ! n \<noteq> CHR 0x0D) [0 ..< 64]"
    by code_simp
  then show "n < 64 \<Longrightarrow> ?thesis" by (simp add: list_all_iff)
qed

lemma b64_values_alphabet: "list_all (\<lambda>n. n < 64) ns \<Longrightarrow> b64_values (map (\<lambda>n. b64_alphabet ! n) ns) = Some ns"
  by (induction ns) (simp_all add: alphabet_index [simplified])

lemma bytes_range: "list_all (\<lambda>x. x < 256) (map byte_val s)"
  by (simp add: list_all_iff byte_val_def)

lemma raw_url_roundtrip: "raw_url_decode (raw_url_encode s) = Some s"
proof -
  have "map char_of (map byte_val s) = s" by (induction s) (simp_all add: byte_val_def)
  then show ?thesis
    by (simp add: raw_url_decode_def raw_url_encode_def b64_values_alphabet [OF b64_digits_range [OF bytes_range]]
        b64_bytes_digits [OF bytes_range])
qed

lemma raw_url_encode_no_dot: "CHR ''.'' \<notin> set (raw_url_encode s)"
proof
  assume "CHR ''.'' \<in> set (raw_url_encode s)"
  then obtain n where "n \<in> set (b64_digits (map byte_val s))" "CHR ''.'' = b64_alphabet ! n" by (auto simp: raw_url_encode_def)
  moreover from this have "n < 64" using b64_digits_range [OF bytes_range, of s] by (simp add: list_all_iff)
  ultimately show False using alphabet_index [of n] by simp
qed

lemma raw_url_encode_nonempty: "s \<noteq> [] \<Longrightarrow> raw_url_encode s \<noteq> []"
  by (cases "map byte_val s" rule: b64_digits.cases) (auto simp: raw_url_encode_def)

section \<open>Numbers\<close>

lemma number_value_digits:
  assumes "list_all is_digit ds" and "ds \<noteq> []"
  shows "number_value ds = of_int (dec_val ds)" and "number_value (CHR ''-'' # ds) = - of_int (dec_val ds)"
proof -
  have plain: "\<forall>x \<in> set ds. x \<noteq> CHR ''e'' \<and> x \<noteq> CHR ''E'' \<and> x \<noteq> CHR ''.'' \<and> x \<noteq> CHR ''-''"
    using assms(1) by (auto simp: list_all_iff is_digit_def byte_val_def)
  have tw: "takeWhile (\<lambda>x. x \<noteq> CHR ''e'' \<and> x \<noteq> CHR ''E'') ds = ds" "dropWhile (\<lambda>x. x \<noteq> CHR ''e'' \<and> x \<noteq> CHR ''E'') ds = []"
    "takeWhile (\<lambda>x. x \<noteq> CHR ''.'') ds = ds" "dropWhile (\<lambda>x. x \<noteq> CHR ''.'') ds = []"
    using plain by (auto simp: takeWhile_eq_all_conv dropWhile_eq_Nil_conv)
  have "\<not> has_prefix ds ''-''" using plain assms(2) by (cases ds) auto
  then show "number_value ds = of_int (dec_val ds)"
    by (simp add: number_value_def tw exp_val_def power_of_ten_def)
  show "number_value (CHR ''-'' # ds) = - of_int (dec_val ds)"
    by (simp add: number_value_def tw exp_val_def power_of_ten_def)
qed

lemma json_float_int:
  assumes "\<bar>n\<bar> \<le> 2 ^ 53"
  shows "json_float (json_int n) = Some (of_int n)"
proof -
  have ds: "list_all is_digit (dec_nat k)" "dec_nat k \<noteq> []" "dec_val (dec_nat k) = int k" for k
    using dec_nat_digits [of k] dec_val_nat by auto
  have "number_value (json_int n) = of_int n"
    by (cases "n < 0") (simp_all add: json_int_def number_value_digits [OF ds(1,2)] ds(3))
  then have "rnd64 (number_value (json_int n)) = of_int n" using f64.rnd_integer [OF assms] by simp
  moreover have "\<bar>of_int n :: rat\<bar> \<le> 2 ^ 53" using assms by (metis of_int_abs of_int_le_iff of_int_numeral of_int_power)
  moreover have "(2 :: rat) ^ 53 < 2 ^ 1024" by simp
  ultimately show ?thesis unfolding json_float_def Let_def by (metis leD le_less_trans)
qed

section \<open>Minted tokens\<close>

text \<open>A token as the Python API mints it.\<close>

record minted =
  mt_sub :: string
  mt_tid :: string
  mt_role :: string
  mt_tv :: int
  mt_iat :: int
  mt_nbf :: int
  mt_exp :: int
  mt_jti :: string

definition claim_fields :: "string \<Rightarrow> string \<Rightarrow> minted \<Rightarrow> (string \<times> fval) list" where
  "claim_fields issuer audience m =
     [(''sub'', VStr (mt_sub m)), (''tid'', VStr (mt_tid m)), (''role'', VStr (mt_role m)), (''tv'', VInt (mt_tv m)),
      (''typ'', VStr ''access''), (''iat'', VInt (mt_iat m)), (''nbf'', VInt (mt_nbf m)), (''exp'', VInt (mt_exp m)),
      (''iss'', VStr issuer), (''aud'', VStr audience), (''jti'', VStr (mt_jti m))]"

definition jose_fields :: "(string \<times> fval) list" where
  "jose_fields = [(''alg'', VStr ''HS256''), (''typ'', VStr ''JWT'')]"

definition mint :: "(string \<Rightarrow> string \<Rightarrow> string) \<Rightarrow> verifier \<Rightarrow> minted \<Rightarrow> string" where
  "mint hmac v m =
     (let h = raw_url_encode (the (json_struct jose_fields));
          p = raw_url_encode (the (json_struct (claim_fields (v_issuer v) (v_audience v) m)))
      in h @ ''.'' @ p @ ''.'' @ raw_url_encode (hmac (v_secret v) (h @ ''.'' @ p)))"

definition small_time :: "int \<Rightarrow> bool" where
  "small_time n \<longleftrightarrow> \<bar>n\<bar> \<le> 2 ^ 53"

definition mint_ok :: "verifier \<Rightarrow> minted \<Rightarrow> time \<Rightarrow> bool" where
  "mint_ok v m now \<longleftrightarrow>
     is_uuid (mt_sub m) \<and> is_uuid (mt_tid m) \<and> mt_role m \<noteq> ''''
     \<and> list_all valid_utf8 [mt_sub m, mt_tid m, mt_role m, mt_jti m, v_issuer v, v_audience v]
     \<and> small_time (mt_tv m) \<and> small_time (mt_iat m) \<and> small_time (mt_nbf m) \<and> small_time (mt_exp m)
     \<and> mt_iat m * second \<le> now + clock_leeway \<and> mt_nbf m * second \<le> now + clock_leeway
     \<and> now + clock_leeway \<le> 2 ^ 53 * second \<and> now < mt_exp m * second + clock_leeway"

lemma json_float_small: "small_time n \<Longrightarrow> json_float (json_int n) = Some (of_int n)"
  by (simp add: small_time_def json_float_int)

lemma unix_seconds_small: "small_time n \<Longrightarrow> unix_seconds (JNum (json_int n)) = Some n"
proof -
  assume s: "small_time n"
  then have "\<bar>n\<bar> < 2 ^ 63" by (auto simp: small_time_def)
  then have "to_int64 (of_int n) = n" by (auto simp: to_int64_def whole_def Let_def)
  then show ?thesis by (simp add: unix_seconds_def json_float_small [OF s])
qed

lemma go_unix_small: "small_time n \<Longrightarrow> go_unix n = n * second"
proof -
  assume "small_time n"
  then have "- (2 ^ 63) \<le> n + unix_to_internal" "n + unix_to_internal < 2 ^ 63" by (auto simp: small_time_def unix_to_internal_def)
  then have "sint (word_of_int (n + unix_to_internal) :: 64 word) = n + unix_to_internal"
    unfolding sint_sbintrunc' by (simp add: signed_take_bit_int_eq_self)
  then show ?thesis by (simp add: go_unix_def)
qed

lemma time_add_small: "t + d \<le> 2 ^ 60 * second \<Longrightarrow> time_add t d = t + d"
  by (simp add: time_add_def second_def unix_to_internal_def)

lemma set_any_int: "small_time n \<Longrightarrow> set_any raw (JNum (json_int n)) = Some (JNum (json_int n))"
  by (simp add: set_any_def json_float_small)

lemma set_any_str: "set_any raw (JStr s) = Some (JStr s)"
  by (simp add: set_any_def)

definition minted_payload :: "verifier \<Rightarrow> minted \<Rightarrow> payload" where
  "minted_payload v m = \<lparr>pl_Subject = mt_sub m, pl_TenantID = mt_tid m, pl_Role = mt_role m, pl_TokenVer = JNum (json_int (mt_tv m)),
     pl_Type = ''access'', pl_IssuedAt = JNum (json_int (mt_iat m)), pl_NotBefore = JNum (json_int (mt_nbf m)),
     pl_ExpiresAt = JNum (json_int (mt_exp m)), pl_Issuer = v_issuer v, pl_AudienceRaw = JStr (v_audience v), pl_JTI = mt_jti m\<rparr>"

lemma unmarshal_minted:
  assumes "mint_ok v m now"
  shows "\<exists>doc. json_struct (claim_fields (v_issuer v) (v_audience v) m) = Some doc
    \<and> unmarshal set_claim zero_payload doc = Some (minted_payload v m)"
proof -
  have "\<forall>(k, x) \<in> set (claim_fields (v_issuer v) (v_audience v) m). valid_utf8 k \<and> fval_ok (\<lambda>r. JNull) x"
    using assms by (auto simp: claim_fields_def mint_ok_def valid_utf8_simps)
  moreover have "claim_fields (v_issuer v) (v_audience v) m \<noteq> []" by (simp add: claim_fields_def)
  ultimately obtain doc where doc: "json_struct (claim_fields (v_issuer v) (v_audience v) m) = Some doc"
    "json_parse doc = Some (JObj (map (\<lambda>(k, x). (k, the (encode_fval x), fval_value (\<lambda>r. JNull) x)) (claim_fields (v_issuer v) (v_audience v) m)))"
    using json_struct_parse [of "claim_fields (v_issuer v) (v_audience v) m" "\<lambda>r. JNull"] by blast
  have "unmarshal set_claim zero_payload doc = Some (minted_payload v m)"
    using assms by (simp add: unmarshal_def doc(2) decode_struct_def claim_fields_def fval_value_def set_claim_def key_is_def
        byte_val_def char_of_iff set_string_def set_any_int set_any_str mint_ok_def minted_payload_def zero_payload_def)
  with doc(1) show ?thesis by blast
qed

lemma unmarshal_jose: "\<exists>doc. json_struct jose_fields = Some doc \<and> unmarshal set_alg '''' doc = Some ''HS256''"
proof -
  have "\<forall>(k, x) \<in> set jose_fields. valid_utf8 k \<and> fval_ok (\<lambda>r. JNull) x" by (auto simp: jose_fields_def valid_utf8_simps)
  moreover have "jose_fields \<noteq> []" by (simp add: jose_fields_def)
  ultimately obtain doc where doc: "json_struct jose_fields = Some doc"
    "json_parse doc = Some (JObj (map (\<lambda>(k, x). (k, the (encode_fval x), fval_value (\<lambda>r. JNull) x)) jose_fields))"
    using json_struct_parse [of jose_fields "\<lambda>r. JNull"] by blast
  have "unmarshal set_alg '''' doc = Some ''HS256''"
    by (simp add: unmarshal_def doc(2) decode_struct_def jose_fields_def fval_value_def set_alg_def key_is_def byte_val_def char_of_iff
        set_string_def)
  with doc(1) show ?thesis by blast
qed

lemma split_three:
  assumes "CHR ''.'' \<notin> set h" and "CHR ''.'' \<notin> set p" and "CHR ''.'' \<notin> set s"
  shows "split_on (CHR ''.'') (h @ ''.'' @ p @ ''.'' @ s) = [h, p, s]"
  using assms by (simp add: split_on_append split_on_no_occurrence)

lemma validate_minted:
  assumes "mint_ok v m now"
  shows "validate_payload ul (minted_payload v m) (v_issuer v) (v_audience v) now =
    Inr \<lparr>cl_UserID = to_lower ul (mt_sub m), cl_TenantID = to_lower ul (mt_tid m), cl_Role = mt_role m,
      cl_TokenVersion = mt_tv m, cl_ExpiresAt = mt_exp m * second, cl_JTI = mt_jti m\<rparr>"
proof -
  have ok: "is_uuid (mt_sub m)" "is_uuid (mt_tid m)" "mt_role m \<noteq> ''''" "small_time (mt_tv m)" "small_time (mt_iat m)"
    "small_time (mt_nbf m)" "small_time (mt_exp m)" "mt_iat m * second \<le> now + clock_leeway" "mt_nbf m * second \<le> now + clock_leeway"
    "now + clock_leeway \<le> 2 ^ 53 * second" "now < mt_exp m * second + clock_leeway"
    using assms by (auto simp: mint_ok_def)
  have ne: "mt_sub m \<noteq> ''''" "mt_tid m \<noteq> ''''" using ok(1,2) by (auto simp: is_uuid_def)
  have "mt_exp m * second + clock_leeway \<le> 2 ^ 60 * second" using ok(7) by (auto simp: small_time_def clock_leeway_def second_def)
  then have t: "time_add (mt_exp m * second) clock_leeway = mt_exp m * second + clock_leeway" by (rule time_add_small)
  have "now + clock_leeway \<le> 2 ^ 60 * second" using ok(10) by (simp add: second_def)
  then have tn: "time_add now clock_leeway = now + clock_leeway" by (rule time_add_small)
  have tv: "int_version (JNum (json_int (mt_tv m))) = mt_tv m"
    using unix_seconds_small [OF ok(4)] by (auto simp: int_version_def unix_seconds_def split: option.split)
  show ?thesis
    using ok ne by (simp add: validate_payload_def minted_payload_def audience_matches_def unix_seconds_small go_unix_small t tn tv)
qed

lemma minted_verifies:
  assumes "mint_ok v m now"
  shows "verify hmac ul v (mint hmac v m) now =
    Inr \<lparr>cl_UserID = to_lower ul (mt_sub m), cl_TenantID = to_lower ul (mt_tid m), cl_Role = mt_role m,
      cl_TokenVersion = mt_tv m, cl_ExpiresAt = mt_exp m * second, cl_JTI = mt_jti m\<rparr>"
proof -
  obtain hd where h: "json_struct jose_fields = Some hd" "unmarshal set_alg '''' hd = Some ''HS256''" using unmarshal_jose by blast
  obtain pd where p: "json_struct (claim_fields (v_issuer v) (v_audience v) m) = Some pd" "unmarshal set_claim zero_payload pd = Some (minted_payload v m)"
    using unmarshal_minted [OF assms] by blast
  have ne: "hd \<noteq> []" "pd \<noteq> []" using h(2) p(2) by (auto simp: unmarshal_def json_parse_def skip_ws_def)
  let ?h = "raw_url_encode hd" and ?p = "raw_url_encode pd"
  have "mint hmac v m = ?h @ ''.'' @ ?p @ ''.'' @ raw_url_encode (hmac (v_secret v) (?h @ ''.'' @ ?p))"
    by (simp only: mint_def h(1) p(1) option.sel Let_def)
  then have "split_on (CHR ''.'') (mint hmac v m) = [?h, ?p, raw_url_encode (hmac (v_secret v) (?h @ ''.'' @ ?p))]"
    by (simp only: split_three [OF raw_url_encode_no_dot raw_url_encode_no_dot raw_url_encode_no_dot])
  then show ?thesis
    using raw_url_encode_nonempty [OF ne(1)] raw_url_encode_nonempty [OF ne(2)]
    by (simp add: verify_def raw_url_roundtrip h(2) p(2) validate_minted [OF assms])
qed

text \<open>A token minted for the tests of the properties; the toy keyed hash stands for HMAC.\<close>

definition demo_verifier :: verifier where
  "demo_verifier = new_verifier ''secret'' ''voxdesk'' ''voxdesk-api''"

definition demo_minted :: minted where
  "demo_minted = \<lparr>mt_sub = ''01234567-89AB-cdef-0123-456789abcdef'', mt_tid = ''aaaaaaaa-aaaa-4aaa-8aaa-AAAAAAAAAAAA'',
     mt_role = ''agent'', mt_tv = 3, mt_iat = 1700000000, mt_nbf = 1700000000, mt_exp = 1700000900, mt_jti = ''j1''\<rparr>"

lemma demo_mint_ok: "mint_ok demo_verifier demo_minted (1700000100 * second)"
proof -
  have "is_uuid (mt_sub demo_minted)" "is_uuid (mt_tid demo_minted)" by (simp_all add: demo_minted_def is_uuid_def upt_rec is_hex_def)
  then show ?thesis
    by (simp add: mint_ok_def demo_verifier_def new_verifier_def small_time_def second_def clock_leeway_def)
       (simp add: demo_minted_def valid_utf8_simps)
qed

text \<open>
  C33. Tokens of the API are accepted. A token minted with the shared secret for this issuer and
  audience, whose ids are UUIDs, whose role is not empty and whose times fit (issued and valid at
  most 30 seconds in the future, expired less than 30 seconds ago), verifies, and the claims handed
  to the gateway are the minted ones, with the user and tenant ids in lower case.
\<close>

theorem verify_accepts_minted:
  assumes "mint_ok v m now"
  shows "verify hmac ul v (mint hmac v m) now =
    Inr \<lparr>cl_UserID = to_lower ul (mt_sub m), cl_TenantID = to_lower ul (mt_tid m), cl_Role = mt_role m,
      cl_TokenVersion = mt_tv m, cl_ExpiresAt = mt_exp m * second, cl_JTI = mt_jti m\<rparr>"
  by (rule minted_verifies [OF assms])

theorem verify_accepts_minted_witness:
  "\<exists>c. verify (\<lambda>k m. k @ rev m) (\<lambda>s. s) demo_verifier (mint (\<lambda>k m. k @ rev m) demo_verifier demo_minted) (1700000100 * second) = Inr c
    \<and> cl_Role c = ''agent'' \<and> cl_ExpiresAt c = 1700000900 * second"
  using verify_accepts_minted [OF demo_mint_ok] by (simp add: demo_minted_def)

lemma is_hex_lower: "is_hex c \<Longrightarrow> is_hex (lower_char c) \<and> (of_char c :: nat) < 128"
  by (auto simp: is_hex_def lower_char_def less_eq_char_def)

lemma uuid_char: "is_uuid s \<Longrightarrow> i < 36 \<Longrightarrow> if i \<in> {8, 13, 18, 23} then s ! i = CHR ''-'' else is_hex (s ! i)"
  by (simp add: is_uuid_def list_all_iff)

lemma is_uuid_lower:
  assumes "is_uuid s"
  shows "is_uuid (to_lower ul s)" and "to_lower ul s = map lower_char s"
proof -
  have len: "length s = 36" using assms by (simp add: is_uuid_def)
  have "(of_char (s ! i) :: nat) < 128" if "i < 36" for i
    using uuid_char [OF assms that] is_hex_lower [of "s ! i"] by (auto split: if_splits)
  then have "is_ascii s" using len by (auto simp: is_ascii_def list_all_length)
  then show lower: "to_lower ul s = map lower_char s" by (simp add: to_lower_def)
  have low: "if i \<in> {8, 13, 18, 23} then map lower_char s ! i
 = CHR ''-'' else is_hex (map lower_char s ! i)" if "i < 36" for i
    using uuid_char [OF assms that] is_hex_lower [of "s ! i"] len that by (auto simp: lower_char_def less_eq_char_def split: if_splits)
  have "list_all (\<lambda>i. if i \<in> {8, 13, 18, 23} then map lower_char s ! i = CHR ''-'' else is_hex (map lower_char s ! i)) [0 ..< 36]"
    unfolding list_all_iff
  proof
    fix i :: nat assume "i \<in> set [0 ..< 36]"
    then have "i < 36" by simp
    then show "if i \<in> {8, 13, 18, 23} then map lower_char s ! i = CHR ''-'' else is_hex (map lower_char s ! i)" by (rule low)
  qed
  then show "is_uuid (to_lower ul s)" unfolding lower is_uuid_def using len by simp
qed

lemma split_on_three: "split_on (CHR ''.'') t = [h, p, s] \<Longrightarrow> t = h @ ''.'' @ p @ ''.'' @ s"
  using join_split [of "CHR ''.''" t] by simp

lemma validate_payload_Inr:
  assumes "validate_payload ul p issuer audience now = Inr c"
  shows "pl_Type p = ''access'' \<and> pl_Issuer p = issuer \<and> audience_matches (pl_AudienceRaw p) audience
    \<and> is_uuid (pl_Subject p) \<and> is_uuid (pl_TenantID p)
    \<and> cl_UserID c = to_lower ul (pl_Subject p) \<and> cl_TenantID c = to_lower ul (pl_TenantID p) \<and> cl_Role c = pl_Role p
    \<and> cl_Role c \<noteq> '''' \<and> now < time_add (cl_ExpiresAt c) clock_leeway
    \<and> (\<exists>expiry iat. unix_seconds (pl_ExpiresAt p) = Some expiry \<and> cl_ExpiresAt c = go_unix expiry
        \<and> unix_seconds (pl_IssuedAt p) = Some iat \<and> go_unix iat \<le> time_add now clock_leeway)
    \<and> (\<forall>nbf. unix_seconds (pl_NotBefore p) = Some nbf \<longrightarrow> go_unix nbf \<le> time_add now clock_leeway)
    \<and> cl_TokenVersion c = int_version (pl_TokenVer p) \<and> cl_JTI c = pl_JTI p"
  using assms by (auto simp: validate_payload_def split: if_splits option.splits)

lemma verify_Inr:
  assumes "verify hmac ul v token now = Inr c"
  obtains h p s hb pb pl where "token = h @ ''.'' @ p @ ''.'' @ s" "raw_url_decode h = Some hb" "unmarshal set_alg '''' hb = Some ''HS256''"
    "raw_url_decode s = Some (hmac (v_secret v) (h @ ''.'' @ p))" "raw_url_decode p = Some pb"
    "unmarshal set_claim zero_payload pb = Some pl" "validate_payload ul pl (v_issuer v) (v_audience v) now = Inr c"
proof -
  obtain h p s where sp: "split_on (CHR ''.'') token = [h, p, s]"
    using assms by (auto simp: verify_def split: list.splits)
  show thesis
    using assms by (auto simp: verify_def sp split: if_splits option.splits intro!: that [OF split_on_three [OF sp]])
qed

lemma verified_uuids:
  assumes "verify hmac ul v token now = Inr c"
  shows "is_uuid (cl_TenantID c)" "is_uuid (cl_UserID c)"
proof -
  obtain h p s hb pb pl where "validate_payload ul pl (v_issuer v) (v_audience v) now = Inr c"
    by (rule verify_Inr [OF assms])
  from validate_payload_Inr [OF this] is_uuid_lower show "is_uuid (cl_TenantID c)" "is_uuid (cl_UserID c)" by simp_all
qed

text \<open>
  C6. Whatever token verifies carries a valid HMAC of its first two segments under the gateway's
  secret, a header that says HS256 and nothing else, the access type, this issuer and this audience.
  The present lies in the signed window, with 30 seconds of leeway on either side: the signed
  \<open>exp\<close> is present and not past, the signed \<open>iat\<close> is present and not in the future, and a numeric
  \<open>nbf\<close> is not in the future. What it yields is exactly what was signed: user and tenant are UUIDs in
  lower case, role, token version and token id are the signed ones, and the expiry is that of \<open>exp\<close>.
\<close>

theorem verify_sound:
  assumes "verify hmac ul v token now = Inr c"
  shows "\<exists>h p s hb pb pl. token = h @ ''.'' @ p @ ''.'' @ s
    \<and> raw_url_decode s = Some (hmac (v_secret v) (h @ ''.'' @ p))
    \<and> raw_url_decode h = Some hb \<and> unmarshal set_alg '''' hb = Some ''HS256''
    \<and> raw_url_decode p = Some pb \<and> unmarshal set_claim zero_payload pb = Some pl
    \<and> pl_Type pl = ''access'' \<and> pl_Issuer pl = v_issuer v \<and> audience_matches (pl_AudienceRaw pl) (v_audience v)
    \<and> (\<exists>iat. unix_seconds (pl_IssuedAt pl) = Some iat \<and> go_unix iat \<le> now + clock_leeway)
    \<and> (\<exists>ex. unix_seconds (pl_ExpiresAt pl) = Some ex \<and> cl_ExpiresAt c = go_unix ex \<and> now < go_unix ex + clock_leeway)
    \<and> (\<forall>nbf. unix_seconds (pl_NotBefore pl) = Some nbf \<longrightarrow> go_unix nbf \<le> now + clock_leeway)
    \<and> cl_TokenVersion c = int_version (pl_TokenVer pl) \<and> cl_JTI c = pl_JTI pl
    \<and> is_uuid (cl_TenantID c) \<and> cl_TenantID c = map lower_char (pl_TenantID pl)
    \<and> is_uuid (cl_UserID c) \<and> cl_UserID c = map lower_char (pl_Subject pl) \<and> cl_Role c = pl_Role pl \<and> cl_Role c \<noteq> ''''"
proof -
  obtain h p s hb pb pl where t: "token = h @ ''.'' @ p @ ''.'' @ s" "raw_url_decode h = Some hb" "unmarshal set_alg '''' hb = Some ''HS256''"
    "raw_url_decode s = Some (hmac (v_secret v) (h @ ''.'' @ p))" "raw_url_decode p = Some pb"
    "unmarshal set_claim zero_payload pb = Some pl" "validate_payload ul pl (v_issuer v) (v_audience v) now = Inr c"
    by (rule verify_Inr [OF assms])
  note val = validate_payload_Inr [OF t(7)]
  have "time_add x clock_leeway \<le> x + clock_leeway" for x by (simp add: time_add_def)
  then have "\<exists>ex. unix_seconds (pl_ExpiresAt pl) = Some ex \<and> cl_ExpiresAt c = go_unix ex \<and> now < go_unix ex + clock_leeway"
    "\<exists>iat. unix_seconds (pl_IssuedAt pl) = Some iat \<and> go_unix iat \<le> now + clock_leeway"
    "\<forall>nbf. unix_seconds (pl_NotBefore pl) = Some nbf \<longrightarrow> go_unix nbf \<le> now + clock_leeway"
    using val by (metis less_le_trans, metis order_trans, metis order_trans)
  with t val is_uuid_lower show ?thesis
    by (rule_tac exI [of _ h], rule_tac exI [of _ p], rule_tac exI [of _ s], rule_tac exI [of _ hb], rule_tac exI [of _ pb], rule_tac exI [of _ pl]) simp
qed

theorem verify_sound_witness:
  "\<exists>h p s pb pl ex. mint (\<lambda>k m. k @ rev m) demo_verifier demo_minted = h @ ''.'' @ p @ ''.'' @ s
    \<and> raw_url_decode s = Some (''secret'' @ rev (h @ ''.'' @ p))
    \<and> raw_url_decode p = Some pb \<and> unmarshal set_claim zero_payload pb = Some pl
    \<and> unix_seconds (pl_ExpiresAt pl) = Some ex \<and> mt_exp demo_minted * second = go_unix ex"
  using verify_sound [OF minted_verifies [OF demo_mint_ok, where hmac = "\<lambda>k m. k @ rev m" and ul = "\<lambda>s. s"]]
  by (simp only: demo_verifier_def new_verifier_def verifier.select_convs claims.select_convs) blast

end
