(* ===== verification/Gw_Strconv.thy ===== *)
theory Gw_Strconv
  imports Gw_Json Gw_Float
begin

text \<open>
  The conversions of text the gateway's configuration uses: \<open>strconv.Atoi\<close>, \<open>strconv.ParseFloat\<close> to 64
  bits and \<open>time.ParseDuration\<close>. An error, whatever its text, is \<open>None\<close>; every caller falls back.
\<close>

unbundle bit_operations_syntax

section \<open>Integers\<close>

definition strip_sign :: "string \<Rightarrow> bool \<times> string" where
  "strip_sign s =
     (case s of c # t \<Rightarrow> if c = CHR ''-'' then (True, t) else if c = CHR ''+'' then (False, t) else (False, s) | [] \<Rightarrow> (False, s))"

definition atoi :: "string \<Rightarrow> int option" where
  "atoi s =
     (let (neg, ds) = strip_sign s; n = (if neg then - dec_val ds else dec_val ds)
      in if ds = '''' \<or> \<not> list_all is_digit ds then None
         else if - (2 ^ 63) \<le> n \<and> n < 2 ^ 63 then Some n else None)"

section \<open>Floating-point numbers\<close>

definition lower_letter :: "char \<Rightarrow> char" where
  "lower_letter c = char_of (of_char c OR (0x20 :: nat))"

text \<open>The mantissa: digits of the base and underscores, with at most one point.\<close>

fun mant_span :: "bool \<Rightarrow> bool \<Rightarrow> string \<Rightarrow> string \<times> string" where
  "mant_span hex sawdot [] = ([], [])"
| "mant_span hex sawdot (c # s) =
     (if c = CHR ''_'' \<or> is_digit c \<or> hex \<and> hex_val c \<noteq> None then (let (a, b) = mant_span hex sawdot s in (c # a, b))
      else if c = CHR ''.'' \<and> \<not> sawdot then (let (a, b) = mant_span hex True s in (c # a, b))
      else ([], c # s))"

text \<open>Where an underscore may stand: after a digit or the base prefix and before a digit. The state is the class of the last character.\<close>

fun underscores_from :: "bool \<Rightarrow> char \<Rightarrow> string \<Rightarrow> bool" where
  "underscores_from hex saw [] = (saw \<noteq> CHR ''_'')"
| "underscores_from hex saw (c # s) =
     (if is_digit c \<or> hex \<and> hex_val c \<noteq> None then underscores_from hex (CHR ''0'') s
      else if c = CHR ''_'' then saw = CHR ''0'' \<and> underscores_from hex (CHR ''_'') s
      else saw \<noteq> CHR ''_'' \<and> underscores_from hex (CHR ''!'') s)"

definition base_value :: "nat \<Rightarrow> string \<Rightarrow> nat" where
  "base_value b ds = foldl (\<lambda>n c. n * b + the (hex_val c)) 0 ds"

definition two_to :: "int \<Rightarrow> rat" where
  "two_to e = (if 0 \<le> e then 2 ^ nat e else 1 / 2 ^ nat (- e))"

definition ten_to :: "int \<Rightarrow> rat" where
  "ten_to e = (if 0 \<le> e then 10 ^ nat e else 1 / 10 ^ nat (- e))"

text \<open>The exponent part: \<open>None\<close> when malformed, and whether there was one at all.\<close>

definition scan_exponent :: "char \<Rightarrow> string \<Rightarrow> (bool \<times> int \<times> string) option" where
  "scan_exponent expChar s =
     (case s of
        [] \<Rightarrow> Some (False, 0, s)
      | c # t \<Rightarrow>
          if lower_letter c \<noteq> expChar then Some (False, 0, s)
          else
            let (neg, u) = strip_sign t;
                ds = takeWhile (\<lambda>d. is_digit d \<or> d = CHR ''_'') u;
                e = dec_val (filter is_digit ds)
            in if u = [] \<or> \<not> is_digit (hd u) then None
               else Some (True, if neg then - e else e, dropWhile (\<lambda>d. is_digit d \<or> d = CHR ''_'') u))"

text \<open>The number a text denotes, when it is one whole well-formed literal.\<close>

definition float_literal :: "string \<Rightarrow> rat option" where
  "float_literal s =
     (let (neg, body) = strip_sign s;
          hex = (length body > 2 \<and> has_prefix body ''0'' \<and> lower_letter (body ! 1) = CHR ''x'');
          (mant, rest) = mant_span hex False (if hex then drop 2 body else body);
          digits = filter (\<lambda>c. c \<noteq> CHR ''_'') mant;
          ip = takeWhile (\<lambda>c. c \<noteq> CHR ''.'') digits;
          fp = drop 1 (dropWhile (\<lambda>c. c \<noteq> CHR ''.'') digits)
      in if ip @ fp = '''' then None
         else case scan_exponent (if hex then CHR ''p'' else CHR ''e'') rest of
           None \<Rightarrow> None
         | Some (seen, e, rest') \<Rightarrow>
             if rest' \<noteq> '''' \<or> hex \<and> \<not> seen then None
             else if CHR ''_'' \<in> set s
               \<and> \<not> (if hex then underscores_from hex (CHR ''0'') (drop 2 body) else underscores_from False (CHR ''^'') body) then None
             else
               let m = (if hex then of_nat (base_value 16 (ip @ fp)) * two_to (e - 4 * int (length fp))
                        else of_int (dec_val (ip @ fp)) * ten_to (e - int (length fp)))
               in Some (if neg then - m else m))"

definition special_float :: "string \<Rightarrow> float64 option" where
  "special_float s =
     (let (neg, body) = strip_sign s; l = map lower_letter body
      in if l = ''inf'' \<or> l = ''infinity'' then Some (if neg then NegInf else PosInf)
         else if map lower_letter s = ''nan'' then Some NaN else None)"

definition parse_float :: "string \<Rightarrow> float64 option" where
  "parse_float s =
     (case special_float s of
        Some f \<Rightarrow> Some f
      | None \<Rightarrow> (case float_literal s of
          None \<Rightarrow> None
        | Some x \<Rightarrow> if \<bar>rnd64 x\<bar> \<ge> 2 ^ 1024 then None else Some (Fin (rnd64 x))))"

section \<open>Durations\<close>

definition duration_units :: "(string \<times> nat) list" where
  "duration_units =
     [(''ns'', 1), (''us'', 1000), ([CHR 0xC2, CHR 0xB5] @ ''s'', 1000), ([CHR 0xCE, CHR 0xBC] @ ''s'', 1000),
      (''ms'', 1000000), (''s'', 1000000000), (''m'', 60000000000), (''h'', 3600000000000)]"

text \<open>\<open>leadingFraction\<close>: digits past the 63-bit range are read and dropped; the value and the scale.\<close>

fun leading_fraction :: "string \<Rightarrow> nat \<Rightarrow> nat \<Rightarrow> nat \<times> nat" where
  "leading_fraction [] x scale = (x, scale)"
| "leading_fraction (c # s) x scale =
     (if x > (2 ^ 63 - 1) div 10 then (x, scale)
      else let y = x * 10 + (of_char c - 48) in if y > 2 ^ 63 then (x, scale) else leading_fraction s y (scale * 10))"

definition fraction_nanos :: "nat \<Rightarrow> nat \<Rightarrow> nat \<Rightarrow> nat" where
  "fraction_nanos f scale unit = nat (whole (rnd64 (rnd64 (of_nat f) * rnd64 (rnd64 (of_nat unit) / of_nat scale))))"

text \<open>One number with its unit: its nanoseconds and the rest of the text.\<close>

definition duration_term :: "string \<Rightarrow> (nat \<times> string) option" where
  "duration_term s =
     (let ip = takeWhile is_digit s; s1 = dropWhile is_digit s;
          point = has_prefix s1 ''.'';
          fp = (if point then takeWhile is_digit (drop 1 s1) else '''');
          s2 = (if point then dropWhile is_digit (drop 1 s1) else s1);
          v = nat (dec_val ip);
          (f, scale) = leading_fraction fp 0 1;
          u = takeWhile (\<lambda>c. \<not> (c = CHR ''.'' \<or> is_digit c)) s2
      in if v > 2 ^ 63 \<or> ip = '''' \<and> fp = '''' \<or> u = '''' then None
         else case map_of duration_units u of
           None \<Rightarrow> None
         | Some unit \<Rightarrow>
             if v > 2 ^ 63 div unit then None
             else
               let n = v * unit + (if f > 0 then fraction_nanos f scale unit else 0)
               in if n > 2 ^ 63 then None else Some (n, drop (length u) s2))"

lemma duration_term_shrinks:
  assumes "duration_term s = Some (n, t)"
  shows "length t < length s"
proof -
  define s1 where "s1 = dropWhile is_digit s"
  define s2 where "s2 = (if has_prefix s1 ''.'' then dropWhile is_digit (drop 1 s1) else s1)"
  define u where "u = takeWhile (\<lambda>c. \<not> (c = CHR ''.'' \<or> is_digit c)) s2"
  have "t = drop (length u) s2" "u \<noteq> ''''"
    using assms by (auto simp: duration_term_def s1_def s2_def u_def Let_def split: prod.splits option.splits if_splits)
  moreover have "length u \<le> length s2" by (simp add: u_def length_takeWhile_le)
  moreover have "length s2 \<le> length s1"
    using length_dropWhile_le [of is_digit "drop 1 s1"] by (auto simp: s2_def)
  moreover have "length s1 \<le> length s" by (simp add: s1_def length_dropWhile_le)
  ultimately show ?thesis by (cases "length u") auto
qed

text \<open>The sum is a \<open>uint64\<close>.\<close>

function duration_terms :: "nat \<Rightarrow> string \<Rightarrow> nat option" where
  "duration_terms d s =
     (if s = '''' then Some d
      else case duration_term s of
        None \<Rightarrow> None
      | Some (n, t) \<Rightarrow> let d' = (d + n) mod 2 ^ 64 in if d' > 2 ^ 63 then None else duration_terms d' t)"
  by pat_completeness auto
termination by (relation "measure (\<lambda>(d, s). length s)") (auto dest: duration_term_shrinks)

definition parse_duration :: "string \<Rightarrow> duration option" where
  "parse_duration s =
     (let (neg, t) = strip_sign s
      in if t = ''0'' then Some 0
         else if t = '''' then None
         else case duration_terms 0 t of
           None \<Rightarrow> None
         | Some d \<Rightarrow>
             if neg then Some (- int d) else if d > 2 ^ 63 - 1 then None else Some (int d))"

declare duration_terms.simps [simp del]

end
