(* ===== verification/Gw_Config.thy ===== *)
theory Gw_Config
  imports Gw_Strconv Gw_Validate Gw_Ratelimit Gw_Hub
begin

text \<open>
  The gateway's configuration (\<open>internal/config\<close>): the environment as a function from names to values
  (an unset name reads as the empty text), the fallbacks, and the checks that refuse a boot. A problem
  or warning is a constructor that stands for its message; a value quoted in the message is its
  argument. \<open>ul\<close> lower-cases non-ASCII text.
\<close>

section \<open>Defaults\<close>

definition DefaultPort :: int where "DefaultPort = 8790"
definition DefaultMaxConnections :: int where "DefaultMaxConnections = 10000"
definition DefaultMaxConnsPerTenant :: int where "DefaultMaxConnsPerTenant = 256"
definition DefaultMaxSubscriptionsPerConn :: int where "DefaultMaxSubscriptionsPerConn = 32"
definition DefaultOutgoingBuffer :: int where "DefaultOutgoingBuffer = 64"
definition DefaultMaxMessageBytes :: int where "DefaultMaxMessageBytes = 16 * 1024"
definition DefaultMaxIngestPayloadBytes :: int where "DefaultMaxIngestPayloadBytes = 64 * 1024"
definition DefaultWriteWait :: duration where "DefaultWriteWait = 10 * second"
definition DefaultAuthTimeout :: duration where "DefaultAuthTimeout = 10 * second"
definition DefaultPingInterval :: duration where "DefaultPingInterval = 20 * second"
definition DefaultPongTimeout :: duration where "DefaultPongTimeout = 60 * second"
definition DefaultShutdownTimeout :: duration where "DefaultShutdownTimeout = 10 * second"
definition DefaultMessageRatePerSecond :: rat where "DefaultMessageRatePerSecond = 20"
definition DefaultMessageBurst :: rat where "DefaultMessageBurst = 40"
definition DefaultIdempotencyTTL :: duration where "DefaultIdempotencyTTL = 30 * minute"
definition DefaultSignalingMaxSessionsPerTenant :: int where "DefaultSignalingMaxSessionsPerTenant = 64"
definition DefaultSignalingPendingTimeout :: duration where "DefaultSignalingPendingTimeout = 60 * second"
definition EngineSteerOff :: string where "EngineSteerOff = ''off''"
definition EngineSteerV12 :: string where "EngineSteerV12 = ''v1.2''"
definition EngineSteerForce :: string where "EngineSteerForce = ''force''"
definition DefaultMediaEngineTimeoutSeconds :: float64 where "DefaultMediaEngineTimeoutSeconds = Fin (3 / 2)"
definition idempotencyCapacity :: int where "idempotencyCapacity = 50000"

record config =
  cf_Port :: int
  cf_JWTSecret :: string
  cf_JWTIssuer :: string
  cf_JWTAudience :: string
  cf_IngestSecret :: string
  cf_AllowedOrigins :: "string list"
  cf_MetricsToken :: string
  cf_MaxConnections :: int
  cf_MaxConnsPerTenant :: int
  cf_MaxSubscriptionsPerConn :: int
  cf_OutgoingBuffer :: int
  cf_MaxMessageBytes :: int
  cf_MaxIngestPayloadBytes :: int
  cf_WriteWait :: duration
  cf_AuthTimeout :: duration
  cf_PingInterval :: duration
  cf_PongTimeout :: duration
  cf_ShutdownTimeout :: duration
  cf_MessageRatePerSecond :: rat
  cf_MessageBurst :: rat
  cf_IdempotencyTTL :: duration
  cf_IdempotencyCapacity :: int
  cf_SignalingMaxSessionsPerTenant :: int
  cf_SignalingPendingTimeout :: duration
  cf_BrokerKind :: string
  cf_RedisURL :: string
  cf_MediaEngineURL :: string
  cf_MediaEngineTimeoutSeconds :: float64
  cf_EngineSteer :: string

section \<open>Reading the environment\<close>

definition env_str :: "(string \<Rightarrow> string) \<Rightarrow> string \<Rightarrow> string \<Rightarrow> string" where
  "env_str getenv key fallback = (let v = trim_space (getenv key) in if v \<noteq> '''' then v else fallback)"

definition env_list :: "(string \<Rightarrow> string) \<Rightarrow> string \<Rightarrow> string list" where
  "env_list getenv key =
     (let raw = trim_space (getenv key)
      in if raw = '''' then [] else filter (\<lambda>p. p \<noteq> '''') (map trim_space (split_on (CHR '','') raw)))"

text \<open>The three typed readers share one shape: blank or unparsable text yields the fallback.\<close>

definition env_parsed :: "(string \<Rightarrow> 'a option) \<Rightarrow> (string \<Rightarrow> string) \<Rightarrow> string \<Rightarrow> 'a \<Rightarrow> 'a" where
  "env_parsed parse getenv key fallback =
     (let raw = trim_space (getenv key)
      in if raw = '''' then fallback else case parse raw of None \<Rightarrow> fallback | Some v \<Rightarrow> v)"

definition env_int :: "(string \<Rightarrow> string) \<Rightarrow> string \<Rightarrow> int \<Rightarrow> int" where
  "env_int = env_parsed atoi"

definition env_float :: "(string \<Rightarrow> string) \<Rightarrow> string \<Rightarrow> float64 \<Rightarrow> float64" where
  "env_float = env_parsed parse_float"

definition env_duration :: "(string \<Rightarrow> string) \<Rightarrow> string \<Rightarrow> duration \<Rightarrow> duration" where
  "env_duration = env_parsed parse_duration"

section \<open>Load\<close>

datatype problem =
  PortRange int
| JwtSecretMissing | JwtSecretPlaceholder | JwtSecretShort
| IngestSecretMissing | IngestSecretPlaceholder | IngestSecretShort
| MaxConnectionsLow | MaxConnsPerTenantLow | PongTimeoutOrder | AuthTimeoutNotPositive
| SignalSessionsLow | SignalPendingNotPositive
| RedisUrlMissing | RedisUrlScheme | BrokerUnknown string
| EngineUrlScheme | EngineTimeoutRange float64
| SteerWithoutEngine | SteerUnknown string

datatype warning =
  RedisUrlIgnored | EngineDisabled | SteerOffWithEngine | MetricsOpen | OriginsEmpty

definition read_config :: "(string \<Rightarrow> string) \<Rightarrow> (string \<Rightarrow> string) \<Rightarrow> config" where
  "read_config ul getenv =
     \<lparr>cf_Port = env_int getenv ''VOXDESK_GATEWAY_PORT'' DefaultPort,
      cf_JWTSecret = trim_space (getenv ''VOXDESK_GATEWAY_JWT_SECRET''),
      cf_JWTIssuer = env_str getenv ''VOXDESK_GATEWAY_JWT_ISSUER'' ''voxdesk'',
      cf_JWTAudience = env_str getenv ''VOXDESK_GATEWAY_JWT_AUDIENCE'' ''voxdesk-api'',
      cf_IngestSecret = trim_space (getenv ''VOXDESK_GATEWAY_INGEST_SECRET''),
      cf_AllowedOrigins = env_list getenv ''VOXDESK_GATEWAY_ALLOWED_ORIGINS'',
      cf_MetricsToken = trim_space (getenv ''VOXDESK_GATEWAY_METRICS_TOKEN''),
      cf_MaxConnections = env_int getenv ''VOXDESK_GATEWAY_MAX_CONNECTIONS'' DefaultMaxConnections,
      cf_MaxConnsPerTenant = env_int getenv ''VOXDESK_GATEWAY_MAX_CONNS_PER_TENANT'' DefaultMaxConnsPerTenant,
      cf_MaxSubscriptionsPerConn = DefaultMaxSubscriptionsPerConn,
      cf_OutgoingBuffer = DefaultOutgoingBuffer,
      cf_MaxMessageBytes = DefaultMaxMessageBytes,
      cf_MaxIngestPayloadBytes = DefaultMaxIngestPayloadBytes,
      cf_WriteWait = env_duration getenv ''VOXDESK_GATEWAY_WRITE_WAIT'' DefaultWriteWait,
      cf_AuthTimeout = env_duration getenv ''VOXDESK_GATEWAY_AUTH_TIMEOUT'' DefaultAuthTimeout,
      cf_PingInterval = env_duration getenv ''VOXDESK_GATEWAY_PING_INTERVAL'' DefaultPingInterval,
      cf_PongTimeout = env_duration getenv ''VOXDESK_GATEWAY_PONG_TIMEOUT'' DefaultPongTimeout,
      cf_ShutdownTimeout = DefaultShutdownTimeout,
      cf_MessageRatePerSecond = DefaultMessageRatePerSecond,
      cf_MessageBurst = DefaultMessageBurst,
      cf_IdempotencyTTL = DefaultIdempotencyTTL,
      cf_IdempotencyCapacity = idempotencyCapacity,
      cf_SignalingMaxSessionsPerTenant =
        env_int getenv ''VOXDESK_GATEWAY_SIGNAL_MAX_SESSIONS_PER_TENANT'' DefaultSignalingMaxSessionsPerTenant,
      cf_SignalingPendingTimeout =
        env_duration getenv ''VOXDESK_GATEWAY_SIGNAL_PENDING_TIMEOUT'' DefaultSignalingPendingTimeout,
      cf_BrokerKind = to_lower ul (env_str getenv ''VOXDESK_GATEWAY_BROKER'' ''memory''),
      cf_RedisURL = trim_space (getenv ''VOXDESK_GATEWAY_REDIS_URL''),
      cf_MediaEngineURL = trim_space (getenv ''VOXDESK_GATEWAY_MEDIA_ENGINE_URL''),
      cf_MediaEngineTimeoutSeconds =
        env_float getenv ''VOXDESK_GATEWAY_MEDIA_ENGINE_TIMEOUT_SECONDS'' DefaultMediaEngineTimeoutSeconds,
      cf_EngineSteer = to_lower ul (env_str getenv ''VOXDESK_GATEWAY_ENGINE_STEER'' ''off'')\<rparr>"

definition secret_problems :: "(string \<Rightarrow> string) \<Rightarrow> string \<Rightarrow> nat \<Rightarrow> problem \<Rightarrow> problem \<Rightarrow> problem \<Rightarrow> problem list" where
  "secret_problems ul s least missing placeholder short =
     (if s = '''' then [missing] else if looks_placeholder ul s then [placeholder]
      else if length s < least then [short] else [])"

text \<open>The broker's and the engine's checks yield problems and warnings.\<close>

definition broker_checks :: "config \<Rightarrow> problem list \<times> warning list" where
  "broker_checks cfg =
     (if cf_BrokerKind cfg = ''memory'' then ([], if cf_RedisURL cfg \<noteq> '''' then [RedisUrlIgnored] else [])
      else if cf_BrokerKind cfg = ''redis'' then
        (if cf_RedisURL cfg = '''' then [RedisUrlMissing]
         else if \<not> has_prefix (cf_RedisURL cfg) ''redis://'' then [RedisUrlScheme] else [], [])
      else ([BrokerUnknown (cf_BrokerKind cfg)], []))"

definition engine_checks :: "config \<Rightarrow> problem list \<times> warning list" where
  "engine_checks cfg =
     (if cf_MediaEngineURL cfg \<noteq> '''' then
        ((if \<not> has_prefix (cf_MediaEngineURL cfg) ''http://'' \<and> \<not> has_prefix (cf_MediaEngineURL cfg) ''https://''
          then [EngineUrlScheme] else [])
         @ (if f_le (cf_MediaEngineTimeoutSeconds cfg) 0 \<or> f_gt (cf_MediaEngineTimeoutSeconds cfg) 30
            then [EngineTimeoutRange (cf_MediaEngineTimeoutSeconds cfg)] else []), [])
      else ([], [EngineDisabled]))"

definition steer_checks :: "(string \<Rightarrow> string) \<Rightarrow> config \<Rightarrow> problem list \<times> warning list" where
  "steer_checks getenv cfg =
     (if cf_EngineSteer cfg = EngineSteerOff then
        ([], if getenv ''VOXDESK_GATEWAY_ENGINE_STEER'' \<noteq> '''' \<and> cf_MediaEngineURL cfg \<noteq> '''' then [SteerOffWithEngine] else [])
      else if cf_EngineSteer cfg = EngineSteerV12 \<or> cf_EngineSteer cfg = EngineSteerForce then
        (if cf_MediaEngineURL cfg = '''' then [SteerWithoutEngine] else [], [])
      else ([SteerUnknown (cf_EngineSteer cfg)], []))"

definition load :: "(string \<Rightarrow> string) \<Rightarrow> (string \<Rightarrow> string) \<Rightarrow> config \<times> problem list \<times> warning list" where
  "load ul getenv =
     (let cfg = read_config ul getenv;
          (bp, bw) = broker_checks cfg; (ep, ew) = engine_checks cfg; (sp, sw) = steer_checks getenv cfg;
          problems =
            (if cf_Port cfg < 1 \<or> cf_Port cfg > 65535 then [PortRange (cf_Port cfg)] else [])
            @ secret_problems ul (cf_JWTSecret cfg) 32 JwtSecretMissing JwtSecretPlaceholder JwtSecretShort
            @ secret_problems ul (cf_IngestSecret cfg) 16 IngestSecretMissing IngestSecretPlaceholder IngestSecretShort
            @ (if cf_MaxConnections cfg < 1 then [MaxConnectionsLow] else [])
            @ (if cf_MaxConnsPerTenant cfg < 1 then [MaxConnsPerTenantLow] else [])
            @ (if cf_PingInterval cfg \<le> 0 \<or> cf_PongTimeout cfg \<le> cf_PingInterval cfg then [PongTimeoutOrder] else [])
            @ (if cf_AuthTimeout cfg \<le> 0 then [AuthTimeoutNotPositive] else [])
            @ (if cf_SignalingMaxSessionsPerTenant cfg < 1 then [SignalSessionsLow] else [])
            @ (if cf_SignalingPendingTimeout cfg \<le> 0 then [SignalPendingNotPositive] else [])
            @ bp @ ep @ sp;
          warnings = bw @ ew @ sw
            @ (if cf_MetricsToken cfg = '''' then [MetricsOpen] else [])
            @ (if cf_AllowedOrigins cfg = [] then [OriginsEmpty] else [])
      in (cfg, problems, warnings))"

section \<open>What an accepted boot guarantees\<close>

definition secret_ok :: "(string \<Rightarrow> string) \<Rightarrow> nat \<Rightarrow> string \<Rightarrow> bool" where
  "secret_ok ul least s \<longleftrightarrow> s \<noteq> '''' \<and> \<not> looks_placeholder ul s \<and> least \<le> length s"

lemma secret_problems_empty:
  "secret_problems ul s least a b c = [] \<longleftrightarrow> secret_ok ul least s"
  by (auto simp: secret_problems_def secret_ok_def)

lemma load_cfg: "fst (load ul getenv) = read_config ul getenv"
  by (simp add: load_def Let_def case_prod_unfold)

lemma broker_problems:
  "fst (broker_checks cfg) = [] \<longleftrightarrow>
     cf_BrokerKind cfg = ''memory'' \<or> cf_BrokerKind cfg = ''redis'' \<and> has_prefix (cf_RedisURL cfg) ''redis://''"
  by (cases "cf_RedisURL cfg = ''''") (auto simp: broker_checks_def)

lemma engine_problems:
  "fst (engine_checks cfg) = [] \<longleftrightarrow>
     cf_MediaEngineURL cfg = ''''
     \<or> (has_prefix (cf_MediaEngineURL cfg) ''http://'' \<or> has_prefix (cf_MediaEngineURL cfg) ''https://'')
       \<and> (cf_MediaEngineTimeoutSeconds cfg = NaN
          \<or> (\<exists>t. cf_MediaEngineTimeoutSeconds cfg = Fin t \<and> 0 < t \<and> t \<le> 30))"
  by (cases "cf_MediaEngineTimeoutSeconds cfg") (auto simp: engine_checks_def f_le_def f_gt_def)

lemma steer_problems:
  "fst (steer_checks getenv cfg) = [] \<longleftrightarrow>
     cf_EngineSteer cfg = ''off'' \<or> cf_EngineSteer cfg \<in> {''v1.2'', ''force''} \<and> cf_MediaEngineURL cfg \<noteq> ''''"
  by (auto simp: steer_checks_def EngineSteerOff_def EngineSteerV12_def EngineSteerForce_def)

lemma load_problems:
  "fst (snd (load ul getenv)) = [] \<longleftrightarrow>
     (let cfg = read_config ul getenv in
      1 \<le> cf_Port cfg \<and> cf_Port cfg \<le> 65535
      \<and> secret_ok ul 32 (cf_JWTSecret cfg) \<and> secret_ok ul 16 (cf_IngestSecret cfg)
      \<and> 1 \<le> cf_MaxConnections cfg \<and> 1 \<le> cf_MaxConnsPerTenant cfg \<and> 1 \<le> cf_SignalingMaxSessionsPerTenant cfg
      \<and> 0 < cf_PingInterval cfg \<and> cf_PingInterval cfg < cf_PongTimeout cfg
      \<and> 0 < cf_AuthTimeout cfg \<and> 0 < cf_SignalingPendingTimeout cfg
      \<and> fst (broker_checks cfg) = [] \<and> fst (engine_checks cfg) = [] \<and> fst (steer_checks getenv cfg) = [])"
proof -
  define cfg where "cfg = read_config ul getenv"
  show ?thesis by (simp add: load_def Let_def case_prod_unfold secret_problems_empty flip: cfg_def)
qed

text \<open>
  C34. The gateway boots exactly when the port is a port, both secrets are long enough and not
  placeholders, the caps are at least one, the ping interval is positive and below the pong timeout,
  the other timeouts are positive, the broker is memory or a redis:// bus, a configured engine has an
  http(s) address and a call timeout in (0, 30] seconds or NaN, and steering has an engine.
\<close>

theorem boot_contract:
  "fst (snd (load ul getenv)) = [] \<longleftrightarrow>
     (let cfg = fst (load ul getenv) in
        1 \<le> cf_Port cfg \<and> cf_Port cfg \<le> 65535
        \<and> secret_ok ul 32 (cf_JWTSecret cfg) \<and> secret_ok ul 16 (cf_IngestSecret cfg)
        \<and> 1 \<le> cf_MaxConnections cfg \<and> 1 \<le> cf_MaxConnsPerTenant cfg \<and> 1 \<le> cf_SignalingMaxSessionsPerTenant cfg
        \<and> 0 < cf_PingInterval cfg \<and> cf_PingInterval cfg < cf_PongTimeout cfg
        \<and> 0 < cf_AuthTimeout cfg \<and> 0 < cf_SignalingPendingTimeout cfg
        \<and> (cf_BrokerKind cfg = ''memory'' \<or> cf_BrokerKind cfg = ''redis'' \<and> has_prefix (cf_RedisURL cfg) ''redis://'')
        \<and> (cf_MediaEngineURL cfg = ''''
           \<or> (has_prefix (cf_MediaEngineURL cfg) ''http://'' \<or> has_prefix (cf_MediaEngineURL cfg) ''https://'')
             \<and> (cf_MediaEngineTimeoutSeconds cfg = NaN
                \<or> (\<exists>t. cf_MediaEngineTimeoutSeconds cfg = Fin t \<and> 0 < t \<and> t \<le> 30)))
        \<and> (cf_EngineSteer cfg = ''off'' \<or> cf_EngineSteer cfg \<in> {''v1.2'', ''force''} \<and> cf_MediaEngineURL cfg \<noteq> ''''))"
  unfolding load_cfg load_problems Let_def broker_problems engine_problems steer_problems by blast

section \<open>Values that do not parse\<close>

definition int_knobs :: "string list" where
  "int_knobs = [''VOXDESK_GATEWAY_PORT'', ''VOXDESK_GATEWAY_MAX_CONNECTIONS'', ''VOXDESK_GATEWAY_MAX_CONNS_PER_TENANT'',
     ''VOXDESK_GATEWAY_SIGNAL_MAX_SESSIONS_PER_TENANT'']"

definition duration_knobs :: "string list" where
  "duration_knobs = [''VOXDESK_GATEWAY_WRITE_WAIT'', ''VOXDESK_GATEWAY_AUTH_TIMEOUT'', ''VOXDESK_GATEWAY_PING_INTERVAL'',
     ''VOXDESK_GATEWAY_PONG_TIMEOUT'', ''VOXDESK_GATEWAY_SIGNAL_PENDING_TIMEOUT'']"

definition float_knobs :: "string list" where
  "float_knobs = [''VOXDESK_GATEWAY_MEDIA_ENGINE_TIMEOUT_SECONDS'']"

definition unparsable :: "string \<Rightarrow> string \<Rightarrow> bool" where
  "unparsable key s \<longleftrightarrow>
     key \<in> set int_knobs \<and> atoi (trim_space s) = None
     \<or> key \<in> set duration_knobs \<and> parse_duration (trim_space s) = None
     \<or> key \<in> set float_knobs \<and> parse_float (trim_space s) = None"

lemma env_parsed_other: "k \<noteq> key \<Longrightarrow> env_parsed p (getenv(key := s)) k d = env_parsed p getenv k d"
  by (simp add: env_parsed_def)

lemma env_parsed_bad: "p (trim_space s) = None \<Longrightarrow> env_parsed p (getenv(key := s)) key d = d"
  by (simp add: env_parsed_def Let_def)

lemma trim_space_Nil [simp]: "trim_space '''' = ''''"
  by code_simp

lemma env_parsed_blank: "env_parsed p (getenv(key := '''')) key d = d"
  by (simp add: env_parsed_def)

lemma env_parsed_typo:
  "k \<noteq> key \<or> p (trim_space s) = None \<Longrightarrow> env_parsed p (getenv(key := s)) k d = env_parsed p (getenv(key := '''')) k d"
  by (cases "k = key") (simp_all add: env_parsed_other env_parsed_bad env_parsed_blank)

lemma unparsable_cases:
  assumes "unparsable key s"
  shows "k \<in> set int_knobs \<Longrightarrow> k \<noteq> key \<or> atoi (trim_space s) = None"
    and "k \<in> set duration_knobs \<Longrightarrow> k \<noteq> key \<or> parse_duration (trim_space s) = None"
    and "k \<in> set float_knobs \<Longrightarrow> k \<noteq> key \<or> parse_float (trim_space s) = None"
    and "k \<notin> set (int_knobs @ duration_knobs @ float_knobs) \<Longrightarrow> k \<noteq> key"
  using assms by (auto simp: unparsable_def int_knobs_def duration_knobs_def float_knobs_def)

text \<open>
  A number or duration that does not parse is treated exactly as an unset variable: same
  configuration, same problems, same warnings.
\<close>

theorem typo_reads_as_unset:
  assumes "unparsable key s"
  shows "load ul (getenv(key := s)) = load ul (getenv(key := ''''))"
proof -
  have n: "k \<notin> set (int_knobs @ duration_knobs @ float_knobs) \<Longrightarrow> (getenv(key := s)) k = (getenv(key := '''')) k" for k
    using unparsable_cases(4) [OF assms, of k] by auto
  have i: "k \<in> set int_knobs \<Longrightarrow> env_int (getenv(key := s)) k d = env_int (getenv(key := '''')) k d" for k d
    unfolding env_int_def by (rule env_parsed_typo) (rule unparsable_cases(1) [OF assms])
  have u: "k \<in> set duration_knobs \<Longrightarrow> env_duration (getenv(key := s)) k d = env_duration (getenv(key := '''')) k d" for k d
    unfolding env_duration_def by (rule env_parsed_typo) (rule unparsable_cases(2) [OF assms])
  have f: "k \<in> set float_knobs \<Longrightarrow> env_float (getenv(key := s)) k d = env_float (getenv(key := '''')) k d" for k d
    unfolding env_float_def by (rule env_parsed_typo) (rule unparsable_cases(3) [OF assms])
  have r: "read_config ul (getenv(key := s)) = read_config ul (getenv(key := ''''))"
    unfolding read_config_def env_str_def env_list_def
    by (simp only: i u f n int_knobs_def duration_knobs_def float_knobs_def list.set insert_iff empty_iff append.simps char.inject
        list.inject simp_thms list.distinct)
  have "(getenv(key := s)) ''VOXDESK_GATEWAY_ENGINE_STEER'' = (getenv(key := '''')) ''VOXDESK_GATEWAY_ENGINE_STEER''"
    by (rule n) (simp add: int_knobs_def duration_knobs_def float_knobs_def)
  then have "steer_checks (getenv(key := s)) cfg = steer_checks (getenv(key := '''')) cfg" for cfg
    by (simp only: steer_checks_def)
  with r show ?thesis by (simp only: load_def)
qed

theorem typo_reads_as_unset_witness:
  "load (\<lambda>s. s) (\<lambda>k. if k = ''VOXDESK_GATEWAY_PONG_TIMEOUT'' then ''60'' else '''')
   = load (\<lambda>s. s) (\<lambda>k. '''')"
proof -
  have d: "is_digit CHR ''6''" "is_digit CHR ''0''" by code_simp+
  have "trim_space ''60'' = ''60''" by code_simp
  moreover have "duration_term ''60'' = None"
    by (simp add: duration_term_def d Let_def split_beta)
  ultimately have p: "parse_duration (trim_space ''60'') = None"
    by (simp add: parse_duration_def strip_sign_def duration_terms.simps)
  have u: "unparsable ''VOXDESK_GATEWAY_PONG_TIMEOUT'' ''60''"
    unfolding unparsable_def by (intro disjI2 disjI1 conjI p) (simp add: duration_knobs_def)
  have e: "(\<lambda>k. '''')(''VOXDESK_GATEWAY_PONG_TIMEOUT'' := v) = (\<lambda>k. if k = ''VOXDESK_GATEWAY_PONG_TIMEOUT'' then v else '''')" for v :: string
    by (rule ext) (simp only: fun_upd_apply)
  show ?thesis
    using typo_reads_as_unset [OF u, of "\<lambda>s. s" "\<lambda>k. ''''"] by (simp only: e if_cancel)
qed

end
