(* ===== verification/Gw_Connection.thy ===== *)
theory Gw_Connection
  imports Gw_Router_Inv Gw_Hub Gw_Presence Gw_Ratelimit Gw_Auth Gw_Config
begin

text \<open>
  One public WebSocket session of the gateway (\<open>internal/websocket\<close>) on top of everything it drives:
  the hub, the presence registry, the signaling router with its queues and metrics, the token verifier
  and the frame limiter. The node's state holds every connection under its session id. A handler runs
  to its end before the next one starts and reads the clock once, as \<open>now\<close>. Of the socket the model
  keeps the read deadline and what was written; whether a write succeeds is an argument, and a read
  that fails for whatever reason (peer gone, deadline expired, frame over the read limit) is the input
  \<open>InFailed\<close>.
\<close>

section \<open>State\<close>

text \<open>What the process was started with. \<open>ed_signaling\<close> and \<open>ed_presence\<close>: the pointers are not nil.\<close>

record edge =
  ed_cfg :: config
  ed_verifier :: verifier
  ed_hmac :: "string \<Rightarrow> string \<Rightarrow> string"
  ed_ul :: "string \<Rightarrow> string"
  ed_signaling :: bool
  ed_presence :: bool
  ed_engine :: "(engine_op list \<Rightarrow> engine_op \<Rightarrow> engine_err + engine_frame list) option"
  ed_num :: "string \<Rightarrow> string option"

datatype wire = WText string | WPing string | WClose int string

record conn =
  cn_limiter :: limiter
  cn_tenantID :: string
  cn_userID :: string
  cn_role :: string
  cn_tokenExpiry :: time
  cn_subscriptions :: "string fset"
  cn_steerCapable :: bool
  cn_lastActivity :: time
  cn_closed :: "(int \<times> string) option" \<comment> \<open>\<open>closed\<close> with \<open>closeCode\<close> and \<open>closeReason\<close>\<close>
  cn_writerDone :: bool
  cn_readDeadline :: time
  cn_wire :: "wire list" \<comment> \<open>what reached the socket\<close>

record gateway =
  gw_hub :: hub
  gw_presence :: presence
  gw_router :: router
  gw_up :: bool \<comment> \<open>the engine monitor's verdict\<close>
  gw_conns :: "string \<Rightarrow> conn"

datatype conn_error = NoRandomness string | PolicyPanic policy_error

text \<open>\<open>NewConnection\<close>: the session id, the connection and its queue.\<close>

definition new_connection ::
  "edge \<Rightarrow> string + 8 word list \<Rightarrow> time \<Rightarrow> conn_error + (string \<times> conn \<times> frame queue)"
where
  "new_connection e rnd now =
     (case new_uuid_v4 rnd of
        Inl err \<Rightarrow> Inl (NoRandomness err)
      | Inr sessionID \<Rightarrow>
          (case must_policy (cf_MessageRatePerSecond (ed_cfg e)) (cf_MessageBurst (ed_cfg e)) of
             Inl err \<Rightarrow> Inl (PolicyPanic err)
           | Inr p \<Rightarrow>
               Inr (sessionID,
                 \<lparr>cn_limiter = limiter_new p now, cn_tenantID = '''', cn_userID = '''', cn_role = '''',
                  cn_tokenExpiry = zero_time, cn_subscriptions = {||}, cn_steerCapable = False,
                  cn_lastActivity = now, cn_closed = None, cn_writerDone = False, cn_readDeadline = zero_time, cn_wire = []\<rparr>,
                 queue_new (cf_OutgoingBuffer (ed_cfg e)) DropNewest)))"

definition upd_conn :: "string \<Rightarrow> (conn \<Rightarrow> conn) \<Rightarrow> gateway \<Rightarrow> gateway" where
  "upd_conn sid f g = g\<lparr>gw_conns := (gw_conns g)(sid := f (gw_conns g sid))\<rparr>"

definition tally :: "(metrics_registry \<Rightarrow> metrics_registry) \<Rightarrow> gateway \<Rightarrow> gateway" where
  "tally f g = g\<lparr>gw_router := (gw_router g)\<lparr>ro_reg := f (ro_reg (gw_router g))\<rparr>\<rparr>"

text \<open>\<open>Tenant()\<close> of every connection, and what the router sees of the node.\<close>

definition tenant_of :: "gateway \<Rightarrow> string \<Rightarrow> string" where
  "tenant_of g = (\<lambda>sid. cn_tenantID (gw_conns g sid))"

definition wiring_of :: "edge \<Rightarrow> gateway \<Rightarrow> time \<Rightarrow> wiring" where
  "wiring_of e g now =
     \<lparr>w_live = (\<lambda>sid. hub_lookup (gw_hub g) sid \<noteq> None), w_tenant = tenant_of g,
      w_steerCapable = (\<lambda>sid. cn_steerCapable (gw_conns g sid)), w_engine = ed_engine e, w_up = gw_up g,
      w_steerMode = (if ed_engine e = None then '''' else cf_EngineSteer (ed_cfg e)), w_num = ed_num e, w_now = now\<rparr>"

section \<open>Writing and closing\<close>

text \<open>\<open>writeFrameNow\<close>: a frame that cannot be marshalled is dropped, the session goes on.\<close>

definition write_frame_now :: "string \<Rightarrow> frame \<Rightarrow> bool \<Rightarrow> gateway \<Rightarrow> bool \<times> gateway" where
  "write_frame_now sid f ok g =
     (case frame_marshal f of
        None \<Rightarrow> (True, g)
      | Some data \<Rightarrow>
          if ok then (True, upd_conn sid (\<lambda>c. c\<lparr>cn_wire := cn_wire c @ [WText data]\<rparr>) g) else (False, g))"

definition enqueue_own :: "string \<Rightarrow> frame \<Rightarrow> gateway \<Rightarrow> gateway" where
  "enqueue_own sid f g =
     (let (ok, r) = sub_enqueue (gw_router g) sid f in g\<lparr>gw_router := if ok then r else reg_dropped r\<rparr>)"

definition send_error :: "string \<Rightarrow> string \<Rightarrow> string \<Rightarrow> gateway \<Rightarrow> gateway" where
  "send_error sid code message g = enqueue_own sid (new_error code message) g"

definition initiate_close :: "string \<Rightarrow> int \<Rightarrow> string \<Rightarrow> time \<Rightarrow> gateway \<Rightarrow> gateway" where
  "initiate_close sid code reason now g =
     (if cn_closed (gw_conns g sid) \<noteq> None then g
      else upd_conn sid (\<lambda>c. c\<lparr>cn_closed := Some (code, reason), cn_readDeadline := now - second\<rparr>) g)"

definition request_close :: "string \<Rightarrow> int \<Rightarrow> string \<Rightarrow> time \<Rightarrow> gateway \<Rightarrow> gateway" where
  "request_close sid code reason now g = initiate_close sid code reason now g"

text \<open>One round of the writer while it takes frames from the queue.\<close>

definition set_queue :: "string \<Rightarrow> frame queue \<Rightarrow> gateway \<Rightarrow> gateway" where
  "set_queue sid q g = g\<lparr>gw_router := (gw_router g)\<lparr>ro_qs := (ro_qs (gw_router g))(sid := q)\<rparr>\<rparr>"

definition writer_done :: "string \<Rightarrow> gateway \<Rightarrow> gateway" where
  "writer_done sid g = upd_conn sid (\<lambda>c. c\<lparr>cn_writerDone := True\<rparr>) g"

definition writer_take :: "string \<Rightarrow> bool \<Rightarrow> time \<Rightarrow> gateway \<Rightarrow> gateway" where
  "writer_take sid ok now g =
     (case queue_recv (ro_qs (gw_router g) sid) of
        None \<Rightarrow> g
      | Some (f, q) \<Rightarrow>
          let (alive, g1) = write_frame_now sid f ok (set_queue sid q g)
          in if alive then g1 else writer_done sid (initiate_close sid CloseGoingAway ''write failed'' now g1))"

text \<open>One round after \<open>closed\<close> fired: the next queued frame, or the close frame.\<close>

definition writer_drain :: "string \<Rightarrow> bool \<Rightarrow> gateway \<Rightarrow> gateway" where
  "writer_drain sid ok g =
     (case queue_recv (ro_qs (gw_router g) sid) of
        Some (f, q) \<Rightarrow>
          let (alive, g1) = write_frame_now sid f ok (set_queue sid q g)
          in if alive then g1 else writer_done sid g1
      | None \<Rightarrow>
          (case cn_closed (gw_conns g sid) of
             None \<Rightarrow> g
           | Some (code, reason) \<Rightarrow>
               writer_done sid (if ok then upd_conn sid (\<lambda>c. c\<lparr>cn_wire := cn_wire c @ [WClose code reason]\<rparr>) g else g)))"

section \<open>Identity\<close>

definition is_authenticated :: "gateway \<Rightarrow> string \<Rightarrow> bool" where
  "is_authenticated g sid \<longleftrightarrow> cn_tenantID (gw_conns g sid) \<noteq> ''''"

text \<open>The callback the server registers: every presence event sets the gauge.\<close>

definition presence_hook :: "(nat \<times> presence_event) list \<Rightarrow> metrics_registry \<Rightarrow> metrics_registry" where
  "presence_hook calls reg = fold (\<lambda>(fn, ev) r. set_presence_users r (word_of_int (int (pe_TotalUsers ev)))) calls reg"

definition set_identity :: "edge \<Rightarrow> string \<Rightarrow> claims \<Rightarrow> time \<Rightarrow> gateway \<Rightarrow> gateway" where
  "set_identity e sid cl now g =
     (let g1 = upd_conn sid (\<lambda>c. c\<lparr>cn_tenantID := cl_TenantID cl, cn_userID := cl_UserID cl, cn_role := cl_Role cl,
                                   cn_tokenExpiry := cl_ExpiresAt cl\<rparr>) g
      in if \<not> ed_presence e then g1
         else
           let (ev, calls, p) = online (gw_presence g1) (cl_TenantID cl) (cl_UserID cl) sid now
           in tally (presence_hook calls) (g1\<lparr>gw_presence := p\<rparr>))"

definition leave_presence :: "edge \<Rightarrow> string \<Rightarrow> time \<Rightarrow> gateway \<Rightarrow> gateway" where
  "leave_presence e sid now g =
     (let c = gw_conns g sid
      in if \<not> ed_presence e \<or> cn_tenantID c = '''' \<or> cn_userID c = '''' then g
         else
           let (ev, calls, p) = offline (gw_presence g) (cn_tenantID c) (cn_userID c) sid now
           in tally (presence_hook calls) (g\<lparr>gw_presence := p\<rparr>))"

definition set_read_deadline :: "string \<Rightarrow> time \<Rightarrow> gateway \<Rightarrow> gateway" where
  "set_read_deadline sid t g = upd_conn sid (\<lambda>c. c\<lparr>cn_readDeadline := t\<rparr>) g"

definition touch :: "string \<Rightarrow> time \<Rightarrow> gateway \<Rightarrow> gateway" where
  "touch sid now g = upd_conn sid (\<lambda>c. c\<lparr>cn_lastActivity := now\<rparr>) g"

section \<open>Handlers\<close>

text \<open>The boolean is false when the read loop must return.\<close>

definition handle_hello :: "edge \<Rightarrow> string \<Rightarrow> string \<Rightarrow> int \<Rightarrow> time \<Rightarrow> gateway \<Rightarrow> bool \<times> gateway" where
  "handle_hello e sid token wsVersion now g =
     (if is_authenticated g sid then
        (True, send_error sid CodeBadMessage ''already authenticated; reconnect to change identity'' g)
      else case verify (ed_hmac e) (ed_ul e) (ed_verifier e) token now of
        Inl err \<Rightarrow>
          (False, initiate_close sid ClosePolicyViolation ''authentication failed'' now
             (enqueue_own sid (new_error CodeAuthFailed ''invalid or expired token'') (tally metric_auth_failed g)))
      | Inr cl \<Rightarrow>
          (case bind_tenant (tenant_of g) (gw_hub g) sid (cl_TenantID cl) of
             (Inl ErrOverTenantCap, h) \<Rightarrow>
               (False, initiate_close sid ClosePolicyViolation ''over tenant capacity'' now
                  (send_error sid CodeOverLimit ''too many connections for this account'' (g\<lparr>gw_hub := h\<rparr>)))
           | (Inl ErrHubUnknownSession, h) \<Rightarrow>
               (False, initiate_close sid ClosePolicyViolation ''bind failed'' now
                  (send_error sid CodeAuthFailed ''session could not be bound'' (g\<lparr>gw_hub := h\<rparr>)))
           | (Inr u, h) \<Rightarrow>
               let g1 = set_identity e sid cl now (g\<lparr>gw_hub := h\<rparr>);
                   g2 = (if wsVersion \<ge> 2 then upd_conn sid (\<lambda>c. c\<lparr>cn_steerCapable := True\<rparr>) g1 else g1);
                   g3 = enqueue_own sid (new_ready sid (cl_TenantID cl) (cl_Role cl) (cl_ExpiresAt cl)) g2
               in (True, set_read_deadline sid (time_add now (cf_PongTimeout (ed_cfg e))) g3)))"

text \<open>\<open>subscribe\<close> records the room in the connection's mirror; \<open>None\<close> when the cap is reached.\<close>

definition mirror_subscribe :: "edge \<Rightarrow> string \<Rightarrow> string \<Rightarrow> gateway \<Rightarrow> gateway option" where
  "mirror_subscribe e sid room g =
     (let subs = cn_subscriptions (gw_conns g sid)
      in if room |\<in>| subs then Some g
         else if int (fcard subs) \<ge> cf_MaxSubscriptionsPerConn (ed_cfg e) then None
         else Some (upd_conn sid (\<lambda>c. c\<lparr>cn_subscriptions := finsert room subs\<rparr>) g))"

definition mirror_unsubscribe :: "string \<Rightarrow> string \<Rightarrow> gateway \<Rightarrow> gateway" where
  "mirror_unsubscribe sid room g = upd_conn sid (\<lambda>c. c\<lparr>cn_subscriptions := cn_subscriptions c |-| {|room|}\<rparr>) g"

definition handle_subscribe :: "edge \<Rightarrow> string \<Rightarrow> string \<Rightarrow> gateway \<Rightarrow> gateway" where
  "handle_subscribe e sid room g =
     (if \<not> is_room_name room then
        send_error sid CodeRoomInvalid ''unknown room; expected calls, metrics, call:<uuid> or campaign:<uuid>'' g
      else case mirror_subscribe e sid room g of
        None \<Rightarrow> send_error sid CodeOverLimit ''too many subscriptions on this connection'' g
      | Some g1 \<Rightarrow>
          (case hub_subscribe (tenant_of g1) (gw_hub g1) sid room of
             (Inl err, h) \<Rightarrow>
               send_error sid CodeBadMessage ''session is no longer registered'' (mirror_unsubscribe sid room (g1\<lparr>gw_hub := h\<rparr>))
           | (Inr peers, h) \<Rightarrow> enqueue_own sid (new_subscribed room (int peers)) (g1\<lparr>gw_hub := h\<rparr>)))"

definition handle_unsubscribe :: "string \<Rightarrow> string \<Rightarrow> gateway \<Rightarrow> gateway" where
  "handle_unsubscribe sid room g =
     enqueue_own sid (new_unsubscribed room)
       (mirror_unsubscribe sid room (g\<lparr>gw_hub := hub_unsubscribe (tenant_of g) (gw_hub g) sid room\<rparr>))"

definition signaling_types :: "string set" where
  "signaling_types = {TypeSessionStart, TypeSessionJoin, TypeSessionEnd, TypeOffer, TypeAnswer, TypeCandidate,
     TypeEngineOffer, TypeEngineCandidate, TypeEnginePublish, TypeEngineSubscribe, TypeEngineUnsubscribe}"

definition dispatch :: "edge \<Rightarrow> string \<Rightarrow> client_message \<Rightarrow> time \<Rightarrow> string + string \<Rightarrow> gateway \<Rightarrow> bool \<times> gateway" where
  "dispatch e sid msg now gen g =
     (if \<not> is_authenticated g sid \<and> cm_Type msg \<noteq> TypeHello \<and> cm_Type msg \<noteq> TypePing then
        (True, send_error sid CodeHelloRequired ''authenticate first'' g)
      else if cm_Type msg = TypeHello then handle_hello e sid (cm_Token msg) (cm_WSVersion msg) now g
      else if cm_Type msg = TypeSubscribe then (True, handle_subscribe e sid (cm_Room msg) g)
      else if cm_Type msg = TypeUnsubscribe then (True, handle_unsubscribe sid (cm_Room msg) g)
      else if cm_Type msg = TypePing then (True, enqueue_own sid (new_pong now) g)
      else if cm_Type msg \<in> signaling_types then
        (if \<not> ed_signaling e then (True, send_error sid CodeBadMessage ''signaling is not enabled on this gateway'' g)
         else (True, g\<lparr>gw_router := handle_message (wiring_of e g now) (gw_router g) sid msg gen\<rparr>))
      else (True, send_error sid CodeBadMessage ''unrecognized message type'' g))"

section \<open>The read loop\<close>

datatype inbound = InText string | InBinary string | InFailed

definition allow_message :: "string \<Rightarrow> time \<Rightarrow> gateway \<Rightarrow> bool \<times> gateway" where
  "allow_message sid now g =
     (let (ok, l) = limiter_allow (cn_limiter (gw_conns g sid)) now in (ok, upd_conn sid (\<lambda>c. c\<lparr>cn_limiter := l\<rparr>) g))"

text \<open>One round of the loop after \<open>ReadMessage\<close> returned.\<close>

definition read_round :: "edge \<Rightarrow> string \<Rightarrow> inbound \<Rightarrow> time \<Rightarrow> string + string \<Rightarrow> gateway \<Rightarrow> bool \<times> gateway" where
  "read_round e sid inb now gen g =
     (case inb of
        InFailed \<Rightarrow> (False, g)
      | InBinary data \<Rightarrow> (True, send_error sid CodeBadMessage ''text frames only'' (touch sid now g))
      | InText data \<Rightarrow>
          let (ok, g1) = allow_message sid now (tally message_read (touch sid now g))
          in if \<not> ok then (True, send_error sid CodeRateLimited ''slow down'' (tally metric_rate_limited g1))
             else case decode_client_message data of
                 Inl err \<Rightarrow> (True, send_error sid CodeBadMessage ''unrecognized message shape'' g1)
               | Inr msg \<Rightarrow> dispatch e sid msg now gen g1)"

definition pong_handler :: "edge \<Rightarrow> string \<Rightarrow> time \<Rightarrow> gateway \<Rightarrow> gateway" where
  "pong_handler e sid now g = set_read_deadline sid (time_add now (cf_PongTimeout (ed_cfg e))) (touch sid now g)"

section \<open>Heartbeat\<close>

definition token_expiry_grace :: duration where "token_expiry_grace = 30 * second"

definition ping_once :: "edge \<Rightarrow> string \<Rightarrow> bool \<Rightarrow> time \<Rightarrow> gateway \<Rightarrow> bool \<times> gateway" where
  "ping_once e sid ok now g =
     (let c = gw_conns g sid in
      if cn_closed c \<noteq> None then (False, g)
      else if cn_tokenExpiry c \<noteq> zero_time \<and> now > time_add (cn_tokenExpiry c) token_expiry_grace then
        (False, initiate_close sid ClosePolicyViolation ''token_expired'' now
           (enqueue_own sid (new_error CodeAuthFailed ''access token expired; reconnect with a fresh token'') g))
      else if is_authenticated g sid \<and> time_sub now (cn_lastActivity c) > cf_PongTimeout (ed_cfg e) then
        (False, initiate_close sid ClosePolicyViolation ''pong timeout'' now g)
      else if \<not> ok then (False, initiate_close sid CloseGoingAway ''heartbeat write failed'' now g)
      else (True, upd_conn sid (\<lambda>c. c\<lparr>cn_wire := cn_wire c @ [WPing sid]\<rparr>) g))"

text \<open>The loop of the ticker: per tick whether the ping can be written and when it comes.\<close>

fun heartbeat :: "edge \<Rightarrow> string \<Rightarrow> (bool \<times> time) list \<Rightarrow> gateway \<Rightarrow> gateway" where
  "heartbeat e sid [] g = g"
| "heartbeat e sid ((ok, now) # ticks) g =
     (if cn_closed (gw_conns g sid) \<noteq> None then g
      else let (alive, g1) = ping_once e sid ok now g in if alive then heartbeat e sid ticks g1 else g1)"

section \<open>Serve\<close>

text \<open>Up to the read loop: the welcome, and the registration when it could be written.\<close>

definition serve_start :: "edge \<Rightarrow> string \<Rightarrow> conn \<Rightarrow> frame queue \<Rightarrow> bool \<Rightarrow> time \<Rightarrow> gateway \<Rightarrow> bool \<times> gateway" where
  "serve_start e sid c q ok now g =
     (let g1 = tally conn_opened (set_queue sid q (upd_conn sid (\<lambda>_. c) g));
          welcome = new_welcome sid (cf_AuthTimeout (ed_cfg e)) (cf_PingInterval (ed_cfg e)) now;
          (alive, g2) = write_frame_now sid welcome ok g1
      in if \<not> alive then (False, g2)
         else (True, set_read_deadline sid (time_add now (cf_AuthTimeout (ed_cfg e))) (g2\<lparr>gw_hub := hub_register (gw_hub g2) sid\<rparr>)))"

text \<open>When the welcome could not be written, \<open>Serve\<close> returns with the first deferred calls only.\<close>

definition serve_abort :: "edge \<Rightarrow> string list \<Rightarrow> string \<Rightarrow> time \<Rightarrow> gateway \<Rightarrow> gateway" where
  "serve_abort e ordr sid now g =
     (let g1 = leave_presence e sid now g
      in tally conn_closed (g1\<lparr>gw_hub := hub_unregister (tenant_of g1) (gw_hub g1) ordr sid\<rparr>))"

text \<open>The deferred calls, last first. \<open>ords\<close> and \<open>ordr\<close> are the loop orders of the engine map and of the rooms.\<close>

definition td_signaler :: "edge \<Rightarrow> string list \<Rightarrow> string \<Rightarrow> time \<Rightarrow> gateway \<Rightarrow> gateway" where
  "td_signaler e ords sid now g =
     (if \<not> ed_signaling e then g
      else g\<lparr>gw_router := router_conn_closed (wiring_of e g now) (gw_router g) ords sid\<rparr>)"

definition td_unregister :: "string list \<Rightarrow> string \<Rightarrow> gateway \<Rightarrow> gateway" where
  "td_unregister ordr sid g = g\<lparr>gw_hub := hub_unregister (tenant_of g) (gw_hub g) ordr sid\<rparr>"

definition serve_end :: "edge \<Rightarrow> string list \<Rightarrow> string list \<Rightarrow> string \<Rightarrow> time \<Rightarrow> gateway \<Rightarrow> gateway" where
  "serve_end e ords ordr sid now g =
     tally conn_closed (td_unregister ordr sid (leave_presence e sid now (td_signaler e ords sid now g)))"

end
