(* ===== verification/Gw_Connection_Inv.thy ===== *)
theory Gw_Connection_Inv
  imports Gw_Connection Gw_Router_Spec Gw_Auth_Spec
begin

text \<open>
  What a gateway node keeps whatever its connections do: the hub's, the ledger's and the presence
  registry's own invariants hold together over one map of pinned identities, every identity comes from
  a verified token, and a connection without one has been told nothing but welcome, errors and pongs.
\<close>

section \<open>Frames\<close>

lemma upd_conn_simps [simp]:
  "gw_hub (upd_conn sid f g) = gw_hub g" "gw_presence (upd_conn sid f g) = gw_presence g"
  "gw_router (upd_conn sid f g) = gw_router g" "gw_up (upd_conn sid f g) = gw_up g"
  "gw_conns (upd_conn sid f g) = (gw_conns g)(sid := f (gw_conns g sid))"
  by (simp_all add: upd_conn_def)

lemma tally_simps [simp]:
  "gw_hub (tally f g) = gw_hub g" "gw_presence (tally f g) = gw_presence g" "gw_up (tally f g) = gw_up g"
  "gw_conns (tally f g) = gw_conns g" "ro_m (gw_router (tally f g)) = ro_m (gw_router g)"
  "ro_qs (gw_router (tally f g)) = ro_qs (gw_router g)" "ro_reg (gw_router (tally f g)) = f (ro_reg (gw_router g))"
  "ro_engineSessions (gw_router (tally f g)) = ro_engineSessions (gw_router g)"
  "ro_steerSessions (gw_router (tally f g)) = ro_steerSessions (gw_router g)" "ro_calls (gw_router (tally f g)) = ro_calls (gw_router g)"
  by (simp_all add: tally_def)

lemma set_queue_simps [simp]:
  "gw_hub (set_queue sid q g) = gw_hub g" "gw_presence (set_queue sid q g) = gw_presence g" "gw_up (set_queue sid q g) = gw_up g"
  "gw_conns (set_queue sid q g) = gw_conns g" "ro_m (gw_router (set_queue sid q g)) = ro_m (gw_router g)"
  "ro_qs (gw_router (set_queue sid q g)) = (ro_qs (gw_router g))(sid := q)"
  by (simp_all add: set_queue_def)

lemma enqueue_own_simps [simp]:
  "gw_hub (enqueue_own sid f g) = gw_hub g" "gw_presence (enqueue_own sid f g) = gw_presence g"
  "gw_up (enqueue_own sid f g) = gw_up g" "gw_conns (enqueue_own sid f g) = gw_conns g"
  "ro_m (gw_router (enqueue_own sid f g)) = ro_m (gw_router g)"
  "ro_engineSessions (gw_router (enqueue_own sid f g)) = ro_engineSessions (gw_router g)"
  "ro_steerSessions (gw_router (enqueue_own sid f g)) = ro_steerSessions (gw_router g)"
  "ro_calls (gw_router (enqueue_own sid f g)) = ro_calls (gw_router g)"
  "ro_qs (gw_router (enqueue_own sid f g)) = (ro_qs (gw_router g))(sid := snd (enqueue (ro_qs (gw_router g) sid) f))"
  by (simp_all add: enqueue_own_def case_prod_unfold Let_def)

lemma send_error_own: "send_error sid code message g = enqueue_own sid (new_error code message) g"
  by (simp add: send_error_def)

lemma hub_update_simps [simp]:
  "tenant_of (g\<lparr>gw_hub := h\<rparr>) = tenant_of g" "tenant_of (g\<lparr>gw_router := r\<rparr>) = tenant_of g"
  "tenant_of (g\<lparr>gw_presence := p\<rparr>) = tenant_of g" "tenant_of (g\<lparr>gw_up := b\<rparr>) = tenant_of g"
  by (simp_all add: tenant_of_def)

section \<open>The part of the state the invariant reads\<close>

record ident =
  id_tenant :: string
  id_user :: string
  id_role :: string
  id_expiry :: time
  id_rooms :: "string fset"

definition ident_of :: "conn \<Rightarrow> ident" where
  "ident_of c = \<lparr>id_tenant = cn_tenantID c, id_user = cn_userID c, id_role = cn_role c, id_expiry = cn_tokenExpiry c,
     id_rooms = cn_subscriptions c\<rparr>"

lemma ident_tenant: "cn_tenantID c = id_tenant (ident_of c)"
  by (simp add: ident_of_def)

lemma ident_rooms: "cn_subscriptions c = id_rooms (ident_of c)"
  by (simp add: ident_of_def)

definition core :: "gateway \<Rightarrow> hub \<times> presence \<times> manager \<times> (string \<Rightarrow> ident)" where
  "core g = (gw_hub g, gw_presence g, ro_m (gw_router g), (\<lambda>sid. ident_of (gw_conns g sid)))"

lemma core_upd_conn [simp]: "ident_of (f (gw_conns g sid)) = ident_of (gw_conns g sid) \<Longrightarrow> core (upd_conn sid f g) = core g"
  by (auto simp: core_def fun_eq_iff)

lemma core_simps [simp]:
  "core (tally m g) = core g" "core (set_queue sid q g) = core g" "core (enqueue_own sid f g) = core g"
  "core (send_error sid code message g) = core g" "core (set_read_deadline sid t g) = core g" "core (touch sid t g) = core g"
  "core (writer_done sid g) = core g" "core (snd (write_frame_now sid f ok g)) = core g"
  "core (initiate_close sid cc reason now g) = core g" "core (request_close sid cc reason now g) = core g"
  "core (snd (allow_message sid now g)) = core g" "core (pong_handler e sid now g) = core g" "core (g\<lparr>gw_up := b\<rparr>) = core g"
proof -
  have u: "\<And>f. (\<And>c. ident_of (f c) = ident_of c) \<Longrightarrow> core (upd_conn sid f g) = core g" for g by simp
  show t: "core (touch sid t g) = core g" for g t by (simp add: touch_def ident_of_def)
  show d: "core (set_read_deadline sid t g) = core g" for g t by (simp add: set_read_deadline_def ident_of_def)
  show "core (pong_handler e sid now g) = core g" by (simp add: pong_handler_def t d)
  show ic: "core (initiate_close sid cc reason now g) = core g" by (simp add: initiate_close_def ident_of_def)
  show "core (request_close sid cc reason now g) = core g" by (simp add: request_close_def ic)
qed (simp_all add: core_def fun_eq_iff send_error_def writer_done_def write_frame_now_def allow_message_def ident_of_def
    case_prod_unfold Let_def split: option.split)

lemma core_writer [simp]: "core (writer_take sid ok now g) = core g" "core (writer_drain sid ok g) = core g"
  by (simp_all add: writer_take_def writer_drain_def case_prod_unfold Let_def ident_of_def split: option.split)

lemma core_ping [simp]: "core (snd (ping_once e sid ok now g)) = core g"
  by (simp add: ping_once_def Let_def ident_of_def)

lemma coreD:
  assumes "core g = core g'"
  shows "gw_hub g = gw_hub g'" "gw_presence g = gw_presence g'" "ro_m (gw_router g) = ro_m (gw_router g')"
    "ident_of (gw_conns g sid) = ident_of (gw_conns g' sid)" "cn_tenantID (gw_conns g sid) = cn_tenantID (gw_conns g' sid)"
    "tenant_of g = tenant_of g'"
proof -
  show a: "gw_hub g = gw_hub g'" "gw_presence g = gw_presence g'" "ro_m (gw_router g) = ro_m (gw_router g')"
    and i: "ident_of (gw_conns g sid) = ident_of (gw_conns g' sid)" for sid
    using assms by (simp_all add: core_def fun_eq_iff)
  then show t: "cn_tenantID (gw_conns g sid) = cn_tenantID (gw_conns g' sid)" for sid using i [of sid] by (simp add: ident_of_def)
  then show "tenant_of g = tenant_of g'" by (simp add: tenant_of_def)
qed

section \<open>The invariant of the node's registries\<close>

definition served :: "gateway \<Rightarrow> string \<Rightarrow> bool" where
  "served g sid \<longleftrightarrow> fmlookup (h_sessions (gw_hub g)) sid \<noteq> None"

definition hub_view :: "gateway \<Rightarrow> hub_sys" where
  "hub_view g = \<lparr>y_hub = gw_hub g, y_ten = tenant_of g, y_pend = fmempty\<rparr>"

text \<open>Some token was accepted at some time for exactly this identity.\<close>

definition vouched :: "edge \<Rightarrow> ident \<Rightarrow> bool" where
  "vouched e i \<longleftrightarrow>
     (\<exists>token now cl. verify (ed_hmac e) (ed_ul e) (ed_verifier e) token now = Inr cl
        \<and> id_tenant i = cl_TenantID cl \<and> id_user i = cl_UserID cl \<and> id_role i = cl_Role cl \<and> id_expiry i = cl_ExpiresAt cl)"

definition live_triples :: "gateway \<Rightarrow> (string \<times> string \<times> string) set" where
  "live_triples g = {(cn_tenantID (gw_conns g sid), cn_userID (gw_conns g sid), sid) | sid. served g sid \<and> is_authenticated g sid}"

definition conn_cap :: "edge \<Rightarrow> int" where
  "conn_cap e = max 0 (cf_MaxSubscriptionsPerConn (ed_cfg e))"

definition registries_inv :: "edge \<Rightarrow> gateway \<Rightarrow> bool" where
  "registries_inv e g \<longleftrightarrow>
     hub_inv (hub_view g) \<and> mgr_inv (ro_m (gw_router g)) \<and> seated (tenant_of g) (ro_m (gw_router g))
     \<and> presence_inv (gw_presence g) \<and> (ed_presence e \<longrightarrow> triples (gw_presence g) = live_triples g)
     \<and> (\<forall>sid. served g sid \<longrightarrow> sid \<noteq> ''''
          \<and> fmlookup (h_sessions (gw_hub g)) sid = Some (cn_subscriptions (gw_conns g sid)))
     \<and> (\<forall>sid. int (fcard (cn_subscriptions (gw_conns g sid))) \<le> conn_cap e)
     \<and> (\<forall>sid. is_authenticated g sid \<longrightarrow> vouched e (ident_of (gw_conns g sid)))"

lemma registries_invD:
  assumes "registries_inv e g"
  shows "hub_inv (hub_view g)" "mgr_inv (ro_m (gw_router g))" "seated (tenant_of g) (ro_m (gw_router g))"
    "presence_inv (gw_presence g)" "ed_presence e \<Longrightarrow> triples (gw_presence g) = live_triples g"
    "served g sid \<Longrightarrow> sid \<noteq> ''''"
    "served g sid \<Longrightarrow> fmlookup (h_sessions (gw_hub g)) sid = Some (cn_subscriptions (gw_conns g sid))"
    "int (fcard (cn_subscriptions (gw_conns g sid))) \<le> conn_cap e"
    "is_authenticated g sid \<Longrightarrow> vouched e (ident_of (gw_conns g sid))"
    "router_inv (tenant_of g) (gw_router g)"
  using assms by (simp_all add: registries_inv_def router_inv_def)

lemma registries_invI:
  assumes "hub_inv (hub_view g)" "mgr_inv (ro_m (gw_router g))" "seated (tenant_of g) (ro_m (gw_router g))"
    "presence_inv (gw_presence g)" "ed_presence e \<Longrightarrow> triples (gw_presence g) = live_triples g"
    "\<And>sid. served g sid \<Longrightarrow> sid \<noteq> ''''"
    "\<And>sid. served g sid \<Longrightarrow> fmlookup (h_sessions (gw_hub g)) sid = Some (cn_subscriptions (gw_conns g sid))"
    "\<And>sid. int (fcard (cn_subscriptions (gw_conns g sid))) \<le> conn_cap e"
    "\<And>sid. is_authenticated g sid \<Longrightarrow> vouched e (ident_of (gw_conns g sid))"
  shows "registries_inv e g"
  using assms by (simp add: registries_inv_def)

lemma registries_inv_core:
  assumes "core g = core g'"
  shows "registries_inv e g = registries_inv e g'"
proof -
  note c = coreD [OF assms]
  have s: "served g = served g'" by (simp add: served_def fun_eq_iff c(1))
  have a: "is_authenticated g = is_authenticated g'" using c(5) by (simp add: is_authenticated_def fun_eq_iff)
  have f: "cn_userID (gw_conns g sid) = cn_userID (gw_conns g' sid)"
    "cn_subscriptions (gw_conns g sid) = cn_subscriptions (gw_conns g' sid)" for sid
    using c(4) [of sid] by (simp_all add: ident_of_def)
  have "live_triples g = live_triples g'" by (simp add: live_triples_def s a c(5) f)
  then show ?thesis by (simp add: registries_inv_def hub_view_def c(1-4,6) s a f)
qed

section \<open>Operations that change a registry\<close>

lemma tenant_of_upd: "tenant_of (upd_conn sid f g) = (tenant_of g)(sid := cn_tenantID (f (gw_conns g sid)))"
  by (auto simp: tenant_of_def)

lemma is_authenticated_tenant: "is_authenticated g sid \<longleftrightarrow> tenant_of g sid \<noteq> ''''"
  by (simp add: is_authenticated_def tenant_of_def)

lemma seated_pin:
  assumes "seated ten m" and "ten sid = ''''"
  shows "seated (ten(sid := t)) m"
  using assms by (auto simp: seated_def)

lemma uuid_nonempty: "is_uuid s \<Longrightarrow> s \<noteq> ''''"
  by (auto simp: is_uuid_def)

lemma verified_ids:
  assumes "verify hm ul v token now = Inr cl"
  shows "cl_TenantID cl \<noteq> ''''" "cl_UserID cl \<noteq> ''''"
  using verified_uuids [OF assms] uuid_nonempty by blast+

lemma hub_view_upd: "hub_view (g\<lparr>gw_hub := h\<rparr>) = (hub_view g)\<lparr>y_hub := h\<rparr>"
  by (simp add: hub_view_def)

lemma bind_ok:
  assumes "bind_tenant ten h sid t = (Inr (), h')" and "ten sid = ''''"
  shows "h_sessions h' = h_sessions h" "h_rooms h' = h_rooms h" "fmlookup (h_sessions h) sid \<noteq> None"
  using assms by (auto simp: bind_tenant_def Let_def split: option.splits if_splits)

definition pinned :: "claims \<Rightarrow> conn \<Rightarrow> conn" where
  "pinned cl c = c\<lparr>cn_tenantID := cl_TenantID cl, cn_userID := cl_UserID cl, cn_role := cl_Role cl, cn_tokenExpiry := cl_ExpiresAt cl\<rparr>"

lemma core_set_identity:
  "core (set_identity e sid cl now g) =
     (gw_hub g,
      if ed_presence e then snd (snd (online (gw_presence g) (cl_TenantID cl) (cl_UserID cl) sid now)) else gw_presence g,
      ro_m (gw_router g), (\<lambda>s. ident_of (gw_conns g s))(sid := ident_of (pinned cl (gw_conns g sid))))"
  by (simp add: set_identity_def pinned_def Let_def case_prod_unfold core_def fun_eq_iff ident_of_def)

lemma hub_inv_hello:
  assumes inv: "hub_inv (hub_view g)" and bind: "bind_tenant (tenant_of g) (gw_hub g) sid t = (Inr (), h')"
    and ten: "tenant_of g sid = ''''" and t: "t \<noteq> ''''"
  shows "hub_inv \<lparr>y_hub = h', y_ten = (tenant_of g)(sid := t), y_pend = fmempty\<rparr>"
proof -
  have v: "y_ten (hub_view g) = tenant_of g" "y_hub (hub_view g) = gw_hub g" "y_pend (hub_view g) = fmempty"
    by (simp_all add: hub_view_def)
  have "hub_inv ((hub_view g)\<lparr>y_hub := h', y_pend := fmupd sid t (y_pend (hub_view g))\<rparr>)"
    by (rule hub_inv_bind [OF inv]) (use bind ten t in \<open>simp_all add: v\<close>)
  from hub_inv_pin [OF this, of sid t] show ?thesis by (simp add: v fmdrop_fmupd_same) (simp add: hub_view_def)
qed

lemma live_triples_upd:
  assumes "served g' = served g" and "\<And>s. s \<noteq> sid \<Longrightarrow> ident_of (gw_conns g' s) = ident_of (gw_conns g s)"
    and "served g sid" and "\<not> is_authenticated g sid" and "is_authenticated g' sid"
  shows "live_triples g' = insert (cn_tenantID (gw_conns g' sid), cn_userID (gw_conns g' sid), sid) (live_triples g)"
proof -
  have f: "cn_tenantID (gw_conns g' s) = cn_tenantID (gw_conns g s)" "cn_userID (gw_conns g' s) = cn_userID (gw_conns g s)"
    "is_authenticated g' s = is_authenticated g s" if "s \<noteq> sid" for s
    using assms(2) [OF that] by (simp_all add: ident_of_def is_authenticated_def)
  show ?thesis
  proof (intro set_eqI iffI)
    fix x assume "x \<in> live_triples g'"
    then obtain s where s: "x = (cn_tenantID (gw_conns g' s), cn_userID (gw_conns g' s), s)" "served g s" "is_authenticated g' s"
      by (auto simp: live_triples_def assms(1))
    then show "x \<in> insert (cn_tenantID (gw_conns g' sid), cn_userID (gw_conns g' sid), sid) (live_triples g)"
      using f [of s] by (cases "s = sid") (auto simp: live_triples_def)
  next
    fix x assume "x \<in> insert (cn_tenantID (gw_conns g' sid), cn_userID (gw_conns g' sid), sid) (live_triples g)"
    then consider "x = (cn_tenantID (gw_conns g' sid), cn_userID (gw_conns g' sid), sid)"
      | s where "x = (cn_tenantID (gw_conns g s), cn_userID (gw_conns g s), s)" "served g s" "is_authenticated g s"
      by (auto simp: live_triples_def)
    then show "x \<in> live_triples g'"
    proof cases
      case 1
      then show ?thesis using assms(1,3,5) by (auto simp: live_triples_def)
    next
      case 2
      then have "s \<noteq> sid" using assms(4) by auto
      then show ?thesis using 2 f [of s] assms(1) by (auto simp: live_triples_def)
    qed
  qed
qed

lemma registries_inv_hello:
  assumes inv: "registries_inv e g" and bind: "bind_tenant (tenant_of g) (gw_hub g) sid (cl_TenantID cl) = (Inr (), h')"
    and ten: "\<not> is_authenticated g sid" and ver: "verify (ed_hmac e) (ed_ul e) (ed_verifier e) token now = Inr cl"
  shows "registries_inv e (set_identity e sid cl now' (g\<lparr>gw_hub := h'\<rparr>))" (is "registries_inv e ?g")
proof -
  note d = registries_invD [OF inv]
  note ids = verified_ids [OF ver]
  have t0: "tenant_of g sid = ''''" using ten by (simp add: is_authenticated_tenant)
  note b = bind_ok [OF bind t0]
  have c: "gw_hub ?g = h'" "ro_m (gw_router ?g) = ro_m (gw_router g)"
    "gw_presence ?g = (if ed_presence e then snd (snd (online (gw_presence g) (cl_TenantID cl) (cl_UserID cl) sid now')) else gw_presence g)"
    "(\<lambda>s. ident_of (gw_conns ?g s)) = (\<lambda>s. ident_of (gw_conns g s))(sid := ident_of (pinned cl (gw_conns g sid)))"
    using core_set_identity [of e sid cl now' "g\<lparr>gw_hub := h'\<rparr>"] by (simp_all add: core_def)
  have i: "ident_of (gw_conns ?g s) = (if s = sid then ident_of (pinned cl (gw_conns g sid)) else ident_of (gw_conns g s))" for s
    using fun_cong [OF c(4), of s] by (simp split: if_splits)
  have ten': "tenant_of ?g = (tenant_of g)(sid := cl_TenantID cl)"
    by (rule ext) (simp add: tenant_of_def ident_tenant i, simp add: ident_of_def pinned_def)
  have subs: "cn_subscriptions (gw_conns ?g s) = cn_subscriptions (gw_conns g s)" for s
    by (simp add: ident_rooms i, simp add: ident_of_def pinned_def)
  have srv: "served ?g = served g" by (simp add: served_def fun_eq_iff c(1) b(1))
  have auth: "is_authenticated ?g s \<longleftrightarrow> s = sid \<or> is_authenticated g s" for s
    using ids by (simp add: is_authenticated_tenant ten')
  have reg: "served g sid" using b(3) by (simp add: served_def)
  have own: "cn_tenantID (gw_conns ?g sid) = cl_TenantID cl" "cn_userID (gw_conns ?g sid) = cl_UserID cl"
    using i [of sid] by (simp_all add: ident_of_def pinned_def)
  have live: "live_triples ?g = insert (cl_TenantID cl, cl_UserID cl, sid) (live_triples g)"
    by (rule live_triples_upd [of ?g g sid, OF srv _ reg ten, unfolded own]) (simp_all add: i auth)
  show ?thesis
  proof (rule registries_invI)
    show "hub_inv (hub_view ?g)" using hub_inv_hello [OF d(1) bind t0 ids(1)] by (simp add: hub_view_def c(1) ten')
    show "seated (tenant_of ?g) (ro_m (gw_router ?g))" unfolding ten' c(2) by (rule seated_pin [OF d(3) t0])
    show "presence_inv (gw_presence ?g)" unfolding c(3) using presence_inv_online [OF d(4)] d(4) by simp
    show "triples (gw_presence ?g) = live_triples ?g" if "ed_presence e"
      using that d(5) [OF that] online_triples [of "gw_presence g" "cl_TenantID cl" "cl_UserID cl" sid now'] ids d(6) [OF reg]
      by (simp add: live c(3))
    show "vouched e (ident_of (gw_conns ?g s))" if "is_authenticated ?g s" for s
    proof (cases "s = sid")
      case True
      have "vouched e (ident_of (pinned cl (gw_conns g sid)))" using ver by (auto simp: vouched_def ident_of_def pinned_def)
      with True show ?thesis by (simp add: i)
    next
      case False
      with that d(9) [of s] show ?thesis by (simp add: i auth)
    qed
  qed (use d b c subs srv in \<open>simp_all\<close>)
qed

text \<open>Changes that touch only the rooms of one connection: the hub's set and its mirror move together.\<close>

lemma registries_inv_rooms:
  assumes inv: "registries_inv e g" and h: "hub_inv ((hub_view g)\<lparr>y_hub := h'\<rparr>)"
    and sess: "fmlookup (h_sessions h') sid = (if served g sid then Some S else None)"
      "\<And>s. s \<noteq> sid \<Longrightarrow> fmlookup (h_sessions h') s = fmlookup (h_sessions (gw_hub g)) s"
    and cap: "int (fcard S) \<le> conn_cap e"
    and g': "gw_hub g' = h'" "gw_presence g' = gw_presence g" "ro_m (gw_router g') = ro_m (gw_router g)"
      "\<And>s. ident_of (gw_conns g' s) = (ident_of (gw_conns g s))\<lparr>id_rooms := if s = sid then S else cn_subscriptions (gw_conns g s)\<rparr>"
  shows "registries_inv e g'"
proof -
  note d = registries_invD [OF inv]
  have f: "cn_tenantID (gw_conns g' s) = cn_tenantID (gw_conns g s)" "cn_userID (gw_conns g' s) = cn_userID (gw_conns g s)"
    "cn_subscriptions (gw_conns g' s) = (if s = sid then S else cn_subscriptions (gw_conns g s))" for s
    using g'(4) [of s] by (simp_all add: ident_of_def)
  have "served g' s = served g s" for s using sess by (cases "s = sid") (auto simp: served_def g'(1))
  then have srv: "served g' = served g" by (simp add: fun_eq_iff)
  have auth: "is_authenticated g' = is_authenticated g" by (simp add: is_authenticated_def fun_eq_iff f)
  have ten: "tenant_of g' = tenant_of g" by (simp add: tenant_of_def f)
  have live: "live_triples g' = live_triples g" by (simp add: live_triples_def srv auth f)
  show ?thesis
  proof (rule registries_invI)
    show "hub_inv (hub_view g')" using h by (simp add: hub_view_def g'(1) ten)
    show "fmlookup (h_sessions (gw_hub g')) s = Some (cn_subscriptions (gw_conns g' s))" if "served g' s" for s
      using that d(7) [of s] sess by (auto simp: g'(1) f srv)
    show "vouched e (ident_of (gw_conns g' s))" if "is_authenticated g' s" for s
      using that d(9) [of s] by (simp add: auth vouched_def g'(4))
    show "int (fcard (cn_subscriptions (gw_conns g' s))) \<le> conn_cap e" for s using cap d(8) [of s] by (simp add: f)
  qed (use d in \<open>simp_all add: g' srv ten live\<close>)
qed

lemma hub_subscribe_sessions:
  assumes "hub_subscribe ten h sid room = (Inr n, h')"
  shows "\<exists>rs. fmlookup (h_sessions h) sid = Some rs \<and> h_sessions h' = fmupd sid (finsert room rs) (h_sessions h)"
    and "ten sid \<noteq> ''''"
  using assms by (auto simp: hub_subscribe_def Let_def split: option.splits if_splits)

lemma hub_subscribe_refused: "hub_subscribe ten h sid room = (Inl err, h') \<Longrightarrow> h' = h \<and> (fmlookup (h_sessions h) sid = None \<or> ten sid = '''')"
  by (auto simp: hub_subscribe_def Let_def split: option.splits if_splits)

lemma mirror_core:
  assumes "mirror_subscribe e sid room g = Some g1"
  shows "gw_hub g1 = gw_hub g" "gw_presence g1 = gw_presence g" "gw_router g1 = gw_router g" "gw_up g1 = gw_up g"
    "ident_of (gw_conns g1 s) = (ident_of (gw_conns g s))\<lparr>id_rooms := if s = sid then finsert room (cn_subscriptions (gw_conns g sid)) else cn_subscriptions (gw_conns g s)\<rparr>"
    "tenant_of g1 = tenant_of g"
    "room |\<in>| cn_subscriptions (gw_conns g sid) \<or> int (fcard (cn_subscriptions (gw_conns g sid))) < cf_MaxSubscriptionsPerConn (ed_cfg e)"
    "conn.cn_subscriptions (gw_conns g1 sid) = finsert room (cn_subscriptions (gw_conns g sid))"
  using assms
  by (auto simp: mirror_subscribe_def Let_def ident_of_def tenant_of_def finsert_absorb fun_eq_iff split: if_splits)

lemma subscribe_cap:
  assumes "mirror_subscribe e sid room g = Some g1" and "int (fcard (cn_subscriptions (gw_conns g sid))) \<le> conn_cap e"
  shows "int (fcard (finsert room (cn_subscriptions (gw_conns g sid)))) \<le> conn_cap e"
  using mirror_core(7) [OF assms(1)] assms(2) by (auto simp: fcard_finsert_if conn_cap_def finsert_absorb)

lemma registries_inv_subscribe:
  assumes inv: "registries_inv e g" and auth: "is_authenticated g sid" and srv: "served g sid"
  shows "registries_inv e (handle_subscribe e sid room g)"
proof -
  note d = registries_invD [OF inv]
  have reg: "fmlookup (h_sessions (gw_hub g)) sid = Some (cn_subscriptions (gw_conns g sid))" by (rule d(7) [OF srv])
  show ?thesis
  proof (cases "is_room_name room")
    case False
    then show ?thesis using inv registries_inv_core [of "send_error sid c m g" g e for c m] by (simp add: handle_subscribe_def)
  next
    case True
    show ?thesis
    proof (cases "mirror_subscribe e sid room g")
      case None
      with True inv registries_inv_core [of "send_error sid c m g" g e for c m] show ?thesis by (simp add: handle_subscribe_def)
    next
      case (Some g1)
      note m = mirror_core [OF Some]
      obtain r h where s: "hub_subscribe (tenant_of g) (gw_hub g) sid room = (r, h)" by (rule prod.exhaust)
      from reg auth s obtain n where n: "r = Inr n" by (auto simp: hub_subscribe_def Let_def is_authenticated_tenant)
      note ss = hub_subscribe_sessions [OF s [unfolded n]]
      have "hub_inv ((hub_view g)\<lparr>y_hub := h\<rparr>)" using hub_inv_subscribe [OF d(1), of sid room] s by (simp add: hub_view_def)
      then have "registries_inv e (g1\<lparr>gw_hub := h\<rparr>)"
        by (rule registries_inv_rooms [OF inv _ _ _ subscribe_cap [OF Some d(8)], of h])
          (use ss reg srv m in \<open>simp_all add: served_def\<close>)
      then show ?thesis using registries_inv_core [of "enqueue_own sid f (g1\<lparr>gw_hub := h\<rparr>)" "g1\<lparr>gw_hub := h\<rparr>" e for f]
        by (simp add: handle_subscribe_def True Some s n m)
    qed
  qed
qed

lemma registries_inv_unsubscribe:
  assumes inv: "registries_inv e g" and srv: "served g sid"
  shows "registries_inv e (handle_unsubscribe sid room g)"
proof -
  note d = registries_invD [OF inv]
  have reg: "fmlookup (h_sessions (gw_hub g)) sid = Some (cn_subscriptions (gw_conns g sid))" by (rule d(7) [OF srv])
  let ?h = "hub_unsubscribe (tenant_of g) (gw_hub g) sid room" and ?S = "cn_subscriptions (gw_conns g sid) |-| {|room|}"
  have h: "hub_inv ((hub_view g)\<lparr>y_hub := ?h\<rparr>)" using hub_inv_unsubscribe [OF d(1), of sid room] by (simp add: hub_view_def)
  have "fcard ?S \<le> fcard (cn_subscriptions (gw_conns g sid))" by (rule fcard_mono) auto
  then have cap: "int (fcard ?S) \<le> conn_cap e" using d(8) [of sid] by linarith
  have "registries_inv e (mirror_unsubscribe sid room (g\<lparr>gw_hub := ?h\<rparr>))"
    by (rule registries_inv_rooms [OF inv h, where sid = sid, OF _ _ cap])
      (use reg srv in \<open>simp_all add: hub_unsubscribe_def mirror_unsubscribe_def ident_of_def\<close>)
  then show ?thesis
    using registries_inv_core [of "enqueue_own sid f g'" g' e for f g'] by (simp add: handle_unsubscribe_def)
qed

lemma registries_inv_router:
  assumes inv: "registries_inv e g" and "router_inv (tenant_of g) r"
  shows "registries_inv e (g\<lparr>gw_router := r\<rparr>)"
  using assms registries_invD [OF inv]
  by (auto simp: registries_inv_def router_inv_def hub_view_def served_def is_authenticated_def live_triples_def tenant_of_def)

lemma wiring_of_simps [simp]: "w_tenant (wiring_of e g now) = tenant_of g" "w_now (wiring_of e g now) = now"
  "w_engine (wiring_of e g now) = ed_engine e"
  by (simp_all add: wiring_of_def)

lemma registries_inv_signal:
  assumes "registries_inv e g" and "\<And>x. gen = Inr x \<Longrightarrow> reg_get (g_reg (ro_m (gw_router g))) x = None"
  shows "registries_inv e (g\<lparr>gw_router := handle_message (wiring_of e g now) (gw_router g) sid msg gen\<rparr>)"
  by (intro registries_inv_router [OF assms(1)] handle_message_inv registries_invD(10) [OF assms(1)] assms(2)) simp_all

lemma core_inv [intro]: "core g' = core g \<Longrightarrow> registries_inv e g \<Longrightarrow> registries_inv e g'"
  using registries_inv_core by blast

lemma served_core: "core g' = core g \<Longrightarrow> served g' sid = served g sid"
  using coreD(1) [of g' g] by (simp add: served_def)

lemma authenticated_core: "core g' = core g \<Longrightarrow> is_authenticated g' sid = is_authenticated g sid"
  using coreD(5) [of g' g] by (simp add: is_authenticated_def)

lemma bind_tenant_fresh:
  assumes "bind_tenant ten h sid t = (r, h')" and "ten sid = ''''"
  shows "r = Inr () \<or> h' = h"
  using assms by (auto simp: bind_tenant_def Let_def split: option.splits if_splits)

lemma registries_inv_handle_hello:
  assumes inv: "registries_inv e g"
  shows "registries_inv e (snd (handle_hello e sid token wsv now g))"
proof (cases "is_authenticated g sid")
  case True
  then show ?thesis using core_inv [OF core_simps(4) inv] by (simp add: handle_hello_def)
next
  case un: False
  show ?thesis
  proof (cases "verify (ed_hmac e) (ed_ul e) (ed_verifier e) token now")
    case (Inl err)
    then show ?thesis using un core_inv [OF _ inv] by (simp add: handle_hello_def)
  next
    case (Inr cl)
    obtain r h where b: "bind_tenant (tenant_of g) (gw_hub g) sid (cl_TenantID cl) = (r, h)" by (rule prod.exhaust)
    show ?thesis
    proof (cases r)
      case (Inl err)
      then have "h = gw_hub g" using bind_tenant_fresh [OF b] un by (auto simp: is_authenticated_tenant)
      then have "core (g\<lparr>gw_hub := h\<rparr>) = core g" by simp
      then show ?thesis using un Inr Inl b core_inv [OF _ inv] by (cases err) (simp_all add: handle_hello_def)
    next
      case (Inr u)
      have "registries_inv e (set_identity e sid cl now (g\<lparr>gw_hub := h\<rparr>))"
        by (rule registries_inv_hello [OF inv _ un]) (use b Inr \<open>verify _ _ _ _ _ = Inr cl\<close> in auto)
      moreover have "core (upd_conn sid (\<lambda>c. c\<lparr>cn_steerCapable := True\<rparr>) x) = core x" for x by (simp add: ident_of_def)
      ultimately show ?thesis using un Inr \<open>verify _ _ _ _ _ = Inr cl\<close> b
        by (auto simp: handle_hello_def Let_def intro!: core_inv [of _ "set_identity e sid cl now (g\<lparr>gw_hub := h\<rparr>)"])
    qed
  qed
qed

lemma registries_inv_dispatch:
  assumes inv: "registries_inv e g" and srv: "served g sid"
    and gen: "\<And>x. gen = Inr x \<Longrightarrow> reg_get (g_reg (ro_m (gw_router g))) x = None"
  shows "registries_inv e (snd (dispatch e sid msg now gen g))"
proof -
  have q: "registries_inv e (send_error sid c m g)" "registries_inv e (enqueue_own sid f g)" for c m f
    by (rule core_inv [OF _ inv], simp)+
  show ?thesis
  proof (cases "is_authenticated g sid")
    case False
    then show ?thesis using q registries_inv_handle_hello [OF inv] by (simp add: dispatch_def client_types)
  next
    case True
    with q registries_inv_handle_hello [OF inv] registries_inv_subscribe [OF inv True srv] registries_inv_unsubscribe [OF inv srv]
      registries_inv_signal [OF inv gen]
    show ?thesis by (simp add: dispatch_def)
  qed
qed

lemma registries_inv_read:
  assumes inv: "registries_inv e g" and srv: "served g sid"
    and gen: "\<And>x. gen = Inr x \<Longrightarrow> reg_get (g_reg (ro_m (gw_router g))) x = None"
  shows "registries_inv e (snd (read_round e sid inb now gen g))"
proof (cases inb)
  case (InText data)
  let ?g = "snd (allow_message sid now (tally message_read (touch sid now g)))"
  have c: "core ?g = core g" by simp
  have "registries_inv e ?g" by (rule core_inv [OF c inv])
  moreover have "served ?g sid" using srv served_core [OF c] by simp
  ultimately have d: "registries_inv e (snd (dispatch e sid msg now gen ?g))" for msg
    by (rule registries_inv_dispatch) (use gen coreD(3) [OF c] in simp)
  have q: "registries_inv e (send_error sid cc m (tally f ?g))" "registries_inv e (send_error sid cc m ?g)" for cc m f
    by (rule core_inv [OF _ inv], simp)+
  show ?thesis using d q by (simp add: InText read_round_def case_prod_unfold Let_def split: sum.split)
qed (use core_inv [OF _ inv] inv in \<open>simp_all add: read_round_def\<close>)

section \<open>Opening and closing\<close>

lemma leave_presence_simps [simp]:
  "gw_hub (leave_presence e sid now g) = gw_hub g" "ro_m (gw_router (leave_presence e sid now g)) = ro_m (gw_router g)"
  "gw_conns (leave_presence e sid now g) = gw_conns g" "gw_up (leave_presence e sid now g) = gw_up g"
  "ro_qs (gw_router (leave_presence e sid now g)) = ro_qs (gw_router g)"
  by (simp_all add: leave_presence_def Let_def case_prod_unfold)

lemma leave_presence_registry:
  "gw_presence (leave_presence e sid now g) =
     (if \<not> ed_presence e \<or> cn_tenantID (gw_conns g sid) = '''' \<or> cn_userID (gw_conns g sid) = '''' then gw_presence g
      else snd (snd (offline (gw_presence g) (cn_tenantID (gw_conns g sid)) (cn_userID (gw_conns g sid)) sid now)))"
  by (simp add: leave_presence_def Let_def case_prod_unfold)

lemma unregistered_sessions: "h_sessions (hub_unregister ten h ord sid) = fmdrop sid (h_sessions h)"
  by (rule fmap_ext) (auto simp: hub_unregister_def Let_def split: option.split)

definition leave_node :: "edge \<Rightarrow> string list \<Rightarrow> string \<Rightarrow> time \<Rightarrow> gateway \<Rightarrow> gateway" where
  "leave_node e ordr sid now g = td_unregister ordr sid (leave_presence e sid now g)"

lemma registries_inv_leave:
  assumes inv: "registries_inv e g" and ord: "fset_order ordr (fmget {||} (h_sessions (gw_hub g)) sid)"
  shows "registries_inv e (leave_node e ordr sid now g)" (is "registries_inv e ?g")
proof -
  note d = registries_invD [OF inv]
  have ten: "tenant_of (leave_presence e sid now g) = tenant_of g" by (simp add: tenant_of_def)
  have h: "gw_hub ?g = hub_unregister (tenant_of g) (gw_hub g) ordr sid" "gw_conns ?g = gw_conns g"
    "ro_m (gw_router ?g) = ro_m (gw_router g)" "gw_presence ?g = gw_presence (leave_presence e sid now g)" "tenant_of ?g = tenant_of g"
    by (simp_all add: leave_node_def td_unregister_def ten)
  have srv: "served ?g s \<longleftrightarrow> s \<noteq> sid \<and> served g s" for s by (simp add: served_def h(1) unregistered_sessions)
  have auth: "is_authenticated ?g = is_authenticated g" by (simp add: is_authenticated_def fun_eq_iff h(2))
  have user: "cn_userID (gw_conns g s) \<noteq> ''''" if "is_authenticated g s" for s
    using d(9) [OF that] by (auto simp: vouched_def ident_of_def dest: verified_ids(2))
  have live: "live_triples ?g = live_triples g - {(cn_tenantID (gw_conns g sid), cn_userID (gw_conns g sid), sid)}"
    by (auto simp: live_triples_def srv auth h(2))
  have hub: "hub_inv ((hub_view g)\<lparr>y_hub := gw_hub ?g\<rparr>)"
    using hub_inv_unregister [OF d(1), of sid ordr] ord by (simp add: hub_view_def h(1))
  show ?thesis
  proof (rule registries_invI)
    show "hub_inv (hub_view ?g)" using hub by (simp add: hub_view_def h(5))
    show "presence_inv (gw_presence ?g)" unfolding h(4) leave_presence_registry using presence_inv_offline [OF d(4)] d(4) by simp
    show "triples (gw_presence ?g) = live_triples ?g" if "ed_presence e"
    proof (cases "is_authenticated g sid")
      case True
      then show ?thesis using that d(5) [OF that] user [OF True] offline_triples [OF d(4)]
        by (simp add: live h(4) leave_presence_registry is_authenticated_def)
    next
      case False
      then have "live_triples ?g = live_triples g" unfolding live by (auto simp: live_triples_def)
      then show ?thesis using False that d(5) [OF that] by (simp add: h(4) leave_presence_registry is_authenticated_def)
    qed
    show "fmlookup (h_sessions (gw_hub ?g)) s = Some (cn_subscriptions (gw_conns ?g s))" if "served ?g s" for s
      using that d(7) [of s] by (simp add: srv h(1,2) unregistered_sessions)
  qed (use d in \<open>simp_all add: h srv auth\<close>)
qed

lemma registries_inv_signaler: "registries_inv e g \<Longrightarrow> registries_inv e (td_signaler e ords sid now g)"
  by (auto simp: td_signaler_def intro!: registries_inv_router conn_closed_inv registries_invD(10))

lemma registries_inv_serve_end:
  assumes "registries_inv e g" and "fset_order ordr (fmget {||} (h_sessions (gw_hub g)) sid)"
  shows "registries_inv e (serve_end e ords ordr sid now g)"
proof -
  have "gw_hub (td_signaler e ords sid now g) = gw_hub g" by (simp add: td_signaler_def)
  then have "registries_inv e (leave_node e ordr sid now (td_signaler e ords sid now g))"
    using registries_inv_leave [OF registries_inv_signaler [OF assms(1)]] assms(2) by simp
  then show ?thesis unfolding serve_end_def leave_node_def [symmetric] by (rule core_inv [OF core_simps(1)])
qed

lemma registries_inv_serve_abort:
  assumes "registries_inv e g" and "fset_order ordr (fmget {||} (h_sessions (gw_hub g)) sid)"
  shows "registries_inv e (serve_abort e ordr sid now g)"
proof -
  have "serve_abort e ordr sid now g = tally conn_closed (leave_node e ordr sid now g)"
    by (simp add: serve_abort_def leave_node_def td_unregister_def Let_def)
  then show ?thesis using core_inv [OF core_simps(1) registries_inv_leave [OF assms]] by simp
qed

text \<open>A connection that \<open>NewConnection\<close> just built, under an id nobody has had.\<close>

definition fresh_id :: "gateway \<Rightarrow> string \<Rightarrow> bool" where
  "fresh_id g sid \<longleftrightarrow> \<not> served g sid \<and> \<not> is_authenticated g sid \<and> sid \<noteq> ''''"

definition blank :: "conn \<Rightarrow> bool" where
  "blank c \<longleftrightarrow> ident_of c = \<lparr>id_tenant = '''', id_user = '''', id_role = '''', id_expiry = zero_time, id_rooms = {||}\<rparr>
     \<and> cn_wire c = [] \<and> cn_closed c = None \<and> \<not> cn_writerDone c"

lemma new_connection_blank:
  assumes "new_connection e rnd now = Inr (sid, c, q)"
  shows "blank c" "q_ch q = []" "queue_wf q" "cn_lastActivity c = now"
  using assms by (auto simp: new_connection_def blank_def ident_of_def queue_new_def queue_wf_def split: sum.splits)

lemma registries_inv_blank:
  assumes inv: "registries_inv e g" and fresh: "fresh_id g sid" and c: "blank c"
  shows "registries_inv e (upd_conn sid (\<lambda>_. c) g)" (is "registries_inv e ?g")
proof -
  note d = registries_invD [OF inv]
  have b: "cn_tenantID c = ''''" "cn_subscriptions c = {||}" using c by (simp_all add: blank_def ident_of_def)
  have t0: "cn_tenantID (gw_conns g sid) = ''''" using fresh by (simp add: fresh_id_def is_authenticated_def)
  have ten: "tenant_of ?g = tenant_of g" using b t0 by (simp add: tenant_of_upd fun_eq_iff) (simp add: tenant_of_def)
  have srv: "served ?g = served g" by (simp add: served_def fun_eq_iff)
  have auth: "is_authenticated ?g = is_authenticated g" using b t0 by (simp add: is_authenticated_def fun_eq_iff)
  have no: "\<not> served g sid" "\<not> is_authenticated g sid" using fresh by (simp_all add: fresh_id_def)
  have live: "live_triples ?g = live_triples g"
    unfolding live_triples_def srv auth using no by (intro Collect_cong ex_cong1) auto
  show ?thesis
  proof (rule registries_invI)
    show "fmlookup (h_sessions (gw_hub ?g)) s = Some (cn_subscriptions (gw_conns ?g s))" if "served ?g s" for s
      using that d(7) [of s] no by (auto simp: srv)
    show "vouched e (ident_of (gw_conns ?g s))" if "is_authenticated ?g s" for s
      using that d(9) [of s] no by (auto simp: auth)
    show "int (fcard (cn_subscriptions (gw_conns ?g s))) \<le> conn_cap e" for s using d(8) [of s] b by (simp add: conn_cap_def fcard.rep_eq)
  qed (use d in \<open>simp_all add: hub_view_def ten srv live\<close>)
qed

lemma registries_inv_register:
  assumes inv: "registries_inv e g" and fresh: "fresh_id g sid" and S: "cn_subscriptions (gw_conns g sid) = {||}"
  shows "registries_inv e (g\<lparr>gw_hub := hub_register (gw_hub g) sid\<rparr>)" (is "registries_inv e ?g")
proof -
  note d = registries_invD [OF inv]
  have no: "fmlookup (h_sessions (gw_hub g)) sid = None" "\<not> is_authenticated g sid" "tenant_of g sid = ''''" "sid \<noteq> ''''"
    using fresh by (simp_all add: fresh_id_def served_def is_authenticated_tenant)
  have srv: "served ?g s \<longleftrightarrow> s = sid \<or> served g s" for s by (simp add: served_def hub_register_def)
  have auth: "is_authenticated ?g = is_authenticated g" by (simp add: is_authenticated_def fun_eq_iff)
  have live: "live_triples ?g = live_triples g" using no by (auto simp: live_triples_def srv auth)
  have hub: "hub_inv ((hub_view g)\<lparr>y_hub := hub_register (gw_hub g) sid\<rparr>)"
    using hub_inv_register [OF d(1), of sid] no by (simp add: hub_view_def)
  show ?thesis
  proof (rule registries_invI)
    show "hub_inv (hub_view ?g)" using hub by (simp add: hub_view_def)
    show "fmlookup (h_sessions (gw_hub ?g)) s = Some (cn_subscriptions (gw_conns ?g s))" if "served ?g s" for s
      using that [unfolded srv] d(7) [of s] S by (auto simp: hub_register_def)
  qed (use d no in \<open>auto simp: srv auth live\<close>)
qed

lemma write_frame_frame [simp]:
  "gw_hub (snd (write_frame_now sid f ok g)) = gw_hub g" "gw_router (snd (write_frame_now sid f ok g)) = gw_router g"
  by (simp_all add: write_frame_now_def split: option.split)

lemma registries_inv_serve_start:
  assumes inv: "registries_inv e g" and fresh: "fresh_id g sid" and c: "blank c"
  shows "registries_inv e (snd (serve_start e sid c q ok now g))"
proof -
  let ?g1 = "upd_conn sid (\<lambda>_. c) g"
  let ?w = "write_frame_now sid (new_welcome sid (cf_AuthTimeout (ed_cfg e)) (cf_PingInterval (ed_cfg e)) now) ok
     (tally conn_opened (set_queue sid q ?g1))"
  have i1: "registries_inv e ?g1" by (rule registries_inv_blank [OF inv fresh c])
  have core: "core (snd ?w) = core ?g1" by simp
  have i2: "registries_inv e (snd ?w)" by (rule core_inv [OF core i1])
  have "\<not> is_authenticated ?g1 sid" using c by (simp add: is_authenticated_def blank_def ident_of_def)
  then have "\<not> is_authenticated (snd ?w) sid" using authenticated_core [OF core] by simp
  moreover have "\<not> served (snd ?w) sid" using fresh served_core [OF core, of sid] by (simp add: fresh_id_def served_def)
  ultimately have f: "fresh_id (snd ?w) sid" using fresh by (simp add: fresh_id_def)
  have "cn_subscriptions (gw_conns (snd ?w) sid) = {||}"
    using coreD(4) [OF core, of sid] c by (simp add: blank_def ident_of_def)
  from registries_inv_register [OF i2 f this] i2 show ?thesis
    by (auto simp: serve_start_def Let_def case_prod_unfold intro: core_inv)
qed

end
