(* ===== verification/Gw_Connection_Run.thy ===== *)
theory Gw_Connection_Run
  imports Gw_Connection_Inv
begin

text \<open>
  Every interleaving of the node's goroutines as one step relation: connections opening, reading,
  writing, ticking and ending, the reaper, the publishes of the ingest side and the engine monitor's
  verdict. Its invariant adds to the registries' one that a connection without an identity has queued
  and been sent nothing but a welcome, errors, pongs and control frames.
\<close>

section \<open>Steps\<close>

definition deliver :: "string list \<Rightarrow> string \<Rightarrow> string \<Rightarrow> frame \<Rightarrow> gateway \<Rightarrow> (nat \<times> nat) \<times> gateway" where
  "deliver ord tenantID room f g =
     (let (stats, qs) = hub_publish (gw_hub g) ord tenantID room f (ro_qs (gw_router g))
      in (stats, g\<lparr>gw_router := (gw_router g)\<lparr>ro_qs := qs\<rparr>\<rparr>))"

text \<open>
  A session id is a fresh UUID. The reader acts between the registration and the deferred calls; the
  deferred calls start once the session has been closed. Loop orders are arbitrary.
\<close>

inductive gw_step :: "edge \<Rightarrow> gateway \<Rightarrow> gateway \<Rightarrow> bool" for e :: edge where
  gs_open: "new_connection e rnd now = Inr (sid, c, q) \<Longrightarrow> fresh_id g sid \<Longrightarrow> serve_start e sid c q ok now g = (True, g') \<Longrightarrow>
     gw_step e g g'"
| gs_refused: "new_connection e rnd now = Inr (sid, c, q) \<Longrightarrow> fresh_id g sid \<Longrightarrow> serve_start e sid c q ok now g = (False, g') \<Longrightarrow>
     fset_order ordr (fmget {||} (h_sessions (gw_hub g')) sid) \<Longrightarrow> gw_step e g (serve_abort e ordr sid now' g')"
| gs_read: "served g sid \<Longrightarrow> (\<And>x. gen = Inr x \<Longrightarrow> reg_get (g_reg (ro_m (gw_router g))) x = None) \<Longrightarrow>
     gw_step e g (snd (read_round e sid inb now gen g))"
| gs_pong: "served g sid \<Longrightarrow> gw_step e g (pong_handler e sid now g)"
| gs_tick: "served g sid \<Longrightarrow> gw_step e g (snd (ping_once e sid ok now g))"
| gs_take: "\<not> cn_writerDone (gw_conns g sid) \<Longrightarrow> gw_step e g (writer_take sid ok now g)"
| gs_drain: "\<not> cn_writerDone (gw_conns g sid) \<Longrightarrow> cn_closed (gw_conns g sid) \<noteq> None \<Longrightarrow> gw_step e g (writer_drain sid ok g)"
| gs_close: "served g sid \<Longrightarrow> gw_step e g (request_close sid code reason now g)"
| gs_end: "served g sid \<Longrightarrow> cn_closed (gw_conns g sid) \<noteq> None \<Longrightarrow> range_order ords (ro_engineSessions (gw_router g)) \<Longrightarrow>
     fset_order ordr (fmget {||} (h_sessions (gw_hub g)) sid) \<Longrightarrow> gw_step e g (serve_end e ords ordr sid now g)"
| gs_reap: "range_order ord (r_byID (g_reg (ro_m (gw_router g)))) \<Longrightarrow>
     gw_step e g (g\<lparr>gw_router := router_reap (wiring_of e g now) (gw_router g) ord\<rparr>)"
| gs_publish: "fset_order ord (peers_of (h_rooms (gw_hub g)) (tenantID, room)) \<Longrightarrow>
     gw_step e g (snd (deliver ord tenantID room (new_delivery room kind eventID payload now) g))"
| gs_monitor: "gw_step e g (g\<lparr>gw_up := b\<rparr>)"

inductive_cases gw_stepE: "gw_step e g g'"

definition gw_initial :: "edge \<Rightarrow> gateway \<Rightarrow> bool" where
  "gw_initial e g \<longleftrightarrow>
     gw_hub g = hub_new (cf_MaxConnsPerTenant (ed_cfg e)) \<and> gw_presence g = on_change presence_new 0
     \<and> gw_router g = new_router (new_manager (cf_SignalingMaxSessionsPerTenant (ed_cfg e)) (cf_SignalingPendingTimeout (ed_cfg e)))
         (ro_reg (gw_router g)) (\<lambda>sid. queue_new (cf_OutgoingBuffer (ed_cfg e)) DropNewest)
     \<and> (\<forall>sid. blank (gw_conns g sid))"

section \<open>Silence before authentication\<close>

definition mute :: "frame \<Rightarrow> bool" where
  "mute f \<longleftrightarrow> (case f of FError code m \<Rightarrow> True | FPong t \<Rightarrow> True | _ \<Rightarrow> False)"

definition mute_wire :: "wire \<Rightarrow> bool" where
  "mute_wire x \<longleftrightarrow> (case x of WText data \<Rightarrow> (\<exists>f. frame_marshal f = Some data \<and> (mute f \<or> (\<exists>a b c d t. f = FWelcome a b c d t)))
     | WPing s \<Rightarrow> True | WClose code reason \<Rightarrow> True)"

lemma mute_simps [simp]: "mute (FError code m)" "mute (FPong t)" "mute_wire (WPing s)" "mute_wire (WClose cc reason)"
  by (simp_all add: mute_def mute_wire_def)

lemma mute_new [simp]: "mute (new_error code m)" "mute (new_pong t)"
  by (simp_all add: new_error_def new_pong_def)

definition outlet :: "gateway \<Rightarrow> string \<Rightarrow> string \<times> frame list \<times> wire list" where
  "outlet g sid = (cn_tenantID (gw_conns g sid), q_ch (ro_qs (gw_router g) sid), cn_wire (gw_conns g sid))"

definition quiet :: "string \<times> frame list \<times> wire list \<Rightarrow> bool" where
  "quiet z \<longleftrightarrow> (case z of (t, fs, ws) \<Rightarrow> t \<noteq> '''' \<or> list_all mute fs \<and> list_all mute_wire ws)"

definition silent :: "gateway \<Rightarrow> bool" where
  "silent g \<longleftrightarrow> (\<forall>sid. quiet (outlet g sid))"

lemma silent_cong: "outlet g' = outlet g \<Longrightarrow> silent g' = silent g"
  by (simp add: silent_def)

lemma silent_at:
  assumes "silent g" and "\<And>s. s \<noteq> sid \<Longrightarrow> outlet g' s = outlet g s" and "quiet (outlet g' sid)"
  shows "silent g'"
  using assms unfolding silent_def by metis

lemma quiet_enqueue:
  assumes "quiet (t, q_ch q, ws)" and "t \<noteq> '''' \<or> mute f"
  shows "quiet (t, q_ch (snd (enqueue q f)), ws)"
  using assms by (auto simp: quiet_def enqueue_def try_enqueue_def Let_def case_prod_unfold)

lemma outlet_simps [simp]:
  "outlet (tally f g) = outlet g" "outlet (touch sid now g) = outlet g" "outlet (set_read_deadline sid t g) = outlet g"
  "outlet (initiate_close sid cc reason now g) = outlet g" "outlet (request_close sid cc reason now g) = outlet g"
  "outlet (writer_done sid g) = outlet g" "outlet (snd (allow_message sid now g)) = outlet g"
  "outlet (pong_handler e sid now g) = outlet g" "outlet (g\<lparr>gw_up := b\<rparr>) = outlet g" "outlet (g\<lparr>gw_hub := h\<rparr>) = outlet g"
  "outlet (g\<lparr>gw_presence := p\<rparr>) = outlet g" "outlet (mirror_unsubscribe sid room g) = outlet g"
  "outlet (upd_conn sid (\<lambda>c. c\<lparr>cn_steerCapable := b2\<rparr>) g) = outlet g" "outlet (leave_presence e sid now g) = outlet g"
  by (auto simp: outlet_def fun_eq_iff touch_def set_read_deadline_def initiate_close_def request_close_def writer_done_def
      allow_message_def pong_handler_def mirror_unsubscribe_def case_prod_unfold Let_def)

lemma outlet_mirror: "mirror_subscribe e sid room g = Some g1 \<Longrightarrow> outlet g1 = outlet g"
  by (auto simp: mirror_subscribe_def Let_def outlet_def fun_eq_iff split: if_splits)

lemma silent_enqueue:
  assumes "silent g" and "is_authenticated g sid \<or> mute f"
  shows "silent (enqueue_own sid f g)"
proof (rule silent_at [OF assms(1), of sid])
  have "quiet (outlet g sid)" using assms(1) by (simp add: silent_def)
  then show "quiet (outlet (enqueue_own sid f g) sid)"
    using quiet_enqueue assms(2) by (simp add: outlet_def is_authenticated_def)
qed (simp add: outlet_def)

lemma silent_send_error: "silent g \<Longrightarrow> silent (send_error sid code m g)"
  by (simp add: send_error_own silent_enqueue)

lemma silent_write:
  assumes "silent g" and q: "queue_recv (ro_qs (gw_router g) sid) = Some (f, q)"
  shows "silent (snd (write_frame_now sid f ok (set_queue sid q g)))"
proof (rule silent_at [OF assms(1), of sid])
  have ch: "q_ch (ro_qs (gw_router g) sid) = f # q_ch q" using q by (auto simp: queue_recv_def split: list.splits)
  have "quiet (outlet g sid)" using assms(1) by (simp add: silent_def)
  then show "quiet (outlet (snd (write_frame_now sid f ok (set_queue sid q g))) sid)"
    by (auto simp: outlet_def quiet_def ch write_frame_now_def mute_wire_def split: option.split)
qed (simp_all add: outlet_def write_frame_now_def split: option.split)

lemma silent_writer:
  assumes "silent g"
  shows "silent (writer_take sid ok now g)" "silent (writer_drain sid ok g)"
proof -
  have w: "silent (snd (write_frame_now sid f ok (set_queue sid q g)))" if "queue_recv (ro_qs (gw_router g) sid) = Some (f, q)" for f q
    by (rule silent_write [OF assms that])
  show "silent (writer_take sid ok now g)"
    using w assms by (auto simp: writer_take_def case_prod_unfold Let_def silent_cong [of "writer_done _ _"]
        silent_cong [of "initiate_close _ _ _ _ _"] split: option.split)
  have "silent (upd_conn sid (\<lambda>c. c\<lparr>cn_wire := cn_wire c @ [WClose code reason]\<rparr>) g)" for code reason
    using assms by (auto intro!: silent_at [OF assms, of sid] simp: outlet_def quiet_def silent_def)
  then show "silent (writer_drain sid ok g)"
    using w assms by (auto simp: writer_drain_def case_prod_unfold Let_def silent_cong [of "writer_done _ _"] split: option.split)
qed

lemma silent_ping: "silent g \<Longrightarrow> silent (snd (ping_once e sid ok now g))"
proof -
  assume a: "silent g"
  have "silent (upd_conn sid (\<lambda>c. c\<lparr>cn_wire := cn_wire c @ [WPing sid]\<rparr>) g)"
    using a by (auto intro!: silent_at [OF a, of sid] simp: outlet_def quiet_def silent_def)
  then show ?thesis using a
    by (auto simp: ping_once_def Let_def silent_cong [of "initiate_close _ _ _ _ _"] silent_enqueue)
qed

section \<open>Who the router and the hub can reach\<close>

text \<open>A seat or a room membership is only ever held by an authenticated connection.\<close>

lemma seat_authenticated:
  assumes "seated (tenant_of g) m" and "has_seat m t sid d"
  shows "is_authenticated g d"
proof -
  from assms(2) obtain s where "reg_get (g_reg m) sid = Some s" "d \<in> conns_of s" by (auto simp: has_seat_def)
  then show ?thesis using seatedD [OF assms(1)] seated_nonempty [OF assms(1)] by (metis is_authenticated_tenant)
qed

lemma silent_router:
  assumes "silent g" and "\<And>s. \<not> is_authenticated g s \<Longrightarrow> ro_qs r s = ro_qs (gw_router g) s"
  shows "silent (g\<lparr>gw_router := r\<rparr>)"
proof -
  have "quiet (outlet (g\<lparr>gw_router := r\<rparr>) s)" for s
  proof (cases "is_authenticated g s")
    case True
    then show ?thesis by (simp add: outlet_def quiet_def is_authenticated_def)
  next
    case False
    with assms(2) have "outlet (g\<lparr>gw_router := r\<rparr>) s = outlet g s" by (simp add: outlet_def)
    with assms(1) show ?thesis by (simp add: silent_def)
  qed
  then show ?thesis by (simp add: silent_def)
qed

lemma silent_signal:
  assumes inv: "registries_inv e g" and "silent g" and auth: "is_authenticated g sid"
  shows "silent (g\<lparr>gw_router := handle_message (wiring_of e g now) (gw_router g) sid msg gen\<rparr>)"
proof (rule silent_router [OF assms(2)])
  note d = registries_invD [OF inv]
  fix s assume s: "\<not> is_authenticated g s"
  then have "s \<noteq> sid" and "\<not> has_seat (ro_m (gw_router g)) t x s" for t x
    using auth seat_authenticated [OF d(3)] by blast+
  then show "ro_qs (handle_message (wiring_of e g now) (gw_router g) sid msg gen) s = ro_qs (gw_router g) s"
    by (intro handle_message_frame [OF d(10)]) (simp_all add: reaches_def)
qed

lemma conn_dropped_recipients:
  assumes "ev \<in> set (fst (conn_dropped m c now))"
  shows "\<exists>t sid. has_seat m t sid (ev_Recipient ev)"
proof -
  from assms obtain sid s mb where "reg_get (g_reg m) sid = Some s" "mb \<in> set (s_members s)" "ev_Recipient ev = m_ConnID mb"
    by (auto simp: conn_dropped_def case_prod_unfold Let_def fst_end_locked mk_event_def split: option.splits)
  then show ?thesis by (auto simp: has_seat_def conns_of_def)
qed

lemma mgr_reap_recipients:
  assumes "mgr_inv m" and "ev \<in> set (fst (mgr_reap m ord now))"
  shows "\<exists>t sid. has_seat m t sid (ev_Recipient ev)"
proof -
  from assms(2) obtain s mb where "s \<in> set (expired_sessions m ord now)" and mb: "mb \<in> set (s_members s)" "ev_Recipient ev = m_ConnID mb"
    by (auto simp: mgr_reap_def end_all_events mk_event_def)
  then obtain sid where "reg_get (g_reg m) sid = Some s" by (auto simp: expired_sessions_def set_map_filter)
  then show ?thesis using mb by (auto simp: has_seat_def conns_of_def)
qed

lemma silent_td_signaler:
  assumes inv: "registries_inv e g" and "silent g"
  shows "silent (td_signaler e ords sid now g)"
proof (cases "ed_signaling e")
  case True
  have "ro_qs (router_conn_closed (wiring_of e g now) (gw_router g) ords sid) s = ro_qs (gw_router g) s" if "\<not> is_authenticated g s" for s
  proof -
    have "s \<notin> ev_Recipient ` set (fst (conn_dropped (ro_m (gw_router g)) sid now))"
      using that conn_dropped_recipients seat_authenticated [OF registries_invD(3) [OF inv]] by blast
    then show ?thesis by (simp add: router_conn_closed_def case_prod_unfold Let_def emit_frame)
  qed
  from silent_router [OF assms(2) this] True show ?thesis by (simp add: td_signaler_def)
qed (use assms(2) in \<open>simp add: td_signaler_def\<close>)

lemma silent_reap:
  assumes inv: "registries_inv e g" and "silent g"
  shows "silent (g\<lparr>gw_router := router_reap (wiring_of e g now) (gw_router g) ord\<rparr>)"
proof (rule silent_router [OF assms(2)])
  note d = registries_invD [OF inv]
  fix s assume "\<not> is_authenticated g s"
  then have "s \<notin> ev_Recipient ` set (fst (mgr_reap (ro_m (gw_router g)) ord now))"
    using mgr_reap_recipients [OF d(2)] seat_authenticated [OF d(3)] by blast
  then show "ro_qs (router_reap (wiring_of e g now) (gw_router g) ord) s = ro_qs (gw_router g) s"
    by (simp add: router_reap_def case_prod_unfold Let_def emit_frame)
qed

lemma room_member_authenticated:
  assumes "registries_inv e g" and "s |\<in>| peers_of (h_rooms (gw_hub g)) (t, r)"
  shows "is_authenticated g s" "t \<noteq> ''''" "tenant_of g s = t"
  using gfan.room_peers_iff [of "hub_view g" s t r] assms(2) registries_invD(1) [OF assms(1)]
  by (auto simp: hub_view_def is_authenticated_tenant)

lemma deliver_simps [simp]:
  "gw_conns (snd (deliver ord t room f g)) = gw_conns g" "core (snd (deliver ord t room f g)) = core g"
  by (simp_all add: deliver_def case_prod_unfold Let_def core_def)

lemma silent_deliver:
  assumes inv: "registries_inv e g" and "silent g" and ord: "fset_order ord (peers_of (h_rooms (gw_hub g)) (t, room))"
  shows "silent (snd (deliver ord t room f g))"
proof -
  have "snd (hub_publish (gw_hub g) ord t room f (ro_qs (gw_router g))) s = ro_qs (gw_router g) s" if "\<not> is_authenticated g s" for s
  proof -
    have "s \<notin> set ord" using that room_member_authenticated(1) [OF inv] ord by (auto simp: fset_order_def)
    then have "s \<notin> set (publish_targets (gw_hub g) ord t room)" by (simp add: publish_targets_def)
    then show ?thesis by (simp add: hub_publish_def Let_def offer_all_frame)
  qed
  from silent_router [OF assms(2), of "(gw_router g)\<lparr>ro_qs := snd (hub_publish (gw_hub g) ord t room f (ro_qs (gw_router g)))\<rparr>"] this
  show ?thesis by (simp add: deliver_def case_prod_unfold Let_def)
qed

section \<open>Handlers\<close>

lemma set_identity_frame [simp]:
  "ro_qs (gw_router (set_identity e sid cl now g)) = ro_qs (gw_router g)"
  "cn_wire (gw_conns (set_identity e sid cl now g) s) = cn_wire (gw_conns g s)"
  "cn_tenantID (gw_conns (set_identity e sid cl now g) s) = (if s = sid then cl_TenantID cl else cn_tenantID (gw_conns g s))"
  "gw_hub (set_identity e sid cl now g) = gw_hub g"
  by (simp_all add: set_identity_def case_prod_unfold Let_def)

lemma silent_set_identity:
  assumes "silent g" and "cl_TenantID cl \<noteq> ''''"
  shows "silent (set_identity e sid cl now g)"
  by (rule silent_at [OF assms(1), of sid]) (use assms(2) in \<open>simp_all add: outlet_def quiet_def\<close>)

lemmas silent_same = silent_cong [OF outlet_simps(1)] silent_cong [OF outlet_simps(2)] silent_cong [OF outlet_simps(3)]
  silent_cong [OF outlet_simps(4)] silent_cong [OF outlet_simps(7)] silent_cong [OF outlet_simps(8)] silent_cong [OF outlet_simps(9)]
  silent_cong [OF outlet_simps(10)] silent_cong [OF outlet_simps(12)] silent_cong [OF outlet_simps(13)] silent_cong [OF outlet_simps(14)]

lemma silent_hello:
  assumes "silent g"
  shows "silent (snd (handle_hello e sid token wsv now g))"
proof (cases "verify (ed_hmac e) (ed_ul e) (ed_verifier e) token now")
  case (Inl err)
  then show ?thesis using assms by (simp add: handle_hello_def silent_same silent_enqueue silent_send_error)
next
  case (Inr cl)
  have t: "cl_TenantID cl \<noteq> ''''" by (rule verified_ids(1) [OF Inr])
  have a: "is_authenticated (if 2 \<le> wsv then upd_conn sid (\<lambda>c. c\<lparr>cn_steerCapable := True\<rparr>) (set_identity e sid cl now x)
      else set_identity e sid cl now x) sid" for x
    using t by (simp add: is_authenticated_def)
  have s: "silent (set_identity e sid cl now (g\<lparr>gw_hub := h\<rparr>))" for h
    by (rule silent_set_identity [OF _ t]) (simp add: silent_same assms)
  show ?thesis using assms Inr a s
    by (auto simp: handle_hello_def Let_def silent_same silent_send_error intro!: silent_enqueue split: prod.split sum.split hub_error.split)
qed

lemma silent_subscribe:
  assumes "silent g" and "is_authenticated g sid"
  shows "silent (handle_subscribe e sid room g)" "silent (handle_unsubscribe sid room g)"
proof -
  have m: "silent g1 \<and> is_authenticated g1 sid" if "mirror_subscribe e sid room g = Some g1" for g1
    using silent_cong [OF outlet_mirror [OF that]] assms arg_cong [OF fun_cong [OF outlet_mirror [OF that], of sid], of fst]
    by (simp add: outlet_def is_authenticated_def)
  have a: "is_authenticated (x\<lparr>gw_hub := h\<rparr>) sid = is_authenticated x sid" for x h by (simp add: is_authenticated_def)
  show "silent (handle_subscribe e sid room g)"
    using assms m by (auto simp: handle_subscribe_def silent_same silent_send_error a intro!: silent_enqueue
        split: option.split prod.split sum.split)
  have "is_authenticated (mirror_unsubscribe sid room (g\<lparr>gw_hub := h\<rparr>)) sid" for h
    using assms(2) by (simp add: is_authenticated_def mirror_unsubscribe_def)
  then show "silent (handle_unsubscribe sid room g)"
    using assms(1) by (simp add: handle_unsubscribe_def silent_enqueue silent_same)
qed

lemma silent_dispatch:
  assumes "registries_inv e g" and "silent g"
  shows "silent (snd (dispatch e sid msg now gen g))"
proof (cases "is_authenticated g sid")
  case True
  then show ?thesis using assms silent_signal [OF assms(1,2) True] silent_hello [OF assms(2)] silent_subscribe [OF assms(2) True]
    by (simp add: dispatch_def silent_send_error silent_enqueue)
next
  case False
  then show ?thesis using assms(2) silent_hello [OF assms(2)]
    by (simp add: dispatch_def silent_send_error silent_enqueue client_types)
qed

lemma silent_read:
  assumes inv: "registries_inv e g" and sil: "silent g"
  shows "silent (snd (read_round e sid inb now gen g))"
proof (cases inb)
  case (InText data)
  let ?g = "snd (allow_message sid now (tally message_read (touch sid now g)))"
  have "registries_inv e ?g" by (rule core_inv [OF _ inv]) simp
  moreover have "silent ?g" using sil by (simp add: silent_same)
  ultimately show ?thesis using silent_dispatch
    by (simp add: InText read_round_def case_prod_unfold Let_def silent_send_error silent_same split: sum.split)
qed (use sil in \<open>simp_all add: read_round_def silent_send_error silent_same\<close>)

lemma new_welcome_wire: "frame_marshal (new_welcome a b c d) = Some data \<Longrightarrow> mute_wire (WText data)"
  by (simp add: mute_wire_def new_welcome_def) blast

lemma silent_serve_start:
  assumes "silent g" and "blank c" and "q_ch q = []"
  shows "silent (snd (serve_start e sid c q ok now g))"
proof (rule silent_at [OF assms(1), of sid])
  have "cn_wire c = []" using assms(2) by (simp add: blank_def)
  then show "quiet (outlet (snd (serve_start e sid c q ok now g)) sid)"
    using assms(3) by (auto simp: serve_start_def Let_def case_prod_unfold write_frame_now_def outlet_def quiet_def set_read_deadline_def
        dest: new_welcome_wire split: option.split)
qed (simp add: serve_start_def Let_def case_prod_unfold write_frame_now_def outlet_def set_read_deadline_def split: option.split)

lemma silent_serve_end:
  assumes "registries_inv e g" and "silent g"
  shows "silent (serve_end e ords ordr sid now g)"
  using silent_td_signaler [OF assms] by (simp add: serve_end_def td_unregister_def silent_same)

section \<open>The node's invariant\<close>

definition gw_inv :: "edge \<Rightarrow> gateway \<Rightarrow> bool" where
  "gw_inv e g \<longleftrightarrow> registries_inv e g \<and> silent g"

lemma gw_inv_initial:
  assumes "gw_initial e g"
  shows "gw_inv e g"
proof -
  let ?m = "new_manager (cf_SignalingMaxSessionsPerTenant (ed_cfg e)) (cf_SignalingPendingTimeout (ed_cfg e))"
  let ?q = "queue_new (cf_OutgoingBuffer (ed_cfg e)) DropNewest"
  have hub: "gw_hub g = hub_new (cf_MaxConnsPerTenant (ed_cfg e))" and pres: "gw_presence g = on_change presence_new 0"
    and rt: "gw_router g = new_router ?m (ro_reg (gw_router g)) (\<lambda>sid. ?q)" and bl: "\<And>sid. blank (gw_conns g sid)"
    using assms unfolding gw_initial_def by blast+
  have rm: "ro_m (gw_router g) = ?m" "ro_qs (gw_router g) = (\<lambda>sid. ?q)"
    using arg_cong [OF rt, of ro_m] arg_cong [OF rt, of ro_qs] unfolding new_router_def router.select_convs by blast+
  have b: "cn_tenantID (gw_conns g sid) = ''''" "cn_subscriptions (gw_conns g sid) = {||}" "cn_wire (gw_conns g sid) = []" for sid
    using bl [of sid] by (auto simp: blank_def ident_of_def)
  have ten: "tenant_of g = (\<lambda>sid. '''')" by (simp add: tenant_of_def b)
  have srv: "\<not> served g sid" and auth: "\<not> is_authenticated g sid" for sid
    by (simp_all add: served_def hub hub_new_def is_authenticated_def b)
  have "mgr_initial ?m" by (simp add: mgr_initial_def new_manager_def)
  moreover have "gw_router g = new_router (ro_m (gw_router g)) (ro_reg (gw_router g)) (ro_qs (gw_router g))"
    unfolding rm by (rule rt)
  ultimately have "router_initial (gw_router g)" unfolding router_initial_def rm(1) by blast
  from router_initial_inv [OF this] have r: "router_inv (tenant_of g) (gw_router g)" .
  have "registries_inv e g"
  proof (rule registries_invI)
    show "hub_inv (hub_view g)"
      by (intro hub_inv_initial) (simp add: hub hub_initial_def hub_view_def ten hub_new_def)
    have "presence_inv presence_new" by (rule reachability.inv_init) simp
    then show "presence_inv (gw_presence g)" by (simp add: pres presence_inv_def on_change_def)
    show "triples (gw_presence g) = live_triples g"
      by (auto simp: pres live_triples_def srv triples_def on_change_def presence_new_def user_sessions_def users_of_def)
  qed (use r in \<open>simp_all add: router_inv_def srv auth b conn_cap_def fcard.rep_eq\<close>)
  moreover have "silent g" by (simp add: rm silent_def outlet_def quiet_def b queue_new_def)
  ultimately show ?thesis by (simp add: gw_inv_def)
qed

lemma gw_step_inv:
  assumes "gw_step e g g'" and inv: "gw_inv e g"
  shows "gw_inv e g'"
proof -
  from inv have r: "registries_inv e g" and s: "silent g" by (simp_all add: gw_inv_def)
  have cor: "registries_inv e x" if "core x = core g" for x using core_inv [OF that r] .
  show ?thesis
    using assms(1)
  proof cases
    case (gs_open rnd now sid c q ok)
    note nb = new_connection_blank [OF gs_open(1)]
    show ?thesis using registries_inv_serve_start [OF r gs_open(2) nb(1), of q ok now] silent_serve_start [OF s nb(1,2), of e sid ok now] gs_open(3)
      by (simp add: gw_inv_def)
  next
    case (gs_refused rnd now sid c q ok g1 ordr now')
    note nb = new_connection_blank [OF gs_refused(2)]
    have "registries_inv e g1" "silent g1"
      using registries_inv_serve_start [OF r gs_refused(3) nb(1), of q ok now] silent_serve_start [OF s nb(1,2), of e sid ok now] gs_refused(4)
      by simp_all
    then show ?thesis using registries_inv_serve_abort [OF _ gs_refused(5)] gs_refused(1)
      by (simp add: gw_inv_def serve_abort_def Let_def silent_same)
  next
    case (gs_read sid gen inb now)
    then show ?thesis using registries_inv_read [OF r] silent_read [OF r s] by (simp add: gw_inv_def)
  next
    case (gs_end sid ords ordr now)
    then show ?thesis using registries_inv_serve_end [OF r] silent_serve_end [OF r s] by (simp add: gw_inv_def)
  next
    case (gs_reap ord now)
    then show ?thesis using registries_inv_router [OF r reap_inv [OF registries_invD(10) [OF r]]] silent_reap [OF r s] by (simp add: gw_inv_def)
  next
    case (gs_publish ord tenantID room kind eventID payload now)
    then show ?thesis using cor silent_deliver [OF r s] by (simp add: gw_inv_def)
  qed (use cor s silent_writer [OF s] silent_ping [OF s] in \<open>simp_all add: gw_inv_def silent_same silent_cong [OF outlet_simps(5)]\<close>)
qed

interpretation node: invariant_system "gw_initial e" "gw_step e" "gw_inv e"
  by unfold_locales (auto intro: gw_inv_initial gw_step_inv)

end
