(* ===== verification/Gw_Connection_Spec.thy ===== *)
theory Gw_Connection_Spec
  imports Gw_Connection_Run
begin

text \<open>
  What the WebSocket layer promises: who a connection is and that it stays so, what a stranger can see
  and change, how a session ends, and what its two deadlines really bound.
\<close>

section \<open>A connection that was just opened\<close>

lemma write_ok [simp]: "fst (write_frame_now sid f True g)"
  by (simp add: write_frame_now_def split: option.split)

lemma serve_start_opened:
  shows "fst (serve_start e sid c q True now g)" "served (snd (serve_start e sid c q True now g)) s \<longleftrightarrow> s = sid \<or> served g s"
    "ident_of (gw_conns (snd (serve_start e sid c q True now g)) s) = ident_of (if s = sid then c else gw_conns g s)"
    "cn_closed (gw_conns (snd (serve_start e sid c q True now g)) sid) = cn_closed c" "cn_limiter (gw_conns (snd (serve_start e sid c q True now g)) sid) = cn_limiter c"
    "cn_readDeadline (gw_conns (snd (serve_start e sid c q True now g)) sid) = time_add now (cf_AuthTimeout (ed_cfg e))"
    "gw_hub (snd (serve_start e sid c q True now g)) = hub_register (gw_hub g) sid"
    "ro_qs (gw_router (snd (serve_start e sid c q True now g))) sid = q"
  by (auto simp: serve_start_def Let_def case_prod_unfold served_def hub_register_def set_read_deadline_def write_frame_now_def
      ident_of_def split: option.split)

definition demo_edge :: edge where
  "demo_edge =
     \<lparr>ed_cfg = (read_config (\<lambda>s. s) (\<lambda>k. ''''))\<lparr>cf_IngestSecret := ''s''\<rparr>, ed_verifier = demo_verifier, ed_hmac = (\<lambda>k m. k @ rev m), ed_ul = (\<lambda>s. s),
      ed_signaling = True, ed_presence = True, ed_engine = None, ed_num = (\<lambda>t. Some t)\<rparr>"

definition demo_sid :: string where
  "demo_sid = format_uuid (uuid_stamp (replicate 16 0))"

definition demo_now :: time where "demo_now = 1700000100 * second"

definition demo_conn :: conn where
  "demo_conn =
     \<lparr>cn_limiter = limiter_new \<lparr>pol_RatePerSecond = 20, pol_Burst = 40\<rparr> demo_now, cn_tenantID = '''', cn_userID = '''', cn_role = '''',
      cn_tokenExpiry = zero_time, cn_subscriptions = {||}, cn_steerCapable = False, cn_lastActivity = demo_now, cn_closed = None,
      cn_writerDone = False, cn_readDeadline = zero_time, cn_wire = []\<rparr>"

definition demo_g0 :: gateway where
  "demo_g0 =
     \<lparr>gw_hub = hub_new (cf_MaxConnsPerTenant (ed_cfg demo_edge)), gw_presence = on_change presence_new 0,
      gw_router = new_router (new_manager (cf_SignalingMaxSessionsPerTenant (ed_cfg demo_edge)) (cf_SignalingPendingTimeout (ed_cfg demo_edge)))
        (metrics_new demo_now) (\<lambda>sid. queue_new (cf_OutgoingBuffer (ed_cfg demo_edge)) DropNewest),
      gw_up = False, gw_conns = (\<lambda>sid. demo_conn)\<rparr>"

definition demo_g1 :: gateway where
  "demo_g1 = snd (serve_start demo_edge demo_sid demo_conn (queue_new (cf_OutgoingBuffer (ed_cfg demo_edge)) DropNewest) True demo_now demo_g0)"

lemma env_unset: "env_parsed p (\<lambda>k. '''') key d = d" "env_str (\<lambda>k. '''') key d2 = d2"
  by (simp_all add: env_parsed_def env_str_def)

lemma demo_cfg:
  "cf_MessageRatePerSecond (ed_cfg demo_edge) = 20" "cf_MessageBurst (ed_cfg demo_edge) = 40"
  "cf_MaxConnsPerTenant (ed_cfg demo_edge) = 256" "cf_MaxSubscriptionsPerConn (ed_cfg demo_edge) = 32"
  "cf_AuthTimeout (ed_cfg demo_edge) = 10 * second" "cf_PongTimeout (ed_cfg demo_edge) = 60 * second"
  "cf_OutgoingBuffer (ed_cfg demo_edge) = 64"
  by (simp_all add: demo_edge_def read_config_def env_duration_def env_int_def env_unset DefaultMessageRatePerSecond_def
      DefaultMessageBurst_def DefaultMaxConnsPerTenant_def DefaultMaxSubscriptionsPerConn_def DefaultAuthTimeout_def
      DefaultPongTimeout_def DefaultOutgoingBuffer_def)

lemma demo_new_connection:
  "new_connection demo_edge (Inr (replicate 16 0)) demo_now =
     Inr (demo_sid, demo_conn, queue_new (cf_OutgoingBuffer (ed_cfg demo_edge)) DropNewest)"
  by (simp add: new_connection_def new_uuid_v4_def demo_sid_def demo_conn_def demo_cfg must_policy_def new_policy_def policy_validate_def)

lemma blank_demo: "blank demo_conn"
  by (simp add: blank_def ident_of_def demo_conn_def)

lemma demo_initial: "gw_initial demo_edge demo_g0"
  by (simp add: gw_initial_def demo_g0_def blank_demo new_router_def)

lemma demo_fresh: "fresh_id demo_g0 demo_sid"
  by (simp add: fresh_id_def served_def is_authenticated_def demo_g0_def hub_new_def demo_conn_def demo_sid_def format_uuid_def)

lemma demo_open: "gw_step demo_edge demo_g0 demo_g1"
proof (rule gs_open [OF demo_new_connection demo_fresh])
  show "serve_start demo_edge demo_sid demo_conn (queue_new (cf_OutgoingBuffer (ed_cfg demo_edge)) DropNewest) True demo_now demo_g0 = (True, demo_g1)"
    using serve_start_opened(1) by (simp add: demo_g1_def prod_eq_iff)
qed

lemma demo_g1_facts:
  "served demo_g1 demo_sid" "\<not> is_authenticated demo_g1 s" "cn_closed (gw_conns demo_g1 demo_sid) = None"
  "cn_tokenExpiry (gw_conns demo_g1 demo_sid) = zero_time" "cn_limiter (gw_conns demo_g1 demo_sid) = cn_limiter demo_conn"
  "ro_qs (gw_router demo_g1) demo_sid = queue_new 64 DropNewest"
  "h_tenantConns (gw_hub demo_g1) = fmempty" "h_maxPerTenant (gw_hub demo_g1) = 256"
proof -
  have i: "ident_of (gw_conns demo_g1 s) = ident_of demo_conn" for s
    by (simp add: demo_g1_def serve_start_opened(3)) (simp add: demo_g0_def)
  show "\<not> is_authenticated demo_g1 s" unfolding is_authenticated_def ident_tenant i by (simp add: demo_conn_def ident_of_def)
  show "cn_tokenExpiry (gw_conns demo_g1 demo_sid) = zero_time" using i [of demo_sid] by (simp add: demo_conn_def ident_of_def)
qed (simp_all add: demo_g1_def serve_start_opened, simp_all add: demo_conn_def demo_g0_def hub_register_def hub_new_def demo_cfg)

text \<open>A hello of that connection, with a token its tenant's backend minted.\<close>

definition demo_token :: string where
  "demo_token = mint (ed_hmac demo_edge) demo_verifier demo_minted"

definition demo_claims :: claims where
  "demo_claims = \<lparr>cl_UserID = to_lower (\<lambda>s. s) (mt_sub demo_minted), cl_TenantID = to_lower (\<lambda>s. s) (mt_tid demo_minted),
     cl_Role = ''agent'', cl_TokenVersion = 3, cl_ExpiresAt = 1700000900 * second, cl_JTI = ''j1''\<rparr>"

lemma demo_verify: "verify (ed_hmac demo_edge) (ed_ul demo_edge) (ed_verifier demo_edge) demo_token demo_now = Inr demo_claims"
  using minted_verifies [OF demo_mint_ok, of "ed_hmac demo_edge" "ed_ul demo_edge"]
  by (simp add: demo_token_def demo_claims_def demo_now_def demo_edge_def) (simp add: demo_minted_def)

definition hello_msg :: "string \<Rightarrow> client_message" where
  "hello_msg token = zero_message\<lparr>cm_Type := TypeHello, cm_Token := token, cm_WSVersion := 2\<rparr>"

lemma alphabet_ascii: "n < 64 \<Longrightarrow> \<not> digit7 (b64_alphabet ! n)"
proof -
  have "list_all (\<lambda>n. \<not> digit7 (b64_alphabet ! n)) [0 ..< 64]" by code_simp
  then show "n < 64 \<Longrightarrow> ?thesis" by (simp add: list_all_iff)
qed

lemma encoded_ascii: "list_all (\<lambda>c. \<not> digit7 c) (raw_url_encode s)"
  using b64_digits_range [OF bytes_range, of s] alphabet_ascii by (auto simp: raw_url_encode_def list_all_iff)

lemma minted_ascii: "valid_utf8 (mint hm v m)"
  by (rule valid_utf8_digit7) (simp add: mint_def Let_def encoded_ascii)

lemma hello_decodes:
  assumes "valid_utf8 token" and "token \<noteq> ''''"
  shows "\<exists>data. decode_client_message data = Inr (hello_msg token)"
proof -
  have "message_ok (hello_msg token)"
    using assms by (simp add: message_ok_def hello_msg_def zero_message_def valid_utf8_simps client_types)
  from unmarshal_client_fields [OF this] obtain data where u: "unmarshal set_field zero_message data = Some (hello_msg token)"
      "set (json_keys data) = set (map fst (client_fields (hello_msg token)))" by blast
  have "admissible (hello_msg token)"
    using assms(2) by (simp add: hello_msg_def zero_message_def admissible_def known_types_def client_types)
  with decode_admissible(1) [OF u] show ?thesis by blast
qed

lemma demo_allowed: "fst (limiter_allow (cn_limiter (gw_conns demo_g1 demo_sid)) demo_now)"
  by (simp add: demo_g1_facts demo_conn_def limiter_allow_def limiter_new_def new_bucket_def allow_at_def refill_def Let_def
      case_prod_unfold time_sub_def max_duration_def min_duration_def policy_validate_def)

section \<open>Identity\<close>

text \<open>What of a connection's state says who it is.\<close>

definition who :: "gateway \<Rightarrow> string \<Rightarrow> string \<times> string \<times> string \<times> time" where
  "who g sid = (let i = ident_of (gw_conns g sid) in (id_tenant i, id_user i, id_role i, id_expiry i))"

lemma who_core: "core g' = core g \<Longrightarrow> who g' = who g"
proof (rule ext)
  fix s assume "core g' = core g"
  from coreD(4) [OF this, of s] show "who g' s = who g s" by (simp only: who_def)
qed

lemma who_rooms: "ident_of (gw_conns g' s) = (ident_of (gw_conns g s))\<lparr>id_rooms := S\<rparr> \<Longrightarrow> who g' s = who g s"
  by (simp add: who_def Let_def)

lemma who_conns: "gw_conns g' = gw_conns g \<Longrightarrow> who g' = who g"
  by (rule ext) (simp only: who_def)

lemma who_frame [simp]: "who (g\<lparr>gw_router := r\<rparr>) = who g" "who (g\<lparr>gw_hub := h\<rparr>) = who g" "who (leave_presence e sid now g) = who g"
  "who (tally f g) = who g"
  by (rule who_conns, simp)+

lemma who_mirror [simp]: "who (mirror_unsubscribe sid room g) = who g"
proof
  fix s
  show "who (mirror_unsubscribe sid room g) s = who g s"
    by (rule who_rooms [where S = "cn_subscriptions (gw_conns (mirror_unsubscribe sid room g) s)"])
      (simp add: mirror_unsubscribe_def ident_of_def)
qed

lemma who_subscribe: "who (handle_subscribe e sid room g) = who g" "who (handle_unsubscribe sid room g) = who g"
proof -
  have m: "who g1 = who g" if "mirror_subscribe e sid room g = Some g1" for g1
    by (rule ext) (rule who_rooms [OF mirror_core(5) [OF that]])
  have q: "who (send_error sid c x y) = who y" "who (enqueue_own sid f y) = who y" for c x f y by (rule who_core, simp)+
  show "who (handle_subscribe e sid room g) = who g"
  proof (cases "mirror_subscribe e sid room g")
    case (Some g1)
    from m [OF Some] show ?thesis by (simp add: handle_subscribe_def q Some split: prod.split sum.split)
  qed (simp add: handle_subscribe_def q)
  show "who (handle_unsubscribe sid room g) = who g"
    by (simp add: handle_unsubscribe_def q)
qed

lemma who_hello:
  assumes "who (snd (handle_hello e sid token wsv now g)) s \<noteq> who g s"
  shows "s = sid \<and> \<not> is_authenticated g sid
    \<and> (\<exists>cl. verify (ed_hmac e) (ed_ul e) (ed_verifier e) token now = Inr cl
         \<and> who (snd (handle_hello e sid token wsv now g)) s = (cl_TenantID cl, cl_UserID cl, cl_Role cl, cl_ExpiresAt cl))"
proof -
  have un: "\<not> is_authenticated g sid" using assms who_core [OF core_simps(4)] by (auto simp: handle_hello_def)
  have c: "who (initiate_close sid cc reason now x) = who x" "who (enqueue_own sid f x) = who x" "who (send_error sid code m x) = who x"
    "who (set_read_deadline sid t x) = who x" for cc code reason x f m t
    by (rule who_core, simp)+
  have up: "who (upd_conn sid (\<lambda>c. c\<lparr>cn_steerCapable := True\<rparr>) x) = who x" for x by (rule who_core) (simp add: ident_of_def)
  obtain cl where v: "verify (ed_hmac e) (ed_ul e) (ed_verifier e) token now = Inr cl"
    using assms un by (cases "verify (ed_hmac e) (ed_ul e) (ed_verifier e) token now") (simp_all add: handle_hello_def c)
  obtain r h where b: "bind_tenant (tenant_of g) (gw_hub g) sid (cl_TenantID cl) = (r, h)" by (rule prod.exhaust)
  obtain u where r: "r = Inr u"
    using assms un v b by (cases r) (simp_all add: handle_hello_def c split: hub_error.splits)
  have si: "who (set_identity e sid cl now x) = (who x)(sid := (cl_TenantID cl, cl_UserID cl, cl_Role cl, cl_ExpiresAt cl))" for x
    using core_set_identity [of e sid cl now x] by (auto simp: who_def core_def fun_eq_iff Let_def) (simp_all add: ident_of_def pinned_def)
  have "who (snd (handle_hello e sid token wsv now g)) = (who g)(sid := (cl_TenantID cl, cl_UserID cl, cl_Role cl, cl_ExpiresAt cl))"
    using un v b r by (simp add: handle_hello_def Let_def c up si)
  then show ?thesis using assms un v by (cases "s = sid") auto
qed

lemma who_read:
  assumes "who (snd (read_round e sid inb now gen g)) s \<noteq> who g s"
  obtains data msg cl where "s = sid" "\<not> is_authenticated g sid" "inb = InText data"
    "fst (allow_message sid now (tally message_read (touch sid now g)))" "decode_client_message data = Inr msg" "cm_Type msg = TypeHello"
    "verify (ed_hmac e) (ed_ul e) (ed_verifier e) (cm_Token msg) now = Inr cl"
    "snd (read_round e sid inb now gen g) = snd (handle_hello e sid (cm_Token msg) (cm_WSVersion msg) now
       (snd (allow_message sid now (tally message_read (touch sid now g)))))"
proof -
  have q: "who (send_error sid c m x) = who x" "who (enqueue_own sid f x) = who x" for c m f x by (rule who_core, simp)+
  obtain data where inb: "inb = InText data"
    using assms who_core [OF core_simps(6)] by (cases inb) (simp_all add: read_round_def q)
  let ?g = "snd (allow_message sid now (tally message_read (touch sid now g)))"
  have c: "core ?g = core g" by simp
  have w: "who ?g = who g" by (rule who_core [OF c])
  have ok: "fst (allow_message sid now (tally message_read (touch sid now g)))"
    using assms by (rule_tac ccontr) (simp add: inb read_round_def case_prod_unfold Let_def q w)
  obtain msg where m: "decode_client_message data = Inr msg"
    using assms by (cases "decode_client_message data") (simp_all add: inb read_round_def case_prod_unfold Let_def q w ok)
  have r: "snd (read_round e sid inb now gen g) = snd (dispatch e sid msg now gen ?g)"
    by (simp add: inb read_round_def case_prod_unfold Let_def m ok)
  from assms r w have d: "who (snd (dispatch e sid msg now gen ?g)) s \<noteq> who ?g s" by simp
  have "who (snd (dispatch e sid msg now gen ?g)) = who ?g" if "cm_Type msg \<noteq> TypeHello"
    using that by (simp add: dispatch_def q who_subscribe)
  with d have ty: "cm_Type msg = TypeHello" by fastforce
  then have hh: "snd (dispatch e sid msg now gen ?g) = snd (handle_hello e sid (cm_Token msg) (cm_WSVersion msg) now ?g)"
    by (simp add: dispatch_def)
  from who_hello [OF d [unfolded hh]] obtain cl where "s = sid" "\<not> is_authenticated g sid"
      "verify (ed_hmac e) (ed_ul e) (ed_verifier e) (cm_Token msg) now = Inr cl"
    using authenticated_core [OF c] by blast
  with inb ok m ty r hh show thesis by (intro that) simp_all
qed

lemma who_authenticated: "is_authenticated g sid \<longleftrightarrow> fst (who g sid) \<noteq> ''''"
  by (simp add: who_def is_authenticated_def ident_of_def Let_def)

text \<open>An identity changes in no step but a read round of its own connection.\<close>

lemma who_step:
  assumes "gw_step e g g'" and "who g' s \<noteq> who g s" and "is_authenticated g s \<or> is_authenticated g' s"
  shows "\<not> is_authenticated g s \<and> served g s \<and> (\<exists>inb now gen. g' = snd (read_round e s inb now gen g))"
proof -
  have cor: "who g' = who g" if "core g' = core g" using who_core [OF that] .
  have open_false: False if "fresh_id g sid" "blank c" "who g' = who (snd (serve_start e sid c q ok now g))" for sid c q ok now
  proof -
    have "who (snd (serve_start e sid c q ok now g)) s = (if s = sid then ('''', '''', '''', zero_time) else who g s)"
      using that(2) by (auto simp: serve_start_def Let_def case_prod_unfold who_def set_read_deadline_def write_frame_now_def ident_of_def
          blank_def split: option.split)
    then show False using that assms(2,3) by (cases "s = sid") (auto simp: fresh_id_def who_authenticated)
  qed
  show ?thesis
    using assms(1)
  proof cases
    case (gs_open rnd now sid c q ok)
    then show ?thesis using open_false [OF gs_open(2) new_connection_blank(1) [OF gs_open(1)], of q ok now] by simp
  next
    case (gs_refused rnd now sid c q ok g1 ordr now')
    then show ?thesis using open_false [OF gs_refused(3) new_connection_blank(1) [OF gs_refused(2)], of q ok now]
      by (simp add: serve_abort_def Let_def)
  next
    case (gs_read sid gen inb now)
    from assms(2) [unfolded gs_read(1)] have "s = sid" "\<not> is_authenticated g sid" by (rule who_read, blast)+
    with gs_read show ?thesis by blast
  qed (use assms(2) cor in \<open>auto simp: serve_end_def td_unregister_def td_signaler_def\<close>)
qed

lemma who_kept_run:
  assumes "(gw_step e)\<^sup>*\<^sup>* g g'" and "is_authenticated g sid"
  shows "who g' sid = who g sid"
  using assms
proof (induction rule: rtranclp_induct)
  case (step g1 g2)
  then have "is_authenticated g1 sid" by (simp add: who_authenticated)
  with step who_step [OF step.hyps(2), of sid] show ?case by metis
qed simp

section \<open>What hello leads to\<close>

definition slots_taken :: "gateway \<Rightarrow> string \<Rightarrow> int" where
  "slots_taken g t = fmget 0 (h_tenantConns (gw_hub g)) t"

definition first_close :: "gateway \<Rightarrow> string \<Rightarrow> int \<Rightarrow> string \<Rightarrow> (int \<times> string) option" where
  "first_close g sid code reason = (case cn_closed (gw_conns g sid) of None \<Rightarrow> Some (code, reason) | Some z \<Rightarrow> Some z)"

lemma initiate_close_simps [simp]:
  "gw_router (initiate_close sid cc reason now g) = gw_router g" "gw_hub (initiate_close sid cc reason now g) = gw_hub g"
  "gw_presence (initiate_close sid cc reason now g) = gw_presence g"
  "cn_closed (gw_conns (initiate_close sid cc reason now g) sid) = first_close g sid cc reason"
  "s \<noteq> sid \<Longrightarrow> gw_conns (initiate_close sid cc reason now g) s = gw_conns g s"
  "cn_wire (gw_conns (initiate_close sid cc reason now g) s) = cn_wire (gw_conns g s)"
  by (auto simp: initiate_close_def first_close_def split: option.split)

lemma first_close_frame [simp]: "first_close (enqueue_own sid f g) s = first_close g s" "first_close (send_error sid c m g) s = first_close g s"
  "first_close (tally h g) s = first_close g s" "first_close (g\<lparr>gw_hub := hb\<rparr>) s = first_close g s"
  by (simp_all add: first_close_def fun_eq_iff send_error_def)

lemma hello_refused:
  fixes wsv :: int
  assumes "\<not> is_authenticated g sid" and "verify (ed_hmac e) (ed_ul e) (ed_verifier e) token now = Inl err"
  defines "r \<equiv> handle_hello e sid token wsv now g"
  shows "\<not> fst r" "cn_closed (gw_conns (snd r) sid) = first_close g sid ClosePolicyViolation ''authentication failed''"
    "ro_qs (gw_router (snd r)) = (ro_qs (gw_router g))(sid := snd (enqueue (ro_qs (gw_router g) sid) (new_error CodeAuthFailed ''invalid or expired token'')))"
    "cn_wire (gw_conns (snd r) sid) = cn_wire (gw_conns g sid)" "core (snd r) = core g"
  using assms by (simp_all add: handle_hello_def)

lemma hello_over_cap:
  assumes "served g sid" and "\<not> is_authenticated g sid" and v: "verify (ed_hmac e) (ed_ul e) (ed_verifier e) token now = Inr cl"
    and "slots_taken g (cl_TenantID cl) \<ge> h_maxPerTenant (gw_hub g)"
  shows "handle_hello e sid token wsv now g = (False, initiate_close sid ClosePolicyViolation ''over tenant capacity'' now
     (send_error sid CodeOverLimit ''too many connections for this account'' g))"
proof -
  obtain rs where "fmlookup (h_sessions (gw_hub g)) sid = Some rs" using assms(1) by (auto simp: served_def)
  then have "bind_tenant (tenant_of g) (gw_hub g) sid (cl_TenantID cl) = (Inl ErrOverTenantCap, gw_hub g)"
    using assms(2,4) by (simp add: bind_tenant_def slots_taken_def is_authenticated_tenant)
  then show ?thesis using assms(2) v by (simp add: handle_hello_def)
qed

lemma hello_accepted:
  fixes wsv :: int
  assumes "served g sid" and "\<not> is_authenticated g sid" and v: "verify (ed_hmac e) (ed_ul e) (ed_verifier e) token now = Inr cl"
    and free: "slots_taken g (cl_TenantID cl) < h_maxPerTenant (gw_hub g)"
  defines "g' \<equiv> snd (handle_hello e sid token wsv now g)"
  shows "fst (handle_hello e sid token wsv now g)" "who g' sid = (cl_TenantID cl, cl_UserID cl, cl_Role cl, cl_ExpiresAt cl)"
    "slots_taken g' = (slots_taken g)(cl_TenantID cl := slots_taken g (cl_TenantID cl) + 1)"
    "ro_qs (gw_router g') sid = snd (enqueue (ro_qs (gw_router g) sid) (new_ready sid (cl_TenantID cl) (cl_Role cl) (cl_ExpiresAt cl)))"
    "cn_closed (gw_conns g' sid) = cn_closed (gw_conns g sid)"
    "cn_readDeadline (gw_conns g' sid) = time_add now (cf_PongTimeout (ed_cfg e))"
proof -
  obtain rs where rs: "fmlookup (h_sessions (gw_hub g)) sid = Some rs" using assms(1) by (auto simp: served_def)
  define h where "h = (gw_hub g)\<lparr>h_tenantConns := fmupd (cl_TenantID cl) (slots_taken g (cl_TenantID cl) + 1) (h_tenantConns (gw_hub g))\<rparr>"
  have b: "bind_tenant (tenant_of g) (gw_hub g) sid (cl_TenantID cl) = (Inr (), h)"
    using rs free assms(2) by (simp add: bind_tenant_def slots_taken_def h_def is_authenticated_tenant)
  let ?c = "\<lambda>c. c\<lparr>cn_steerCapable := True\<rparr>"
  define g1 where "g1 = set_identity e sid cl now (g\<lparr>gw_hub := h\<rparr>)"
  define g2 where "g2 = (if 2 \<le> wsv then upd_conn sid ?c g1 else g1)"
  have r: "handle_hello e sid token wsv now g = (True, set_read_deadline sid (time_add now (cf_PongTimeout (ed_cfg e)))
      (enqueue_own sid (new_ready sid (cl_TenantID cl) (cl_Role cl) (cl_ExpiresAt cl)) g2))"
    using assms(2) b by (simp add: v handle_hello_def Let_def g1_def g2_def)
  have f1: "ident_of (gw_conns g1 sid) = ident_of (pinned cl (gw_conns g sid))" "cn_closed (gw_conns g1 sid) = cn_closed (gw_conns g sid)"
    "gw_hub g1 = h" "ro_qs (gw_router g1) = ro_qs (gw_router g)"
    using core_set_identity [of e sid cl now "g\<lparr>gw_hub := h\<rparr>"]
    by (simp_all add: g1_def core_def fun_eq_iff) (simp add: set_identity_def Let_def case_prod_unfold)
  have f2: "ident_of (gw_conns g2 sid) = ident_of (pinned cl (gw_conns g sid))" "cn_closed (gw_conns g2 sid) = cn_closed (gw_conns g sid)"
    "gw_hub g2 = h" "ro_qs (gw_router g2) = ro_qs (gw_router g)"
    using f1 by (simp_all add: g2_def ident_of_def)
  show "slots_taken g' = (slots_taken g)(cl_TenantID cl := slots_taken g (cl_TenantID cl) + 1)"
    by (auto simp: g'_def r slots_taken_def fun_eq_iff set_read_deadline_def f2 h_def)
  show "fst (handle_hello e sid token wsv now g)" "who g' sid = (cl_TenantID cl, cl_UserID cl, cl_Role cl, cl_ExpiresAt cl)"
    "ro_qs (gw_router g') sid = snd (enqueue (ro_qs (gw_router g) sid) (new_ready sid (cl_TenantID cl) (cl_Role cl) (cl_ExpiresAt cl)))"
    "cn_closed (gw_conns g' sid) = cn_closed (gw_conns g sid)"
    "cn_readDeadline (gw_conns g' sid) = time_add now (cf_PongTimeout (ed_cfg e))"
    using f2 by (simp_all add: g'_def r who_def set_read_deadline_def Let_def ident_of_def pinned_def)
qed

text \<open>
  A hello on a registered connection without identity has exactly three outcomes. A token that
  does not verify queues the one generic error and closes with 1008; a tenant with no free slot queues
  over_limit and closes with 1008, taking no slot; otherwise one slot is taken, the identity becomes
  the token's, the ready frame is queued and the read deadline becomes the pong timeout. A connection
  already closing keeps its first close code, and a refused hello leaves every registry as it was.
\<close>

theorem hello_outcome:
  assumes "served g sid" and "\<not> is_authenticated g sid"
  shows "let r = handle_hello e sid token wsv now g; g' = snd r; q = ro_qs (gw_router g) sid; q' = ro_qs (gw_router g') sid;
      refused = (\<lambda>reason. \<not> fst r \<and> core g' = core g \<and> cn_closed (gw_conns g' sid) = first_close g sid ClosePolicyViolation reason)
    in case verify (ed_hmac e) (ed_ul e) (ed_verifier e) token now of
      Inl err \<Rightarrow> refused ''authentication failed'' \<and> q' = snd (enqueue q (new_error CodeAuthFailed ''invalid or expired token''))
    | Inr cl \<Rightarrow>
        if slots_taken g (cl_TenantID cl) \<ge> h_maxPerTenant (gw_hub g) then
          refused ''over tenant capacity'' \<and> q' = snd (enqueue q (new_error CodeOverLimit ''too many connections for this account''))
        else fst r \<and> who g' sid = (cl_TenantID cl, cl_UserID cl, cl_Role cl, cl_ExpiresAt cl)
          \<and> slots_taken g' = (slots_taken g)(cl_TenantID cl := slots_taken g (cl_TenantID cl) + 1)
          \<and> q' = snd (enqueue q (new_ready sid (cl_TenantID cl) (cl_Role cl) (cl_ExpiresAt cl)))
          \<and> cn_closed (gw_conns g' sid) = cn_closed (gw_conns g sid)
          \<and> cn_readDeadline (gw_conns g' sid) = time_add now (cf_PongTimeout (ed_cfg e))"
proof (cases "verify (ed_hmac e) (ed_ul e) (ed_verifier e) token now")
  case (Inl err)
  show ?thesis using hello_refused [OF assms(2) Inl, of wsv] by (simp add: Inl Let_def)
next
  case (Inr cl)
  show ?thesis
  proof (cases "slots_taken g (cl_TenantID cl) \<ge> h_maxPerTenant (gw_hub g)")
    case True
    show ?thesis using hello_over_cap [OF assms Inr True, of wsv] True by (simp add: Inr Let_def send_error_def)
  next
    case False
    then show ?thesis using hello_accepted [OF assms Inr, of wsv] by (simp add: Inr Let_def)
  qed
qed

theorem hello_outcome_witness:
  "fst (handle_hello demo_edge demo_sid demo_token 2 demo_now demo_g1)
    \<and> who (snd (handle_hello demo_edge demo_sid demo_token 2 demo_now demo_g1)) demo_sid
      = (cl_TenantID demo_claims, cl_UserID demo_claims, ''agent'', 1700000900 * second)"
  using hello_outcome [OF demo_g1_facts(1,2), where e = demo_edge and token = demo_token and now = demo_now and wsv = 2]
  by (simp add: demo_verify Let_def slots_taken_def demo_g1_facts fmget_def) (simp add: demo_claims_def)

lemma demo_hello:
  obtains data where "gw_step demo_edge demo_g1 (snd (read_round demo_edge demo_sid (InText data) demo_now (Inl '''') demo_g1))"
    and "who (snd (read_round demo_edge demo_sid (InText data) demo_now (Inl '''') demo_g1)) demo_sid
      = (cl_TenantID demo_claims, cl_UserID demo_claims, cl_Role demo_claims, cl_ExpiresAt demo_claims)"
    and "decode_client_message data = Inr (hello_msg demo_token)"
proof -
  let ?g = "snd (allow_message demo_sid demo_now (tally message_read (touch demo_sid demo_now demo_g1)))"
  have ne: "demo_token \<noteq> ''''" using demo_verify by (auto simp: verify_def)
  from minted_ascii [of "ed_hmac demo_edge" demo_verifier demo_minted] have "valid_utf8 demo_token" by (simp add: demo_token_def)
  from hello_decodes [OF this ne] obtain data where d: "decode_client_message data = Inr (hello_msg demo_token)" by blast
  have c: "core ?g = core demo_g1" by simp
  have s: "served ?g demo_sid" "\<not> is_authenticated ?g demo_sid" "slots_taken ?g t < h_maxPerTenant (gw_hub ?g)" for t
    using demo_g1_facts(1,2) authenticated_core [OF c]
    by (simp_all add: served_def coreD(1) [OF c] slots_taken_def demo_g1_facts fmget_def)
  have "fst (allow_message demo_sid demo_now (tally message_read (touch demo_sid demo_now demo_g1)))"
    using demo_allowed by (simp add: allow_message_def touch_def case_prod_unfold)
  then have r: "snd (read_round demo_edge demo_sid (InText data) demo_now (Inl '''') demo_g1)
      = snd (handle_hello demo_edge demo_sid demo_token 2 demo_now ?g)"
    by (simp add: read_round_def case_prod_unfold Let_def d) (simp add: dispatch_def hello_msg_def zero_message_def)
  show thesis
    by (rule that [of data], rule gs_read [OF demo_g1_facts(1)], simp)
      (simp only: r hello_accepted(2) [OF s(1,2) demo_verify s(3)], rule d)
qed

text \<open>
  The claims one read round may pin to its connection: the frame that arrived is a text frame the
  rate limiter lets pass, it decodes to a hello, the token in that very frame verifies at the instant
  of the round, and its tenant has a free slot.
\<close>

definition hello_claims :: "edge \<Rightarrow> string \<Rightarrow> inbound \<Rightarrow> time \<Rightarrow> gateway \<Rightarrow> claims option" where
  "hello_claims e sid inb now g =
     (case inb of
        InText data \<Rightarrow>
          if \<not> fst (limiter_allow (cn_limiter (gw_conns g sid)) now) then None
          else (case decode_client_message data of
              Inl err \<Rightarrow> None
            | Inr msg \<Rightarrow>
                if cm_Type msg \<noteq> TypeHello then None
                else (case verify (ed_hmac e) (ed_ul e) (ed_verifier e) (cm_Token msg) now of
                    Inl err \<Rightarrow> None
                  | Inr cl \<Rightarrow> if slots_taken g (cl_TenantID cl) < h_maxPerTenant (gw_hub g) then Some cl else None))
      | _ \<Rightarrow> None)"

lemma limiter_pass_frame:
  fixes sid :: string and now :: time
  defines "h g \<equiv> snd (allow_message sid now (tally message_read (touch sid now g)))"
  shows "fst (allow_message sid now (tally message_read (touch sid now g))) = fst (limiter_allow (cn_limiter (gw_conns g sid)) now)"
    and "served (h g) sid = served g sid" "is_authenticated (h g) sid = is_authenticated g sid" "slots_taken (h g) = slots_taken g"
    and "gw_hub (h g) = gw_hub g" "who (h g) = who g"
proof -
  have c: "core (h g) = core g" by (simp add: h_def)
  show "fst (allow_message sid now (tally message_read (touch sid now g))) = fst (limiter_allow (cn_limiter (gw_conns g sid)) now)"
    by (simp add: allow_message_def touch_def case_prod_unfold Let_def)
  show "is_authenticated (h g) sid = is_authenticated g sid" using authenticated_core [OF c] by simp
  show "gw_hub (h g) = gw_hub g" by (rule coreD(1) [OF c])
  then show "served (h g) sid = served g sid" "slots_taken (h g) = slots_taken g" by (simp_all add: served_def slots_taken_def fun_eq_iff)
  show "who (h g) = who g" by (rule who_core [OF c])
qed

lemma read_round_who:
  assumes "served g sid" and "\<not> is_authenticated g sid"
  shows "who (snd (read_round e sid inb now gen g)) sid = (case hello_claims e sid inb now g of
      None \<Rightarrow> who g sid | Some cl \<Rightarrow> (cl_TenantID cl, cl_UserID cl, cl_Role cl, cl_ExpiresAt cl))"
proof -
  let ?g = "snd (allow_message sid now (tally message_read (touch sid now g)))"
  note adm = limiter_pass_frame [of sid now g]
  have s: "served ?g sid" "\<not> is_authenticated ?g sid" using assms adm(2,3) by simp_all
  show ?thesis
  proof (cases "hello_claims e sid inb now g")
    case (Some cl)
    obtain data where inb: "inb = InText data" using Some by (cases inb) (simp_all add: hello_claims_def)
    obtain msg where msg: "decode_client_message data = Inr msg"
      using Some by (cases "decode_client_message data") (simp_all add: hello_claims_def inb split: if_splits)
    have ty: "cm_Type msg = TypeHello" and ok: "fst (limiter_allow (cn_limiter (gw_conns g sid)) now)"
      using Some by (simp_all add: hello_claims_def inb msg split: if_splits)
    have v: "verify (ed_hmac e) (ed_ul e) (ed_verifier e) (cm_Token msg) now = Inr cl"
      and free: "slots_taken g (cl_TenantID cl) < h_maxPerTenant (gw_hub g)"
      using Some by (auto simp: hello_claims_def inb msg split: if_splits sum.splits)
    have "snd (read_round e sid inb now gen g) = snd (handle_hello e sid (cm_Token msg) (cm_WSVersion msg) now ?g)"
      using ok adm(1) by (simp add: inb read_round_def case_prod_unfold Let_def msg dispatch_def ty)
    then show ?thesis using hello_accepted(2) [OF s v] free adm(4,5) by (simp add: Some)
  next
    case None
    have False if ch: "who (snd (read_round e sid inb now gen g)) sid \<noteq> who g sid"
    proof -
      obtain data msg cl where r: "inb = InText data" "fst (allow_message sid now (tally message_read (touch sid now g)))"
        "decode_client_message data = Inr msg" "cm_Type msg = TypeHello"
        "verify (ed_hmac e) (ed_ul e) (ed_verifier e) (cm_Token msg) now = Inr cl"
        "snd (read_round e sid inb now gen g) = snd (handle_hello e sid (cm_Token msg) (cm_WSVersion msg) now ?g)"
        by (rule who_read [OF ch])
      have "\<not> slots_taken g (cl_TenantID cl) < h_maxPerTenant (gw_hub g)"
        using None r(2-5) adm(1) by (auto simp: hello_claims_def r(1) split: if_splits)
      then have "snd (read_round e sid inb now gen g) = initiate_close sid ClosePolicyViolation ''over tenant capacity'' now
         (send_error sid CodeOverLimit ''too many connections for this account'' ?g)"
        using hello_over_cap [OF s r(5), of "cm_WSVersion msg"] adm(4,5) by (simp add: r(6))
      moreover have "who (initiate_close sid cc reason now x) = who x" "who (send_error sid c m x) = who x" for cc reason c m x
        by (rule who_core, simp)+
      ultimately show False using ch adm(6) by simp
    qed
    then show ?thesis by (auto simp: None)
  qed
qed

text \<open>
  C1. A connection's tenant, user, role and token expiry are set once, by the token of its own hello.
  On any reachable node: a round of a connection without identity pins to it exactly the claims of
  the token in the frame that just arrived, if that frame is a hello the limiter lets pass, the token
  verifies at the clock of that round and its tenant has a slot free, and otherwise pins nothing; no
  step other than such a round gives a connection an identity; and once pinned, the identity is the
  same in every later state of the run.
\<close>

theorem identity_pinned_by_token:
  assumes "gw_initial e g0" and "(gw_step e)\<^sup>*\<^sup>* g0 g" and "served g sid"
  shows "(\<not> is_authenticated g sid \<longrightarrow>
        who (snd (read_round e sid inb now gen g)) sid = (case hello_claims e sid inb now g of
            None \<Rightarrow> who g sid | Some cl \<Rightarrow> (cl_TenantID cl, cl_UserID cl, cl_Role cl, cl_ExpiresAt cl))
        \<and> (is_authenticated (snd (read_round e sid inb now gen g)) sid \<longleftrightarrow> hello_claims e sid inb now g \<noteq> None))
    \<and> (\<forall>s g'. gw_step e g g' \<longrightarrow> \<not> is_authenticated g s \<longrightarrow> is_authenticated g' s \<longrightarrow>
        served g s \<and> (\<exists>inb now gen. g' = snd (read_round e s inb now gen g)))
    \<and> (\<forall>s g'. (gw_step e)\<^sup>*\<^sup>* g g' \<longrightarrow> is_authenticated g s \<longrightarrow> who g' s = who g s)"
proof -
  have ne: "cl_TenantID cl \<noteq> ''''" if "hello_claims e sid inb now g = Some cl" for cl
    using that by (auto simp: hello_claims_def split: inbound.splits if_splits sum.splits intro!: verified_ids(1))
  have "is_authenticated (snd (read_round e sid inb now gen g)) sid \<longleftrightarrow> hello_claims e sid inb now g \<noteq> None"
    if "\<not> is_authenticated g sid"
    using read_round_who [OF assms(3) that, of e inb now gen] that ne
    by (cases "hello_claims e sid inb now g") (simp_all add: who_authenticated)
  moreover have "served g s \<and> (\<exists>inb now gen. g' = snd (read_round e s inb now gen g))"
    if "gw_step e g g'" "\<not> is_authenticated g s" "is_authenticated g' s" for s g'
    using who_step [OF that(1), of s] that(2,3) by (metis who_authenticated)
  ultimately show ?thesis using read_round_who [OF assms(3)] who_kept_run by blast
qed

theorem identity_pinned_by_token_witness:
  "\<exists>data g'. gw_step demo_edge demo_g1 g' \<and> \<not> is_authenticated demo_g1 demo_sid
    \<and> g' = snd (read_round demo_edge demo_sid (InText data) demo_now (Inl '''') demo_g1)
    \<and> decode_client_message data = Inr (hello_msg demo_token)
    \<and> hello_claims demo_edge demo_sid (InText data) demo_now demo_g1 = Some demo_claims
    \<and> who g' demo_sid = (cl_TenantID demo_claims, cl_UserID demo_claims, cl_Role demo_claims, cl_ExpiresAt demo_claims)"
proof -
  obtain data where d: "gw_step demo_edge demo_g1 (snd (read_round demo_edge demo_sid (InText data) demo_now (Inl '''') demo_g1))"
    "decode_client_message data = Inr (hello_msg demo_token)"
    by (rule demo_hello)
  have "verify (ed_hmac demo_edge) (ed_ul demo_edge) (ed_verifier demo_edge) (cm_Token (hello_msg demo_token)) demo_now = Inr demo_claims"
    using demo_verify by (simp add: hello_msg_def)
  then have h: "hello_claims demo_edge demo_sid (InText data) demo_now demo_g1 = Some demo_claims"
    using d(2) demo_allowed demo_g1_facts by (simp add: hello_claims_def slots_taken_def fmget_def) (simp add: hello_msg_def)
  show ?thesis
    using identity_pinned_by_token [OF demo_initial r_into_rtranclp [of "gw_step demo_edge", OF demo_open] demo_g1_facts(1),
        of "InText data" demo_now "Inl ''''"] demo_g1_facts(2) d h by auto
qed

section \<open>Strangers\<close>

text \<open>
  C4. A connection that has not authenticated is told nothing: in every run of a node, all that was
  ever queued for it or written to its socket are the welcome, error frames, pongs, WebSocket pings
  and a close frame.
\<close>

theorem strangers_hear_nothing:
  assumes "gw_initial e g0" and "(gw_step e)\<^sup>*\<^sup>* g0 g" and "\<not> is_authenticated g sid"
  shows "list_all mute (q_ch (ro_qs (gw_router g) sid)) \<and> list_all mute_wire (cn_wire (gw_conns g sid))"
proof -
  have "quiet (outlet g sid)" using node.reachable_inv [OF assms(1,2)] by (simp add: gw_inv_def silent_def)
  then show ?thesis using assms(3) by (simp add: outlet_def quiet_def is_authenticated_def)
qed

theorem strangers_hear_nothing_witness:
  "list_all mute (q_ch (ro_qs (gw_router demo_g1) demo_sid)) \<and> list_all mute_wire (cn_wire (gw_conns demo_g1 demo_sid))"
  by (rule strangers_hear_nothing [OF demo_initial r_into_rtranclp [of "gw_step demo_edge", OF demo_open] demo_g1_facts(2)])

text \<open>The state shared between connections, apart from the metrics.\<close>

definition shared :: "gateway \<Rightarrow> hub \<times> presence \<times> manager \<times> (string, string) fmap \<times> string fset \<times> engine_op list" where
  "shared g = (gw_hub g, gw_presence g, ro_m (gw_router g), ro_engineSessions (gw_router g), ro_steerSessions (gw_router g), ro_calls (gw_router g))"

definition own_only :: "string \<Rightarrow> gateway \<Rightarrow> gateway \<Rightarrow> bool" where
  "own_only sid g g' \<longleftrightarrow> shared g' = shared g
     \<and> (\<forall>s. s \<noteq> sid \<longrightarrow> gw_conns g' s = gw_conns g s \<and> ro_qs (gw_router g') s = ro_qs (gw_router g) s)"

lemma own_only_trans: "own_only sid g h \<Longrightarrow> own_only sid h k \<Longrightarrow> own_only sid g k"
  by (simp add: own_only_def)

lemma own_only_simps [simp]:
  "own_only sid g g" "own_only sid g (upd_conn sid f g)" "own_only sid g (enqueue_own sid fr g)" "own_only sid g (send_error sid c m g)"
  "own_only sid g (tally h g)" "own_only sid g (initiate_close sid cc reason now g)"
  by (auto simp: own_only_def shared_def send_error_def initiate_close_def)

lemma own_only_admit: "own_only sid g (snd (allow_message sid now (tally message_read (touch sid now g))))"
  by (auto simp: own_only_def shared_def allow_message_def touch_def case_prod_unfold Let_def)

text \<open>
  The gate before authentication. Whatever bytes a connection without identity sends, unless the
  message is a hello whose token verifies, the round changes nothing but that connection's own state
  and queue (and counters): no registry, no session, no engine call and no other connection or queue.
\<close>

theorem gate_before_hello:
  assumes "\<not> is_authenticated g sid"
    and "\<And>data msg. inb = InText data \<Longrightarrow> decode_client_message data = Inr msg \<Longrightarrow> cm_Type msg = TypeHello \<Longrightarrow>
      \<exists>err. verify (ed_hmac e) (ed_ul e) (ed_verifier e) (cm_Token msg) now = Inl err"
  shows "own_only sid g (snd (read_round e sid inb now gen g))"
proof (cases inb)
  case (InText data)
  let ?g = "snd (allow_message sid now (tally message_read (touch sid now g)))"
  have "core ?g = core g" by simp
  then have un: "\<not> is_authenticated ?g sid" using authenticated_core assms(1) by blast
  have s: "own_only sid ?g (send_error sid c m (tally h ?g))" "own_only sid ?g (send_error sid c m ?g)" for c m h
    by (rule own_only_trans [of sid _ "tally h ?g"], simp_all)
  have hello: "own_only sid ?g (snd (handle_hello e sid (cm_Token msg) wsv now ?g))"
    if "verify (ed_hmac e) (ed_ul e) (ed_verifier e) (cm_Token msg) now = Inl err" for msg err wsv
    using un that
    by (simp add: handle_hello_def)
      (rule own_only_trans [of sid _ "enqueue_own sid (new_error CodeAuthFailed ''invalid or expired token'') (tally metric_auth_failed ?g)"],
        rule own_only_trans [of sid _ "tally metric_auth_failed ?g"], simp_all)
  have "own_only sid ?g (snd (dispatch e sid msg now gen ?g))" if "decode_client_message data = Inr msg" for msg
    using un hello assms(2) [OF InText that] by (auto simp: dispatch_def client_types)
  with s have "own_only sid ?g (snd (read_round e sid inb now gen g))"
    by (simp add: InText read_round_def case_prod_unfold Let_def split: sum.split)
  then show ?thesis by (rule own_only_trans [OF own_only_admit])
next
  case (InBinary data)
  have "own_only sid (touch sid now g) (send_error sid c m (touch sid now g))" for c m by simp
  moreover have "own_only sid g (touch sid now g)" by (simp add: touch_def)
  ultimately show ?thesis using own_only_trans by (simp add: InBinary read_round_def)
qed (simp add: read_round_def)

theorem gate_before_hello_witness:
  "own_only demo_sid demo_g1 (snd (read_round demo_edge demo_sid (InText ''hi'') demo_now (Inl '''') demo_g1))"
proof (rule gate_before_hello [OF demo_g1_facts(2)])
  fix data msg
  assume "InText ''hi'' = InText data" "decode_client_message data = Inr msg"
  moreover have "json_parse ''hi'' = None" by code_simp
  ultimately show "\<exists>err. verify (ed_hmac demo_edge) (ed_ul demo_edge) (ed_verifier demo_edge) (cm_Token msg) demo_now = Inl err"
    by (auto simp: decode_client_message_def unmarshal_def)
qed

section \<open>One node, one picture\<close>

text \<open>
  C5. The registries of a node never disagree. In every run, a registered connection's rooms in the
  hub are exactly the rooms of its own mirror and within its cap; the peers of a tenant's room are
  exactly the registered connections pinned to that tenant that hold the room; a tenant's slot count
  is the number of its registered connections and within the cap; and presence lists exactly the
  registered, authenticated connections under their verified tenant and user.
\<close>

theorem node_consistent:
  assumes "gw_initial e g0" and "(gw_step e)\<^sup>*\<^sup>* g0 g" and "ed_presence e"
  shows "(\<forall>sid. served g sid \<longrightarrow> fmlookup (h_sessions (gw_hub g)) sid = Some (cn_subscriptions (gw_conns g sid)))
    \<and> (\<forall>sid. int (fcard (cn_subscriptions (gw_conns g sid))) \<le> max 0 (cf_MaxSubscriptionsPerConn (ed_cfg e)))
    \<and> (\<forall>t room sid. sid |\<in>| peers_of (h_rooms (gw_hub g)) (t, room) \<longleftrightarrow>
         t \<noteq> '''' \<and> served g sid \<and> tenant_of g sid = t \<and> room |\<in>| cn_subscriptions (gw_conns g sid))
    \<and> (\<forall>t. t \<noteq> '''' \<longrightarrow> slots_taken g t = int (card {sid. served g sid \<and> tenant_of g sid = t}))
    \<and> (\<forall>t. slots_taken g t \<le> max 0 (h_maxPerTenant (gw_hub g)))
    \<and> triples (gw_presence g) = {(tenant_of g sid, cn_userID (gw_conns g sid), sid) | sid. served g sid \<and> is_authenticated g sid}"
proof -
  have inv: "registries_inv e g" using node.reachable_inv [OF assms(1,2)] by (simp add: gw_inv_def)
  note d = registries_invD [OF inv]
  have peers: "sid |\<in>| peers_of (h_rooms (gw_hub g)) (t, room) \<longleftrightarrow>
      t \<noteq> '''' \<and> served g sid \<and> tenant_of g sid = t \<and> room |\<in>| cn_subscriptions (gw_conns g sid)" for t room sid
  proof -
    have "is_subscribed (hub_view g) sid room \<longleftrightarrow> served g sid \<and> room |\<in>| cn_subscriptions (gw_conns g sid)"
      using d(7) [of sid] by (cases "served g sid") (simp_all add: is_subscribed_def hub_view_def served_def fmget_def)
    then show ?thesis using gfan.room_peers_iff [OF d(1), of sid t room] by (auto simp: hub_view_def)
  qed
  have "holders (hub_view g) t = {sid. served g sid \<and> tenant_of g sid = t}" if "t \<noteq> ''''" for t
    using that by (auto simp: in_holders holds_def hub_view_def served_def)
  then have slots: "slots_taken g t = int (card {sid. served g sid \<and> tenant_of g sid = t})" if "t \<noteq> ''''" for t
    using that hub_invD(2) [OF d(1), of t] by (simp add: slots_taken_def hub_view_def)
  have cap: "slots_taken g t \<le> max 0 (h_maxPerTenant (gw_hub g))" for t
    using hub_invD(4) [OF d(1), of t] by (simp add: slots_taken_def hub_view_def)
  have "triples (gw_presence g) = {(tenant_of g sid, cn_userID (gw_conns g sid), sid) | sid. served g sid \<and> is_authenticated g sid}"
    using d(5) [OF assms(3)] by (simp add: live_triples_def tenant_of_def)
  with peers slots cap d(7) show ?thesis using d(8) unfolding conn_cap_def by blast
qed

theorem node_consistent_witness:
  "fmlookup (h_sessions (gw_hub demo_g1)) demo_sid = Some (cn_subscriptions (gw_conns demo_g1 demo_sid))
    \<and> triples (gw_presence demo_g1) = {}"
proof -
  have p: "ed_presence demo_edge" by (simp add: demo_edge_def)
  note n = node_consistent [OF demo_initial r_into_rtranclp [of "gw_step demo_edge", OF demo_open] p]
  have "fmlookup (h_sessions (gw_hub demo_g1)) demo_sid = Some (cn_subscriptions (gw_conns demo_g1 demo_sid))"
    by (rule mp [OF spec [OF conjunct1 [OF n]] demo_g1_facts(1)])
  moreover note conjunct2 [OF conjunct2 [OF conjunct2 [OF conjunct2 [OF conjunct2 [OF n]]]]]
  ultimately show ?thesis by (simp add: demo_g1_facts(2))
qed

end
