(* ===== verification/Gw_Connection_Close.thy ===== *)
theory Gw_Connection_Close
  imports Gw_Connection_Spec
begin

text \<open>
  How a WebSocket session ends: the writer's drain once the session is closing, what a refused hello
  leaves on the wire, the credential that bounds a session, and what really moves the read deadline.
\<close>

section \<open>The closing drain\<close>

definition drain_rounds :: "string \<Rightarrow> nat \<Rightarrow> gateway \<Rightarrow> gateway" where
  "drain_rounds sid n g = (writer_drain sid True ^^ n) g"

definition texts_of :: "frame list \<Rightarrow> wire list" where
  "texts_of fs = map WText (List.map_filter frame_marshal fs)"

lemma texts_of_simps [simp]:
  "texts_of [] = []" "texts_of (f # fs) = (case frame_marshal f of None \<Rightarrow> [] | Some data \<Rightarrow> [WText data]) @ texts_of fs"
  "texts_of (fs @ gs) = texts_of fs @ texts_of gs"
proof -
  show c: "texts_of [] = []" "texts_of (f # fs) = (case frame_marshal f of None \<Rightarrow> [] | Some data \<Rightarrow> [WText data]) @ texts_of fs" for f fs
    by (auto simp: texts_of_def map_filter_simps split: option.split)
  show "texts_of (fs @ gs) = texts_of fs @ texts_of gs" by (induction fs) (simp_all add: c)
qed

text \<open>What the writer reads and writes of a connection.\<close>

definition out_of :: "gateway \<Rightarrow> string \<Rightarrow> frame list \<times> wire list \<times> (int \<times> string) option \<times> bool" where
  "out_of g sid = (q_ch (ro_qs (gw_router g) sid), cn_wire (gw_conns g sid), cn_closed (gw_conns g sid), cn_writerDone (gw_conns g sid))"

lemma drain_one:
  assumes "out_of g sid = (f # fs, w, z, False)"
  shows "out_of (writer_drain sid True g) sid = (fs, w @ texts_of [f], z, False)"
  using assms by (auto simp: out_of_def writer_drain_def queue_recv_def write_frame_now_def split: option.split)

lemma drain_last:
  assumes "out_of g sid = ([], w, Some (code, reason), False)"
  shows "out_of (writer_drain sid True g) sid = ([], w @ [WClose code reason], Some (code, reason), True)"
  using assms by (simp add: out_of_def writer_drain_def queue_recv_def writer_done_def)

lemma drain_prefix:
  assumes "out_of g sid = (fs @ gs, w, z, False)"
  shows "out_of (drain_rounds sid (length fs) g) sid = (gs, w @ texts_of fs, z, False)"
  using assms
proof (induction fs arbitrary: g w)
  case (Cons f fs)
  from Cons.IH [OF drain_one [OF Cons.prems [simplified]]]
  show ?case by (simp add: drain_rounds_def funpow_swap1)
qed (simp add: drain_rounds_def)

lemma drain_all:
  assumes "out_of g sid = (fs, w, Some (code, reason), False)"
  shows "out_of (drain_rounds sid (Suc (length fs)) g) sid = ([], w @ texts_of fs @ [WClose code reason], Some (code, reason), True)"
  using drain_last [OF drain_prefix [of g sid fs "[]" w "Some (code, reason)"]] assms by (simp add: drain_rounds_def)

lemma demo_writer: "\<not> cn_writerDone (gw_conns demo_g1 demo_sid)"
  by (simp add: demo_g1_def serve_start_def case_prod_unfold Let_def set_read_deadline_def write_frame_now_def demo_conn_def
      split: option.split)

text \<open>
  C15. The drain ends and loses nothing. Once a session is closing, a writer whose writes succeed takes
  exactly one round per queued frame and one more: before the last round it is still running; after it
  the queue is empty, every queued frame that has a JSON form has been written in order, the close
  frame with the recorded code and reason comes last, and the writer has exited.
\<close>

theorem closing_drain:
  assumes "cn_closed (gw_conns g sid) = Some (code, reason)" and "\<not> cn_writerDone (gw_conns g sid)"
  defines "fs \<equiv> q_ch (ro_qs (gw_router g) sid)"
  shows "(\<forall>n \<le> length fs. out_of (drain_rounds sid n g) sid =
      (drop n fs, cn_wire (gw_conns g sid) @ texts_of (take n fs), Some (code, reason), False))
    \<and> out_of (drain_rounds sid (Suc (length fs)) g) sid =
      ([], cn_wire (gw_conns g sid) @ texts_of fs @ [WClose code reason], Some (code, reason), True)"
proof -
  have o: "out_of g sid = (fs, cn_wire (gw_conns g sid), Some (code, reason), False)"
    using assms by (simp add: out_of_def)
  have "out_of (drain_rounds sid n g) sid = (drop n fs, cn_wire (gw_conns g sid) @ texts_of (take n fs), Some (code, reason), False)"
    if "n \<le> length fs" for n
    using drain_prefix [of g sid "take n fs" "drop n fs"] o that by simp
  with drain_all [OF o] show ?thesis by blast
qed

theorem closing_drain_witness:
  "out_of (drain_rounds demo_sid 1 (request_close demo_sid CloseGoingAway ''bye'' demo_now demo_g1)) demo_sid
    = ([], cn_wire (gw_conns demo_g1 demo_sid) @ [WClose CloseGoingAway ''bye''], Some (CloseGoingAway, ''bye''), True)"
proof -
  let ?g = "request_close demo_sid CloseGoingAway ''bye'' demo_now demo_g1"
  have "cn_closed (gw_conns ?g demo_sid) = Some (CloseGoingAway, ''bye'')" "\<not> cn_writerDone (gw_conns ?g demo_sid)"
    "ro_qs (gw_router ?g) demo_sid = queue_new 64 DropNewest" "cn_wire (gw_conns ?g demo_sid) = cn_wire (gw_conns demo_g1 demo_sid)"
    using demo_writer by (simp_all add: request_close_def initiate_close_def demo_g1_facts)
  then show ?thesis using closing_drain [of ?g demo_sid CloseGoingAway "''bye''"] by (simp add: queue_new_def)
qed

text \<open>
  A client whose hello is refused learns it before it is cut off: with room in its queue, what its
  writer puts on the wire from then on is what was already queued, then the auth_failed error, then the
  close frame 1008; nothing says which check of the token failed.
\<close>

theorem refused_hello_is_told:
  assumes "\<not> is_authenticated g sid" and "cn_closed (gw_conns g sid) = None" and "\<not> cn_writerDone (gw_conns g sid)"
    and "verify (ed_hmac e) (ed_ul e) (ed_verifier e) token now = Inl err"
    and "length (q_ch (ro_qs (gw_router g) sid)) < q_cap (ro_qs (gw_router g) sid)"
  shows "\<exists>n. out_of (drain_rounds sid n (snd (handle_hello e sid token wsv now g))) sid =
    ([], cn_wire (gw_conns g sid) @ texts_of (q_ch (ro_qs (gw_router g) sid))
        @ texts_of [new_error CodeAuthFailed ''invalid or expired token''] @ [WClose ClosePolicyViolation ''authentication failed''],
     Some (ClosePolicyViolation, ''authentication failed''), True)"
proof -
  note r = hello_refused [OF assms(1,4), of wsv]
  let ?g = "snd (handle_hello e sid token wsv now g)"
  have "q_ch (ro_qs (gw_router ?g) sid) = q_ch (ro_qs (gw_router g) sid) @ [new_error CodeAuthFailed ''invalid or expired token'']"
    using assms(5) by (simp add: r enqueue_def try_enqueue_def Let_def)
  moreover have "\<not> cn_writerDone (gw_conns ?g sid)"
    using assms(1-4) by (simp add: handle_hello_def initiate_close_def)
  ultimately have "out_of ?g sid = (q_ch (ro_qs (gw_router g) sid) @ [new_error CodeAuthFailed ''invalid or expired token''],
      cn_wire (gw_conns g sid), Some (ClosePolicyViolation, ''authentication failed''), False)"
    using assms(2) by (simp add: out_of_def r first_close_def)
  from drain_all [OF this] show ?thesis unfolding texts_of_simps(3) append_assoc by blast
qed

theorem refused_hello_is_told_witness:
  "\<exists>n. out_of (drain_rounds demo_sid n (snd (handle_hello demo_edge demo_sid ''x'' 2 demo_now demo_g1))) demo_sid =
    ([], cn_wire (gw_conns demo_g1 demo_sid) @ texts_of [new_error CodeAuthFailed ''invalid or expired token'']
       @ [WClose ClosePolicyViolation ''authentication failed''], Some (ClosePolicyViolation, ''authentication failed''), True)"
proof -
  have "verify (ed_hmac demo_edge) (ed_ul demo_edge) (ed_verifier demo_edge) ''x'' demo_now = Inl ErrMalformed"
  proof -
    have "split_on (CHR ''.'') ''x'' = [''x'']" by code_simp
    then show ?thesis by (simp add: verify_def)
  qed
  from refused_hello_is_told [OF demo_g1_facts(2,3) demo_writer this, of 2] show ?thesis
    by (simp add: demo_g1_facts queue_new_def)
qed

section \<open>The credential bounds the session\<close>

lemma identity_kept:
  assumes "(gw_step e)\<^sup>*\<^sup>* g g'" and "is_authenticated g sid"
  shows "is_authenticated g' sid \<and> who g' sid = who g sid"
  using assms(1)
proof (induction rule: rtranclp_induct)
  case (step g1 g2)
  then have "who g2 sid = who g1 sid" using who_step [OF step.hyps(2), of sid] by blast
  with step.IH show ?case by (auto simp: who_def is_authenticated_def ident_of_def Let_def)
qed (simp add: assms(2))

text \<open>The ticker's loop is a run of the node.\<close>

lemma heartbeat_run: "served g sid \<Longrightarrow> (gw_step e)\<^sup>*\<^sup>* g (heartbeat e sid ticks g)"
proof (induction e sid ticks g rule: heartbeat.induct)
  case (2 e sid ok now ticks g)
  obtain alive g1 where p: "ping_once e sid ok now g = (alive, g1)" by (metis surj_pair)
  then have step: "gw_step e g g1" using gs_tick [OF 2(2), of e ok now] by simp
  have "served g1 sid" using 2(2) coreD(1) [OF core_ping [of e sid ok now g]] by (simp add: served_def p)
  then show ?case using 2(1) [OF _ p [symmetric] refl] step p by (auto intro: converse_rtranclp_into_rtranclp)
qed simp

text \<open>
  C35. The edge never keeps a session past its credential. Once a connection has authenticated, in every
  later state of the node the first heartbeat round more than the grace after the token's expiry ends
  it: the session is closed (with 1008 and token_expired, unless it was closing already), however
  recently the client was active, and the round asks its goroutine to stop.
\<close>

theorem credential_bounds_session:
  assumes "gw_initial e g0" and "(gw_step e)\<^sup>*\<^sup>* g0 g" and "is_authenticated g sid" and "(gw_step e)\<^sup>*\<^sup>* g g'"
    and "cn_tokenExpiry (gw_conns g sid) \<noteq> zero_time" and "time_add (cn_tokenExpiry (gw_conns g sid)) token_expiry_grace < now"
  shows "\<not> fst (ping_once e sid ok now g')
    \<and> cn_closed (gw_conns (snd (ping_once e sid ok now g')) sid) = first_close g' sid ClosePolicyViolation ''token_expired''"
proof -
  have "who g' sid = who g sid" using identity_kept [OF assms(4,3)] by blast
  then have "cn_tokenExpiry (gw_conns g' sid) = cn_tokenExpiry (gw_conns g sid)" by (simp add: who_def ident_of_def Let_def)
  with assms(5,6) show ?thesis by (simp add: ping_once_def Let_def first_close_def split: option.split)
qed

theorem credential_bounds_session_witness:
  "\<exists>g'. (gw_step demo_edge)\<^sup>*\<^sup>* demo_g0 g' \<and> is_authenticated g' demo_sid
    \<and> \<not> fst (ping_once demo_edge demo_sid True (1700000931 * second) g')"
proof -
  obtain data where d: "gw_step demo_edge demo_g1 (snd (read_round demo_edge demo_sid (InText data) demo_now (Inl '''') demo_g1))"
    "who (snd (read_round demo_edge demo_sid (InText data) demo_now (Inl '''') demo_g1)) demo_sid
      = (cl_TenantID demo_claims, cl_UserID demo_claims, cl_Role demo_claims, cl_ExpiresAt demo_claims)"
    by (rule demo_hello)
  let ?g = "snd (read_round demo_edge demo_sid (InText data) demo_now (Inl '''') demo_g1)"
  have r: "(gw_step demo_edge)\<^sup>*\<^sup>* demo_g0 ?g" using demo_open d(1) by (meson converse_rtranclp_into_rtranclp r_into_rtranclp)
  have a: "is_authenticated ?g demo_sid"
    using d(2) verified_ids(1) [OF demo_verify] by (simp add: who_def is_authenticated_def ident_of_def Let_def)
  have x: "cn_tokenExpiry (gw_conns ?g demo_sid) = 1700000900 * second"
    using d(2) by (simp add: who_def ident_of_def Let_def demo_claims_def)
  have "\<not> fst (ping_once demo_edge demo_sid True (1700000931 * second) ?g)"
    by (rule conjunct1 [OF credential_bounds_session [OF demo_initial r a rtranclp.rtrancl_refl]])
      (simp_all add: x time_add_def zero_time_def token_expiry_grace_def second_def)
  with r a show ?thesis by blast
qed

section \<open>What moves the read deadline\<close>

text \<open>
  For an authenticated session no data frame moves the read deadline, whatever it holds: only the
  pong handler does, so a session that keeps sending frames and answers no ping runs into the deadline
  of its last pong.
\<close>

theorem data_keeps_deadline:
  assumes "is_authenticated g sid"
  shows "cn_readDeadline (gw_conns (snd (read_round e sid inb now gen g)) sid) = cn_readDeadline (gw_conns g sid)
    \<and> cn_readDeadline (gw_conns (pong_handler e sid now g) sid) = time_add now (cf_PongTimeout (ed_cfg e))"
proof -
  let ?d = "\<lambda>g. cn_readDeadline (gw_conns g sid)"
  let ?g = "snd (allow_message sid now (tally message_read (touch sid now g)))"
  have a: "is_authenticated ?g sid" using assms authenticated_core [of ?g g] by simp
  have m: "?d (snd (dispatch e sid msg now gen h)) = ?d h" if "is_authenticated h sid" for msg h
    using that by (simp add: dispatch_def handle_hello_def handle_subscribe_def handle_unsubscribe_def send_error_def mirror_unsubscribe_def
        mirror_subscribe_def Let_def split: option.split prod.split sum.split)
  have t: "?d ?g = ?d g" "?d (touch sid now g) = ?d g" by (simp_all add: allow_message_def touch_def case_prod_unfold Let_def)
  have "?d (snd (read_round e sid inb now gen g)) = ?d g"
    using a by (cases inb) (simp_all add: read_round_def case_prod_unfold Let_def m t send_error_def split: sum.split)
  then show ?thesis by (simp add: pong_handler_def set_read_deadline_def)
qed

theorem data_keeps_deadline_witness:
  "\<exists>g. is_authenticated g demo_sid \<and> cn_readDeadline (gw_conns g demo_sid) = 7
    \<and> cn_readDeadline (gw_conns (snd (read_round demo_edge demo_sid (InText ''hi'') demo_now (Inl '''') g)) demo_sid) = 7"
proof -
  let ?g = "upd_conn demo_sid (\<lambda>c. c\<lparr>cn_tenantID := ''t'', cn_readDeadline := 7\<rparr>) demo_g1"
  have "is_authenticated ?g demo_sid" "cn_readDeadline (gw_conns ?g demo_sid) = 7" by (simp_all add: is_authenticated_def)
  with data_keeps_deadline [of ?g demo_sid demo_edge "InText ''hi''" demo_now "Inl ''''"] show ?thesis by metis
qed

datatype liveness = Pong time | Tick time

definition live_step :: "edge \<Rightarrow> string \<Rightarrow> liveness \<Rightarrow> gateway \<Rightarrow> gateway" where
  "live_step e sid ev g = (case ev of Pong now \<Rightarrow> pong_handler e sid now g | Tick now \<Rightarrow> snd (ping_once e sid True now g))"

definition idling :: "gateway \<Rightarrow> string \<Rightarrow> bool" where
  "idling g sid \<longleftrightarrow> served g sid \<and> \<not> is_authenticated g sid \<and> cn_closed (gw_conns g sid) = None \<and> cn_tokenExpiry (gw_conns g sid) = zero_time"

lemma idling_step:
  assumes "idling g sid"
  shows "gw_step e g (live_step e sid ev g)" "idling (live_step e sid ev g) sid"
    "ev = Pong now \<Longrightarrow> cn_readDeadline (gw_conns (live_step e sid ev g) sid) = time_add now (cf_PongTimeout (ed_cfg e))"
    "ev = Tick now \<Longrightarrow> cn_readDeadline (gw_conns (live_step e sid ev g) sid) = cn_readDeadline (gw_conns g sid)"
proof -
  have s: "served g sid" using assms by (simp add: idling_def)
  show "gw_step e g (live_step e sid ev g)"
    using gs_pong [OF s] gs_tick [OF s] by (cases ev) (simp_all add: live_step_def)
  have c: "core (live_step e sid ev g) = core g" by (cases ev) (simp_all add: live_step_def)
  from coreD(4) [OF c, of sid] have x: "cn_tokenExpiry (gw_conns (live_step e sid ev g) sid) = cn_tokenExpiry (gw_conns g sid)"
    by (simp add: ident_of_def)
  have "cn_closed (gw_conns (live_step e sid ev g) sid) = None"
    using assms by (cases ev) (simp_all add: live_step_def idling_def pong_handler_def set_read_deadline_def touch_def ping_once_def Let_def)
  with x assms show "idling (live_step e sid ev g) sid"
    using authenticated_core [OF c] coreD(1) [OF c] by (simp add: idling_def served_def)
qed (use assms in \<open>simp_all add: live_step_def idling_def pong_handler_def set_read_deadline_def touch_def ping_once_def Let_def\<close>)

definition last_pong :: "time option \<Rightarrow> liveness list \<Rightarrow> time option" where
  "last_pong t evs = fold (\<lambda>ev t. case ev of Pong now \<Rightarrow> Some now | Tick now \<Rightarrow> t) evs t"

text \<open>
  The authentication deadline is not enforced against a client that pongs. From an open,
  registered connection without identity, any sequence of pongs and heartbeat rounds is a run of the
  node that leaves it open and registered, and its read deadline is the last pong plus the pong
  timeout: the short hello deadline is gone after the first pong.
\<close>

theorem pongs_defer_hello:
  assumes "idling g sid"
  shows "(gw_step e)\<^sup>*\<^sup>* g (fold (live_step e sid) evs g) \<and> idling (fold (live_step e sid) evs g) sid
    \<and> cn_readDeadline (gw_conns (fold (live_step e sid) evs g) sid) =
      (case last_pong None evs of None \<Rightarrow> cn_readDeadline (gw_conns g sid) | Some t \<Rightarrow> time_add t (cf_PongTimeout (ed_cfg e)))"
proof (induction evs rule: rev_induct)
  case (snoc ev evs)
  let ?g = "fold (live_step e sid) evs g"
  have i: "idling ?g sid" using snoc by blast
  have "(gw_step e)\<^sup>*\<^sup>* g (live_step e sid ev ?g)"
    using snoc idling_step(1) [OF i, of e ev] by (meson rtranclp.rtrancl_into_rtrancl)
  then show ?case using snoc idling_step(2-4) [OF i] by (cases ev) (simp_all add: last_pong_def)
qed (simp add: assms last_pong_def)

theorem pongs_defer_hello_witness:
  "cn_readDeadline (gw_conns (fold (live_step demo_edge demo_sid) [Pong demo_now, Tick 0, Pong (demo_now + 3600 * second)] demo_g1) demo_sid)
    = time_add (demo_now + 3600 * second) (60 * second)"
proof -
  have "idling demo_g1 demo_sid" by (simp add: idling_def demo_g1_facts)
  from pongs_defer_hello [OF this, of demo_edge "[Pong demo_now, Tick 0, Pong (demo_now + 3600 * second)]"]
  show ?thesis by (simp add: last_pong_def demo_cfg)
qed

end
