(* ===== verification/Gw_Broker.thy ===== *)
theory Gw_Broker
  imports Gw_Validate
begin

text \<open>
  The fan-out transport of the ingest side (\<open>internal/broker\<close>): the envelope and its accounting, the
  single-node broker, and the contract both brokers keep towards their users. A handler is a value of
  an arbitrary type; \<open>run\<close> says what calling it with an envelope does to the rest of the node, where
  \<open>None\<close> is a panic.
\<close>

section \<open>The interface\<close>

datatype publish_error = ErrClosed | PublishPanics

record envelope =
  en_Topic :: string
  en_Payload :: string
  en_Origin :: string
  en_Local :: bool
  en_At :: time

record broker_stats =
  bs_Delivered :: int
  bs_Dropped :: int

definition no_stats :: broker_stats where
  "no_stats = \<lparr>bs_Delivered = 0, bs_Dropped = 0\<rparr>"

definition stats_add :: "broker_stats \<Rightarrow> broker_stats \<Rightarrow> broker_stats" where
  "stats_add s other = \<lparr>bs_Delivered = bs_Delivered s + bs_Delivered other, bs_Dropped = bs_Dropped s + bs_Dropped other\<rparr>"

type_synonym ('h, 's) runner = "'h \<Rightarrow> envelope \<Rightarrow> 's \<Rightarrow> broker_stats option \<times> 's"

section \<open>The memory broker\<close>

text \<open>A slot of a handler list is \<open>None\<close> once it has been unsubscribed.\<close>

record 'h memory_broker =
  mb_nodeID :: string
  mb_handlers :: "(string, 'h option list) fmap"
  mb_closed :: bool

definition new_node_id :: "string + 8 word list \<Rightarrow> string" where
  "new_node_id rnd = (case rnd of Inl err \<Rightarrow> ''gw-norand'' | Inr b \<Rightarrow> ''gw-'' @ hex_bytes b)"

definition new_memory :: "string + 8 word list \<Rightarrow> 'h memory_broker" where
  "new_memory rnd = \<lparr>mb_nodeID = new_node_id rnd, mb_handlers = fmempty, mb_closed = False\<rparr>"

text \<open>\<open>call\<close> contains a panic: the subscriber's accounting is zero.\<close>

definition mb_call :: "('h, 's) runner \<Rightarrow> 'h \<Rightarrow> envelope \<Rightarrow> 's \<Rightarrow> broker_stats \<times> 's" where
  "mb_call run h env s = (let (r, s') = run h env s in (case r of None \<Rightarrow> no_stats | Some st \<Rightarrow> st, s'))"

fun invoke_all :: "('h, 's) runner \<Rightarrow> envelope \<Rightarrow> 'h option list \<Rightarrow> broker_stats \<Rightarrow> 's \<Rightarrow> broker_stats \<times> 's" where
  "invoke_all run env [] acc s = (acc, s)"
| "invoke_all run env (None # hs) acc s = invoke_all run env hs acc s"
| "invoke_all run env (Some h # hs) acc s =
     (let (st, s') = mb_call run h env s in invoke_all run env hs (stats_add acc st) s')"

definition mb_deliver :: "('h, 's) runner \<Rightarrow> 'h memory_broker \<Rightarrow> envelope \<Rightarrow> 's \<Rightarrow> broker_stats \<times> 's" where
  "mb_deliver run b env s = invoke_all run env (fmget [] (mb_handlers b) (en_Topic env)) no_stats s"

definition mb_publish ::
  "('h, 's) runner \<Rightarrow> 'h memory_broker \<Rightarrow> string \<Rightarrow> string \<Rightarrow> time \<Rightarrow> 's \<Rightarrow> (publish_error + broker_stats) \<times> 's"
where
  "mb_publish run b topic payload now s =
     (if mb_closed b then (Inl ErrClosed, s)
      else
        let (st, s') = mb_deliver run b
              \<lparr>en_Topic = topic, en_Payload = payload, en_Origin = mb_nodeID b, en_Local = True, en_At = now\<rparr> s
        in (Inr st, s'))"

text \<open>\<open>Subscribe\<close> returns the slot its unsubscribe function will clear.\<close>

definition mb_subscribe :: "'h memory_broker \<Rightarrow> string \<Rightarrow> 'h \<Rightarrow> nat \<times> 'h memory_broker" where
  "mb_subscribe b topic h =
     (let hs = fmget [] (mb_handlers b) topic @ [Some h]
      in (length hs - 1, b\<lparr>mb_handlers := fmupd topic hs (mb_handlers b)\<rparr>))"

definition mb_unsubscribe :: "'h memory_broker \<Rightarrow> string \<Rightarrow> nat \<Rightarrow> 'h memory_broker" where
  "mb_unsubscribe b topic idx =
     (let hs = fmget [] (mb_handlers b) topic
      in if idx < length hs then b\<lparr>mb_handlers := fmupd topic (hs[idx := None]) (mb_handlers b)\<rparr> else b)"

definition mb_close :: "'h memory_broker \<Rightarrow> 'h memory_broker" where
  "mb_close b = b\<lparr>mb_closed := True\<rparr>"

section \<open>Who is subscribed\<close>

text \<open>
  The abstract view: the tickets handed out and not yet returned, a ticket being a topic and a slot,
  in the order of their subscriptions.
\<close>

type_synonym 'h tickets = "((string \<times> nat) \<times> 'h) list"

datatype 'h sub_op = Subscribe string 'h | Unsubscribe string nat

definition broker_op :: "'h memory_broker \<Rightarrow> 'h sub_op \<Rightarrow> 'h memory_broker" where
  "broker_op b p = (case p of Subscribe t h \<Rightarrow> snd (mb_subscribe b t h) | Unsubscribe t i \<Rightarrow> mb_unsubscribe b t i)"

text \<open>The specification: a subscription is one new entry, an unsubscription removes its own.\<close>

definition ticket_op :: "'h memory_broker \<Rightarrow> 'h tickets \<Rightarrow> 'h sub_op \<Rightarrow> 'h tickets" where
  "ticket_op b ts p =
     (case p of Subscribe t h \<Rightarrow> ts @ [((t, fst (mb_subscribe b t h)), h)] | Unsubscribe t i \<Rightarrow> filter (\<lambda>(k, h). k \<noteq> (t, i)) ts)"

fun sub_run :: "'h memory_broker \<Rightarrow> 'h tickets \<Rightarrow> 'h sub_op list \<Rightarrow> 'h memory_broker \<times> 'h tickets" where
  "sub_run b ts [] = (b, ts)"
| "sub_run b ts (p # ps) = sub_run (broker_op b p) (ticket_op b ts p) ps"

definition slots_of :: "string \<Rightarrow> 'h option list \<Rightarrow> 'h tickets" where
  "slots_of t hs = List.map_filter (\<lambda>(i, x). map_option (\<lambda>h. ((t, i), h)) x) (enumerate 0 hs)"

definition on_topic :: "string \<Rightarrow> 'h tickets \<Rightarrow> 'h tickets" where
  "on_topic t ts = filter (\<lambda>((t', i), h). t' = t) ts"

definition holds_tickets :: "'h memory_broker \<Rightarrow> 'h tickets \<Rightarrow> bool" where
  "holds_tickets b ts \<longleftrightarrow> (\<forall>t. slots_of t (fmget [] (mb_handlers b) t) = on_topic t ts)"

lemma slots_of_Nil [simp]: "slots_of t [] = []"
  by (simp add: slots_of_def map_filter_simps)

lemma map_filter_append: "List.map_filter f (xs @ ys) = List.map_filter f xs @ List.map_filter f ys"
  by (induction xs) (simp_all add: map_filter_simps split: option.split)

lemma slots_of_snoc: "slots_of t (hs @ [x]) = slots_of t hs @ (case x of None \<Rightarrow> [] | Some h \<Rightarrow> [((t, length hs), h)])"
  by (simp add: slots_of_def enumerate_append_eq map_filter_append map_filter_simps split: option.split)

lemma slots_of_bound: "((t', i), h) \<in> set (slots_of t hs) \<Longrightarrow> t' = t \<and> i < length hs"
  by (induction hs rule: rev_induct) (auto simp: slots_of_snoc split: option.splits)

lemma slots_of_clear: "slots_of t (hs[i := None]) = filter (\<lambda>(k, h). k \<noteq> (t, i)) (slots_of t hs)"
proof (induction hs rule: rev_induct)
  case (snoc x hs)
  have "filter (\<lambda>(k, h). k \<noteq> (t, length hs)) (slots_of t hs) = slots_of t hs"
    using slots_of_bound by (intro filter_True) fastforce
  then show ?case using snoc list_update_beyond [of "hs @ [x]" i None] list_update_beyond [of hs i None]
    by (cases "i < length hs"; cases "i = length hs")
      (auto simp: list_update_append1 slots_of_snoc split: option.split)
qed simp

lemma filter_topic_ticket:
  "on_topic t (filter (\<lambda>(k, h). k \<noteq> (t', i)) ts) = (if t = t' then filter (\<lambda>(k, h). k \<noteq> (t, i)) (on_topic t ts) else on_topic t ts)"
  by (induction ts) (auto simp: on_topic_def)

lemma broker_op_tickets:
  assumes "holds_tickets b ts"
  shows "holds_tickets (broker_op b p) (ticket_op b ts p)"
proof (cases p)
  case (Subscribe t h)
  show ?thesis using assms
    by (simp add: holds_tickets_def broker_op_def ticket_op_def Subscribe mb_subscribe_def Let_def slots_of_snoc)
      (simp add: on_topic_def)
next
  case (Unsubscribe t i)
  have s: "slots_of t' (fmget [] (mb_handlers b) t') = on_topic t' ts" for t' using assms by (simp add: holds_tickets_def)
  have "filter (\<lambda>(k, h). k \<noteq> (t, i)) (on_topic t ts) = on_topic t ts" if "\<not> i < length (fmget [] (mb_handlers b) t)"
  proof (rule filter_True, rule ballI)
    fix x assume "x \<in> set (on_topic t ts)"
    then have "x \<in> set (slots_of t (fmget [] (mb_handlers b) t))" using s by simp
    then show "case x of (k, h) \<Rightarrow> k \<noteq> (t, i)" using that slots_of_bound [of t i "snd x" t] by (cases x) auto
  qed
  then show ?thesis using s
    by (simp add: holds_tickets_def broker_op_def ticket_op_def Unsubscribe mb_unsubscribe_def Let_def slots_of_clear filter_topic_ticket)
qed

text \<open>Calling handlers one after the other, and the sum of what they report.\<close>

fun call_all :: "('h, 's) runner \<Rightarrow> envelope \<Rightarrow> 'h list \<Rightarrow> 's \<Rightarrow> broker_stats list \<times> 's" where
  "call_all run env [] s = ([], s)"
| "call_all run env (h # hs) s =
     (let (st, s1) = mb_call run h env s; (sts, s2) = call_all run env hs s1 in (st # sts, s2))"

definition total_stats :: "broker_stats list \<Rightarrow> broker_stats" where
  "total_stats sts = \<lparr>bs_Delivered = sum_list (map bs_Delivered sts), bs_Dropped = sum_list (map bs_Dropped sts)\<rparr>"

lemma invoke_all_calls:
  "invoke_all run env hs acc s =
     (let (sts, s') = call_all run env (map snd (slots_of t hs)) s in (stats_add acc (total_stats sts), s'))"
proof -
  have "map snd (slots_of t hs) = List.map_filter id hs"
    by (induction hs rule: rev_induct) (auto simp: slots_of_snoc map_filter_append map_filter_simps split: option.split)
  moreover have "invoke_all run env hs acc s =
      (let (sts, s') = call_all run env (List.map_filter id hs) s in (stats_add acc (total_stats sts), s'))"
    by (induction run env hs acc s rule: invoke_all.induct)
      (auto simp: map_filter_simps total_stats_def stats_add_def Let_def split: prod.split)
  ultimately show ?thesis by simp
qed

text \<open>
  C36. The broker calls exactly its subscribers. After any history of subscribes and unsubscribes, a
  publish on an open broker calls the handlers whose tickets for that topic are still out, each once,
  in the order they subscribed, with the same envelope, and reports the sum of what they report (a
  panicking one counts as zero); returning a ticket affects no other one, and a closed broker calls
  nobody.
\<close>

theorem broker_calls_subscribers:
  assumes "sub_run (new_memory rnd) [] ops = (b, tickets)"
  shows "mb_publish run b topic payload now s =
      (let env = \<lparr>en_Topic = topic, en_Payload = payload, en_Origin = new_node_id rnd, en_Local = True, en_At = now\<rparr>;
           (sts, s') = call_all run env (map snd (on_topic topic tickets)) s
       in (Inr (total_stats sts), s'))
    \<and> mb_publish run (mb_close b) topic payload now s = (Inl ErrClosed, s)"
proof -
  have inv: "holds_tickets b' ts' \<and> mb_nodeID b' = mb_nodeID b0 \<and> mb_closed b' = mb_closed b0"
    if "sub_run b0 ts0 ops = (b', ts')" "holds_tickets b0 ts0" for b0 :: "'a memory_broker" and ts0 b' ts'
    using that
  proof (induction ops arbitrary: b0 ts0)
    case (Cons p ops)
    have "mb_nodeID (broker_op b0 p) = mb_nodeID b0 \<and> mb_closed (broker_op b0 p) = mb_closed b0"
      by (simp add: broker_op_def mb_subscribe_def mb_unsubscribe_def Let_def split: sub_op.split)
    with Cons broker_op_tickets [OF Cons.prems(2), of p] show ?case by simp
  qed simp
  have "holds_tickets (new_memory rnd :: 'a memory_broker) []" by (simp add: holds_tickets_def new_memory_def on_topic_def)
  from inv [OF assms this] have "slots_of topic (fmget [] (mb_handlers b) topic) = on_topic topic tickets"
    "mb_nodeID b = new_node_id rnd" "\<not> mb_closed b"
    by (simp_all add: holds_tickets_def new_memory_def)
  then show ?thesis
    by (simp add: mb_publish_def mb_deliver_def invoke_all_calls [where t = topic] mb_close_def Let_def case_prod_unfold stats_add_def no_stats_def total_stats_def)
qed

definition demo_subs :: "nat memory_broker \<times> nat tickets" where
  "demo_subs = sub_run (new_memory (Inl '''')) []
     [Subscribe ''a'' 1, Subscribe ''a'' 2, Subscribe ''b'' 3, Unsubscribe ''a'' 0, Subscribe ''a'' 4]"

theorem broker_calls_subscribers_witness:
  "mb_publish (\<lambda>h env s. (Some \<lparr>bs_Delivered = 1, bs_Dropped = 0\<rparr>, s @ [(h, en_Payload env)])) (fst demo_subs) ''a'' ''p'' 0 []
    = (Inr \<lparr>bs_Delivered = 2, bs_Dropped = 0\<rparr>, [(2, ''p''), (4, ''p'')])"
proof -
  have t: "snd demo_subs = [((''a'', 1), 2), ((''b'', 0), 3), ((''a'', 2), 4)]"
    by (simp add: demo_subs_def broker_op_def ticket_op_def mb_subscribe_def mb_unsubscribe_def new_memory_def Let_def)
  have "sub_run (new_memory (Inl '''')) [] [Subscribe ''a'' 1, Subscribe ''a'' 2, Subscribe ''b'' 3, Unsubscribe ''a'' 0, Subscribe ''a'' 4]
      = (fst demo_subs, snd demo_subs)"
    by (simp only: demo_subs_def prod.collapse)
  from broker_calls_subscribers [OF this, of "\<lambda>h env s. (Some \<lparr>bs_Delivered = 1, bs_Dropped = 0\<rparr>, s @ [(h, en_Payload env)])" "''a''" "''p''" 0 "[]"]
  show ?thesis by (simp add: t on_topic_def mb_call_def total_stats_def Let_def)
qed

section \<open>What every transport promises\<close>

text \<open>
  The contract of the \<open>Broker\<close> interface as its users rely on it: whatever else a transport does, the
  local delivery and its accounting are those of the subscription table of this node, and a closed
  transport refuses without calling anybody. \<open>'x\<close> stands for what the network did meanwhile.
\<close>

definition home_envelope :: "'h memory_broker \<Rightarrow> string \<Rightarrow> string \<Rightarrow> time \<Rightarrow> envelope" where
  "home_envelope b topic payload now = \<lparr>en_Topic = topic, en_Payload = payload, en_Origin = mb_nodeID b, en_Local = True, en_At = now\<rparr>"

locale transport =
  fixes table :: "'b \<Rightarrow> 'h memory_broker"
    and shut :: "'b \<Rightarrow> bool"
    and publish :: "('h, 's) runner \<Rightarrow> 'x \<Rightarrow> 'b \<Rightarrow> string \<Rightarrow> string \<Rightarrow> time \<Rightarrow> 's \<Rightarrow> (publish_error + broker_stats) \<times> 'b \<times> 's"
    and close :: "'b \<Rightarrow> 'b"
  assumes refuses: "shut b \<Longrightarrow> publish run x b topic payload now s = (Inl ErrClosed, b, s)"
    and delivers: "\<not> shut b \<Longrightarrow>
      snd (snd (publish run x b topic payload now s)) = snd (mb_deliver run (table b) (home_envelope (table b) topic payload now) s)"
    and accounts: "\<not> shut b \<Longrightarrow> fst (publish run x b topic payload now s) \<noteq> Inl PublishPanics \<Longrightarrow>
      fst (publish run x b topic payload now s) = Inr (fst (mb_deliver run (table b) (home_envelope (table b) topic payload now) s))"
    and keeps: "table (fst (snd (publish run x b topic payload now s))) = table b" "shut (fst (snd (publish run x b topic payload now s))) = shut b"
    and closing: "shut (close b)"
begin

text \<open>The local effect of a publish does not depend on the transport's network.\<close>

lemma network_irrelevant: "snd (snd (publish run x b topic payload now s)) = snd (snd (publish run y b topic payload now s))"
  by (cases "shut b") (simp_all add: refuses delivers)

lemma closed_for_good: "publish run x (close b) topic payload now s = (Inl ErrClosed, close b, s)"
  by (rule refuses [OF closing])

text \<open>A history of publishes reaches the handlers as the same history of local deliveries.\<close>

fun publish_all :: "('h, 's) runner \<Rightarrow> 'b \<Rightarrow> ('x \<times> string \<times> string \<times> time) list \<Rightarrow> 's \<Rightarrow> 'b \<times> 's" where
  "publish_all run b [] s = (b, s)"
| "publish_all run b ((x, topic, payload, now) # ps) s =
     (case publish run x b topic payload now s of (r, b', s') \<Rightarrow> publish_all run b' ps s')"

lemma publish_all_local:
  assumes "\<not> shut b"
  shows "snd (publish_all run b ps s) =
      fold (\<lambda>(x, topic, payload, now) s. snd (mb_deliver run (table b) (home_envelope (table b) topic payload now) s)) ps s
    \<and> table (fst (publish_all run b ps s)) = table b \<and> \<not> shut (fst (publish_all run b ps s))"
  using assms
proof (induction run b ps s rule: publish_all.induct)
  case (2 run b x topic payload now ps s)
  obtain r b' s' where p: "publish run x b topic payload now s = (r, b', s')" by (metis prod_cases3)
  have "s' = snd (mb_deliver run (table b) (home_envelope (table b) topic payload now) s)" "table b' = table b" "\<not> shut b'"
    using delivers [OF 2(2), of run x topic payload now s] keeps [of run x b topic payload now s] 2(2) by (simp_all add: p)
  with 2(1) [OF p [symmetric] refl] show ?case by (simp add: p)
qed simp

end

interpretation mem: transport "\<lambda>b. b" mb_closed "\<lambda>run (x :: unit) b topic payload now s.
    let (r, s') = mb_publish run b topic payload now s in (r, b, s')" mb_close
  by unfold_locales (simp_all add: mb_publish_def mb_close_def home_envelope_def case_prod_unfold Let_def)

end
