(* ===== verification/Gw_Resp.thy ===== *)
theory Gw_Resp
  imports Gw_Strconv
begin

text \<open>
  The Redis serialization protocol as the hand-written client of \<open>internal/broker/redis.go\<close> speaks it:
  the commands it writes and the replies it reads off the buffered stream. A stream is the bytes that
  will still arrive before the connection fails or its deadline passes; every read returns what is left
  of it, also when it fails, because the client goes on reading from there.
\<close>

section \<open>Writing commands\<close>

definition crlf :: string where "crlf = [CHR 0x0D, CHR 0x0A]"

definition bulk :: "string \<Rightarrow> string" where
  "bulk arg = ''$'' @ dec_nat (length arg) @ crlf @ arg @ crlf"

definition write_command :: "string list \<Rightarrow> string" where
  "write_command args = ''*'' @ dec_nat (length args) @ crlf @ concat (map bulk args)"

lemma length_crlf [simp]: "length crlf = 2"
  by (simp add: crlf_def)

section \<open>Reading replies\<close>

text \<open>A simple string and a bulk string are the same Go value.\<close>

datatype resp = RStr string | RErr string | RInt int | RNil | RArr "resp list"

text \<open>\<open>RespPanic\<close>: a declared length no slice can have makes the runtime panic.\<close>

datatype resp_error = RespIO | RespMalformed | RespInteger | RespLength | RespType | RespPanic | RespFuel

text \<open>\<open>ReadString\<close>: the line with its newline, and the rest.\<close>

definition read_line :: "string \<Rightarrow> (string \<times> string) option" where
  "read_line s =
     (case dropWhile (\<lambda>c. c \<noteq> CHR 0x0A) s of
        [] \<Rightarrow> None
      | c # rest \<Rightarrow> Some (takeWhile (\<lambda>c. c \<noteq> CHR 0x0A) s @ [c], rest))"

text \<open>The most bytes one allocation may have on a 64-bit platform; an interface value takes sixteen.\<close>

definition max_alloc :: int where "max_alloc = 2 ^ 48"

text \<open>What the first line of a reply leads to: a result, or an array with that many items to follow.\<close>

definition reply_head :: "string \<Rightarrow> string \<Rightarrow> (resp_error + resp) \<times> string + int" where
  "reply_head line rest =
     (if length line < 3 \<or> line ! (length line - 2) \<noteq> CHR 0x0D then Inl (Inl RespMalformed, rest)
      else
        let payload = drop 1 (take (length line - 2) line) in
        if hd line = CHR ''+'' then Inl (Inr (RStr payload), rest)
        else if hd line = CHR ''-'' then Inl (Inr (RErr payload), rest)
        else if hd line = CHR '':'' then
          (case atoi payload of None \<Rightarrow> Inl (Inl RespInteger, rest) | Some n \<Rightarrow> Inl (Inr (RInt n), rest))
        else if hd line = CHR ''$'' then
          (case atoi payload of
             None \<Rightarrow> Inl (Inl RespLength, rest)
           | Some n \<Rightarrow>
               if n < 0 then Inl (Inr RNil, rest)
               else if n + 2 > max_alloc then Inl (Inl RespPanic, rest)
               else if int (length rest) < n + 2 then Inl (Inl RespIO, [])
               else Inl (Inr (RStr (take (nat n) rest)), drop (nat n + 2) rest))
        else if hd line = CHR ''*'' then
          (case atoi payload of
             None \<Rightarrow> Inl (Inl RespLength, rest)
           | Some n \<Rightarrow>
               if n < 0 then Inl (Inr RNil, rest)
               else if 16 * n > max_alloc then Inl (Inl RespPanic, rest)
               else Inr n)
        else Inl (Inl RespType, rest))"

fun read_reply :: "nat \<Rightarrow> string \<Rightarrow> (resp_error + resp) \<times> string"
  and read_items :: "nat \<Rightarrow> int \<Rightarrow> string \<Rightarrow> (resp_error + resp list) \<times> string" where
  "read_reply 0 s = (Inl RespFuel, s)"
| "read_reply (Suc fuel) s =
     (case read_line s of
        None \<Rightarrow> (Inl RespIO, [])
      | Some (line, rest) \<Rightarrow>
          (case reply_head line rest of
             Inl done \<Rightarrow> done
           | Inr n \<Rightarrow>
               (case read_items fuel n rest of
                  (Inl err, rest') \<Rightarrow> (Inl err, rest')
                | (Inr items, rest') \<Rightarrow> (Inr (RArr items), rest'))))"
| "read_items 0 n s = (Inl RespFuel, s)"
| "read_items (Suc fuel) n s =
     (if n \<le> 0 then (Inr [], s)
      else (case read_reply fuel s of
          (Inl err, rest) \<Rightarrow> (Inl err, rest)
        | (Inr item, rest) \<Rightarrow>
            (case read_items fuel (n - 1) rest of
               (Inl err, rest') \<Rightarrow> (Inl err, rest')
             | (Inr items, rest') \<Rightarrow> (Inr (item # items), rest'))))"

declare read_reply.simps [simp del] read_items.simps [simp del]

text \<open>Every value takes at least three bytes of the stream, so this much fuel never runs out.\<close>

definition read_value :: "string \<Rightarrow> (resp_error + resp) \<times> string" where
  "read_value s = read_reply (2 * length s + 2) s"

lemma read_line_split:
  assumes "read_line s = Some (line, rest)"
  shows "s = line @ rest" "line \<noteq> []"
  using assms by (auto simp: read_line_def split: list.splits)
    (metis append.assoc append_Cons append_Nil takeWhile_dropWhile_id)

lemma read_line_rest: "read_line s = Some (line, rest) \<Longrightarrow> length rest < length s"
  using read_line_split by fastforce

lemma reply_head_rest:
  assumes "reply_head line rest = Inl done"
  shows "length (snd done) \<le> length rest \<and> fst done \<noteq> Inl RespFuel"
proof -
  have "case reply_head line rest of Inl d \<Rightarrow> length (snd d) \<le> length rest \<and> fst d \<noteq> Inl RespFuel | Inr n \<Rightarrow> True"
    unfolding reply_head_def Let_def by (simp split: option.split)
  with assms show ?thesis by simp
qed

lemma read_shrinks:
  "length (snd (read_reply fuel s)) \<le> length s" "is_ok (fst (read_reply fuel s)) \<Longrightarrow> length (snd (read_reply fuel s)) < length s"
  "length (snd (read_items fuel n s)) \<le> length s"
proof -
  have "(\<forall>s. length (snd (read_reply fuel s)) \<le> length s \<and> (is_ok (fst (read_reply fuel s)) \<longrightarrow> length (snd (read_reply fuel s)) < length s))
    \<and> (\<forall>n s. length (snd (read_items fuel n s)) \<le> length s)"
  proof (induction fuel)
    case (Suc fuel)
    have items: "length (snd (read_items fuel n s)) \<le> length s" and reply: "length (snd (read_reply fuel s)) \<le> length s" for n s
      using Suc by blast+
    have "length (snd (read_reply (Suc fuel) s)) \<le> length s \<and> (is_ok (fst (read_reply (Suc fuel) s)) \<longrightarrow> length (snd (read_reply (Suc fuel) s)) < length s)" for s
    proof (cases "read_line s")
      case (Some lr)
      then obtain line rest where l: "read_line s = Some (line, rest)" by (cases lr) auto
      show ?thesis
      proof (cases "reply_head line rest")
        case (Inl d)
        with reply_head_rest [OF Inl] read_line_rest [OF l] show ?thesis by (simp add: read_reply.simps l)
      next
        case (Inr n)
        have "length (snd (read_items fuel n rest)) < length s" using items [of n rest] read_line_rest [OF l] by simp
        then show ?thesis by (cases "read_items fuel n rest") (simp add: read_reply.simps l Inr split: sum.split)
      qed
    qed (simp add: read_reply.simps)
    moreover have "length (snd (read_items (Suc fuel) n s)) \<le> length s" for n s
    proof -
      have "length (snd (read_items fuel (n - 1) (snd (read_reply fuel s)))) \<le> length s"
        using items [of "n - 1" "snd (read_reply fuel s)"] reply [of s] by (rule order_trans)
      then show ?thesis using reply [of s] by (auto simp: read_items.simps split: prod.split sum.split)
    qed
    ultimately show ?case by blast
  qed (simp add: read_reply.simps read_items.simps)
  then show "length (snd (read_reply fuel s)) \<le> length s" "is_ok (fst (read_reply fuel s)) \<Longrightarrow> length (snd (read_reply fuel s)) < length s"
    "length (snd (read_items fuel n s)) \<le> length s" by blast+
qed

lemma read_fuel:
  "2 * length s + 1 \<le> fuel \<Longrightarrow> fst (read_reply fuel s) \<noteq> Inl RespFuel"
  "2 * length s + 2 \<le> fuel \<Longrightarrow> fst (read_items fuel n s) \<noteq> Inl RespFuel"
proof -
  have "(\<forall>s. 2 * length s + 1 \<le> fuel \<longrightarrow> fst (read_reply fuel s) \<noteq> Inl RespFuel)
    \<and> (\<forall>n s. 2 * length s + 2 \<le> fuel \<longrightarrow> fst (read_items fuel n s) \<noteq> Inl RespFuel)"
  proof (induction fuel)
    case (Suc fuel)
    have reply: "fst (read_reply fuel s) \<noteq> Inl RespFuel" if "2 * length s + 1 \<le> fuel" for s using Suc that by blast
    have items: "fst (read_items fuel n s) \<noteq> Inl RespFuel" if "2 * length s + 2 \<le> fuel" for n s using Suc that by blast
    have "fst (read_reply (Suc fuel) s) \<noteq> Inl RespFuel" if f: "2 * length s + 1 \<le> Suc fuel" for s
    proof (cases "read_line s")
      case (Some lr)
      then obtain line rest where l: "read_line s = Some (line, rest)" by (cases lr) auto
      show ?thesis
      proof (cases "reply_head line rest")
        case (Inl d)
        with reply_head_rest [OF Inl] show ?thesis by (simp add: read_reply.simps l)
      next
        case (Inr n)
        have "fst (read_items fuel n rest) \<noteq> Inl RespFuel" using f read_line_rest [OF l] by (intro items) simp
        moreover obtain r rest' where "read_items fuel n rest = (r, rest')" by (rule prod.exhaust)
        ultimately show ?thesis by (cases r) (simp_all add: read_reply.simps l Inr)
      qed
    qed (simp add: read_reply.simps)
    moreover have "fst (read_items (Suc fuel) n s) \<noteq> Inl RespFuel" if f: "2 * length s + 2 \<le> Suc fuel" for n s
    proof (cases "read_reply fuel s")
      case (Pair r rest)
      have r: "r \<noteq> Inl RespFuel" using reply [of s] f Pair by simp
      show ?thesis
      proof (cases r)
        case (Inr item)
        then have "length rest < length s" using read_shrinks(2) [of fuel s] Pair by simp
        then have "fst (read_items fuel (n - 1) rest) \<noteq> Inl RespFuel" using f by (intro items) simp
        moreover obtain x rest' where "read_items fuel (n - 1) rest = (x, rest')" by (rule prod.exhaust)
        ultimately show ?thesis by (cases x) (simp_all add: read_items.simps Pair Inr)
      qed (use r Pair in \<open>simp add: read_items.simps\<close>)
    qed
    ultimately show ?case by blast
  qed simp
  then show "2 * length s + 1 \<le> fuel \<Longrightarrow> fst (read_reply fuel s) \<noteq> Inl RespFuel"
    "2 * length s + 2 \<le> fuel \<Longrightarrow> fst (read_items fuel n s) \<noteq> Inl RespFuel" by blast+
qed

section \<open>What a server writes\<close>

text \<open>The wire form of a reply; a string is sent as a bulk string.\<close>

fun resp_bytes :: "resp \<Rightarrow> string" where
  "resp_bytes (RStr s) = bulk s"
| "resp_bytes (RErr m) = ''-'' @ m @ crlf"
| "resp_bytes (RInt n) = '':'' @ json_int n @ crlf"
| "resp_bytes RNil = ''$-1'' @ crlf"
| "resp_bytes (RArr vs) = ''*'' @ dec_nat (length vs) @ crlf @ concat (map resp_bytes vs)"

fun resp_ok :: "resp \<Rightarrow> bool" where
  "resp_ok (RStr s) = (int (length s) + 2 \<le> max_alloc)"
| "resp_ok (RErr m) = (CHR 0x0A \<notin> set m)"
| "resp_ok (RInt n) = (- (2 ^ 63) \<le> n \<and> n < 2 ^ 63)"
| "resp_ok RNil = True"
| "resp_ok (RArr vs) = (16 * int (length vs) \<le> max_alloc \<and> list_all resp_ok vs)"

lemma read_header:
  assumes "CHR 0x0A \<notin> set p" and "t \<noteq> CHR 0x0A"
  shows "read_line (t # p @ crlf @ rest) = Some (t # p @ crlf, rest)"
proof -
  have tw: "takeWhile (\<lambda>c. c \<noteq> CHR 0x0A) (p @ CHR 0x0D # CHR 0x0A # rest) = p @ [CHR 0x0D]"
    "dropWhile (\<lambda>c. c \<noteq> CHR 0x0A) (p @ CHR 0x0D # CHR 0x0A # rest) = CHR 0x0A # rest"
    using assms(1) by (induction p) auto
  show ?thesis using assms(2) by (simp add: read_line_def crlf_def tw)
qed

lemma reply_head_line:
  "reply_head (CHR ''-'' # p @ crlf) rest = Inl (Inr (RErr p), rest)"
  "reply_head (CHR '':'' # p @ crlf) rest = Inl (case atoi p of None \<Rightarrow> Inl RespInteger | Some n \<Rightarrow> Inr (RInt n), rest)"
  "atoi p = Some n \<Longrightarrow> 0 \<le> n \<Longrightarrow> n + 2 \<le> max_alloc \<Longrightarrow> n + 2 \<le> int (length rest) \<Longrightarrow>
     reply_head (CHR ''$'' # p @ crlf) rest = Inl (Inr (RStr (take (nat n) rest)), drop (nat n + 2) rest)"
  "atoi p = Some n \<Longrightarrow> n < 0 \<Longrightarrow> reply_head (CHR ''$'' # p @ crlf) rest = Inl (Inr RNil, rest)"
  "atoi p = Some n \<Longrightarrow> 0 \<le> n \<Longrightarrow> 16 * n \<le> max_alloc \<Longrightarrow> reply_head (CHR ''*'' # p @ crlf) rest = Inr n"
  by (simp_all add: reply_head_def crlf_def nth_append split: option.split)

lemmas read_reply_header = read_reply.simps(2) read_header reply_head_line

lemma dec_nat_line: "CHR 0x0A \<notin> set (dec_nat n)" "atoi (dec_nat n) = (if int n < 2 ^ 63 then Some (int n) else None)"
proof -
  have d: "list_all is_digit (dec_nat n)" "dec_nat n \<noteq> []" using dec_nat_digits [of n] by auto
  then show "CHR 0x0A \<notin> set (dec_nat n)" by (auto simp: list_all_iff is_digit_def byte_val_def)
  obtain c cs where c: "dec_nat n = c # cs" "is_digit c" using d by (cases "dec_nat n") auto
  then have "c \<noteq> CHR ''-''" "c \<noteq> CHR ''+''" by (auto simp: is_digit_def byte_val_def)
  then have "strip_sign (dec_nat n) = (False, dec_nat n)" by (simp add: c strip_sign_def)
  then show "atoi (dec_nat n) = (if int n < 2 ^ 63 then Some (int n) else None)"
    using d dec_val_nat [of n] by (simp add: atoi_def)
qed

lemma json_int_line: "CHR 0x0A \<notin> set (json_int n)" "- (2 ^ 63) \<le> n \<Longrightarrow> n < 2 ^ 63 \<Longrightarrow> atoi (json_int n) = Some n"
proof -
  show "CHR 0x0A \<notin> set (json_int n)" using dec_nat_line(1) by (simp add: json_int_def)
  assume r: "- (2 ^ 63) \<le> n" "n < 2 ^ 63"
  show "atoi (json_int n) = Some n"
  proof (cases "n < 0")
    case True
    have "list_all is_digit (dec_nat (nat (- n)))" "dec_nat (nat (- n)) \<noteq> []" using dec_nat_digits [of "nat (- n)"] by auto
    with True r dec_val_nat [of "nat (- n)"] show ?thesis by (simp add: json_int_def atoi_def strip_sign_def)
  qed (use r dec_nat_line(2) [of "nat n"] in \<open>simp add: json_int_def\<close>)
qed

lemma read_bulk:
  assumes "int (length s) + 2 \<le> max_alloc" and "0 < fuel"
  shows "read_reply fuel (bulk s @ rest) = (Inr (RStr s), rest)"
proof -
  obtain f where f: "fuel = Suc f" using assms(2) gr0_conv_Suc by blast
  have b: "bulk s @ rest = CHR ''$'' # dec_nat (length s) @ crlf @ s @ crlf @ rest" by (simp add: bulk_def)
  have "atoi (dec_nat (length s)) = Some (int (length s))" using assms(1) by (simp add: dec_nat_line(2) max_alloc_def)
  then show ?thesis unfolding b f
    using assms(1) by (simp add: read_reply_header dec_nat_line(1))
qed

lemma resp_bytes_pos: "0 < length (resp_bytes v)"
  by (cases v) (simp_all add: bulk_def)

lemma items_encoded:
  assumes "\<And>w k r. w \<in> set ws \<Longrightarrow> 2 * length (resp_bytes w) + 1 \<le> k \<Longrightarrow> read_reply k (resp_bytes w @ r) = (Inr w, r)"
    and "2 * length (concat (map resp_bytes ws)) + 2 \<le> k"
  shows "read_items k (int (length ws)) (concat (map resp_bytes ws) @ r) = (Inr ws, r)"
  using assms
proof (induction ws arbitrary: k)
  case (Cons w ws)
  obtain k' where k: "k = Suc k'" using Cons.prems(2) by (cases k) auto
  have "read_reply k' (resp_bytes w @ concat (map resp_bytes ws) @ r) = (Inr w, concat (map resp_bytes ws) @ r)"
    using Cons.prems(2) k by (intro Cons.prems(1)) simp_all
  moreover have "2 * length (concat (map resp_bytes ws)) + 2 \<le> k'"
    using Cons.prems(2) k resp_bytes_pos [of w] by (simp del: length_greater_0_conv)
  then have "read_items k' (int (length ws)) (concat (map resp_bytes ws) @ r) = (Inr ws, r)"
    using Cons.prems(1) by (intro Cons.IH) auto
  ultimately show ?case by (simp add: k read_items.simps)
qed (auto simp: read_items.simps dest!: Suc_le_D)

lemma read_encoded:
  "resp_ok v \<Longrightarrow> 2 * length (resp_bytes v) + 1 \<le> fuel \<Longrightarrow> read_reply fuel (resp_bytes v @ rest) = (Inr v, rest)"
proof (induction v arbitrary: fuel rest)
  case (RArr vs)
  obtain f where f: "fuel = Suc f" using RArr.prems(2) by (cases fuel) auto
  have len: "atoi (dec_nat (length vs)) = Some (int (length vs))" "16 * int (length vs) \<le> max_alloc"
    using RArr.prems(1) by (simp_all add: dec_nat_line(2) max_alloc_def)
  have "read_items f (int (length vs)) (concat (map resp_bytes vs) @ rest) = (Inr vs, rest)"
    using RArr f by (intro items_encoded) (simp_all add: list_all_iff)
  then show ?case using len unfolding f
    by (simp add: read_reply_header dec_nat_line(1))
next
  case (RInt n)
  obtain f where f: "fuel = Suc f" using RInt.prems(2) by (cases fuel) auto
  show ?case using RInt.prems(1) unfolding f by (simp add: read_reply_header json_int_line)
next
  case (RErr m)
  obtain f where f: "fuel = Suc f" using RErr.prems(2) by (cases fuel) auto
  show ?case using RErr.prems(1) unfolding f by (simp add: read_reply_header)
next
  case RNil
  obtain f where f: "fuel = Suc f" using RNil.prems(2) by (cases fuel) auto
  have a: "atoi ''-1'' = Some (-1)" by code_simp
  show ?case unfolding f
    using read_header [of "''-1''" "CHR ''$''" rest] reply_head_line(4) [OF a, of rest] by (simp add: read_reply.simps)
next
  case (RStr s)
  then show ?case using read_bulk [of s fuel rest] by simp
qed

lemma read_value_encoded: "resp_ok v \<Longrightarrow> read_value (resp_bytes v @ rest) = (Inr v, rest)"
  by (simp add: read_value_def read_encoded)

lemma write_command_bytes: "write_command args = resp_bytes (RArr (map RStr args))"
  by (simp add: write_command_def comp_def)

definition command_ok :: "string list \<Rightarrow> bool" where
  "command_ok args \<longleftrightarrow> 16 * int (length args) \<le> max_alloc \<and> list_all (\<lambda>a. int (length a) + 2 \<le> max_alloc) args"

text \<open>
  No argument of a command can be taken for anything else on the wire. Whatever bytes the topics,
  payloads, user names and passwords hold, a server reading a pipeline of commands the client wrote
  gets exactly those argument lists, in order, and is left at the first byte after them.
\<close>

theorem commands_read_back:
  assumes "list_all command_ok cmds"
  shows "read_items (2 * length (concat (map write_command cmds)) + 2) (int (length cmds)) (concat (map write_command cmds) @ rest)
    = (Inr (map (\<lambda>args. RArr (map RStr args)) cmds), rest)"
proof -
  let ?ws = "map (\<lambda>args. RArr (map RStr args)) cmds"
  have w: "map write_command cmds = map resp_bytes ?ws" by (simp add: write_command_bytes)
  have "read_reply k (resp_bytes v @ r) = (Inr v, r)" if "v \<in> set ?ws" "2 * length (resp_bytes v) + 1 \<le> k" for v k r
    using assms that by (intro read_encoded) (auto simp: list_all_iff command_ok_def)
  from items_encoded [OF this, of ?ws] show ?thesis by (simp only: w length_map)
qed

theorem commands_read_back_witness:
  "\<exists>fuel. read_items fuel 2 (write_command [''AUTH'', ''a'' @ crlf @ ''$1''] @ write_command [''SELECT'', ''3''])
    = (Inr [RArr [RStr ''AUTH'', RStr (''a'' @ crlf @ ''$1'')], RArr [RStr ''SELECT'', RStr ''3'']], [])"
proof -
  have "list_all command_ok [[''AUTH'', ''a'' @ crlf @ ''$1''], [''SELECT'', ''3'']]" by (simp add: command_ok_def max_alloc_def)
  from commands_read_back [OF this, of "[]"]
  show ?thesis by (simp only: list.map concat.simps append_Nil2 list.size) (simp, blast)
qed

text \<open>
  A reply is read back as the value the server wrote and nothing of the next one is consumed;
  and reading any stream ends, whatever its lengths and nesting claim.
\<close>

theorem replies_read_back:
  "(resp_ok v \<longrightarrow> read_value (resp_bytes v @ rest) = (Inr v, rest)) \<and> fst (read_value s) \<noteq> Inl RespFuel
    \<and> length (snd (read_value s)) \<le> length s"
  using read_value_encoded [of v rest] read_fuel(1) [of s] read_shrinks(1) [of "2 * length s + 2" s]
  by (simp add: read_value_def)

theorem replies_read_back_witness:
  "read_value (resp_bytes (RArr [RStr ''message'', RInt (-7), RNil]) @ ''+OK'') = (Inr (RArr [RStr ''message'', RInt (-7), RNil]), ''+OK'')"
proof -
  have "resp_ok (RArr [RStr ''message'', RInt (-7), RNil])" by (simp add: max_alloc_def)
  with replies_read_back [of "RArr [RStr ''message'', RInt (-7), RNil]" "''+OK''" "[]"] show ?thesis by blast
qed

end
