(* ===== verification/Gw_Bus.thy ===== *)
theory Gw_Bus
  imports Gw_Broker Gw_Resp Gw_Auth_Spec
begin

text \<open>
  The multi-replica transport of \<open>internal/broker/redis.go\<close>: the local broker plus a hop over Redis.
  What the network does is an argument of every operation: \<open>(ok, arrived)\<close> says whether a command
  could be written and which bytes arrive before the read that follows it fails or times out.
\<close>

section \<open>Standard base64\<close>

definition url_char :: "char \<Rightarrow> char" where
  "url_char c = (if c = CHR ''+'' then CHR ''-'' else if c = CHR ''/'' then CHR ''_'' else c)"

definition std_char :: "char \<Rightarrow> char" where
  "std_char c = (if c = CHR ''-'' then CHR ''+'' else if c = CHR ''_'' then CHR ''/'' else c)"

text \<open>Encoding pads with up to two equals signs; decoding skips line breaks and requires the padding.\<close>

definition std_encode :: "string \<Rightarrow> string" where
  "std_encode s = (let t = map std_char (raw_url_encode s) in t @ replicate ((4 - length t mod 4) mod 4) (CHR ''=''))"

definition padding :: "string \<Rightarrow> nat" where
  "padding t = min 2 (length (takeWhile (\<lambda>c. c = CHR ''='') (rev t)))"

definition std_decode :: "string \<Rightarrow> string option" where
  "std_decode s =
     (let t = filter (\<lambda>c. c \<noteq> CHR 0x0D \<and> c \<noteq> CHR 0x0A) s; body = take (length t - padding t) t
      in if length t mod 4 \<noteq> 0 \<or> CHR ''-'' \<in> set body \<or> CHR ''_'' \<in> set body then None
         else raw_url_decode (map url_char body))"

section \<open>Bus frames\<close>

record wire_message =
  wm_Origin :: string
  wm_Payload :: string
  wm_At :: int

definition wire_fields :: "wire_message \<Rightarrow> (string \<times> fval) list" where
  "wire_fields m = [(''o'', VStr (wm_Origin m)), (''p'', VStr (wm_Payload m)), (''t'', VInt (wm_At m))]"

definition set_wire :: "string \<Rightarrow> string \<Rightarrow> jval \<Rightarrow> wire_message \<Rightarrow> wire_message option" where
  "set_wire key raw v m =
     (if key_is ''o'' key then map_option (\<lambda>s. m\<lparr>wm_Origin := s\<rparr>) (set_string v (wm_Origin m))
      else if key_is ''p'' key then map_option (\<lambda>s. m\<lparr>wm_Payload := s\<rparr>) (set_string v (wm_Payload m))
      else if key_is ''t'' key then map_option (\<lambda>n. m\<lparr>wm_At := n\<rparr>) (set_int v (wm_At m))
      else Some m)"

definition empty_wire :: wire_message where
  "empty_wire = \<lparr>wm_Origin = '''', wm_Payload = '''', wm_At = 0\<rparr>"

section \<open>One connection\<close>

text \<open>What was written to it and what has arrived but was not read.\<close>

record redis_conn =
  rc_out :: string
  rc_in :: string

datatype bus_error =
    BusDown | BusMarshal | BusWrite | BusRead resp_error | BusReply string | BusDial | BusClosed

definition conn_write :: "string list \<Rightarrow> bool \<Rightarrow> redis_conn \<Rightarrow> bool \<times> redis_conn" where
  "conn_write args ok c = (if ok then (True, c\<lparr>rc_out := rc_out c @ write_command args\<rparr>) else (False, c))"

definition conn_read :: "string \<Rightarrow> redis_conn \<Rightarrow> (resp_error + resp) \<times> redis_conn" where
  "conn_read arrived c = (let (r, rest) = read_value (rc_in c @ arrived) in (r, c\<lparr>rc_in := rest\<rparr>))"

definition round_trip :: "string list \<Rightarrow> bool \<times> string \<Rightarrow> redis_conn \<Rightarrow> bus_error option \<times> redis_conn" where
  "round_trip args net c =
     (case conn_write args (fst net) c of
        (False, c') \<Rightarrow> (Some BusWrite, c')
      | (True, c') \<Rightarrow>
          (case conn_read (snd net) c' of
             (Inl err, c'') \<Rightarrow> (Some (BusRead err), c'')
           | (Inr (RErr msg), c'') \<Rightarrow> (Some (BusReply msg), c'')
           | (Inr reply, c'') \<Rightarrow> (None, c'')))"

definition conn_publish :: "string \<Rightarrow> string \<Rightarrow> bool \<times> string \<Rightarrow> redis_conn \<Rightarrow> bus_error option \<times> redis_conn" where
  "conn_publish topic message net c = round_trip [''PUBLISH'', topic, message] net c"

section \<open>Dialling\<close>

record redis_params =
  rp_addr :: string
  rp_user :: string
  rp_password :: string
  rp_db :: int

definition handshake :: "redis_params \<Rightarrow> bool \<times> string \<Rightarrow> bool \<times> string \<Rightarrow> redis_conn \<Rightarrow> bus_error option \<times> redis_conn" where
  "handshake p auth_net select_net c =
     (let (err, c1) =
            (if rp_password p \<noteq> '''' then
               round_trip ([''AUTH''] @ (if rp_user p \<noteq> '''' then [rp_user p] else []) @ [rp_password p]) auth_net c
             else (None, c))
      in if err \<noteq> None then (err, c1)
         else if rp_db p \<noteq> 0 then round_trip [''SELECT'', json_int (rp_db p)] select_net c1
         else (None, c1))"

text \<open>What one dial meets: whether TCP connects, and the answers to \<open>AUTH\<close> and \<open>SELECT\<close>.\<close>

type_synonym dial_net = "bool \<times> (bool \<times> string) \<times> (bool \<times> string)"

definition dial :: "redis_params \<Rightarrow> dial_net \<Rightarrow> bus_error + redis_conn" where
  "dial p net =
     (case net of (tcp, auth_net, select_net) \<Rightarrow>
        if \<not> tcp then Inl BusDial
        else (case handshake p auth_net select_net \<lparr>rc_out = '''', rc_in = ''''\<rparr> of
            (None, c) \<Rightarrow> Inr c
          | (Some err, c) \<Rightarrow> Inl err))"

text \<open>A confirmation is any reply that can be read, an error reply too.\<close>

fun subscribe_topics :: "string list \<Rightarrow> (string \<Rightarrow> bool \<times> string) \<Rightarrow> redis_conn \<Rightarrow> bus_error + redis_conn" where
  "subscribe_topics [] net c = Inr c"
| "subscribe_topics (topic # topics) net c =
     (case conn_write [''SUBSCRIBE'', topic] (fst (net topic)) c of
        (False, c1) \<Rightarrow> Inl BusWrite
      | (True, c1) \<Rightarrow>
          (case conn_read (snd (net topic)) c1 of
             (Inl err, c2) \<Rightarrow> Inl (BusRead err)
           | (Inr reply, c2) \<Rightarrow> subscribe_topics topics net c2))"

definition dial_pair ::
  "redis_params \<Rightarrow> dial_net \<Rightarrow> dial_net \<Rightarrow> string list \<Rightarrow> (string \<Rightarrow> bool \<times> string) \<Rightarrow> bus_error + redis_conn \<times> redis_conn"
where
  "dial_pair p pub_net sub_net topics net =
     (case dial p pub_net of
        Inl err \<Rightarrow> Inl err
      | Inr pub \<Rightarrow>
          (case dial p sub_net of
             Inl err \<Rightarrow> Inl err
           | Inr sub \<Rightarrow>
               (case subscribe_topics topics net sub of
                  Inl err \<Rightarrow> Inl err
                | Inr sub' \<Rightarrow> Inr (pub, sub'))))"

section \<open>The broker\<close>

record 'h redis_broker =
  rb_local :: "'h memory_broker"
  rb_params :: redis_params
  rb_pub :: "redis_conn option"
  rb_sub :: "redis_conn option"
  rb_topics :: "string fset"
  rb_closed :: bool
  rb_ready :: bool
  rb_busDrops :: "64 word"
  rb_busErrors :: "64 word"
  rb_connected :: bool
  rb_connectCount :: "64 word"

definition new_redis :: "redis_params \<Rightarrow> string + 8 word list \<Rightarrow> 'h redis_broker" where
  "new_redis p rnd =
     \<lparr>rb_local = new_memory rnd, rb_params = p, rb_pub = None, rb_sub = None, rb_topics = {||}, rb_closed = False,
      rb_ready = False, rb_busDrops = 0, rb_busErrors = 0, rb_connected = False, rb_connectCount = 0\<rparr>"

definition rb_nodeID :: "'h redis_broker \<Rightarrow> string" where
  "rb_nodeID b = mb_nodeID (rb_local b)"

definition redis_subscribe :: "'h redis_broker \<Rightarrow> string \<Rightarrow> 'h \<Rightarrow> bool \<Rightarrow> nat \<times> 'h redis_broker" where
  "redis_subscribe b topic h ok =
     (let (idx, l) = mb_subscribe (rb_local b) topic h
      in (idx, b\<lparr>rb_topics := finsert topic (rb_topics b),
                 rb_sub := map_option (\<lambda>c. snd (conn_write [''SUBSCRIBE'', topic] ok c)) (rb_sub b),
                 rb_local := l\<rparr>))"

definition publish_bus :: "bool \<times> string \<Rightarrow> 'h redis_broker \<Rightarrow> string \<Rightarrow> string \<Rightarrow> time \<Rightarrow> bus_error option \<times> 'h redis_broker" where
  "publish_bus net b topic payload now =
     (case json_struct (wire_fields \<lparr>wm_Origin = rb_nodeID b, wm_Payload = std_encode payload, wm_At = now\<rparr>) of
        None \<Rightarrow> (Some BusMarshal, b)
      | Some frame \<Rightarrow>
          (case rb_pub b of
             None \<Rightarrow> (Some BusDown, b)
           | Some c \<Rightarrow> (let (err, c') = conn_publish topic frame net c in (err, b\<lparr>rb_pub := Some c'\<rparr>))))"

definition redis_publish ::
  "('h, 's) runner \<Rightarrow> bool \<times> string \<Rightarrow> 'h redis_broker \<Rightarrow> string \<Rightarrow> string \<Rightarrow> time \<Rightarrow> 's
     \<Rightarrow> (publish_error + broker_stats) \<times> 'h redis_broker \<times> 's"
where
  "redis_publish run net b topic payload now s =
     (if rb_closed b then (Inl ErrClosed, b, s)
      else
        let (st, s') = mb_deliver run (rb_local b)
              \<lparr>en_Topic = topic, en_Payload = payload, en_Origin = rb_nodeID b, en_Local = True, en_At = now\<rparr> s;
            (err, b') = publish_bus net b topic payload now
        in (case err of
              None \<Rightarrow> (Inr st, b', s')
            | Some e \<Rightarrow>
                if e = BusRead RespPanic then (Inl PublishPanics, b', s')
                else if e = BusDown then (Inr st, b'\<lparr>rb_busDrops := rb_busDrops b' + 1\<rparr>, s')
                else (Inr st, b'\<lparr>rb_busErrors := rb_busErrors b' + 1\<rparr>, s')))"

definition close_conns :: "'h redis_broker \<Rightarrow> 'h redis_broker" where
  "close_conns b = b\<lparr>rb_pub := None, rb_sub := None\<rparr>"

definition redis_close :: "'h redis_broker \<Rightarrow> 'h redis_broker" where
  "redis_close b = (if rb_closed b then b else close_conns (b\<lparr>rb_closed := True, rb_local := mb_close (rb_local b)\<rparr>))"

section \<open>The supervisor\<close>

definition bus_deliver :: "('h, 's) runner \<Rightarrow> string \<Rightarrow> string \<Rightarrow> time \<Rightarrow> 'h redis_broker \<Rightarrow> 's \<Rightarrow> 'h redis_broker \<times> 's" where
  "bus_deliver run topic raw now b s =
     (case unmarshal set_wire empty_wire raw of
        None \<Rightarrow> (b\<lparr>rb_busErrors := rb_busErrors b + 1\<rparr>, s)
      | Some frame \<Rightarrow>
          if wm_Origin frame = rb_nodeID b then (b, s)
          else (case std_decode (wm_Payload frame) of
              None \<Rightarrow> (b\<lparr>rb_busErrors := rb_busErrors b + 1\<rparr>, s)
            | Some payload \<Rightarrow>
                (b, snd (mb_deliver run (rb_local b)
                   \<lparr>en_Topic = topic, en_Payload = payload, en_Origin = wm_Origin frame, en_Local = False, en_At = now\<rparr> s))))"

definition str_of :: "resp \<Rightarrow> string" where
  "str_of v = (case v of RStr s \<Rightarrow> s | _ \<Rightarrow> '''')"

text \<open>One round of \<open>readLoop\<close> on the subscriber's connection; the error when the loop returns.\<close>

definition sub_round ::
  "('h, 's) runner \<Rightarrow> string \<Rightarrow> time \<Rightarrow> redis_conn \<Rightarrow> 'h redis_broker \<Rightarrow> 's \<Rightarrow> bus_error option \<times> redis_conn \<times> 'h redis_broker \<times> 's"
where
  "sub_round run arrived now sub b s =
     (if rb_closed b then (Some BusClosed, sub, b, s)
      else
        case conn_read arrived sub of
          (Inl err, sub') \<Rightarrow> (Some (BusRead err), sub', b, s)
        | (Inr (RArr (k # t # p # rest)), sub') \<Rightarrow>
            if str_of k = ''message'' then
              let (b', s') = bus_deliver run (str_of t) (str_of p) now b s in (None, sub', b', s')
            else (None, sub', b, s)
        | (Inr other, sub') \<Rightarrow> (None, sub', b, s))"

text \<open>The two ends of \<open>connectRound\<close> around the read loop.\<close>

definition round_start :: "redis_conn \<times> redis_conn \<Rightarrow> 'h redis_broker \<Rightarrow> bus_error option \<times> 'h redis_broker" where
  "round_start conns b =
     (if rb_closed b then (Some BusClosed, b)
      else (None, b\<lparr>rb_pub := Some (fst conns), rb_sub := Some (snd conns), rb_connected := True,
                    rb_connectCount := rb_connectCount b + 1, rb_ready := True\<rparr>))"

definition round_end :: "'h redis_broker \<Rightarrow> 'h redis_broker" where
  "round_end b = (close_conns b)\<lparr>rb_connected := False\<rparr>"

text \<open>After a round: the supervisor's wait, and the next one.\<close>

definition initial_backoff :: duration where "initial_backoff = 250 * millisecond"

definition next_backoff :: "duration \<Rightarrow> duration" where
  "next_backoff backoff = (if backoff * 2 > 5 * second then 5 * second else backoff * 2)"

definition round_lost :: "'h redis_broker \<times> duration \<Rightarrow> duration \<times> 'h redis_broker \<times> duration" where
  "round_lost st = (case st of (b, backoff) \<Rightarrow> (backoff, b\<lparr>rb_busErrors := rb_busErrors b + 1\<rparr>, next_backoff backoff))"

end
