(* ===== verification/Gw_Bus_Spec.thy ===== *)
theory Gw_Bus_Spec
  imports Gw_Bus
begin

text \<open>
  What the multi-replica transport promises: the local contract of every broker, one delivery per node
  for each publish with the payload's exact bytes, and what it does when a connection, a subscription
  or a publisher goes bad.
\<close>

section \<open>The local contract\<close>

lemma publish_bus_keeps:
  "rb_local (snd (publish_bus net b topic payload now)) = rb_local b"
  "rb_closed (snd (publish_bus net b topic payload now)) = rb_closed b"
  "rb_nodeID (snd (publish_bus net b topic payload now)) = rb_nodeID b"
  by (simp_all add: publish_bus_def rb_nodeID_def case_prod_unfold Let_def split: option.split)

interpretation bus: transport rb_local rb_closed "redis_publish :: ('h, 's) runner \<Rightarrow> _" redis_close
proof (unfold_locales, goal_cases)
  case (2 b run x topic payload now s)
  then show ?case
    by (simp add: redis_publish_def home_envelope_def rb_nodeID_def case_prod_unfold Let_def split: option.split)
next
  case (3 b run x topic payload now s)
  then show ?case
    by (auto simp: redis_publish_def home_envelope_def rb_nodeID_def case_prod_unfold Let_def split: option.splits if_splits)
next
  case (4 run x b topic payload now s)
  show ?case
    by (simp add: redis_publish_def publish_bus_keeps case_prod_unfold Let_def split: option.split)
next
  case (5 run x b topic payload now s)
  show ?case
    by (simp add: redis_publish_def publish_bus_keeps case_prod_unfold Let_def split: option.split)
qed (simp_all add: redis_publish_def redis_close_def close_conns_def)

section \<open>Payloads on the wire\<close>

lemma raw_url_chars: "set (raw_url_encode s) \<subseteq> set b64_alphabet"
proof
  fix c assume "c \<in> set (raw_url_encode s)"
  then obtain n where "n \<in> set (b64_digits (map byte_val s))" "c = b64_alphabet ! n" by (auto simp: raw_url_encode_def)
  moreover from this have "n < length b64_alphabet"
    using b64_digits_range [OF bytes_range, of s] by (auto simp: list_all_iff b64_alphabet_def)
  ultimately show "c \<in> set b64_alphabet" by simp
qed

lemma alphabet_chars:
  assumes "c \<in> set b64_alphabet"
  shows "url_char (std_char c) = c" "std_char c \<noteq> CHR ''-''" "std_char c \<noteq> CHR ''_''" "std_char c \<noteq> CHR ''=''"
    "std_char c \<noteq> CHR 0x0D" "std_char c \<noteq> CHR 0x0A" "\<not> digit7 (std_char c)"
proof -
  have "list_all (\<lambda>c. url_char (std_char c) = c \<and> std_char c \<noteq> CHR ''-'' \<and> std_char c \<noteq> CHR ''_'' \<and> std_char c \<noteq> CHR ''=''
      \<and> std_char c \<noteq> CHR 0x0D \<and> std_char c \<noteq> CHR 0x0A \<and> \<not> digit7 (std_char c)) b64_alphabet"
    by code_simp
  with assms show "url_char (std_char c) = c" "std_char c \<noteq> CHR ''-''" "std_char c \<noteq> CHR ''_''" "std_char c \<noteq> CHR ''=''"
    "std_char c \<noteq> CHR 0x0D" "std_char c \<noteq> CHR 0x0A" "\<not> digit7 (std_char c)"
    by (auto simp: list_all_iff)
qed

lemma b64_digits_length: "length (b64_digits xs) mod 4 \<noteq> 1"
  by (induction xs rule: b64_digits.induct) simp_all

lemma pad_arith:
  assumes "(n :: nat) mod 4 \<noteq> 1"
  shows "(4 - n mod 4) mod 4 \<le> 2" "(n + (4 - n mod 4) mod 4) mod 4 = 0"
proof -
  have "n mod 4 < 4" by simp
  with assms have "n mod 4 = 0 \<or> n mod 4 = 2 \<or> n mod 4 = 3" by linarith
  moreover have "(n + x) mod 4 = (n mod 4 + x) mod 4" for x by (simp add: mod_add_left_eq)
  ultimately show "(4 - n mod 4) mod 4 \<le> 2" "(n + (4 - n mod 4) mod 4) mod 4 = 0" by auto
qed

lemma padding_exact:
  assumes "CHR ''='' \<notin> set t" and "p \<le> 2"
  shows "padding (t @ replicate p (CHR ''='')) = p"
proof -
  have "takeWhile (\<lambda>c. c = CHR ''='') (rev t) = []" using assms(1) by (cases t rule: rev_cases) auto
  then have "takeWhile (\<lambda>c. c = CHR ''='') (replicate p (CHR ''='') @ rev t) = replicate p (CHR ''='')"
    by (simp add: takeWhile_append)
  with assms(2) show ?thesis by (simp add: padding_def)
qed

lemma std_roundtrip: "std_decode (std_encode s) = Some s"
proof -
  define t where "t = map std_char (raw_url_encode s)"
  define p where "p = (4 - length t mod 4) mod 4"
  have c: "c \<noteq> CHR ''-''" "c \<noteq> CHR ''_''" "c \<noteq> CHR ''=''" "c \<noteq> CHR 0x0D" "c \<noteq> CHR 0x0A" if "c \<in> set t" for c
    using that alphabet_chars raw_url_chars [of s] by (auto simp: t_def)
  have "length t mod 4 \<noteq> 1" using b64_digits_length [of "map byte_val s"] by (simp add: t_def raw_url_encode_def)
  then have p: "p \<le> 2" "(length t + p) mod 4 = 0" unfolding p_def by (rule pad_arith)+
  have e: "std_encode s = t @ replicate p (CHR ''='')" by (simp add: std_encode_def Let_def p_def t_def)
  have f: "filter (\<lambda>c. c \<noteq> CHR 0x0D \<and> c \<noteq> CHR 0x0A) (std_encode s) = std_encode s"
    using c(4,5) by (intro filter_True) (auto simp: e)
  have "CHR ''='' \<notin> set t" "CHR ''-'' \<notin> set t" "CHR ''_'' \<notin> set t" using c(1-3) by blast+
  moreover from this(1) p(1) have "padding (std_encode s) = p" unfolding e by (rule padding_exact)
  moreover have "map url_char t = raw_url_encode s"
  proof -
    have "(url_char \<circ> std_char) c = c" if "c \<in> set (raw_url_encode s)" for c
      using alphabet_chars(1) [OF subsetD [OF raw_url_chars that]] by simp
    then show ?thesis unfolding t_def map_map by (rule map_idI)
  qed
  ultimately show ?thesis
    unfolding std_decode_def f Let_def by (simp add: e p(2) raw_url_roundtrip)
qed

lemma std_ascii: "list_all (\<lambda>c. \<not> digit7 c) (std_encode s)"
  using alphabet_chars(7) raw_url_chars [of s] by (auto simp: std_encode_def Let_def list_all_iff)

lemma unmarshal_wire:
  assumes "valid_utf8 origin" and "- (2 ^ 63) \<le> t" and "t < 2 ^ 63"
  shows "\<exists>frame. json_struct (wire_fields \<lparr>wm_Origin = origin, wm_Payload = std_encode payload, wm_At = t\<rparr>) = Some frame
    \<and> unmarshal set_wire empty_wire frame = Some \<lparr>wm_Origin = origin, wm_Payload = std_encode payload, wm_At = t\<rparr>"
proof -
  let ?fs = "wire_fields \<lparr>wm_Origin = origin, wm_Payload = std_encode payload, wm_At = t\<rparr>"
  have "\<forall>(k, v) \<in> set ?fs. valid_utf8 k \<and> fval_ok (\<lambda>r. JNull) v"
    using assms(1) by (auto simp: wire_fields_def valid_utf8_simps std_ascii)
  moreover have "?fs \<noteq> []" by (simp add: wire_fields_def)
  ultimately obtain frame where f: "json_struct ?fs = Some frame"
    "json_parse frame = Some (JObj (map (\<lambda>(k, v). (k, the (encode_fval v), fval_value (\<lambda>r. JNull) v)) ?fs))"
    using json_struct_parse [of ?fs "\<lambda>r. JNull"] by auto
  have k: "key_is ''o'' ''o''" "key_is ''p'' ''p''" "key_is ''t'' ''t''" "\<not> key_is ''o'' ''p''" "\<not> key_is ''o'' ''t''" "\<not> key_is ''p'' ''t''"
    by code_simp+
  have "unmarshal set_wire empty_wire frame = Some \<lparr>wm_Origin = origin, wm_Payload = std_encode payload, wm_At = t\<rparr>"
    using parse_int64_json_int [OF assms(2,3)]
    by (simp add: unmarshal_def f(2) decode_struct_def wire_fields_def set_wire_def k set_string_def set_int_def fval_value_def empty_wire_def)
  with f(1) show ?thesis by blast
qed

text \<open>A node id is ASCII.\<close>

lemma node_id_valid: "valid_utf8 (new_node_id rnd)"
proof -
  have "list_all (\<lambda>c. \<not> digit7 c) (hex_byte b)" for b
  proof -
    have "list_all (\<lambda>n. \<not> digit7 (hex_digits ! n)) [0 ..< 16]" by code_simp
    then show ?thesis by (simp add: hex_byte_def hex_digit_def list_all_iff nibble_bounds)
  qed
  then have "list_all (\<lambda>c. \<not> digit7 c) (hex_bytes bs)" for bs by (induction bs) (simp_all add: hex_bytes_def)
  then show ?thesis by (intro valid_utf8_digit7) (simp add: new_node_id_def split: sum.split)
qed

section \<open>One delivery per node\<close>

text \<open>What Redis pushes to a subscriber for a publication.\<close>

definition push_bytes :: "string \<Rightarrow> string \<Rightarrow> string" where
  "push_bytes topic frame = resp_bytes (RArr [RStr ''message'', RStr topic, RStr frame])"

lemma sub_round_push:
  assumes "\<not> rb_closed b" and "rc_in sub = ''''" and "int (length topic) + 2 \<le> max_alloc" and "int (length frame) + 2 \<le> max_alloc"
  shows "sub_round run (push_bytes topic frame @ later) now sub b s =
    (let (b', s') = bus_deliver run topic frame now b s in (None, sub\<lparr>rc_in := later\<rparr>, b', s'))"
proof -
  have "resp_ok (RArr [RStr ''message'', RStr topic, RStr frame])" using assms(3,4) by (simp add: max_alloc_def)
  then have "read_value (push_bytes topic frame @ later) = (Inr (RArr [RStr ''message'', RStr topic, RStr frame]), later)"
    unfolding push_bytes_def by (rule read_value_encoded)
  then show ?thesis using assms(1,2) by (simp add: sub_round_def conn_read_def str_of_def)
qed

lemma round_trip_out: "fst net \<Longrightarrow> rc_out (snd (round_trip args net c)) = rc_out c @ write_command args"
  by (simp add: round_trip_def conn_write_def conn_read_def case_prod_unfold Let_def split: sum.split resp.split)

text \<open>
  C37. Once per node, with the exact bytes. A publish on an open node delivers to its own subscribers
  and writes one PUBLISH command to the bus. When Redis pushes that publication to a node, its read
  loop goes on with the next push; a node with the publisher's id leaves its state alone, so the
  publisher does not deliver twice, and any other node delivers the payload to its subscribers, byte
  for byte, as a remote envelope of that origin.
\<close>

theorem one_delivery_per_node:
  assumes "\<not> rb_closed a" and "rb_pub a = Some c" and "fst net" and "valid_utf8 (rb_nodeID a)" and "- (2 ^ 63) \<le> now" and "now < 2 ^ 63"
  shows "snd (snd (redis_publish run net a topic payload now s)) = snd (mb_deliver run (rb_local a) (home_envelope (rb_local a) topic payload now) s)
    \<and> (\<exists>frame.
        map_option rc_out (rb_pub (fst (snd (redis_publish run net a topic payload now s)))) = Some (rc_out c @ write_command [''PUBLISH'', topic, frame])
        \<and> (\<forall>b sub later now' s'. \<not> rb_closed b \<longrightarrow> rc_in sub = '''' \<longrightarrow>
            int (length topic) + 2 \<le> max_alloc \<longrightarrow> int (length frame) + 2 \<le> max_alloc \<longrightarrow>
            sub_round run (push_bytes topic frame @ later) now' sub b s' =
              (None, sub\<lparr>rc_in := later\<rparr>, b,
               if rb_nodeID b = rb_nodeID a then s'
               else snd (mb_deliver run (rb_local b)
                 \<lparr>en_Topic = topic, en_Payload = payload, en_Origin = rb_nodeID a, en_Local = False, en_At = now'\<rparr> s'))))"
proof -
  obtain frame where f: "json_struct (wire_fields \<lparr>wm_Origin = rb_nodeID a, wm_Payload = std_encode payload, wm_At = now\<rparr>) = Some frame"
    "unmarshal set_wire empty_wire frame = Some \<lparr>wm_Origin = rb_nodeID a, wm_Payload = std_encode payload, wm_At = now\<rparr>"
    using unmarshal_wire [OF assms(4-6)] by blast
  have "map_option rc_out (rb_pub (snd (publish_bus net a topic payload now))) = Some (rc_out c @ write_command [''PUBLISH'', topic, frame])"
    using round_trip_out [OF assms(3)] assms(2) by (simp add: publish_bus_def f(1) conn_publish_def case_prod_unfold Let_def)
  then have "map_option rc_out (rb_pub (fst (snd (redis_publish run net a topic payload now s)))) = Some (rc_out c @ write_command [''PUBLISH'', topic, frame])"
    using assms(1) by (simp add: redis_publish_def case_prod_unfold Let_def split: option.split)
  moreover have "bus_deliver run topic frame now' b s' = (b, if rb_nodeID b = rb_nodeID a then s'
      else snd (mb_deliver run (rb_local b) \<lparr>en_Topic = topic, en_Payload = payload, en_Origin = rb_nodeID a, en_Local = False, en_At = now'\<rparr> s'))"
    for b now' s'
    by (simp add: bus_deliver_def f(2) std_roundtrip)
  moreover note bus.delivers [OF assms(1), of run net topic payload now s]
  ultimately show ?thesis
    by (intro conjI exI [of _ frame]) (assumption, assumption, simp add: sub_round_push)
qed

definition demo_bus :: "string + 8 word list \<Rightarrow> unit redis_broker" where
  "demo_bus rnd = (snd (redis_subscribe (new_redis \<lparr>rp_addr = ''bus:6379'', rp_user = '''', rp_password = '''', rp_db = 0\<rparr> rnd)
     ''t'' () True))\<lparr>rb_pub := Some \<lparr>rc_out = '''', rc_in = ''''\<rparr>\<rparr>"

definition demo_note :: "(unit, string list) runner" where
  "demo_note h env s = (Some no_stats, s @ [en_Payload env])"

lemma demo_bus_facts:
  "\<not> rb_closed (demo_bus rnd)" "rb_pub (demo_bus rnd) = Some \<lparr>rc_out = '''', rc_in = ''''\<rparr>" "rb_nodeID (demo_bus rnd) = new_node_id rnd"
  "en_Topic env = ''t'' \<Longrightarrow> mb_deliver demo_note (rb_local (demo_bus rnd)) env s = (no_stats, s @ [en_Payload env])"
  by (simp_all add: demo_bus_def redis_subscribe_def mb_subscribe_def new_redis_def new_memory_def rb_nodeID_def mb_deliver_def
      mb_call_def demo_note_def Let_def no_stats_def stats_add_def)

theorem one_delivery_per_node_witness:
  "snd (snd (redis_publish demo_note (True, ''+OK'') (demo_bus (Inl '''')) ''t'' ''{}'' 0 [])) = [''{}'']
    \<and> (\<exists>frame. \<forall>sub. rc_in sub = '''' \<longrightarrow> int (length frame) + 2 \<le> max_alloc \<longrightarrow>
        snd (snd (snd (sub_round demo_note (push_bytes ''t'' frame @ '''') 5 sub (demo_bus (Inl '''')) [''x'']))) = [''x'']
      \<and> snd (snd (snd (sub_round demo_note (push_bytes ''t'' frame @ '''') 5 sub (demo_bus (Inr [7])) [''x'']))) = [''x'', ''{}''])"
proof -
  have v: "valid_utf8 (rb_nodeID (demo_bus (Inl '''')))" by (simp only: demo_bus_facts node_id_valid)
  have d: "new_node_id (Inr [7]) \<noteq> new_node_id (Inl '''')" by code_simp
  have t: "int (length ''t'') + 2 \<le> max_alloc" by (simp add: max_alloc_def)
  note one = one_delivery_per_node [OF demo_bus_facts(1,2) _ v, of "(True, ''+OK'')" 0 demo_note "''t''" "''{}''" "[]"]
  then obtain frame where "\<forall>b sub later now' s'. \<not> rb_closed b \<longrightarrow> rc_in sub = '''' \<longrightarrow>
      int (length ''t'') + 2 \<le> max_alloc \<longrightarrow> int (length frame) + 2 \<le> max_alloc \<longrightarrow>
      sub_round demo_note (push_bytes ''t'' frame @ later) now' sub b s' =
        (None, sub\<lparr>rc_in := later\<rparr>, b, if rb_nodeID b = rb_nodeID (demo_bus (Inl '''')) then s'
         else snd (mb_deliver demo_note (rb_local b)
           \<lparr>en_Topic = ''t'', en_Payload = ''{}'', en_Origin = rb_nodeID (demo_bus (Inl '''')), en_Local = False, en_At = now'\<rparr> s'))"
    by auto
  note push = this [rule_format]
  have h: "snd (snd (snd (sub_round demo_note (push_bytes ''t'' frame @ '''') 5 sub (demo_bus rnd) [''x''])))
      = (if new_node_id rnd = new_node_id (Inl '''') then [''x''] else [''x'', ''{}''])"
    if "rc_in sub = ''''" "int (length frame) + 2 \<le> max_alloc" for sub rnd
    using push [OF demo_bus_facts(1) that(1) t that(2), where later = "''''" and now' = 5 and s' = "[''x'']"] by (simp add: demo_bus_facts(3,4))
  have "\<forall>sub. rc_in sub = '''' \<longrightarrow> int (length frame) + 2 \<le> max_alloc \<longrightarrow>
        snd (snd (snd (sub_round demo_note (push_bytes ''t'' frame @ '''') 5 sub (demo_bus (Inl '''')) [''x'']))) = [''x'']
      \<and> snd (snd (snd (sub_round demo_note (push_bytes ''t'' frame @ '''') 5 sub (demo_bus (Inr [7])) [''x'']))) = [''x'', ''{}'']"
    using d by (intro allI impI) (simp only: h simp_thms if_True if_False)
  moreover have "snd (snd (redis_publish demo_note (True, ''+OK'') (demo_bus (Inl '''')) ''t'' ''{}'' 0 [])) = [''{}'']"
    using one by (simp add: demo_bus_facts(4) home_envelope_def)
  ultimately show ?thesis by blast
qed

section \<open>When the bus is not what it seems\<close>

datatype bus_event = Publishes string string string time | Hears string time

text \<open>A publish whose write fails, and a round of the read loop.\<close>

definition bus_event_step :: "('h, 's) runner \<Rightarrow> bus_event \<Rightarrow> redis_conn \<times> 'h redis_broker \<times> 's \<Rightarrow> redis_conn \<times> 'h redis_broker \<times> 's" where
  "bus_event_step run ev st =
     (case st of (sub, b, s) \<Rightarrow>
       (case ev of
          Publishes topic payload arrived now \<Rightarrow> (sub, snd (redis_publish run (False, arrived) b topic payload now s))
        | Hears arrived now \<Rightarrow> snd (sub_round run arrived now sub b s)))"

definition link_of :: "'h redis_broker \<Rightarrow> redis_conn option \<times> bool \<times> bool \<times> 64 word" where
  "link_of b = (rb_pub b, rb_closed b, rb_connected b, rb_connectCount b)"

text \<open>
  A dead publisher connection is never replaced while the subscriber's lives. If writes to the
  publisher's connection fail, then whatever is published and whatever the read loop hears, the node
  keeps that same connection, sends nothing, goes on reporting itself connected, and starts no new
  round: no publish reaches the other nodes any more.
\<close>

theorem dead_publisher_stays:
  assumes "rb_pub b = Some c"
  shows "link_of (fst (snd (fold (bus_event_step run) evs (sub, b, s)))) = link_of b"
  using assms
proof (induction evs arbitrary: sub b s)
  case (Cons ev evs)
  have w: "conn_publish topic frame (False, arrived) c = (Some BusWrite, c)" for topic frame arrived
    by (simp add: conn_publish_def round_trip_def conn_write_def)
  have d: "link_of (fst (bus_deliver run topic raw now b s)) = link_of b" for topic raw now
    by (simp add: bus_deliver_def link_of_def split: option.split)
  have "link_of (fst (snd (bus_event_step run ev (sub, b, s)))) = link_of b"
  proof (cases ev)
    case (Publishes topic payload arrived now)
    show ?thesis using Cons.prems
      by (simp add: Publishes bus_event_step_def redis_publish_def publish_bus_def w case_prod_unfold Let_def link_of_def split: option.split)
  next
    case (Hears arrived now)
    show ?thesis
      by (simp add: Hears bus_event_step_def sub_round_def d case_prod_unfold Let_def split: sum.split resp.split list.split)
  qed
  moreover obtain sub' b' s' where st: "bus_event_step run ev (sub, b, s) = (sub', b', s')" by (metis prod_cases3)
  ultimately have l: "link_of b' = link_of b" by simp
  then have "rb_pub b' = Some c" using Cons.prems by (simp add: link_of_def)
  from Cons.IH [OF this, of sub' s'] l show ?case by (simp add: st)
qed simp

theorem dead_publisher_stays_witness:
  "link_of (fst (snd (fold (bus_event_step demo_note) [Publishes ''t'' ''{}'' '''' 1, Hears '''' 2] (\<lparr>rc_out = '''', rc_in = ''''\<rparr>, demo_bus (Inl ''''), []))))
    = link_of (demo_bus (Inl ''''))"
  by (rule dead_publisher_stays [OF demo_bus_facts(2)])

text \<open>
  A node can call itself connected without hearing anything. If Redis refuses SUBSCRIBE with an
  error reply, the dial succeeds and the round starts; and if the topic is subscribed after the dial
  has listed the topics and before the round installs the connections, no SUBSCRIBE is ever written for
  it although it is recorded.
\<close>

theorem connected_but_deaf:
  assumes "\<not> rb_closed b" and "rb_sub b = None" and "CHR 0x0A \<notin> set msg" and "rp_password p = ''''" and "rp_db p = 0"
  shows "(\<exists>pub sub. dial_pair p (True, n1, n2) (True, n3, n4) [topic] (\<lambda>t. (True, resp_bytes (RErr msg))) = Inr (pub, sub)
      \<and> rb_connected (snd (round_start (pub, sub) b)) \<and> rb_ready (snd (round_start (pub, sub) b)))
    \<and> (\<exists>pub sub. dial_pair p (True, n1, n2) (True, n3, n4) [] net = Inr (pub, sub)
      \<and> (let b' = snd (round_start (pub, sub) (snd (redis_subscribe b topic h True)))
         in topic |\<in>| rb_topics b' \<and> rb_connected b' \<and> map_option rc_out (rb_sub b') = Some ''''))"
proof -
  have "resp_ok (RErr msg)" using assms(3) by simp
  then have "read_value (resp_bytes (RErr msg)) = (Inr (RErr msg), [])"
    using read_value_encoded [of "RErr msg" "[]"] by simp
  with assms show ?thesis
    by (simp add: dial_pair_def dial_def handshake_def conn_write_def conn_read_def round_start_def redis_subscribe_def case_prod_unfold Let_def)
qed

theorem connected_but_deaf_witness:
  "\<exists>pub sub. dial_pair \<lparr>rp_addr = ''bus:6379'', rp_user = '''', rp_password = '''', rp_db = 0\<rparr> (True, (True, ''''), (True, '''')) (True, (True, ''''), (True, ''''))
      [''t''] (\<lambda>t. (True, resp_bytes (RErr ''NOPERM''))) = Inr (pub, sub)
    \<and> rb_connected (snd (round_start (pub, sub) (demo_bus (Inl ''''))))"
proof -
  have b: "\<not> rb_closed (demo_bus (Inl ''''))" "rb_sub (demo_bus (Inl '''')) = None"
    by (simp_all add: demo_bus_facts(1)) (simp add: demo_bus_def redis_subscribe_def new_redis_def case_prod_unfold Let_def)
  have "CHR 0x0A \<notin> set ''NOPERM''" by simp
  from connected_but_deaf [OF b this, of "\<lparr>rp_addr = ''bus:6379'', rp_user = '''', rp_password = '''', rp_db = 0\<rparr>"
      "(True, '''')" "(True, '''')" "(True, '''')" "(True, '''')" "''t''"]
  show ?thesis by (simp only: redis_params.simps simp_thms) blast
qed

text \<open>
  The supervisor never stops trying and never waits long: after any number of lost rounds the wait
  is 250 ms doubled that many times up to five seconds, whatever the rounds did, and every lost round
  counts as one bus error.
\<close>

theorem reconnect_waits:
  "((\<lambda>st. snd (round_lost st)) ^^ n) (b, initial_backoff) =
     (b\<lparr>rb_busErrors := rb_busErrors b + of_nat n\<rparr>, min (5 * second) (250 * millisecond * 2 ^ n))"
proof (induction n)
  case (Suc n)
  have "next_backoff (min (5 * second) (250 * millisecond * 2 ^ n)) = min (5 * second) (250 * millisecond * 2 ^ Suc n)"
    by (simp add: next_backoff_def min_def second_def millisecond_def)
  with Suc show ?case by (simp add: round_lost_def algebra_simps)
qed (simp add: initial_backoff_def second_def millisecond_def)

end
