(* ===== verification/Gw_Ingest.thy ===== *)
theory Gw_Ingest
  imports Gw_Connection_Run Gw_Idempotency Gw_Bus
begin

text \<open>
  The server-to-server side of the gateway (\<open>internal/server/ingest.go\<close>): a publish request, its
  checks in their order, replay suppression, and the fan-out through the broker into the hub. The
  stdlib's streaming scanner is spelled out because the size ceiling cuts the body off while it reads.
\<close>

section \<open>Requests and responses\<close>

record http_request =
  rq_Method :: string
  rq_Path :: string
  rq_Authorization :: string
  rq_Origin :: string
  rq_RequestID :: string \<comment> \<open>the correlation id in the request's context\<close>
  rq_Body :: string

record http_response =
  rs_Status :: int
  rs_ContentType :: string
  rs_Body :: string

text \<open>\<open>writeJSON\<close>; a body that cannot be marshalled becomes a plain internal error.\<close>

definition write_json :: "int \<Rightarrow> (string \<times> fval) list \<Rightarrow> http_response" where
  "write_json status kvs =
     (let (st, data) = (case json_struct kvs of
            None \<Rightarrow> (500, [CHR ''{'', dq] @ ''detail'' @ [dq, CHR '':'', dq] @ ''internal error'' @ [dq, CHR ''}''])
          | Some data \<Rightarrow> (status, data))
      in \<lparr>rs_Status = st, rs_ContentType = ''application/json; charset=utf-8'', rs_Body = data\<rparr>)"

definition detail :: "int \<Rightarrow> string \<Rightarrow> http_response" where
  "detail status message = write_json status [(''detail'', VStr message)]"

section \<open>Where the first JSON value of a stream ends\<close>

datatype scan_state =
    BeginValue | BeginValueOrEmpty | BeginStringOrEmpty | BeginString | EndValue
  | InString | InStringEsc | InStringEscU nat
  | Neg | Digits | Zero | Dot | DotDigits | Expo | ExpoSign | ExpoDigits | Literal string

datatype nest = ObjectKey | ObjectValue | ArrayValue

text \<open>\<open>Closes\<close>: the byte closed an object or array. \<open>Ends\<close>: the value ended before this byte.\<close>

datatype scan_step = Fails | Ends | Goes scan_state "nest list" | Closes "nest list"

definition push_nest :: "nest \<Rightarrow> scan_state \<Rightarrow> nest list \<Rightarrow> scan_step" where
  "push_nest n st ns = (if length ns + 1 > max_nesting then Fails else Goes st (n # ns))"

definition end_value :: "char \<Rightarrow> nest list \<Rightarrow> scan_step" where
  "end_value c ns =
     (case ns of
        [] \<Rightarrow> Ends
      | n # ns' \<Rightarrow>
          if is_ws c then Goes EndValue ns
          else (case n of
              ObjectKey \<Rightarrow> if c = CHR '':'' then Goes BeginValue (ObjectValue # ns') else Fails
            | ObjectValue \<Rightarrow>
                if c = CHR '','' then Goes BeginString (ObjectKey # ns') else if c = CHR ''}'' then Closes ns' else Fails
            | ArrayValue \<Rightarrow>
                if c = CHR '','' then Goes BeginValue ns else if c = CHR '']'' then Closes ns' else Fails))"

definition begin_value :: "char \<Rightarrow> nest list \<Rightarrow> scan_step" where
  "begin_value c ns =
     (if is_ws c then Goes BeginValue ns
      else if c = CHR ''{'' then push_nest ObjectKey BeginStringOrEmpty ns
      else if c = CHR ''['' then push_nest ArrayValue BeginValueOrEmpty ns
      else if c = dq then Goes InString ns
      else if c = CHR ''-'' then Goes Neg ns
      else if c = CHR ''0'' then Goes Zero ns
      else if c = CHR ''t'' then Goes (Literal ''rue'') ns
      else if c = CHR ''f'' then Goes (Literal ''alse'') ns
      else if c = CHR ''n'' then Goes (Literal ''ull'') ns
      else if is_digit c then Goes Digits ns
      else Fails)"

definition scan_tail :: "scan_state \<Rightarrow> char \<Rightarrow> nest list \<Rightarrow> scan_step" where
  "scan_tail st c ns =
     (if st = Digits \<and> is_digit c then Goes Digits ns
      else if st \<in> {Digits, Zero} \<and> c = CHR ''.'' then Goes Dot ns
      else if st = DotDigits \<and> is_digit c then Goes DotDigits ns
      else if st \<in> {Digits, Zero, DotDigits} \<and> c \<in> {CHR ''e'', CHR ''E''} then Goes Expo ns
      else if st = ExpoDigits \<and> is_digit c then Goes ExpoDigits ns
      else end_value c ns)"

fun scan_char :: "scan_state \<Rightarrow> char \<Rightarrow> nest list \<Rightarrow> scan_step" where
  "scan_char BeginValue c ns = begin_value c ns"
| "scan_char BeginValueOrEmpty c ns =
     (if is_ws c then Goes BeginValueOrEmpty ns else if c = CHR '']'' then end_value c ns else begin_value c ns)"
| "scan_char BeginStringOrEmpty c ns =
     (if is_ws c then Goes BeginStringOrEmpty ns
      else if c = CHR ''}'' then end_value c (ObjectValue # tl ns)
      else if c = dq then Goes InString ns else Fails)"
| "scan_char BeginString c ns = (if is_ws c then Goes BeginString ns else if c = dq then Goes InString ns else Fails)"
| "scan_char EndValue c ns = end_value c ns"
| "scan_char InString c ns =
     (if c = dq then Goes EndValue ns else if c = bs then Goes InStringEsc ns
      else if byte_val c < 0x20 then Fails else Goes InString ns)"
| "scan_char InStringEsc c ns =
     (if c \<in> {CHR ''b'', CHR ''f'', CHR ''n'', CHR ''r'', CHR ''t'', bs, CHR ''/'', dq} then Goes InString ns
      else if c = CHR ''u'' then Goes (InStringEscU 3) ns else Fails)"
| "scan_char (InStringEscU k) c ns =
     (if hex_val c = None then Fails else if k = 0 then Goes InString ns else Goes (InStringEscU (k - 1)) ns)"
| "scan_char Neg c ns = (if c = CHR ''0'' then Goes Zero ns else if is_digit c then Goes Digits ns else Fails)"
| "scan_char Dot c ns = (if is_digit c then Goes DotDigits ns else Fails)"
| "scan_char Expo c ns =
     (if c \<in> {CHR ''+'', CHR ''-''} then Goes ExpoSign ns else if is_digit c then Goes ExpoDigits ns else Fails)"
| "scan_char ExpoSign c ns = (if is_digit c then Goes ExpoDigits ns else Fails)"
| "scan_char (Literal w) c ns =
     (case w of [] \<Rightarrow> end_value c ns | x # w' \<Rightarrow> if c = x then Goes (if w' = [] then EndValue else Literal w') ns else Fails)"
| "scan_char st c ns = scan_tail st c ns"

datatype scan_verdict = Broken | Complete | Unfinished

fun scan_first :: "scan_state \<Rightarrow> nest list \<Rightarrow> string \<Rightarrow> scan_verdict" where
  "scan_first st ns [] = Unfinished"
| "scan_first st ns (c # s) =
     (case scan_char st c ns of
        Fails \<Rightarrow> Broken
      | Ends \<Rightarrow> Complete
      | Goes st' ns' \<Rightarrow> scan_first st' ns' s
      | Closes ns' \<Rightarrow> if ns' = [] then Complete else scan_first EndValue ns' s)"

section \<open>The publish request\<close>

record ingest_request =
  ir_TenantID :: string
  ir_Room :: string
  ir_Kind :: string
  ir_Payload :: string
  ir_EventID :: string

definition zero_ingest :: ingest_request where
  "zero_ingest = \<lparr>ir_TenantID = '''', ir_Room = '''', ir_Kind = '''', ir_Payload = '''', ir_EventID = ''''\<rparr>"

text \<open>Both structs of this file have these fields; the order only shows when one is written.\<close>

definition set_ingest :: "string \<Rightarrow> string \<Rightarrow> jval \<Rightarrow> ingest_request \<Rightarrow> ingest_request option" where
  "set_ingest key raw v m =
     (if key_is ''tenant_id'' key then map_option (\<lambda>s. m\<lparr>ir_TenantID := s\<rparr>) (set_string v (ir_TenantID m))
      else if key_is ''room'' key then map_option (\<lambda>s. m\<lparr>ir_Room := s\<rparr>) (set_string v (ir_Room m))
      else if key_is ''kind'' key then map_option (\<lambda>s. m\<lparr>ir_Kind := s\<rparr>) (set_string v (ir_Kind m))
      else if key_is ''payload'' key then Some (m\<lparr>ir_Payload := raw\<rparr>)
      else if key_is ''event_id'' key then map_option (\<lambda>s. m\<lparr>ir_EventID := s\<rparr>) (set_string v (ir_EventID m))
      else Some m)"

definition publish_fields :: "ingest_request \<Rightarrow> (string \<times> fval) list" where
  "publish_fields m =
     [(''tenant_id'', VStr (ir_TenantID m)), (''room'', VStr (ir_Room m)), (''kind'', VStr (ir_Kind m))]
     @ opt_field (ir_EventID m \<noteq> '''') ''event_id'' (VStr (ir_EventID m)) @ [(''payload'', VRaw (ir_Payload m))]"

datatype body_error = TooLarge | NotJSON

text \<open>\<open>MaxBytesReader\<close> under \<open>NewDecoder\<close>: the decoder sees at most \<open>limit\<close> bytes and learns of the excess only when it needs more.\<close>

definition decode_body :: "int \<Rightarrow> string \<Rightarrow> body_error + ingest_request" where
  "decode_body limit body =
     (let seen = take (nat limit) body;
          decoded = (case decode_first set_ingest zero_ingest seen of None \<Rightarrow> Inl NotJSON | Some req \<Rightarrow> Inr req)
      in case scan_first BeginValue [] seen of
           Broken \<Rightarrow> Inl NotJSON
         | Complete \<Rightarrow> decoded
         | Unfinished \<Rightarrow> if length seen < length body then Inl TooLarge else decoded)"

section \<open>Checks\<close>

definition ingest_authorized :: "(string \<Rightarrow> string) \<Rightarrow> string \<Rightarrow> string \<Rightarrow> bool" where
  "ingest_authorized sha header secret =
     (let (token, ok) = extract_bearer header in if \<not> ok then False else constant_time_token_equal sha token secret)"

text \<open>Why a decoded request is refused: the reason for the event log, the status and the message.\<close>

definition payload_shape_ok :: "string \<Rightarrow> bool" where
  "payload_shape_ok payload =
     (let trimmed = trim_space payload
      in payload \<noteq> '''' \<and> json_valid payload \<and> trimmed \<noteq> '''' \<and> (hd trimmed = CHR ''{'' \<or> hd trimmed = CHR ''[''))"

definition shape_refusal :: "int \<Rightarrow> ingest_request \<Rightarrow> (string \<times> int \<times> string) option" where
  "shape_refusal cap req =
     (if \<not> is_uuid (ir_TenantID req) then Some (''tenant_id_shape'', 422, ''tenant_id must be a UUID'')
      else if \<not> is_room_name (ir_Room req) then
        Some (''room_shape'', 422, ''room must be calls, metrics, call:<uuid> or campaign:<uuid>'')
      else if \<not> is_event_kind (ir_Kind req) then
        Some (''kind_shape'', 422, ''kind must be a dotted event name like call.updated'')
      else if \<not> payload_shape_ok (ir_Payload req) then Some (''payload_shape'', 422, ''payload must be a JSON object or array'')
      else if int (length (ir_Payload req)) > cap then Some (''payload_too_large'', 413, ''payload too large'')
      else if ir_EventID req \<noteq> '''' \<and> \<not> is_uuid (ir_EventID req) then
        Some (''event_id_shape'', 422, ''event_id must be a UUID when present'')
      else None)"

section \<open>The server's state\<close>

text \<open>The interface value \<open>bus\<close>; its only handler is the hub's delivery point.\<close>

datatype bus = MemoryBus "unit memory_broker" | RedisBus "unit redis_broker"

text \<open>What both implementations share, for the statements: the local registry and the closed flag.\<close>

definition bus_table :: "bus \<Rightarrow> unit memory_broker" where
  "bus_table b = (case b of MemoryBus m \<Rightarrow> m | RedisBus r \<Rightarrow> rb_local r)"

definition bus_shut :: "bus \<Rightarrow> bool" where
  "bus_shut b = (case b of MemoryBus m \<Rightarrow> mb_closed m | RedisBus r \<Rightarrow> rb_closed r)"

text \<open>The calls \<open>s.bus.Publish\<close> and \<open>s.bus.Close\<close>, dispatched on the implementation behind the interface.\<close>

definition bus_publish ::
  "(unit, 's) runner \<Rightarrow> bool \<times> string \<Rightarrow> bus \<Rightarrow> string \<Rightarrow> string \<Rightarrow> time \<Rightarrow> 's \<Rightarrow> (publish_error + broker_stats) \<times> bus \<times> 's"
where
  "bus_publish run net b topic payload now s =
     (case b of
        MemoryBus m \<Rightarrow> (let (r, s') = mb_publish run m topic payload now s in (r, b, s'))
      | RedisBus rb \<Rightarrow> (let (r, rb', s') = redis_publish run net rb topic payload now s in (r, RedisBus rb', s')))"

definition bus_close :: "bus \<Rightarrow> bus" where
  "bus_close b = (case b of MemoryBus m \<Rightarrow> MemoryBus (mb_close m) | RedisBus r \<Rightarrow> RedisBus (redis_close r))"

type_synonym op_event = "string \<times> (string \<times> string) list"

record server =
  sv_node :: gateway
  sv_replay :: store
  sv_bus :: bus
  sv_events :: "op_event list" \<comment> \<open>what went to the structured event sink\<close>

definition ingest_topic :: string where "ingest_topic = ''voxdesk:ingest''"

text \<open>What one request meets: the loop orders of the hub and of the replay sweep, the clock, the bus network, and SHA-256.\<close>

record ambient =
  am_sha :: "string \<Rightarrow> string"
  am_ord :: "string \<times> string \<Rightarrow> string list"
  am_pick :: "(string, time) fmap \<Rightarrow> string list"
  am_net :: "bool \<times> string"
  am_now :: time

section \<open>Delivery\<close>

definition handle_ingest_envelope :: "(string \<times> string \<Rightarrow> string list) \<Rightarrow> time \<Rightarrow> (unit, gateway) runner" where
  "handle_ingest_envelope ord now h env g =
     (case unmarshal set_ingest zero_ingest (en_Payload env) of
        None \<Rightarrow> (Some no_stats, g)
      | Some msg \<Rightarrow>
          let ((n, m), g1) = deliver (ord (ir_TenantID msg, ir_Room msg)) (ir_TenantID msg) (ir_Room msg)
                (new_delivery (ir_Room msg) (ir_Kind msg) (ir_EventID msg) (ir_Payload msg) now) g;
              g2 = (if \<not> en_Local env
                    then tally (\<lambda>r. dropped r (of_nat m)) (tally (\<lambda>r. delivered r (of_nat n)) g1) else g1)
          in (Some \<lparr>bs_Delivered = int n, bs_Dropped = int m\<rparr>, g2))"

section \<open>The handler\<close>

definition emit_ingest :: "http_request \<Rightarrow> string \<Rightarrow> (string \<times> string) list \<Rightarrow> server \<Rightarrow> server" where
  "emit_ingest r name kv sv =
     sv\<lparr>sv_events := sv_events sv @ [(name, kv @ (if rq_RequestID r \<noteq> '''' then [(''request_id'', rq_RequestID r)] else []))]\<rparr>"

definition sv_tally :: "(metrics_registry \<Rightarrow> metrics_registry) \<Rightarrow> server \<Rightarrow> server" where
  "sv_tally f sv = sv\<lparr>sv_node := tally f (sv_node sv)\<rparr>"

definition reject :: "http_request \<Rightarrow> string \<Rightarrow> int \<Rightarrow> string \<Rightarrow> server \<Rightarrow> http_response \<times> server" where
  "reject r reason status message sv =
     (detail status message, emit_ingest r ''ingest.rejected'' [(''reason'', reason)] (sv_tally ingest_rejected sv))"

definition ingest_response :: "int \<Rightarrow> int \<Rightarrow> bool \<Rightarrow> http_response" where
  "ingest_response n m dup = write_json 200 [(''delivered'', VInt n), (''dropped'', VInt m), (''duplicate'', VBool dup)]"

text \<open>Step 5: the frame through the broker. \<open>None\<close>: a panic, so the connection is dropped without an answer.\<close>

definition fan_out :: "ambient \<Rightarrow> http_request \<Rightarrow> ingest_request \<Rightarrow> server \<Rightarrow> http_response option \<times> server" where
  "fan_out am r msg sv =
     (case json_struct (publish_fields msg) of
        None \<Rightarrow> (let (rs, sv') = reject r ''frame_marshal'' 422 ''payload could not be framed'' sv in (Some rs, sv'))
      | Some frame \<Rightarrow>
          (case bus_publish (handle_ingest_envelope (am_ord am) (am_now am)) (am_net am) (sv_bus sv) ingest_topic frame (am_now am) (sv_node sv) of
             (Inl PublishPanics, bus', g') \<Rightarrow> (None, sv\<lparr>sv_bus := bus', sv_node := g'\<rparr>)
           | (Inl ErrClosed, bus', g') \<Rightarrow>
               (let (rs, sv') = reject r ''bus_closed'' 503 ''gateway is shutting down'' (sv\<lparr>sv_bus := bus', sv_node := g'\<rparr>) in (Some rs, sv'))
           | (Inr st, bus', g') \<Rightarrow>
               (Some (ingest_response (bs_Delivered st) (bs_Dropped st) False),
                emit_ingest r ''ingest.accepted''
                  [(''tenant'', ir_TenantID msg), (''room'', ir_Room msg), (''kind'', ir_Kind msg), (''event_id'', ir_EventID msg),
                   (''delivered'', json_int (bs_Delivered st)), (''dropped'', json_int (bs_Dropped st))]
                  (sv_tally (\<lambda>x. dropped x (word_of_int (bs_Dropped st)))
                    (sv_tally (\<lambda>x. delivered x (word_of_int (bs_Delivered st)))
                      (sv_tally ingest_accepted (sv\<lparr>sv_bus := bus', sv_node := g'\<rparr>)))))))"

definition serve_ingest :: "edge \<Rightarrow> ambient \<Rightarrow> http_request \<Rightarrow> server \<Rightarrow> http_response option \<times> server" where
  "serve_ingest e am r sv =
     (let refuse = (\<lambda>reason status message. let (rs, sv') = reject r reason status message sv in (Some rs, sv'))
      in if \<not> ingest_authorized (am_sha am) (rq_Authorization r) (cf_IngestSecret (ed_cfg e)) then
           refuse ''auth'' 401 ''invalid ingest credentials''
         else case decode_body (cf_MaxIngestPayloadBytes (ed_cfg e) + 4096) (rq_Body r) of
             Inl TooLarge \<Rightarrow> refuse ''payload_too_large'' 413 ''payload too large''
           | Inl NotJSON \<Rightarrow> refuse ''not_json'' 422 ''body is not valid JSON''
           | Inr req \<Rightarrow>
               (case shape_refusal (cf_MaxIngestPayloadBytes (ed_cfg e)) req of
                  Some (reason, status, message) \<Rightarrow> refuse reason status message
                | None \<Rightarrow>
                    let msg = req\<lparr>ir_TenantID := to_lower (ed_ul e) (ir_TenantID req)\<rparr>;
                        (seen, replay') =
                          (if ir_EventID req \<noteq> '''' then seen_before (am_pick am) (sv_replay sv) (ir_TenantID msg) (ir_EventID req) (am_now am)
                           else (False, sv_replay sv));
                        sv1 = sv\<lparr>sv_replay := replay'\<rparr>
                    in if seen then
                         (Some (ingest_response 0 0 True),
                          emit_ingest r ''ingest.duplicate''
                            [(''tenant'', ir_TenantID msg), (''room'', ir_Room msg), (''kind'', ir_Kind msg), (''event_id'', ir_EventID msg)]
                            (sv_tally ingest_duplicate sv1))
                       else fan_out am r msg sv1))"

end
