(* ===== verification/Gw_Observability.thy ===== *)
theory Gw_Observability
  imports Gw_Protocol Gw_Validate "HOL-Library.Char_ord" "HOL-Library.List_Lexorder"
begin

text \<open>
  What the gateway says about itself besides its metrics (\<open>internal/observability\<close>): the correlation id
  of a request, the levelled logger with its key=value suffix, and the structured event line. The time
  stamp the standard logger puts in front of a line is left out; \<open>quoted\<close> stands for the \<open>%q\<close> verb,
  whose treatment of runes outside ASCII needs the Unicode tables.
\<close>

section \<open>Correlation ids\<close>

definition sanitize_request_id :: "string \<Rightarrow> string" where
  "sanitize_request_id raw =
     (if length raw = 0 \<or> length raw > 128 then ''''
      else if \<not> list_all (\<lambda>c. 0x20 \<le> byte_val c \<and> byte_val c \<le> 0x7E) raw then ''''
      else raw)"

definition new_request_id :: "string + 8 word list \<Rightarrow> string" where
  "new_request_id rnd = (case rnd of Inl err \<Rightarrow> ''0000000000000000-rand-failed'' | Inr b \<Rightarrow> hex_bytes b)"

text \<open>The id stamped on the response and stored in the request's context.\<close>

definition request_id_middleware :: "string \<Rightarrow> string + 8 word list \<Rightarrow> string" where
  "request_id_middleware header rnd =
     (let rid = sanitize_request_id header in if rid = '''' then new_request_id rnd else rid)"

definition request_id_from :: "string option \<Rightarrow> string" where
  "request_id_from stored = (case stored of Some rid \<Rightarrow> rid | None \<Rightarrow> [])"

section \<open>Levels\<close>

datatype level = LDebug | LInfo | LWarn | LError | LOff

fun level_rank :: "level \<Rightarrow> nat" where
  "level_rank LDebug = 0" | "level_rank LInfo = 1" | "level_rank LWarn = 2" | "level_rank LError = 3" | "level_rank LOff = 4"

text \<open>The order of the \<open>int32\<close> constants.\<close>

instantiation level :: linorder
begin

definition less_eq_level :: "level \<Rightarrow> level \<Rightarrow> bool" where
  "less_eq_level a b \<longleftrightarrow> level_rank a \<le> level_rank b"

definition less_level :: "level \<Rightarrow> level \<Rightarrow> bool" where
  "less_level a b \<longleftrightarrow> level_rank a < level_rank b"

instance
proof
  fix a b :: level
  show "a \<le> b \<Longrightarrow> b \<le> a \<Longrightarrow> a = b" by (cases a; cases b) (simp_all add: less_eq_level_def)
qed (auto simp: less_eq_level_def less_level_def)

end

fun level_string :: "level \<Rightarrow> string" where
  "level_string LDebug = ''debug''" | "level_string LInfo = ''info''" | "level_string LWarn = ''warn''"
| "level_string LError = ''error''" | "level_string LOff = ''off''"

definition parse_level :: "(string \<Rightarrow> string) \<Rightarrow> string \<Rightarrow> level" where
  "parse_level ul s =
     (let t = to_lower ul (trim_space s) in
      if t = ''debug'' then LDebug
      else if t = ''warn'' \<or> t = ''warning'' then LWarn
      else if t = ''error'' then LError
      else if t = ''off'' then LOff
      else LInfo)"

section \<open>The logger\<close>

record logger =
  lg_min :: level
  lg_kv :: string

definition new_logger :: "level \<Rightarrow> logger" where
  "new_logger l = \<lparr>lg_min = l, lg_kv = ''''\<rparr>"

fun render_kv :: "(string \<Rightarrow> string) \<Rightarrow> string list \<Rightarrow> string" where
  "render_kv quoted [] = ''''"
| "render_kv quoted [k] = '' '' @ k"
| "render_kv quoted (k # v # kvs) =
     (let value = (if list_ex (\<lambda>c. c \<in> {CHR '' '', CHR 0x09, dq}) v then quoted v else v)
      in '' '' @ k @ ''='' @ value @ render_kv quoted kvs)"

definition with_kv :: "(string \<Rightarrow> string) \<Rightarrow> logger \<Rightarrow> string list \<Rightarrow> logger" where
  "with_kv quoted l kvs = l\<lparr>lg_kv := lg_kv l @ render_kv quoted kvs\<rparr>"

definition set_level :: "logger \<Rightarrow> level \<Rightarrow> logger" where
  "set_level l m = l\<lparr>lg_min := m\<rparr>"

definition log_enabled :: "logger \<Rightarrow> level \<Rightarrow> bool" where
  "log_enabled l lev \<longleftrightarrow> lg_min l \<le> lev"

definition logger_level :: "logger \<Rightarrow> level" where
  "logger_level l = lg_min l"

definition upper_char :: "char \<Rightarrow> char" where
  "upper_char c = (if 97 \<le> byte_val c \<and> byte_val c \<le> 122 then char_of (byte_val c - 32) else c)"

text \<open>The line a formatted message becomes, if any.\<close>

definition log_line :: "logger \<Rightarrow> level \<Rightarrow> string \<Rightarrow> string option" where
  "log_line l lev msg =
     (if \<not> log_enabled l lev then None
      else Some (map upper_char (level_string lev) @ '' '' @ msg @ lg_kv l))"

section \<open>Events\<close>

definition event_field :: "(string, string) fmap \<Rightarrow> string \<Rightarrow> string" where
  "event_field flds key = fmget '''' flds key"

text \<open>\<open>LogEmitter.Emit\<close>: the JSON of an event, its fields sorted by key; \<open>stamp\<close> is the text of its time.\<close>

definition event_json :: "string \<Rightarrow> string \<Rightarrow> (string, string) fmap \<Rightarrow> string" where
  "event_json name stamp flds =
     json_obj ([(''event'', json_quote name), (''at'', json_quote stamp)]
       @ (if flds = fmempty then []
          else [(''fields'', json_obj (map (\<lambda>k. (k, json_quote (event_field flds k))) (sorted_list_of_fset (fmdom flds))))]))"

definition emit_line :: "logger option \<Rightarrow> string \<Rightarrow> string \<Rightarrow> (string, string) fmap \<Rightarrow> string option" where
  "emit_line lg name stamp flds =
     (case lg of None \<Rightarrow> None
      | Some l \<Rightarrow> if \<not> log_enabled l LInfo then None else log_line l LInfo (''EVENT '' @ event_json name stamp flds))"

text \<open>An emitter is the list of sinks an event reaches; the discarding one reaches none.\<close>

definition multi_emitter :: "'sink list option list \<Rightarrow> 'sink list" where
  "multi_emitter emitters = concat (map (\<lambda>em. case em of None \<Rightarrow> [] | Some sinks \<Rightarrow> sinks) emitters)"

section \<open>What the log can be trusted with\<close>

definition header_safe :: "string \<Rightarrow> bool" where
  "header_safe s \<longleftrightarrow> s \<noteq> '''' \<and> length s \<le> 128 \<and> list_all (\<lambda>c. 0x20 \<le> byte_val c \<and> byte_val c \<le> 0x7E) s"

lemma hex_byte_printable: "list_all (\<lambda>c. 0x20 \<le> byte_val c \<and> byte_val c \<le> 0x7E) (hex_byte b)"
proof -
  have "list_all (\<lambda>n. 0x20 \<le> byte_val (hex_digits ! n) \<and> byte_val (hex_digits ! n) \<le> 0x7E) [0 ..< 16]" by code_simp
  then show ?thesis by (simp add: hex_byte_def hex_digit_def list_all_iff nibble_bounds)
qed

lemma hex_bytes_printable: "list_all (\<lambda>c. 0x20 \<le> byte_val c \<and> byte_val c \<le> 0x7E) (hex_bytes ws)"
  using hex_byte_printable by (induction ws) simp_all

lemma hex_bytes_length: "length (hex_bytes ws) = 2 * length ws"
  by (induction ws) simp_all

text \<open>
  Every request leaves with a correlation id that is safe to echo in a header: not empty, at most
  128 printable ASCII bytes, no line break. A presented id of that shape is kept unchanged, so a trace
  continues, and any other one is replaced by an id the caller has no say in.
\<close>

theorem request_ids_safe:
  assumes "\<And>b. rnd = Inr b \<Longrightarrow> length b = 16"
  shows "header_safe (request_id_middleware header rnd)
    \<and> (header_safe header \<longrightarrow> request_id_middleware header rnd = header)
    \<and> (\<not> header_safe header \<longrightarrow> request_id_middleware header rnd = new_request_id rnd)"
proof -
  have s: "sanitize_request_id header = (if header_safe header then header else '''')"
    by (auto simp: sanitize_request_id_def header_safe_def)
  have "header_safe (new_request_id rnd)"
  proof (cases rnd)
    case (Inl err)
    have "header_safe ''0000000000000000-rand-failed''" by code_simp
    then show ?thesis by (simp add: new_request_id_def Inl)
  next
    case (Inr b)
    with assms hex_bytes_printable [of b] show ?thesis by (auto simp: new_request_id_def header_safe_def hex_bytes_length dest: arg_cong [where f = length])
  qed
  then show ?thesis by (auto simp: request_id_middleware_def s Let_def header_safe_def)
qed

theorem request_ids_safe_witness: "header_safe (request_id_middleware (''a'' @ [CHR 0x0A]) (Inr (replicate 16 0)))"
  by (rule conjunct1 [OF request_ids_safe]) auto

text \<open>A value with a line break is not quoted, so the suffix is not one line.\<close>

lemma kv_breaks_line: "render_kv quoted [''k'', ''a'' @ [CHR 0x0A] @ ''b''] = '' k=a'' @ [CHR 0x0A] @ ''b''"
  by (simp add: dq_def)

text \<open>An unknown level name never silences the log, and a level prints exactly what is at least as severe.\<close>

lemma parse_level_floor: "parse_level ul s \<noteq> LOff \<or> to_lower ul (trim_space s) = ''off''"
  by (simp add: parse_level_def Let_def)

lemma log_line_iff: "log_line l lev msg \<noteq> None \<longleftrightarrow> lg_min l \<le> lev"
  by (simp add: log_line_def log_enabled_def)

end
