(* ===== verification/Gw_Server.thy ===== *)
theory Gw_Server
  imports Gw_Ingest Gw_Observability Gw_Connection_Close
begin

text \<open>
  The gateway's front door (\<open>internal/server\<close>, \<open>internal/websocket/upgrader.go\<close>): construction of the
  server and its broker, the routes and their verbs, the WebSocket upgrade with its capacity gate and
  origin policy, the probes, the scrape and the shutdown.
\<close>

section \<open>The broker of a configuration\<close>

text \<open>What \<open>url.Parse\<close> finds in a URL; the user information is a name and a password.\<close>

record url_parts =
  u_Scheme :: string
  u_Hostname :: string
  u_Port :: string
  u_User :: "(string \<times> string) option"
  u_Path :: string

datatype url_error = UrlUnparsable | UrlScheme string | UrlHost | UrlPath string | UrlDB string

definition join_host_port :: "string \<Rightarrow> string \<Rightarrow> string" where
  "join_host_port host port = (if CHR '':'' \<in> set host then ''['' @ host @ '']:'' @ port else host @ '':'' @ port)"

definition parse_redis_url :: "url_parts option \<Rightarrow> url_error + redis_params" where
  "parse_redis_url parsed =
     (case parsed of
        None \<Rightarrow> Inl UrlUnparsable
      | Some u \<Rightarrow>
          if u_Scheme u \<noteq> ''redis'' then Inl (UrlScheme (u_Scheme u))
          else if u_Hostname u = '''' then Inl UrlHost
          else
            let port = (if u_Port u = '''' then ''6379'' else u_Port u);
                (user, password) = (case u_User u of None \<Rightarrow> ('''', '''') | Some up \<Rightarrow> up);
                p = \<lparr>rp_addr = join_host_port (u_Hostname u) port, rp_user = user, rp_password = password, rp_db = 0\<rparr>;
                path = (if has_prefix (u_Path u) ''/'' then drop 1 (u_Path u) else u_Path u)
            in if path = '''' then Inr p
               else if CHR ''/'' \<in> set path then Inl (UrlPath (u_Path u))
               else (case atoi path of
                   None \<Rightarrow> Inl (UrlDB path)
                 | Some db \<Rightarrow> if db < 0 \<or> db > 15 then Inl (UrlDB path) else Inr (p\<lparr>rp_db := db\<rparr>)))"

definition new_broker_from_config :: "config \<Rightarrow> (string \<Rightarrow> url_parts option) \<Rightarrow> string + 8 word list \<Rightarrow> bus" where
  "new_broker_from_config cfg parse_url rnd =
     (if cf_BrokerKind cfg = ''redis'' then
        (case parse_redis_url (parse_url (cf_RedisURL cfg)) of
           Inl err \<Rightarrow> MemoryBus (new_memory rnd)
         | Inr p \<Rightarrow> RedisBus (new_redis p rnd))
      else MemoryBus (new_memory rnd))"

definition bus_subscribe :: "bus \<Rightarrow> string \<Rightarrow> bool \<Rightarrow> nat \<times> bus" where
  "bus_subscribe b topic ok =
     (case b of
        MemoryBus m \<Rightarrow> (let (i, m') = mb_subscribe m topic () in (i, MemoryBus m'))
      | RedisBus r \<Rightarrow> (let (i, r') = redis_subscribe r topic () ok in (i, RedisBus r')))"

text \<open>\<open>New\<close>: the presence hook is the connection layer's \<open>presence_hook\<close>; the event sink starts empty.\<close>

definition new_server :: "edge \<Rightarrow> (string \<Rightarrow> url_parts option) \<Rightarrow> string + 8 word list \<Rightarrow> gateway \<Rightarrow> server" where
  "new_server e parse_url rnd g =
     \<lparr>sv_node = g\<lparr>gw_presence := on_change presence_new 0\<rparr>,
      sv_replay = new_store (cf_IdempotencyTTL (ed_cfg e)) (cf_IdempotencyCapacity (ed_cfg e)),
      sv_bus = snd (bus_subscribe (new_broker_from_config (ed_cfg e) parse_url rnd) ingest_topic True),
      sv_events = []\<rparr>"

text \<open>\<open>SetEngine\<close>: the client goes to the router together with the configured steer mode.\<close>

definition set_engine :: "(engine_op list \<Rightarrow> engine_op \<Rightarrow> engine_err + engine_frame list) \<Rightarrow> edge \<Rightarrow> edge" where
  "set_engine eng e = e\<lparr>ed_engine := Some eng\<rparr>"

section \<open>Upgrades\<close>

definition check_origin :: "(string \<Rightarrow> string) \<Rightarrow> string list \<Rightarrow> string \<Rightarrow> bool" where
  "check_origin ul allowed_origins origin =
     (let allowed = set (map (to_lower ul) allowed_origins)
      in if origin = '''' then True else to_lower ul origin \<in> allowed)"

definition plain_error :: "int \<Rightarrow> string \<Rightarrow> http_response" where
  "plain_error status message =
     \<lparr>rs_Status = status, rs_ContentType = ''text/plain; charset=utf-8'', rs_Body = message @ [CHR 0x0A]\<rparr>"

text \<open>
  What an upgrade attempt leads to. \<open>precheck\<close> holds gorilla's refusals, if any, for a request that is
  not a proper WebSocket handshake: those it tests before the origin (headers, method, version) and
  those it tests after it (the key, the hijack). Its own status for a refused origin is 403.
\<close>

type_synonym handshake_refusals = "http_response option \<times> http_response option"

datatype ws_outcome = WsRefused http_response | WsNoSession conn_error | WsServes string conn "frame queue"

definition serve_ws ::
  "edge \<Rightarrow> http_request \<Rightarrow> handshake_refusals \<Rightarrow> string + 8 word list \<Rightarrow> time \<Rightarrow> gateway \<Rightarrow> ws_outcome \<times> gateway"
where
  "serve_ws e r precheck rnd now g =
     (if sint (connections_current (ro_reg (gw_router g))) \<ge> sint (word_of_int (cf_MaxConnections (ed_cfg e)) :: int64) then
        (WsRefused (plain_error 503 ''Service Unavailable''), tally conn_refused g)
      else
        case fst precheck of
          Some rs \<Rightarrow> (WsRefused rs, tally conn_refused g)
        | None \<Rightarrow>
            if \<not> check_origin (ed_ul e) (cf_AllowedOrigins (ed_cfg e)) (rq_Origin r) then
              (WsRefused (plain_error 403 ''Forbidden''), tally conn_refused g)
            else (case snd precheck of
                Some rs \<Rightarrow> (WsRefused rs, tally conn_refused g)
              | None \<Rightarrow>
                  (case new_connection e rnd now of
                     Inl err \<Rightarrow> (WsNoSession err, g)
                   | Inr (sid, c, q) \<Rightarrow> (WsServes sid c q, g))))"

section \<open>Probes and scrape\<close>

text \<open>What the engine client knows of its last probe: the error text, and the health report if there was one.\<close>

record engine_view =
  vw_LastError :: string
  vw_LastHealth :: "(string \<times> int) option"

definition serve_liveness :: http_response where
  "serve_liveness = write_json 200 [(''status'', VStr ''ok'')]"

definition headroom :: "edge \<Rightarrow> gateway \<Rightarrow> int64" where
  "headroom e g = word_of_int (cf_MaxConnections (ed_cfg e)) - connections_current (ro_reg (gw_router g))"

definition engine_check :: "edge \<Rightarrow> gateway \<Rightarrow> engine_view \<Rightarrow> bool \<times> string" where
  "engine_check e g v =
     (if ed_engine e = None then (True, json_obj [(''ok'', ''true''), (''state'', json_quote ''disabled'')])
      else (gw_up g,
        json_obj ((case vw_LastHealth v of None \<Rightarrow> [] | Some (version, rooms) \<Rightarrow> [(''engine_version'', json_quote version)])
          @ (if gw_up g then [] else [(''last_error'', json_quote (vw_LastError v))])
          @ [(''ok'', json_bool (gw_up g))]
          @ (case vw_LastHealth v of None \<Rightarrow> [] | Some (version, rooms) \<Rightarrow> [(''rooms'', json_int rooms)])
          @ [(''state'', json_quote (if gw_up g then ''up'' else ''down''))])))"

text \<open>The keys of a Go map are marshalled in sorted order.\<close>

definition serve_readiness :: "edge \<Rightarrow> engine_view \<Rightarrow> int \<Rightarrow> gateway \<Rightarrow> http_response" where
  "serve_readiness e v uptime g =
     (let room = headroom e g;
          (engineUp, engineCheck) = engine_check e g v;
          ready = (0 < sint room \<and> engineUp);
          (rooms, tenants) = hub_stats (gw_hub g);
          capacity = json_obj [(''current'', json_int (sint (connections_current (ro_reg (gw_router g))))), (''headroom'', json_int (sint room)),
            (''max'', json_int (sint (word_of_int (cf_MaxConnections (ed_cfg e)) :: int64))), (''ok'', json_bool ready)];
          body = json_obj [(''checks'', json_obj [(''capacity'', capacity), (''engine'', engineCheck), (''rooms'', json_int (int rooms)), (''tenants'', json_int (int tenants))]),
            (''status'', json_quote (if ready then ''ok'' else ''unavailable'')), (''uptime_s'', json_int uptime)]
      in \<lparr>rs_Status = (if ready then 200 else 503), rs_ContentType = ''application/json; charset=utf-8'', rs_Body = body\<rparr>)"

definition bearer_matches :: "(string \<Rightarrow> string) \<Rightarrow> string \<Rightarrow> string \<Rightarrow> bool" where
  "bearer_matches sha header expected =
     (let (token, ok) = extract_bearer header in if \<not> ok then False else constant_time_token_equal sha token expected)"

definition serve_metrics :: "edge \<Rightarrow> (string \<Rightarrow> string) \<Rightarrow> string \<Rightarrow> int \<Rightarrow> time \<Rightarrow> gateway \<Rightarrow> http_response" where
  "serve_metrics e sha authorization goroutines now g =
     (if cf_MetricsToken (ed_cfg e) \<noteq> '''' \<and> \<not> bearer_matches sha authorization (cf_MetricsToken (ed_cfg e)) then
        detail 401 ''invalid metrics token''
      else
        let (rooms, tenants) = hub_stats (gw_hub g)
        in \<lparr>rs_Status = 200, rs_ContentType = ''text/plain; version=0.0.4; charset=utf-8'',
            rs_Body = render (ro_reg (gw_router g)) (int rooms) (int tenants) goroutines now\<rparr>)"

section \<open>Routing\<close>

text \<open>\<open>cleanPath\<close> of \<open>net/http\<close>: dots and empty elements go, a trailing slash stays.\<close>

fun clean_elems :: "string list \<Rightarrow> string list \<Rightarrow> string list" where
  "clean_elems stack [] = rev stack"
| "clean_elems stack (x # xs) =
     (if x = '''' \<or> x = ''.'' then clean_elems stack xs
      else if x = ''..'' then clean_elems (tl stack) xs
      else clean_elems (x # stack) xs)"

definition clean_path :: "string \<Rightarrow> string" where
  "clean_path p =
     (if p = '''' then ''/''
      else
        let p1 = (if hd p \<noteq> CHR ''/'' then ''/'' @ p else p);
            np = ''/'' @ join_with ''/'' (clean_elems [] (split_on (CHR ''/'') p1))
        in if last p1 = CHR ''/'' \<and> np \<noteq> ''/'' then np @ ''/'' else np)"

datatype route = RWebSocket | RIngest | RLiveness | RReadiness | RMetrics | RNotFound | RRedirect string | RUnmatched

definition mux_match :: "string \<Rightarrow> route" where
  "mux_match path =
     (if path = ''/ws'' then RWebSocket
      else if path = ''/ingest/v1/publish'' then RIngest
      else if path = ''/healthz'' then RLiveness
      else if path = ''/readyz'' then RReadiness
      else if path = ''/metrics'' then RMetrics
      else if has_prefix path ''/'' then RNotFound
      else RUnmatched)"

text \<open>The mux cleans every path but a CONNECT's, and redirects when that changes it.\<close>

definition route_of :: "string \<Rightarrow> string \<Rightarrow> route" where
  "route_of method path =
     (if method = ''CONNECT'' then mux_match path
      else if clean_path path \<noteq> path then RRedirect (clean_path path)
      else mux_match path)"

definition require_method :: "string \<Rightarrow> string \<Rightarrow> 'a \<Rightarrow> (http_response \<Rightarrow> 'a) \<Rightarrow> 'a" where
  "require_method method verb run deny = (if verb \<noteq> method then deny (detail 405 ''method not allowed'') else run)"

record ambience = ambient +
  am_rnd :: "string + 8 word list"
  am_handshake :: handshake_refusals
  am_view :: engine_view
  am_uptime :: int
  am_goroutines :: int

datatype http_outcome = Answers "http_response option" | Upgrades ws_outcome

definition redirect_response :: "string \<Rightarrow> http_response" where
  "redirect_response target =
     \<lparr>rs_Status = 301, rs_ContentType = ''text/html; charset=utf-8'',
      rs_Body = ''<a href='' @ [dq] @ target @ [dq] @ ''>Moved Permanently</a>.'' @ [CHR 0x0A, CHR 0x0A]\<rparr>"

definition handle_http :: "edge \<Rightarrow> ambience \<Rightarrow> http_request \<Rightarrow> server \<Rightarrow> http_outcome \<times> server" where
  "handle_http e am r sv =
     (let refuse = (\<lambda>rs. (Answers (Some rs), sv)); g = sv_node sv in
      case route_of (rq_Method r) (rq_Path r) of
        RWebSocket \<Rightarrow>
          (let (out, g') = serve_ws e r (am_handshake am) (am_rnd am) (am_now am) g in (Upgrades out, sv\<lparr>sv_node := g'\<rparr>))
      | RIngest \<Rightarrow>
          require_method ''POST'' (rq_Method r)
            (let (rs, sv') = serve_ingest e (ambient.truncate am) r sv in (Answers rs, sv')) refuse
      | RLiveness \<Rightarrow> require_method ''GET'' (rq_Method r) (Answers (Some serve_liveness), sv) refuse
      | RReadiness \<Rightarrow>
          require_method ''GET'' (rq_Method r) (Answers (Some (serve_readiness e (am_view am) (am_uptime am) g)), sv) refuse
      | RMetrics \<Rightarrow>
          require_method ''GET'' (rq_Method r)
            (Answers (Some (serve_metrics e (am_sha am) (rq_Authorization r) (am_goroutines am) (am_now am) g)), sv) refuse
      | RNotFound \<Rightarrow> refuse (detail 404 ''not found'')
      | RRedirect target \<Rightarrow> refuse (redirect_response target)
      | RUnmatched \<Rightarrow> refuse (plain_error 404 ''404 page not found''))"

section \<open>Shutdown\<close>

text \<open>\<open>CloseAll\<close>: every registered connection is asked to close in the order of the loop, then the bus closes; once.\<close>

definition close_all :: "string list \<Rightarrow> time \<Rightarrow> bool \<Rightarrow> server \<Rightarrow> server" where
  "close_all ord now done sv =
     (if done then sv
      else
        let g' = fold (\<lambda>(sid, code, reason) g. request_close sid code reason now g)
              (hub_close_all (gw_hub (sv_node sv)) ord CloseGoingAway ''server shutting down'') (sv_node sv)
        in sv\<lparr>sv_node := g', sv_bus := bus_close (sv_bus sv)\<rparr>)"

end
