(* ===== verification/Gw_Node_Queues.thy ===== *)
theory Gw_Node_Queues
  imports Gw_Connection_Spec
begin

text \<open>
  The memory a slow browser can hold: no step of a node ever lets a connection's queue outgrow its
  capacity, whatever the router, the hub and the connection's own handlers put in it.
\<close>

section \<open>Bounded queues\<close>

definition bounded_qs :: "nat \<Rightarrow> (string \<Rightarrow> 'a queue) \<Rightarrow> bool" where
  "bounded_qs k qs \<longleftrightarrow> (\<forall>d. queue_wf (qs d) \<and> q_cap (qs d) = k)"

lemma enqueue_bounded: "queue_wf q \<Longrightarrow> queue_wf (snd (enqueue q f)) \<and> q_cap (snd (enqueue q f)) = q_cap q"
  by (auto simp: queue_wf_def enqueue_def try_enqueue_def)

lemma bounded_enqueue [simp]: "bounded_qs k qs \<Longrightarrow> bounded_qs k (qs(c := snd (enqueue (qs c) f)))"
  using enqueue_bounded [of "qs c" f] by (simp add: bounded_qs_def)

lemma bounded_recv: "bounded_qs k qs \<Longrightarrow> queue_recv (qs c) = Some (f, q) \<Longrightarrow> bounded_qs k (qs(c := q))"
  by (auto simp: bounded_qs_def queue_wf_def queue_recv_def split: list.splits dest: spec [of _ c])

lemma bounded_upd: "bounded_qs k qs \<Longrightarrow> queue_wf q \<Longrightarrow> q_cap q = k \<Longrightarrow> bounded_qs k (qs(c := q))"
  by (simp add: bounded_qs_def)

section \<open>The router\<close>

abbreviation router_bounded :: "nat \<Rightarrow> router \<Rightarrow> bool" where
  "router_bounded k r \<equiv> bounded_qs k (ro_qs r)"

lemma bounded_sub [simp]: "router_bounded k r \<Longrightarrow> router_bounded k (snd (sub_enqueue r c f))"
  by simp

lemma bounded_refuse [simp]: "router_bounded k r \<Longrightarrow> router_bounded k (refuse r c code message)"
  "router_bounded k r \<Longrightarrow> router_bounded k (fail r c cause)" "router_bounded k r \<Longrightarrow> router_bounded k (engine_refusal r c err)"
  by (simp_all add: fail_refuse engine_refusal_def)

lemma bounded_emit_event: "router_bounded k (em_r e) \<Longrightarrow> router_bounded k (em_r (emit_event w sb ev e))"
  by (simp add: emit_event_def Let_def case_prod_unfold)

lemma bounded_emit [simp]: "router_bounded k r \<Longrightarrow> router_bounded k (emit_with_steer w r evs sb)"
  "router_bounded k r \<Longrightarrow> router_bounded k (emit w r evs)"
proof -
  have "router_bounded k (em_r e) \<Longrightarrow> router_bounded k (em_r (fold (emit_event w sb) evs e))" for e sb
    by (induction evs arbitrary: e) (simp_all add: bounded_emit_event)
  then show "router_bounded k r \<Longrightarrow> router_bounded k (emit_with_steer w r evs sb)"
    "router_bounded k r \<Longrightarrow> router_bounded k (emit w r evs)"
    by (simp_all add: emit_with_steer_def emit_def)
qed

lemma bounded_settle [simp]: "router_bounded k r \<Longrightarrow> router_bounded k (settle w r c res)"
  by (simp add: settle_def case_prod_unfold split: sum.split)

lemma bounded_dispatch [simp]: "router_bounded k r \<Longrightarrow> router_bounded k (dispatch_engine_frames w r c sid frames)"
proof -
  have "router_bounded k x \<Longrightarrow> router_bounded k (dispatch_engine_frame w c sid f x)" for f x
    by (simp add: dispatch_engine_frame_def fanout_track_published_def case_prod_unfold Let_def split: option.split)
  then have "router_bounded k x \<Longrightarrow> router_bounded k (fold (dispatch_engine_frame w c sid) frames x)" for x
    by (induction frames arbitrary: x) simp_all
  then show "router_bounded k r \<Longrightarrow> ?thesis" by (simp add: dispatch_engine_frames_def)
qed

lemma bounded_relay [simp]: "router_bounded k r \<Longrightarrow> router_bounded k (relay_engine w eng r c sid op)"
  by (simp add: relay_engine_def engine_do_def split: sum.split)

lemma bounded_engine [simp]: "router_bounded k r \<Longrightarrow> router_bounded k (handle_engine_signal w r c msg)"
  by (simp add: handle_engine_signal_def Let_def engine_do_def split: option.split sum.split)

lemma bounded_relays [simp]: "router_bounded k r \<Longrightarrow> router_bounded k (handle_offer w r c msg)"
  "router_bounded k r \<Longrightarrow> router_bounded k (handle_answer w r c msg)" "router_bounded k r \<Longrightarrow> router_bounded k (handle_candidate w r c msg)"
  by (simp_all add: handle_offer_def handle_answer_def handle_candidate_def)

lemma negotiate_qs [simp]: "ro_qs (snd (negotiate_steer w r joined sid evs)) = ro_qs r"
  by (simp add: negotiate_steer_def Let_def)

lemma bounded_join:
  "router_bounded k r \<Longrightarrow> router_bounded k (case mgr_join m t sid c now of (Inl err, m) \<Rightarrow> fail (r\<lparr>ro_m := m\<rparr>) c err
     | (Inr events, m) \<Rightarrow> let (steerByID, r1) = negotiate_steer w (r\<lparr>ro_m := m\<rparr>) c sid events in emit_with_steer w r1 events steerByID)"
  by (simp add: case_prod_unfold Let_def split: sum.split)

lemma bounded_start:
  "router_bounded k r \<Longrightarrow> router_bounded k (case mgr_start m t c gen now of (Inl err, m) \<Rightarrow> fail (r\<lparr>ro_m := m\<rparr>) c err
     | (Inr (sid, events), m) \<Rightarrow> emit w (r\<lparr>ro_m := m\<rparr>) events)"
  by (simp add: case_prod_unfold split: sum.split)

lemma bounded_message [simp]:
  assumes "router_bounded k r"
  shows "router_bounded k (handle_message w r c msg gen)"
proof -
  have i: "router_bounded k x \<Longrightarrow> router_bounded k y \<Longrightarrow> router_bounded k (if b then x else y)" for b x y by simp
  show ?thesis
    unfolding handle_message_def
    by (intro i bounded_join bounded_start bounded_relays bounded_settle bounded_engine bounded_refuse assms)
qed

lemma bounded_close [simp]: "router_bounded k r \<Longrightarrow> router_bounded k (router_conn_closed w r ord c)"
  "router_bounded k r \<Longrightarrow> router_bounded k (router_reap w r ord)"
  by (simp_all add: router_conn_closed_def router_reap_def Let_def case_prod_unfold)

section \<open>The node\<close>

abbreviation node_bounded :: "nat \<Rightarrow> gateway \<Rightarrow> bool" where
  "node_bounded k g \<equiv> router_bounded k (gw_router g)"

lemma bounded_own [simp]: "node_bounded k g \<Longrightarrow> node_bounded k (enqueue_own sid f g)"
  "node_bounded k g \<Longrightarrow> node_bounded k (send_error sid code message g)"
  by (simp_all add: send_error_def enqueue_own_def case_prod_unfold Let_def)

lemma bounded_same [simp]:
  "node_bounded k (tally f g) = node_bounded k g" "node_bounded k (touch sid now g) = node_bounded k g"
  "node_bounded k (set_read_deadline sid t g) = node_bounded k g" "node_bounded k (initiate_close sid cc reason now g) = node_bounded k g"
  "node_bounded k (writer_done sid g) = node_bounded k g" "node_bounded k (snd (allow_message sid now g)) = node_bounded k g"
  "node_bounded k (upd_conn sid u g) = node_bounded k g" "node_bounded k (snd (write_frame_now sid fr ok g)) = node_bounded k g"
  "node_bounded k (leave_presence e sid now g) = node_bounded k g" "node_bounded k (set_identity e sid cl now g) = node_bounded k g"
  "node_bounded k (mirror_unsubscribe sid room g) = node_bounded k g"
  by (simp_all add: tally_def touch_def set_read_deadline_def initiate_close_def writer_done_def allow_message_def write_frame_now_def
      leave_presence_def set_identity_def mirror_unsubscribe_def upd_conn_def case_prod_unfold Let_def split: option.split)

lemma bounded_hello [simp]: "node_bounded k g \<Longrightarrow> node_bounded k (snd (handle_hello e sid token wsv now g))"
  by (simp add: handle_hello_def Let_def split: sum.split prod.split hub_error.split)

lemma bounded_rooms [simp]: "node_bounded k g \<Longrightarrow> node_bounded k (handle_subscribe e sid room g)"
  "node_bounded k g \<Longrightarrow> node_bounded k (handle_unsubscribe sid room g)"
  by (simp_all add: handle_subscribe_def handle_unsubscribe_def mirror_subscribe_def Let_def split: sum.split prod.split)

lemma bounded_read: "node_bounded k g \<Longrightarrow> node_bounded k (snd (read_round e sid inb now gen g))"
proof -
  have d: "node_bounded k g \<Longrightarrow> node_bounded k (snd (dispatch e sid msg now gen g))" for msg g
    by (simp add: dispatch_def)
  assume "node_bounded k g"
  then show ?thesis
    by (simp add: read_round_def Let_def case_prod_unfold d split: inbound.split sum.split)
qed

lemma bounded_writer: "node_bounded k g \<Longrightarrow> node_bounded k (writer_take sid ok now g)"
  "node_bounded k g \<Longrightarrow> node_bounded k (writer_drain sid ok g)"
  using bounded_recv [of k "ro_qs (gw_router g)" sid]
  by (auto simp: writer_take_def writer_drain_def set_queue_def case_prod_unfold Let_def split: option.split)

lemma bounded_deliver: "node_bounded k g \<Longrightarrow> node_bounded k (snd (deliver ord tenantID room f g))"
proof -
  have "bounded_qs k qs \<Longrightarrow> bounded_qs k (snd (offer_all enqueue f targets qs))" for qs targets
    by (induction targets arbitrary: qs) (auto simp: case_prod_unfold Let_def)
  then show "node_bounded k g \<Longrightarrow> ?thesis" by (simp add: deliver_def hub_publish_def case_prod_unfold Let_def)
qed

lemma bounded_step:
  assumes "gw_step e g g'" and "node_bounded (nat (max 1 (cf_OutgoingBuffer (ed_cfg e)))) g"
  shows "node_bounded (nat (max 1 (cf_OutgoingBuffer (ed_cfg e)))) g'"
proof -
  have start: "node_bounded k g1" if "new_connection e rnd now = Inr (sid, c, q)" "serve_start e sid c q ok now g = (alive, g1)"
    "k = nat (max 1 (cf_OutgoingBuffer (ed_cfg e)))" for rnd now sid c q ok alive g1 k
    using that assms(2) by (auto simp: serve_start_def new_connection_def set_queue_def case_prod_unfold Let_def bounded_upd split: sum.splits if_splits)
  show ?thesis
    using assms(1)
  proof cases
    case (gs_read sid gen inb now)
    then show ?thesis using bounded_read assms(2) by simp
  next
    case (gs_end sid ords ordr now)
    then show ?thesis using assms(2) bounded_close by (simp add: serve_end_def td_unregister_def td_signaler_def)
  next
    case (gs_open rnd now sid c q ok)
    then show ?thesis using start by blast
  next
    case (gs_refused rnd now sid c q ok g1 ordr now')
    then show ?thesis using start [of rnd now sid c q ok False g1] by (simp add: serve_abort_def Let_def)
  next
    case (gs_publish ord tenantID room kind eventID payload now)
    then show ?thesis using bounded_deliver assms(2) by simp
  qed (use assms(2) bounded_writer bounded_close in \<open>simp_all add: pong_handler_def ping_once_def request_close_def Let_def\<close>)
qed

lemma node_queues:
  assumes "gw_initial e g0" and "(gw_step e)\<^sup>*\<^sup>* g0 g"
  shows "queue_wf (ro_qs (gw_router g) sid)" "q_cap (ro_qs (gw_router g) sid) = nat (max 1 (cf_OutgoingBuffer (ed_cfg e)))"
proof -
  let ?k = "nat (max 1 (cf_OutgoingBuffer (ed_cfg e)))"
  have "gw_router g0 = new_router (new_manager (cf_SignalingMaxSessionsPerTenant (ed_cfg e)) (cf_SignalingPendingTimeout (ed_cfg e)))
      (ro_reg (gw_router g0)) (\<lambda>sid. queue_new (cf_OutgoingBuffer (ed_cfg e)) DropNewest)"
    using assms(1) unfolding gw_initial_def by blast
  from arg_cong [OF this, of ro_qs] have "ro_qs (gw_router g0) = (\<lambda>sid. queue_new (cf_OutgoingBuffer (ed_cfg e)) DropNewest)"
    unfolding new_router_def router.select_convs .
  then have "node_bounded ?k g0" by (simp add: bounded_qs_def)
  with assms(2) have "node_bounded ?k g" by (induction rule: rtranclp_induct) (auto intro: bounded_step)
  then show "queue_wf (ro_qs (gw_router g) sid)" "q_cap (ro_qs (gw_router g) sid) = ?k" by (simp_all add: bounded_qs_def)
qed

text \<open>
  C14. A slow browser costs a bounded amount of memory. In every state a node can reach, every
  connection's outgoing queue has the configured capacity (at least one) and holds at most that many
  frames, whatever arrives from clients, publishers, the engine and the other connections.
\<close>

theorem queues_stay_bounded:
  assumes "gw_initial e g0" and "(gw_step e)\<^sup>*\<^sup>* g0 g"
  shows "queue_wf (ro_qs (gw_router g) sid)
    \<and> queue_capacity (ro_qs (gw_router g) sid) = nat (max 1 (cf_OutgoingBuffer (ed_cfg e)))
    \<and> queue_len (ro_qs (gw_router g) sid) \<le> nat (max 1 (cf_OutgoingBuffer (ed_cfg e)))"
  using node_queues [OF assms, of sid] by (simp add: queue_wf_def queue_capacity_def queue_len_def)

theorem queues_stay_bounded_witness: "queue_len (ro_qs (gw_router demo_g1) demo_sid) \<le> 64"
  using queues_stay_bounded [OF demo_initial r_into_rtranclp [of "gw_step demo_edge", OF demo_open], of demo_sid]
  by (simp add: demo_cfg)

end
