(* ===== verification/Gw_Ingest_Spec.thy ===== *)
theory Gw_Ingest_Spec
  imports Gw_Server Gw_Bus_Spec Gw_Node_Queues
begin

text \<open>
  What a publisher can rely on: an accepted event reaches exactly the room it names, a refused one leaves
  no trace but its count and its audit event, a retry never amplifies, and what that costs while the bus closes.
\<close>

section \<open>The payload of a decoded body\<close>

text \<open>The text kept for a member is the text of a value, so the encoder writes it as one again.\<close>

lemma member_texts:
  "\<lbrakk>parse_members n d s = Some (ms, rest); (k, raw, v) \<in> set ms\<rbrakk> \<Longrightarrow> \<exists>q. value_kept d raw q"
proof (induction n arbitrary: s ms)
  case (Suc n)
  from Suc.prems(1) obtain u key s1 s2 v0 s4 c s5 where p: "s = dq # u" "scan_string u = Some (key, s1)" "skip_ws s1 = CHR '':'' # s2"
    "parse_value n d (skip_ws s2) = Some (v0, s4)" "skip_ws s4 = c # s5"
    by (auto simp: Let_def split: option.splits list.splits if_splits)
  obtain t q where t: "skip_ws s2 = t @ s4" "value_kept d t q" using parse_kept [of n] p(4) by blast
  have tk: "take (length (skip_ws s2) - length s4) (skip_ws s2) = t" by (simp add: t(1))
  show ?case
  proof (cases "c = CHR ''}''")
    case True
    then have "ms = [(assemble key, t, v0)]" using Suc.prems(1) p tk by (simp add: Let_def)
    with Suc.prems(2) t(2) show ?thesis by auto
  next
    case False
    then obtain ms' where m: "parse_members n d (skip_ws s5) = Some (ms', rest)" "ms = (assemble key, t, v0) # ms'"
      using Suc.prems(1) p tk by (auto simp: Let_def split: if_splits option.splits)
    show ?thesis
    proof (cases "(k, raw, v) \<in> set ms'")
      case True
      with Suc.IH [OF m(1)] show ?thesis .
    next
      case False
      with Suc.prems(2) m(2) t(2) show ?thesis by auto
    qed
  qed
qed simp

text \<open>Also inside a top-level object: its members are parsed one level down.\<close>

lemma object_texts:
  assumes "parse_value n 0 s = Some (JObj ms, rest)" and "(k, raw, v) \<in> set ms"
  shows "\<exists>q. value_kept 1 raw q"
proof -
  obtain m where n: "n = Suc m" using assms(1) by (cases n) auto
  obtain c t where s: "s = c # t" using assms(1) n by (cases s) auto
  have a: "scan_atom x \<noteq> Some (JObj ms, r)" for x r by (auto simp: scan_atom_def split: option.splits)
  have c: "c = CHR ''{''" "c \<noteq> dq" using assms(1) n s a by (auto split: if_splits option.splits list.splits)
  then obtain c' t' where t: "skip_ws t = c' # t'" using assms(1) n s by (auto split: list.splits if_splits)
  show ?thesis
  proof (cases "c' = CHR ''}''")
    case True
    then have "ms = []" using assms(1) n s c t by (simp split: if_splits)
    with assms(2) show ?thesis by simp
  next
    case False
    then have "parse_members m 1 (skip_ws t) = Some (ms, rest)" using assms(1) n s c t
      by (auto split: if_splits option.splits prod.splits)
    from member_texts [OF this assms(2)] show ?thesis .
  qed
qed

definition writable :: "string \<Rightarrow> bool" where
  "writable p \<longleftrightarrow> (\<exists>q. value_kept 1 p q)"

lemma writable_raw:
  assumes "writable p" and "p \<noteq> []" and "json_valid p"
  shows "\<exists>q. json_raw p = Some q \<and> encodes q (raw_value p)"
proof -
  obtain q where q: "value_kept 1 p q" using assms(1) by (auto simp: writable_def)
  then have "compact_text False (p @ []) = q @ compact_text False []" unfolding value_kept_def compacts_def by blast
  then have raw: "json_raw p = Some q" using assms(2,3) by (simp add: json_raw_def)
  obtain v where v: "\<And>n r. 2 * length q \<le> n \<Longrightarrow> ends_value r \<Longrightarrow> parse_value n 1 (q @ r) = Some (v, r)" and st: "starts q"
    using q by (auto simp: value_kept_def)
  have "raw_value p = v" using v [of "2 * length q" "[]"] by (simp add: raw_value_def raw ends_value_def)
  then show ?thesis using raw v st by (auto simp: encodes_def starts_def)
qed

lemma set_ingest_payload:
  "set_ingest key raw v m = Some m' \<Longrightarrow> ir_Payload m' = raw \<or> ir_Payload m' = ir_Payload m"
  by (auto simp: set_ingest_def split: if_splits)

lemma decode_members_payload:
  assumes "decode_members set_ingest ms m = Some m'"
  shows "ir_Payload m' = ir_Payload m \<or> (\<exists>k v. (k, ir_Payload m', v) \<in> set ms)"
  using assms
proof (induction ms arbitrary: m)
  case (Cons a ms)
  obtain key raw v where a: "a = (key, raw, v)" by (metis prod_cases3)
  obtain m1 where m1: "set_ingest key raw v m = Some m1" "decode_members set_ingest ms m1 = Some m'"
    using Cons.prems a by (auto split: option.splits)
  from Cons.IH [OF m1(2)] set_ingest_payload [OF m1(1)] show ?case by (auto simp: a)
qed simp

lemma decoded_payload:
  assumes "decode_first set_ingest zero_ingest data = Some req" and "ir_Payload req \<noteq> []"
  shows "writable (ir_Payload req)"
proof -
  obtain v rest where p: "parse_value (Suc (2 * length (skip_ws data))) 0 (skip_ws data) = Some (v, rest)"
    and d: "decode_struct set_ingest zero_ingest v = Some req"
    using assms(1) unfolding decode_first_def Let_def by (auto split: option.splits simp del: parse_value.simps)
  show ?thesis
  proof (cases v)
    case (JObj ms)
    then have "decode_members set_ingest ms zero_ingest = Some req" using d by (simp add: decode_struct_def)
    from decode_members_payload [OF this] assms(2) obtain k w where "(k, ir_Payload req, w) \<in> set ms"
      by (auto simp: zero_ingest_def)
    with object_texts [OF p [unfolded JObj]] show ?thesis by (auto simp: writable_def)
  qed (use d assms(2) in \<open>auto simp: decode_struct_def zero_ingest_def\<close>)
qed

lemma decoded_body:
  assumes "decode_body limit body = Inr req"
  shows "decode_first set_ingest zero_ingest (take (nat limit) body) = Some req"
  using assms by (auto simp: decode_body_def Let_def split: scan_verdict.splits option.splits if_splits)

section \<open>The frame on the broker\<close>

lemma hex_ascii: "is_hex c \<Longrightarrow> \<not> digit7 c"
  by (auto simp: is_hex_iff)

lemma uuid_ascii:
  assumes "is_uuid s"
  shows "list_all (\<lambda>c. \<not> digit7 c) s"
proof -
  have "\<not> digit7 (s ! i)" if "i < 36" for i
    using uuid_char [OF assms that] hex_ascii [of "s ! i"] by (auto split: if_splits)
  moreover have "length s = 36" using assms by (simp add: is_uuid_def)
  ultimately show ?thesis by (simp add: list_all_length)
qed

lemma entity_ascii: "room_entity ps room \<Longrightarrow> list_all (list_all (\<lambda>c. \<not> digit7 c)) ps \<Longrightarrow> list_all (\<lambda>c. \<not> digit7 c) room"
proof (induction ps room rule: room_entity.induct)
  case (2 prefix ps room)
  show ?case
  proof (cases "has_prefix room prefix")
    case True
    then obtain r where "room = prefix @ r" by (auto simp: has_prefix_iff)
    then show ?thesis using 2 True uuid_ascii [of r] by simp
  next
    case False
    with 2 show ?thesis by simp
  qed
qed simp

lemma room_ascii: "is_room_name room \<Longrightarrow> list_all (\<lambda>c. \<not> digit7 c) room"
  using entity_ascii [of "[RoomCallPrefix, RoomCampPrefix]" room]
  by (auto simp: is_room_name_def RoomCalls_def RoomMetrics_def RoomCallPrefix_def RoomCampPrefix_def)

lemma kind_char_ascii: "kind_char c \<Longrightarrow> \<not> digit7 c"
  by (cases c) (auto simp: kind_char_def less_eq_char_def of_char_def split: if_splits)

lemma join_ascii: "list_all (list_all (\<lambda>c. \<not> digit7 c)) ps \<Longrightarrow> list_all (\<lambda>c. \<not> digit7 c) (join_with ''.'' ps)"
  by (induction "''.''" ps rule: join_with.induct) auto

lemma kind_ascii:
  assumes "is_event_kind kind"
  shows "list_all (\<lambda>c. \<not> digit7 c) kind"
proof -
  have "list_all (list_all (\<lambda>c. \<not> digit7 c)) (split_on (CHR ''.'') kind)"
    using assms kind_char_ascii by (auto simp: is_event_kind_def Let_def list_all_iff)
  from join_ascii [OF this] show ?thesis by (simp add: join_split)
qed

definition on_the_bus :: "(string \<Rightarrow> string) \<Rightarrow> ingest_request \<Rightarrow> ingest_request" where
  "on_the_bus ul req = req\<lparr>ir_TenantID := to_lower ul (ir_TenantID req)\<rparr>"

text \<open>What every node reads from the frame: the event with its routing keys, and the payload compacted.\<close>

lemma frame_reads_back:
  assumes "shape_refusal cap req = None" and "writable (ir_Payload req)"
  shows "\<exists>frame q. json_struct (publish_fields (on_the_bus ul req)) = Some frame \<and> json_raw (ir_Payload req) = Some q
    \<and> unmarshal set_ingest zero_ingest frame = Some (on_the_bus ul req\<lparr>ir_Payload := q\<rparr>)"
proof -
  have sh: "is_uuid (ir_TenantID req)" "is_room_name (ir_Room req)" "is_event_kind (ir_Kind req)" "payload_shape_ok (ir_Payload req)"
    "ir_EventID req \<noteq> [] \<Longrightarrow> is_uuid (ir_EventID req)"
    using assms(1) by (auto simp: shape_refusal_def split: if_splits)
  then have pl: "ir_Payload req \<noteq> []" "json_valid (ir_Payload req)" by (simp_all add: payload_shape_ok_def Let_def)
  obtain q where q: "json_raw (ir_Payload req) = Some q" "encodes q (raw_value (ir_Payload req))"
    using writable_raw [OF assms(2) pl] by blast
  let ?m = "on_the_bus ul req" and ?fs = "publish_fields (on_the_bus ul req)"
  have "\<forall>(k, v) \<in> set ?fs. valid_utf8 k \<and> fval_ok raw_value v"
    using sh(5) q uuid_ascii [OF is_uuid_lower(1) [OF sh(1), of ul]] room_ascii [OF sh(2)] kind_ascii [OF sh(3)] uuid_ascii [of "ir_EventID req"]
    by (auto simp: publish_fields_def on_the_bus_def opt_field_def valid_utf8_simps)
  moreover have "?fs \<noteq> []" by (simp add: publish_fields_def)
  ultimately obtain frame where f: "json_struct ?fs = Some frame"
    "json_parse frame = Some (JObj (map (\<lambda>(k, v). (k, the (encode_fval v), fval_value raw_value v)) ?fs))"
    using json_struct_parse [of ?fs raw_value] by blast
  have "unmarshal set_ingest zero_ingest frame = Some (?m\<lparr>ir_Payload := q\<rparr>)"
    using q(1) by (cases "ir_EventID req = []")
      (simp_all add: unmarshal_def decode_struct_def f(2) publish_fields_def opt_field_def on_the_bus_def set_ingest_def key_is_def
        set_string_def fval_value_def encode_fval_def zero_ingest_def byte_val_def char_of_iff)
  with f(1) q(1) show ?thesis by blast
qed

section \<open>The transport of the server\<close>

interpretation edge_bus: transport bus_table bus_shut "bus_publish :: (unit, 's) runner \<Rightarrow> _" bus_close
proof
  fix run :: "(unit, 's) runner" and x :: "bool \<times> string" and b :: bus and topic payload :: string and now :: time and s :: 's
  show "bus_shut b \<Longrightarrow> bus_publish run x b topic payload now s = (Inl ErrClosed, b, s)"
    using bus.refuses [of "case b of RedisBus r \<Rightarrow> r" run x topic payload now s]
    by (cases b) (simp_all add: bus_shut_def bus_publish_def mb_publish_def)
  show "\<not> bus_shut b \<Longrightarrow> snd (snd (bus_publish run x b topic payload now s))
      = snd (mb_deliver run (bus_table b) (home_envelope (bus_table b) topic payload now) s)"
    using bus.delivers [of "case b of RedisBus r \<Rightarrow> r" run x topic payload now s]
    by (cases b) (simp_all add: bus_shut_def bus_publish_def bus_table_def mb_publish_def home_envelope_def case_prod_unfold Let_def)
  show "\<not> bus_shut b \<Longrightarrow> fst (bus_publish run x b topic payload now s) \<noteq> Inl PublishPanics \<Longrightarrow>
      fst (bus_publish run x b topic payload now s) = Inr (fst (mb_deliver run (bus_table b) (home_envelope (bus_table b) topic payload now) s))"
    using bus.accounts [of "case b of RedisBus r \<Rightarrow> r" run x topic payload now s]
    by (cases b) (simp_all add: bus_shut_def bus_publish_def bus_table_def mb_publish_def home_envelope_def case_prod_unfold Let_def)
  show "bus_table (fst (snd (bus_publish run x b topic payload now s))) = bus_table b"
    using bus.keeps(1) [of run x "case b of RedisBus r \<Rightarrow> r" topic payload now s]
    by (cases b) (simp_all add: bus_publish_def bus_table_def case_prod_unfold Let_def)
  show "bus_shut (fst (snd (bus_publish run x b topic payload now s))) = bus_shut b"
    using bus.keeps(2) [of run x "case b of RedisBus r \<Rightarrow> r" topic payload now s]
    by (cases b) (simp_all add: bus_publish_def bus_shut_def case_prod_unfold Let_def)
  show "bus_shut (bus_close b)"
    using bus.closing by (cases b) (simp_all add: bus_close_def bus_shut_def mb_close_def)
qed

text \<open>The hub's delivery point is the one subscriber of the ingest topic.\<close>

definition wired :: "server \<Rightarrow> bool" where
  "wired sv \<longleftrightarrow> fmget [] (mb_handlers (bus_table (sv_bus sv))) ingest_topic = [Some ()]"

lemma delivery_point:
  assumes "fmget [] (mb_handlers b) ingest_topic = [Some ()]" and "unmarshal set_ingest zero_ingest frame = Some msg"
    and "deliver (ord (ir_TenantID msg, ir_Room msg)) (ir_TenantID msg) (ir_Room msg)
      (new_delivery (ir_Room msg) (ir_Kind msg) (ir_EventID msg) (ir_Payload msg) now) g = ((n, m), g1)"
  shows "mb_deliver (handle_ingest_envelope ord now) b (home_envelope b ingest_topic frame hop) g
    = (\<lparr>bs_Delivered = int n, bs_Dropped = int m\<rparr>, g1)"
  using assms by (simp add: mb_deliver_def home_envelope_def mb_call_def handle_ingest_envelope_def stats_add_def no_stats_def Let_def)

section \<open>The handler, guard by guard\<close>

definition admitted :: "edge \<Rightarrow> ambient \<Rightarrow> http_request \<Rightarrow> ingest_request \<Rightarrow> bool" where
  "admitted e am r req \<longleftrightarrow>
     ingest_authorized (am_sha am) (rq_Authorization r) (cf_IngestSecret (ed_cfg e))
     \<and> decode_body (cf_MaxIngestPayloadBytes (ed_cfg e) + 4096) (rq_Body r) = Inr req
     \<and> shape_refusal (cf_MaxIngestPayloadBytes (ed_cfg e)) req = None"

definition replay_check :: "edge \<Rightarrow> ambient \<Rightarrow> ingest_request \<Rightarrow> store \<Rightarrow> bool \<times> store" where
  "replay_check e am req st =
     (if ir_EventID req \<noteq> [] then seen_before (am_pick am) st (to_lower (ed_ul e) (ir_TenantID req)) (ir_EventID req) (am_now am)
      else (False, st))"

lemma admitted_unique: "admitted e am r req \<Longrightarrow> admitted e am r req' \<Longrightarrow> req' = req"
  by (simp add: admitted_def)

lemma admitted_frame:
  assumes "admitted e am r req"
  shows "\<exists>frame q. json_struct (publish_fields (on_the_bus (ed_ul e) req)) = Some frame \<and> json_raw (ir_Payload req) = Some q
    \<and> unmarshal set_ingest zero_ingest frame = Some (on_the_bus (ed_ul e) req\<lparr>ir_Payload := q\<rparr>)"
proof -
  have "ir_Payload req \<noteq> []" using assms by (auto simp: admitted_def shape_refusal_def payload_shape_ok_def Let_def split: if_splits)
  moreover have "decode_body (cf_MaxIngestPayloadBytes (ed_cfg e) + 4096) (rq_Body r) = Inr req" using assms by (simp add: admitted_def)
  ultimately have "writable (ir_Payload req)" using decoded_payload [OF decoded_body] by blast
  moreover have "shape_refusal (cf_MaxIngestPayloadBytes (ed_cfg e)) req = None" using assms by (simp add: admitted_def)
  ultimately show ?thesis using frame_reads_back by blast
qed

lemma serve_admitted:
  assumes "admitted e am r req"
  shows "serve_ingest e am r sv =
    (let (seen, replay') = replay_check e am req (sv_replay sv); msg = on_the_bus (ed_ul e) req; sv1 = sv\<lparr>sv_replay := replay'\<rparr>
     in if seen then
          (Some (ingest_response 0 0 True),
           emit_ingest r ''ingest.duplicate''
             [(''tenant'', ir_TenantID msg), (''room'', ir_Room msg), (''kind'', ir_Kind msg), (''event_id'', ir_EventID msg)]
             (sv_tally ingest_duplicate sv1))
        else fan_out am r msg sv1)"
  using assms by (simp add: admitted_def serve_ingest_def replay_check_def on_the_bus_def case_prod_unfold Let_def)

lemma serve_refused:
  assumes "\<nexists>req. admitted e am r req"
  shows "\<exists>reason status message. status \<in> {401, 413, 422} \<and> is_ascii message
    \<and> serve_ingest e am r sv = (Some (detail status message), snd (reject r reason status message sv))
    \<and> (\<not> ingest_authorized (am_sha am) (rq_Authorization r) (cf_IngestSecret (ed_cfg e)) \<longrightarrow>
        reason = ''auth'' \<and> status = 401 \<and> message = ''invalid ingest credentials'')"
proof (cases "ingest_authorized (am_sha am) (rq_Authorization r) (cf_IngestSecret (ed_cfg e))")
  case False
  then show ?thesis
    by (intro exI [of _ "''auth''"] exI [of _ 401] exI [of _ "''invalid ingest credentials''"])
      (simp add: serve_ingest_def reject_def is_ascii_def)
next
  case auth: True
  show ?thesis
  proof (cases "decode_body (cf_MaxIngestPayloadBytes (ed_cfg e) + 4096) (rq_Body r)")
    case (Inl err)
    let ?r = "if err = TooLarge then ''payload_too_large'' else ''not_json''" and ?s = "if err = TooLarge then 413 else 422"
      and ?m = "if err = TooLarge then ''payload too large'' else ''body is not valid JSON''"
    have "serve_ingest e am r sv = (Some (detail ?s ?m), snd (reject r ?r ?s ?m sv))"
      using auth Inl by (cases err) (simp_all add: serve_ingest_def reject_def)
    moreover have "?s \<in> {401, 413, 422 :: int} \<and> is_ascii ?m" by (simp add: is_ascii_def)
    ultimately show ?thesis using auth by blast
  next
    case (Inr req)
    then obtain reason status message where s: "shape_refusal (cf_MaxIngestPayloadBytes (ed_cfg e)) req = Some (reason, status, message)"
      using assms auth by (cases "shape_refusal (cf_MaxIngestPayloadBytes (ed_cfg e)) req") (auto simp: admitted_def)
    then have "status \<in> {401, 413, 422} \<and> is_ascii message"
      by (auto simp: shape_refusal_def is_ascii_def split: if_splits)
    moreover have "serve_ingest e am r sv = (Some (detail status message), snd (reject r reason status message sv))"
      using auth Inr s by (simp add: serve_ingest_def reject_def)
    ultimately show ?thesis using auth by blast
  qed
qed

text \<open>The fan-out on an open bus: what one delivery does, and the answer, unless the bus hop panicked.\<close>

lemma fan_out_open:
  assumes "wired sv" and "\<not> bus_shut (sv_bus sv)"
    and "json_struct (publish_fields msg) = Some frame" and "unmarshal set_ingest zero_ingest frame = Some (msg\<lparr>ir_Payload := q\<rparr>)"
    and "deliver (am_ord am (ir_TenantID msg, ir_Room msg)) (ir_TenantID msg) (ir_Room msg)
      (new_delivery (ir_Room msg) (ir_Kind msg) (ir_EventID msg) q (am_now am)) (sv_node sv) = ((n, m), g1)"
  shows "fan_out am r msg sv = (rs, sv') \<Longrightarrow>
      sv_replay sv' = sv_replay sv
      \<and> (rs = None \<and> (\<exists>rb. sv_bus sv = RedisBus rb) \<and> sv_node sv' = g1
        \<or> rs = Some (ingest_response (int n) (int m) False)
          \<and> sv_node sv' = tally (\<lambda>x. dropped x (word_of_int (int m))) (tally (\<lambda>x. delivered x (word_of_int (int n))) (tally ingest_accepted g1)))"
proof -
  assume fo: "fan_out am r msg sv = (rs, sv')"
  let ?run = "handle_ingest_envelope (am_ord am) (am_now am)"
  let ?b = "bus_table (sv_bus sv)"
  obtain res bus' g' where p: "bus_publish ?run (am_net am) (sv_bus sv) ingest_topic frame (am_now am) (sv_node sv) = (res, bus', g')"
    by (metis prod_cases3)
  have d: "mb_deliver ?run ?b (home_envelope ?b ingest_topic frame (am_now am)) (sv_node sv) = (\<lparr>bs_Delivered = int n, bs_Dropped = int m\<rparr>, g1)"
    using assms(1,5) by (intro delivery_point [OF _ assms(4)]) (simp_all add: wired_def)
  have g': "g' = g1" using edge_bus.delivers [OF assms(2), of ?run "am_net am" ingest_topic frame "am_now am" "sv_node sv"] by (simp add: p d)
  have res: "res = Inl PublishPanics \<or> res = Inr \<lparr>bs_Delivered = int n, bs_Dropped = int m\<rparr>"
    using edge_bus.accounts [OF assms(2), of ?run "am_net am" ingest_topic frame "am_now am" "sv_node sv"] by (auto simp: p d)
  moreover have "\<exists>rb. sv_bus sv = RedisBus rb" if "res = Inl PublishPanics"
    using p that by (cases "sv_bus sv") (auto simp: bus_publish_def mb_publish_def case_prod_unfold Let_def split: if_splits)
  ultimately show ?thesis
    using fo g' by (auto simp: fan_out_def assms(3) p emit_ingest_def sv_tally_def)
qed

section \<open>Whom an event reaches\<close>

definition audience :: "gateway \<Rightarrow> string \<Rightarrow> string \<Rightarrow> string set" where
  "audience g t room = {sid. t \<noteq> [] \<and> served g sid \<and> tenant_of g sid = t \<and> room |\<in>| cn_subscriptions (gw_conns g sid)}"

definition has_space :: "gateway \<Rightarrow> string \<Rightarrow> bool" where
  "has_space g sid \<longleftrightarrow> queue_len (ro_qs (gw_router g) sid) < queue_capacity (ro_qs (gw_router g) sid)"

lemma audience_peers:
  assumes "registries_inv e g"
  shows "sid |\<in>| peers_of (h_rooms (gw_hub g)) (t, room) \<longleftrightarrow> sid \<in> audience g t room"
proof -
  note d = registries_invD [OF assms]
  have "is_subscribed (hub_view g) sid room \<longleftrightarrow> served g sid \<and> room |\<in>| cn_subscriptions (gw_conns g sid)"
    using d(7) [of sid] by (cases "served g sid") (simp_all add: is_subscribed_def hub_view_def served_def fmget_def)
  then show ?thesis using gfan.room_peers_iff [OF d(1), of sid t room] by (auto simp: hub_view_def audience_def)
qed

lemma deliver_audience:
  assumes "gw_initial e g0" and "(gw_step e)\<^sup>*\<^sup>* g0 g"
    and ord: "fset_order ord (peers_of (h_rooms (gw_hub g)) (t, room))"
    and del: "deliver ord t room f g = ((n, m), g')"
  shows "n + m = card (audience g t room)" "n = card {sid \<in> audience g t room. has_space g sid}"
    "q_ch (ro_qs (gw_router g') sid) = q_ch (ro_qs (gw_router g) sid) @ (if sid \<in> audience g t room \<and> has_space g sid then [f] else [])"
    "core g' = core g"
proof -
  have inv: "registries_inv e g" using node.reachable_inv [OF assms(1,2)] by (simp add: gw_inv_def)
  have hub: "hub_inv (hub_view g)" using registries_invD(1) [OF inv] .
  have set: "set ord = audience g t room" "distinct ord"
    using ord audience_peers [OF inv, of _ t room] by (auto simp: fset_order_def)
  have "publish_targets (gw_hub g) ord t room = ord"
    using set(1) ord by (auto simp: publish_targets_def fset_order_def peers_of_def fmget_def audience_def served_def intro: filter_True)
  moreover obtain qs' where p: "hub_publish (gw_hub g) ord t room f (ro_qs (gw_router g)) = ((n, m), qs')"
    "g' = g\<lparr>gw_router := (gw_router g)\<lparr>ro_qs := qs'\<rparr>\<rparr>"
    using del by (auto simp: deliver_def case_prod_unfold Let_def prod_eq_iff)
  ultimately have offer: "offer_all enqueue f ord (ro_qs (gw_router g)) = ((n, m), qs')"
    by (cases "ord = []") (simp_all add: hub_publish_def)
  have sub: "set ord \<subseteq> fset (peers_of (h_rooms (y_hub (hub_view g))) (t, room))"
    using ord by (simp add: fset_order_def hub_view_def)
  note fan = gfan.fanout [OF hub node_queues(1) [OF assms(1,2)] set(2) sub offer]
  show "n + m = card (audience g t room)" using fan(1) set distinct_card [OF set(2)] by simp
  have "has_space g = (\<lambda>sid. length (q_ch (ro_qs (gw_router g) sid)) < q_cap (ro_qs (gw_router g) sid))"
    by (simp add: fun_eq_iff has_space_def queue_len_def queue_capacity_def)
  with fan(2) have "n = length (filter (has_space g) ord)" by simp
  also have "\<dots> = card (set (filter (has_space g) ord))" using distinct_card [OF distinct_filter [OF set(2)]] by metis
  finally show "n = card {sid \<in> audience g t room. has_space g sid}" using set(1) by simp
  show "q_ch (ro_qs (gw_router g') sid) = q_ch (ro_qs (gw_router g) sid) @ (if sid \<in> audience g t room \<and> has_space g sid then [f] else [])"
    using fan(3) [of sid] set(1) by (simp add: p(2) has_space_def queue_len_def queue_capacity_def)
  show "core g' = core g" by (simp add: p(2) core_def)
qed

section \<open>A concrete node\<close>

lemma new_server_wired: "wired (new_server e parse_url rnd g)"
proof -
  have "fmget [] (mb_handlers (bus_table (snd (bus_subscribe b ingest_topic True)))) ingest_topic = [Some ()]"
    if "mb_handlers (bus_table b) = fmempty" for b
    using that by (cases b) (simp_all add: bus_subscribe_def mb_subscribe_def redis_subscribe_def bus_table_def Let_def case_prod_unfold
        split: option.split)
  moreover have "mb_handlers (bus_table (new_broker_from_config cfg parse_url rnd)) = fmempty" for cfg
    by (auto simp: new_broker_from_config_def bus_table_def new_memory_def new_redis_def split: sum.split)
  ultimately show ?thesis by (simp add: wired_def new_server_def)
qed

text \<open>A connection that has said hello and subscribed to the calls of its tenant.\<close>

lemma hello_keeps:
  fixes wsv :: int
  assumes "served g sid" and "\<not> is_authenticated g sid" and v: "verify (ed_hmac e) (ed_ul e) (ed_verifier e) token now = Inr cl"
    and free: "slots_taken g (cl_TenantID cl) < h_maxPerTenant (gw_hub g)"
  defines "g' \<equiv> snd (handle_hello e sid token wsv now g)"
  shows "h_sessions (gw_hub g') = h_sessions (gw_hub g)" "cn_subscriptions (gw_conns g' sid) = cn_subscriptions (gw_conns g sid)"
    "cn_limiter (gw_conns g' sid) = cn_limiter (gw_conns g sid)"
proof -
  obtain rs where rs: "fmlookup (h_sessions (gw_hub g)) sid = Some rs" using assms(1) by (auto simp: served_def)
  define h where "h = (gw_hub g)\<lparr>h_tenantConns := fmupd (cl_TenantID cl) (slots_taken g (cl_TenantID cl) + 1) (h_tenantConns (gw_hub g))\<rparr>"
  have "bind_tenant (tenant_of g) (gw_hub g) sid (cl_TenantID cl) = (Inr (), h)"
    using rs free assms(2) by (simp add: bind_tenant_def slots_taken_def h_def is_authenticated_tenant)
  then show "h_sessions (gw_hub g') = h_sessions (gw_hub g)" "cn_subscriptions (gw_conns g' sid) = cn_subscriptions (gw_conns g sid)"
    "cn_limiter (gw_conns g' sid) = cn_limiter (gw_conns g sid)"
    using assms(2) by (simp_all add: g'_def v handle_hello_def set_identity_def set_read_deadline_def enqueue_own_def sub_enqueue_def h_def
        upd_conn_def tally_def case_prod_unfold Let_def)
qed

definition subscribe_msg :: "string \<Rightarrow> client_message" where
  "subscribe_msg room = zero_message\<lparr>cm_Type := TypeSubscribe, cm_Room := room\<rparr>"

lemma subscribe_decodes: "\<exists>data. decode_client_message data = Inr (subscribe_msg ''calls'')"
proof -
  have "message_ok (subscribe_msg ''calls'')"
    by (simp add: message_ok_def subscribe_msg_def zero_message_def valid_utf8_simps client_types)
  from unmarshal_client_fields [OF this] obtain data where u: "unmarshal set_field zero_message data = Some (subscribe_msg ''calls'')"
      "set (json_keys data) = set (map fst (client_fields (subscribe_msg ''calls'')))" by blast
  have "admissible (subscribe_msg ''calls'')"
    by (simp add: subscribe_msg_def zero_message_def admissible_def known_types_def client_types)
  with decode_admissible(1) [OF u] show ?thesis by blast
qed

definition admitted_frame_of :: "gateway \<Rightarrow> gateway" where
  "admitted_frame_of g = snd (allow_message demo_sid demo_now (tally message_read (touch demo_sid demo_now g)))"

lemma read_decoded:
  assumes "fst (limiter_allow (cn_limiter (gw_conns g demo_sid)) demo_now)" and "decode_client_message data = Inr msg"
  shows "read_round e demo_sid (InText data) demo_now gen g = dispatch e demo_sid msg demo_now gen (admitted_frame_of g)"
  using assms by (simp add: read_round_def admitted_frame_of_def allow_message_def touch_def case_prod_unfold Let_def)

lemma admitted_frame_of_simps [simp]:
  "core (admitted_frame_of g) = core g" "gw_hub (admitted_frame_of g) = gw_hub g" "ro_qs (gw_router (admitted_frame_of g)) = ro_qs (gw_router g)"
  "cn_subscriptions (gw_conns (admitted_frame_of g) s) = cn_subscriptions (gw_conns g s)"
  "cn_tenantID (gw_conns (admitted_frame_of g) s) = cn_tenantID (gw_conns g s)"
  "cn_limiter (gw_conns (admitted_frame_of g) demo_sid) = snd (limiter_allow (cn_limiter (gw_conns g demo_sid)) demo_now)"
  by (simp_all add: admitted_frame_of_def) (simp_all add: allow_message_def touch_def case_prod_unfold Let_def)

lemma demo_second_allowed: "fst (limiter_allow (snd (limiter_allow (cn_limiter (gw_conns demo_g1 demo_sid)) demo_now)) demo_now)"
  using f64.rnd_integer [of 39] by (simp add: demo_g1_facts demo_conn_def limiter_allow_def limiter_new_def new_bucket_def allow_at_def refill_def Let_def
      case_prod_unfold time_sub_def max_duration_def min_duration_def policy_validate_def)

definition said_hello :: gateway where
  "said_hello = snd (handle_hello demo_edge demo_sid demo_token 2 demo_now (admitted_frame_of demo_g1))"

lemma said_hello_facts:
  "gw_step demo_edge demo_g1 said_hello" "h_sessions (gw_hub said_hello) = fmupd demo_sid {||} fmempty"
  "cn_subscriptions (gw_conns said_hello demo_sid) = {||}" "cn_tenantID (gw_conns said_hello demo_sid) = cl_TenantID demo_claims"
  "fst (limiter_allow (cn_limiter (gw_conns said_hello demo_sid)) demo_now)" "length (q_ch (ro_qs (gw_router said_hello) demo_sid)) \<le> 1"
proof -
  let ?a = "admitted_frame_of demo_g1"
  have ne: "demo_token \<noteq> []" using demo_verify by (auto simp: verify_def)
  from minted_ascii [of "ed_hmac demo_edge" demo_verifier demo_minted] have "valid_utf8 demo_token" by (simp add: demo_token_def)
  from hello_decodes [OF this ne] obtain data where d: "decode_client_message data = Inr (hello_msg demo_token)" by blast
  have s: "served ?a demo_sid" "\<not> is_authenticated ?a demo_sid" "slots_taken ?a t < h_maxPerTenant (gw_hub ?a)" for t
    using demo_g1_facts(1,2) authenticated_core [of ?a demo_g1] by (simp_all add: served_def slots_taken_def demo_g1_facts fmget_def)
  note k = hello_keeps [OF s(1,2) demo_verify s(3), where wsv = 2, folded said_hello_def]
  note a = hello_accepted [OF s(1,2) demo_verify s(3), where wsv = 2, folded said_hello_def]
  have "read_round demo_edge demo_sid (InText data) demo_now (Inl []) demo_g1 = handle_hello demo_edge demo_sid demo_token 2 demo_now ?a"
    unfolding read_decoded [OF demo_allowed d] by (simp add: dispatch_def hello_msg_def zero_message_def)
  then show "gw_step demo_edge demo_g1 said_hello"
    using gs_read [OF demo_g1_facts(1), of "Inl []" demo_edge "InText data" demo_now] by (simp add: said_hello_def)
  have "h_sessions (gw_hub demo_g0) = fmempty" by (simp add: demo_g0_def hub_new_def)
  then show "h_sessions (gw_hub said_hello) = fmupd demo_sid {||} fmempty"
    using k(1) by (simp add: demo_g1_def serve_start_opened hub_register_def)
  have "ident_of (gw_conns demo_g1 demo_sid) = ident_of demo_conn" by (simp add: demo_g1_def serve_start_opened(3))
  then have "cn_subscriptions (gw_conns demo_g1 demo_sid) = {||}" by (simp add: ident_of_def demo_conn_def)
  then show "cn_subscriptions (gw_conns said_hello demo_sid) = {||}" using k(2) by simp
  show "cn_tenantID (gw_conns said_hello demo_sid) = cl_TenantID demo_claims" using a(2) by (simp add: who_def ident_of_def Let_def)
  show "fst (limiter_allow (cn_limiter (gw_conns said_hello demo_sid)) demo_now)" using k(3) demo_second_allowed by simp
  show "length (q_ch (ro_qs (gw_router said_hello) demo_sid)) \<le> 1" using a(4) by (simp add: demo_g1_facts enqueue_def try_enqueue_def)
qed

lemma joined:
  obtains g where "(gw_step demo_edge)\<^sup>*\<^sup>* demo_g0 g" and "audience g (cl_TenantID demo_claims) ''calls'' = {demo_sid}" and "has_space g demo_sid"
proof -
  obtain data where d: "decode_client_message data = Inr (subscribe_msg ''calls'')" using subscribe_decodes by blast
  let ?a = "admitted_frame_of said_hello" and ?g = "handle_subscribe demo_edge demo_sid ''calls'' (admitted_frame_of said_hello)"
  have T: "cl_TenantID demo_claims \<noteq> []" by (rule verified_ids(1) [OF demo_verify])
  have "is_authenticated ?a demo_sid" using said_hello_facts(4) T by (simp add: is_authenticated_def)
  then have "read_round demo_edge demo_sid (InText data) demo_now (Inl []) said_hello = (True, ?g)"
    unfolding read_decoded [OF said_hello_facts(5) d] by (simp add: dispatch_def subscribe_msg_def zero_message_def client_types)
  moreover have "served said_hello demo_sid" using said_hello_facts(2) by (simp add: served_def)
  ultimately have step: "gw_step demo_edge said_hello ?g"
    using gs_read [of said_hello demo_sid "Inl []" demo_edge "InText data" demo_now] by simp
  have run: "(gw_step demo_edge)\<^sup>*\<^sup>* demo_g0 ?g"
    using demo_open said_hello_facts(1) step by (meson converse_rtranclp_into_rtranclp rtranclp.rtrancl_refl)
  have room: "is_room_name ''calls''" by (simp add: is_room_name_def RoomCalls_def)
  define g1 where "g1 = upd_conn demo_sid (\<lambda>c. c\<lparr>cn_subscriptions := {|''calls''|}\<rparr>) ?a"
  have m: "mirror_subscribe demo_edge demo_sid ''calls'' ?a = Some g1"
    using said_hello_facts(3) by (simp add: mirror_subscribe_def g1_def demo_cfg fcard_fempty)
  have ten: "tenant_of g1 demo_sid = cl_TenantID demo_claims" using said_hello_facts(4) by (simp add: g1_def tenant_of_def)
  have hub: "gw_hub g1 = gw_hub said_hello" by (simp add: g1_def upd_conn_def)
  obtain n h where hs: "hub_subscribe (tenant_of g1) (gw_hub g1) demo_sid ''calls'' = (Inr n, h)" "h_sessions h = fmupd demo_sid {|''calls''|} fmempty"
    using said_hello_facts(2) ten T by (auto simp: hub_subscribe_def hub Let_def)
  have g: "?g = enqueue_own demo_sid (new_subscribed ''calls'' (int n)) (g1\<lparr>gw_hub := h\<rparr>)"
    by (simp add: handle_subscribe_def room m hs(1))
  have conns: "gw_conns ?g = gw_conns g1" "gw_hub ?g = h" unfolding g by (simp_all add: enqueue_own_def case_prod_unfold Let_def)
  have "audience ?g (cl_TenantID demo_claims) ''calls'' = {demo_sid}"
    using T ten hs(2) by (auto simp: audience_def served_def conns tenant_of_def g1_def split: if_splits)
  moreover have "has_space ?g demo_sid"
  proof -
    have "q_cap (ro_qs (gw_router ?g) demo_sid) = 64" using node_queues(2) [OF demo_initial run] by (simp add: demo_cfg)
    moreover have "length (q_ch (ro_qs (gw_router ?g) demo_sid)) \<le> 2"
      using said_hello_facts(6) unfolding g by (auto simp: enqueue_own_def sub_enqueue_def case_prod_unfold Let_def g1_def upd_conn_def enqueue_def try_enqueue_def)
    ultimately show ?thesis by (simp add: has_space_def queue_len_def queue_capacity_def)
  qed
  ultimately show thesis using that run by blast
qed

definition desk_body :: string where
  "desk_body = json_obj [(''tenant_id'', json_quote ''AAAAAAAA-aaaa-4aaa-8aaa-aaaaaaaaaaaa''), (''room'', json_quote ''calls''),
     (''kind'', json_quote ''call.updated''), (''payload'', ''{ }''), (''event_id'', json_quote ''22222222-2222-4222-8222-222222222222'')]"

definition desk_request :: http_request where
  "desk_request = \<lparr>rq_Method = ''POST'', rq_Path = ''/ingest/v1/publish'', rq_Authorization = ''Bearer s'', rq_Origin = [],
     rq_RequestID = ''r1'', rq_Body = desk_body\<rparr>"

definition desk_event :: ingest_request where
  "desk_event = \<lparr>ir_TenantID = ''AAAAAAAA-aaaa-4aaa-8aaa-aaaaaaaaaaaa'', ir_Room = ''calls'', ir_Kind = ''call.updated'',
     ir_Payload = ''{ }'', ir_EventID = ''22222222-2222-4222-8222-222222222222''\<rparr>"

definition desk_ambient :: "time \<Rightarrow> ambient" where
  "desk_ambient now = \<lparr>am_sha = (\<lambda>s. s), am_ord = (\<lambda>k. [demo_sid]), am_pick = (\<lambda>m. []), am_net = (False, []), am_now = now\<rparr>"

lemma desk_scan: "scan_first BeginValue [] desk_body = Complete"
  by code_simp

lemma json_parse_first: "json_parse s = Some v \<Longrightarrow> decode_first step zero s = decode_struct step zero v"
  unfolding json_parse_def decode_first_def Let_def by (auto split: option.splits if_splits simp del: parse_value.simps)

lemma desk_decode: "decode_first set_ingest zero_ingest desk_body = Some desk_event"
proof -
  let ?ms = "[(''tenant_id'', json_quote ''AAAAAAAA-aaaa-4aaa-8aaa-aaaaaaaaaaaa'', JStr ''AAAAAAAA-aaaa-4aaa-8aaa-aaaaaaaaaaaa''),
     (''room'', json_quote ''calls'', JStr ''calls''), (''kind'', json_quote ''call.updated'', JStr ''call.updated''),
     (''payload'', ''{ }'', JObj []), (''event_id'', json_quote ''22222222-2222-4222-8222-222222222222'', JStr ''22222222-2222-4222-8222-222222222222'')]"
  have "parse_value n 1 (''{ }'' @ rest) = Some (JObj [], rest)" if "2 * length ''{ }'' \<le> n" for n rest
    using that by (cases n) (simp_all add: dq_def max_nesting_def skip_ws_def is_ws_def)
  then have "encodes ''{ }'' (JObj [])" by (simp add: encodes_def is_ws_def)
  then have "json_parse desk_body = Some (JObj ?ms)"
    using json_parse_obj [of ?ms] by (simp add: desk_body_def valid_utf8_simps encodes_quote)
  from json_parse_first [OF this, of set_ingest zero_ingest] show ?thesis
    by (simp add: decode_struct_def set_ingest_def key_is_def set_string_def zero_ingest_def desk_event_def byte_val_def char_of_iff)
qed

lemma desk_cfg: "cf_MaxIngestPayloadBytes (ed_cfg demo_edge) = 65536" "cf_IngestSecret (ed_cfg demo_edge) = ''s''"
  by (simp_all add: demo_edge_def read_config_def env_int_def env_unset DefaultMaxIngestPayloadBytes_def)

lemma desk_shape: "shape_refusal 65536 desk_event = None"
  by code_simp

lemma desk_tenant: "to_lower (ed_ul demo_edge) (ir_TenantID desk_event) = cl_TenantID demo_claims"
proof -
  have "to_lower (\<lambda>s. s) ''AAAAAAAA-aaaa-4aaa-8aaa-aaaaaaaaaaaa'' = to_lower (\<lambda>s. s) ''aaaaaaaa-aaaa-4aaa-8aaa-AAAAAAAAAAAA''" by code_simp
  then show ?thesis by (simp add: demo_edge_def desk_event_def demo_claims_def demo_minted_def)
qed

lemma desk_length: "length desk_body \<le> 300"
  by code_simp

lemma desk_admitted: "admitted demo_edge (desk_ambient now) desk_request desk_event"
proof -
  have "decode_body (65536 + 4096) desk_body = Inr desk_event"
    using desk_length by (simp add: decode_body_def desk_scan desk_decode)
  moreover have "ingest_authorized (\<lambda>s. s) ''Bearer s'' ''s''"
    by (simp add: ingest_authorized_def extract_bearer_def has_prefix_iff constant_time_token_equal_def)
  ultimately show ?thesis by (simp add: admitted_def desk_request_def desk_ambient_def desk_cfg desk_shape)
qed

definition desk_server :: server where
  "desk_server = new_server demo_edge (\<lambda>u. None) (Inl ''x'') demo_g0"

lemma desk_server_facts:
  "sv_node desk_server = demo_g0" "wired desk_server" "store_ok (sv_replay desk_server)" "st_ttl (sv_replay desk_server) = 30 * minute"
  "fmlookup (st_seen (sv_replay desk_server)) k = None" "\<exists>b. sv_bus desk_server = MemoryBus b \<and> \<not> mb_closed b"
  by (simp_all add: desk_server_def new_server_wired)
    (simp_all add: new_server_def demo_g0_def new_store_def store_ok_def demo_edge_def read_config_def env_duration_def env_str_def env_unset
      DefaultIdempotencyTTL_def minute_def second_def max_duration_def parse_redis_url_def new_broker_from_config_def bus_subscribe_def mb_subscribe_def new_memory_def Let_def case_prod_unfold)

lemma desk_fresh: "\<not> fst (replay_check demo_edge (desk_ambient now) desk_event (sv_replay desk_server))"
  using desk_server_facts(5) by (simp add: replay_check_def seen_before_def seen_key_fst key_live_def)

section \<open>Properties\<close>

text \<open>
  C2. An accepted event reaches exactly the room it names. On any reachable node whose bus is open, a
  publish that passes the checks and is not a replay appends one delivery frame, stamped with the
  request's room, kind and event id and carrying its payload compacted, to the queue of every
  authenticated connection of that tenant (its id in lower case) that subscribes to the room and has
  space; every other queue is as before, nobody's identity, rooms, presence or session changes, and the
  answer reports exactly how many got the frame and how many were too slow; only a Redis hop that panics
  leaves the request without an answer, and then the deliveries stand.
\<close>

theorem accepted_event_fans_out:
  assumes "gw_initial e g0" and "(gw_step e)\<^sup>*\<^sup>* g0 (sv_node sv)" and "wired sv" and "\<not> bus_shut (sv_bus sv)" and "admitted e am r req" and "\<not> fst (replay_check e am req (sv_replay sv))"
    and t: "t = to_lower (ed_ul e) (ir_TenantID req)"
    and "fset_order (am_ord am (t, ir_Room req)) (peers_of (h_rooms (gw_hub (sv_node sv))) (t, ir_Room req))"
    and "serve_ingest e am r sv = (rs, sv')"
  shows "\<exists>n m q. json_raw (ir_Payload req) = Some q \<and> (rs = Some (ingest_response (int n) (int m) False) \<or> rs = None \<and> (\<exists>rb. sv_bus sv = RedisBus rb))
    \<and> n + m = card (audience (sv_node sv) t (ir_Room req))
    \<and> n = card {sid \<in> audience (sv_node sv) t (ir_Room req). has_space (sv_node sv) sid}
    \<and> (\<forall>sid. q_ch (ro_qs (gw_router (sv_node sv')) sid) = q_ch (ro_qs (gw_router (sv_node sv)) sid) @
         (if sid \<in> audience (sv_node sv) t (ir_Room req) \<and> has_space (sv_node sv) sid
          then [new_delivery (ir_Room req) (ir_Kind req) (ir_EventID req) q (am_now am)] else []))
    \<and> core (sv_node sv') = core (sv_node sv)"
proof -
  obtain frame q where f: "json_struct (publish_fields (on_the_bus (ed_ul e) req)) = Some frame" "json_raw (ir_Payload req) = Some q"
    "unmarshal set_ingest zero_ingest frame = Some (on_the_bus (ed_ul e) req\<lparr>ir_Payload := q\<rparr>)"
    using admitted_frame [OF assms(5)] by blast
  let ?sv1 = "sv\<lparr>sv_replay := snd (replay_check e am req (sv_replay sv))\<rparr>"
  let ?f = "new_delivery (ir_Room req) (ir_Kind req) (ir_EventID req) q (am_now am)"
  obtain n m g1 where d: "deliver (am_ord am (t, ir_Room req)) t (ir_Room req) ?f (sv_node sv) = ((n, m), g1)" by (metis surj_pair)
  have "fan_out am r (on_the_bus (ed_ul e) req) ?sv1 = (rs, sv')"
    using assms(6,9) by (simp add: serve_admitted [OF assms(5)] case_prod_unfold Let_def)
  from fan_out_open [OF _ _ f(1,3) _ this] assms(3,4) d
  have out: "rs = None \<and> (\<exists>rb. sv_bus sv = RedisBus rb) \<and> sv_node sv' = g1 \<or> rs = Some (ingest_response (int n) (int m) False)
      \<and> sv_node sv' = tally (\<lambda>x. dropped x (word_of_int (int m))) (tally (\<lambda>x. delivered x (word_of_int (int n))) (tally ingest_accepted g1))"
    by (simp add: wired_def on_the_bus_def t [symmetric])
  note a = deliver_audience [OF assms(1,2,8) d]
  have "rs = Some (ingest_response (int n) (int m) False) \<or> rs = None \<and> (\<exists>rb. sv_bus sv = RedisBus rb)" using out by blast
  moreover have "q_ch (ro_qs (gw_router (sv_node sv')) sid) = q_ch (ro_qs (gw_router g1) sid)" for sid using out by auto
  moreover have "core (sv_node sv') = core g1" using out by auto
  ultimately show ?thesis using f(2) a(1,2) unfolding a(3,4) by blast
qed

theorem accepted_event_fans_out_witness:
  "\<exists>sv. (gw_step demo_edge)\<^sup>*\<^sup>* demo_g0 (sv_node sv) \<and> demo_sid \<in> audience (sv_node sv) (cl_TenantID demo_claims) ''calls''
    \<and> fst (serve_ingest demo_edge (desk_ambient 5) desk_request sv) = Some (ingest_response 1 0 False)
    \<and> last (q_ch (ro_qs (gw_router (sv_node (snd (serve_ingest demo_edge (desk_ambient 5) desk_request sv)))) demo_sid))
      = new_delivery ''calls'' ''call.updated'' ''22222222-2222-4222-8222-222222222222'' ''{}'' 5"
proof -
  obtain g where g: "(gw_step demo_edge)\<^sup>*\<^sup>* demo_g0 g" "audience g (cl_TenantID demo_claims) ''calls'' = {demo_sid}" "has_space g demo_sid"
    by (rule joined)
  obtain b where b: "sv_bus desk_server = MemoryBus b" "\<not> mb_closed b" using desk_server_facts(6) by blast
  let ?sv = "desk_server\<lparr>sv_node := g\<rparr>"
  have inv: "registries_inv demo_edge g" using node.reachable_inv [OF demo_initial g(1)] by (simp add: gw_inv_def)
  have "peers_of (h_rooms (gw_hub g)) (cl_TenantID demo_claims, ''calls'') = {|demo_sid|}"
    using audience_peers [OF inv] g(2) by (intro fset_eqI) simp
  then have ord: "fset_order (am_ord (desk_ambient 5) (cl_TenantID demo_claims, ''calls'')) (peers_of (h_rooms (gw_hub (sv_node ?sv))) (cl_TenantID demo_claims, ''calls''))"
    by (simp add: fset_order_def desk_ambient_def)
  have w: "wired ?sv" "\<not> bus_shut (sv_bus ?sv)" "(gw_step demo_edge)\<^sup>*\<^sup>* demo_g0 (sv_node ?sv)"
    "\<not> fst (replay_check demo_edge (desk_ambient 5) desk_event (sv_replay ?sv))"
    using desk_server_facts(2) b g(1) desk_fresh [of 5] by (simp_all add: wired_def bus_shut_def)
  have r: "json_raw ''{ }'' = Some ''{}''" by code_simp
  have e: "ir_Room desk_event = ''calls''" "ir_Kind desk_event = ''call.updated''" "ir_Payload desk_event = ''{ }''"
    "ir_EventID desk_event = ''22222222-2222-4222-8222-222222222222''" "am_now (desk_ambient 5) = 5"
    by (simp_all add: desk_event_def desk_ambient_def)
  obtain n m q where f: "json_raw (ir_Payload desk_event) = Some q"
      "fst (serve_ingest demo_edge (desk_ambient 5) desk_request ?sv) = Some (ingest_response (int n) (int m) False)
        \<or> fst (serve_ingest demo_edge (desk_ambient 5) desk_request ?sv) = None \<and> (\<exists>rb. sv_bus ?sv = RedisBus rb)"
      "n + m = card (audience (sv_node ?sv) (cl_TenantID demo_claims) (ir_Room desk_event))"
      "n = card {sid \<in> audience (sv_node ?sv) (cl_TenantID demo_claims) (ir_Room desk_event). has_space (sv_node ?sv) sid}"
      "q_ch (ro_qs (gw_router (sv_node (snd (serve_ingest demo_edge (desk_ambient 5) desk_request ?sv)))) demo_sid)
        = q_ch (ro_qs (gw_router (sv_node ?sv)) demo_sid) @
          (if demo_sid \<in> audience (sv_node ?sv) (cl_TenantID demo_claims) (ir_Room desk_event) \<and> has_space (sv_node ?sv) demo_sid
           then [new_delivery (ir_Room desk_event) (ir_Kind desk_event) (ir_EventID desk_event) q (am_now (desk_ambient 5))] else [])"
    using accepted_event_fans_out [OF demo_initial w(3,1,2) desk_admitted w(4) desk_tenant [symmetric] ord [folded e(1)] prod.collapse [symmetric]]
    by blast
  have "{sid \<in> audience (sv_node ?sv) (cl_TenantID demo_claims) (ir_Room desk_event). has_space (sv_node ?sv) sid} = {demo_sid}"
    using g(2,3) by (auto simp: e)
  then have "n = 1 \<and> m = 0" using f(3,4) g(2) by (simp add: e)
  then have "fst (serve_ingest demo_edge (desk_ambient 5) desk_request ?sv) = Some (ingest_response 1 0 False)" using f(2) b(1) by simp
  moreover have "last (q_ch (ro_qs (gw_router (sv_node (snd (serve_ingest demo_edge (desk_ambient 5) desk_request ?sv)))) demo_sid))
      = new_delivery ''calls'' ''call.updated'' ''22222222-2222-4222-8222-222222222222'' ''{}'' 5"
    using f(1,5) g(2,3) by (simp add: e r)
  ultimately show ?thesis using w(3) g(2) by (intro exI [of _ ?sv]) simp
qed



text \<open>A history of requests, each with what it meets.\<close>

primrec serve_all :: "edge \<Rightarrow> (ambient \<times> http_request) list \<Rightarrow> server \<Rightarrow> server" where
  "serve_all e [] sv = sv"
| "serve_all e (x # xs) sv = serve_all e xs (snd (serve_ingest e (fst x) (snd x) sv))"

lemma fan_out_replay: "sv_replay (snd (fan_out am r msg sv)) = sv_replay sv"
  by (auto simp: fan_out_def reject_def emit_ingest_def sv_tally_def Let_def case_prod_unfold
      split: option.split sum.split publish_error.split)

lemma serve_replay:
  "sv_replay (snd (serve_ingest e am r sv)) = sv_replay sv
   \<or> (\<exists>req. sv_replay (snd (serve_ingest e am r sv)) = snd (replay_check e am req (sv_replay sv)))"
proof (cases "\<exists>req. admitted e am r req")
  case True
  then obtain req where a: "admitted e am r req" by blast
  have "sv_replay (snd (serve_ingest e am r sv)) = snd (replay_check e am req (sv_replay sv))"
    by (simp add: serve_admitted [OF a] fan_out_replay emit_ingest_def sv_tally_def Let_def case_prod_unfold)
  then show ?thesis by blast
next
  case False
  from serve_refused [OF this, of sv] show ?thesis by (auto simp: reject_def emit_ingest_def sv_tally_def)
qed

definition remembers :: "string \<Rightarrow> time \<Rightarrow> store \<Rightarrow> store \<Rightarrow> bool" where
  "remembers k a st0 st \<longleftrightarrow> store_ok st \<and> st_ttl st = st_ttl st0 \<and> fmlookup (st_seen st) k = Some a"

lemma replay_check_remembers:
  assumes "remembers k a st0 st" and "am_now am \<le> a + st_ttl st0 div 2"
  shows "remembers k a st0 (snd (replay_check e am req st))"
  using assms seen_key_keeps [of st k a "am_now am"]
  by (auto simp: remembers_def replay_check_def seen_before_def store_ok_def seen_key_frame)

lemma serve_all_remembers:
  assumes "remembers k a st0 (sv_replay sv)" and "\<forall>(am, r) \<in> set xs. am_now am \<le> a + st_ttl st0 div 2"
  shows "remembers k a st0 (sv_replay (serve_all e xs sv))"
  using assms
proof (induction xs arbitrary: sv)
  case (Cons x xs)
  have "am_now (fst x) \<le> a + st_ttl st0 div 2" using Cons.prems(2) by (auto simp: case_prod_unfold)
  then have "remembers k a st0 (sv_replay (snd (serve_ingest e (fst x) (snd x) sv)))"
    using Cons.prems(1) serve_replay [of e "fst x" "snd x" sv] replay_check_remembers by (metis (lifting))
  from Cons.IH [OF this] Cons.prems(2) show ?case by simp
qed simp

lemma first_remembered:
  assumes "store_ok (sv_replay sv)" and "admitted e am r req" and "ir_EventID req \<noteq> []" and "\<not> fst (replay_check e am req (sv_replay sv))"
  shows "remembers (idem_key (to_lower (ed_ul e) (ir_TenantID req)) (ir_EventID req)) (am_now am) (sv_replay sv)
    (sv_replay (snd (serve_ingest e am r sv)))"
proof -
  let ?k = "idem_key (to_lower (ed_ul e) (ir_TenantID req)) (ir_EventID req)"
  have "sv_replay (snd (serve_ingest e am r sv)) = snd (seen_key (am_pick am) (sv_replay sv) ?k (am_now am))"
    using assms(3) by (simp add: serve_admitted [OF assms(2)] fan_out_replay emit_ingest_def sv_tally_def replay_check_def
        seen_before_def Let_def case_prod_unfold)
  moreover have "\<not> key_live (am_now am) (sv_replay sv) ?k"
    using assms(3,4) by (simp add: replay_check_def seen_before_def seen_key_fst)
  ultimately show ?thesis using assms(1) seen_key_records by (simp add: remembers_def store_ok_def seen_key_frame)
qed

lemma remembered_duplicate:
  assumes "remembers (idem_key (to_lower (ed_ul e) (ir_TenantID req)) (ir_EventID req)) a st0 (sv_replay sv)"
    and "admitted e am r req" and "ir_EventID req \<noteq> []" and "am_now am \<le> a + st_ttl st0 div 2"
  shows "fst (serve_ingest e am r sv) = Some (ingest_response 0 0 True)
    \<and> sv_node (snd (serve_ingest e am r sv)) = tally ingest_duplicate (sv_node sv)
    \<and> sv_bus (snd (serve_ingest e am r sv)) = sv_bus sv"
proof -
  let ?k = "idem_key (to_lower (ed_ul e) (ir_TenantID req)) (ir_EventID req)"
  have r: "store_ok (sv_replay sv)" "fmlookup (st_seen (sv_replay sv)) ?k = Some a" "st_ttl (sv_replay sv) = st_ttl st0"
    using assms(1) by (simp_all add: remembers_def)
  have "am_now am - a < st_ttl (sv_replay sv)" using half_less [OF r(1)] r(3) assms(4) by linarith
  then have "key_live (am_now am) (sv_replay sv) ?k" using r young_live [OF r(1)] by (simp add: key_live_def)
  then have "fst (replay_check e am req (sv_replay sv))"
    using assms(3) by (simp add: replay_check_def seen_before_def seen_key_fst)
  then show ?thesis by (simp add: serve_admitted [OF assms(2)] emit_ingest_def sv_tally_def Let_def case_prod_unfold)
qed

text \<open>
  C7. A retry never amplifies. Once a publish with an event id has got past the checks, any later
  publish of the same event for the same tenant, spelled in any letter case, is answered with
  \<open>duplicate\<close> and delivers nothing for at least half the TTL, whatever other requests the node serves
  in between and whatever the first answer was.
\<close>

theorem retry_never_amplifies:
  assumes "store_ok (sv_replay sv)" and "admitted e am r req" and "ir_EventID req \<noteq> []" and "\<not> fst (replay_check e am req (sv_replay sv))"
    and "\<forall>(am', r') \<in> set between. am_now am' \<le> am_now am + st_ttl (sv_replay sv) div 2"
    and "admitted e am2 r2 req2" and "to_lower (ed_ul e) (ir_TenantID req2) = to_lower (ed_ul e) (ir_TenantID req)"
    and "ir_EventID req2 = ir_EventID req" and "am_now am2 \<le> am_now am + st_ttl (sv_replay sv) div 2"
    and "sv2 = serve_all e between (snd (serve_ingest e am r sv))"
  shows "fst (serve_ingest e am2 r2 sv2) = Some (ingest_response 0 0 True)
    \<and> sv_node (snd (serve_ingest e am2 r2 sv2)) = tally ingest_duplicate (sv_node sv2)
    \<and> sv_bus (snd (serve_ingest e am2 r2 sv2)) = sv_bus sv2"
proof -
  have "remembers (idem_key (to_lower (ed_ul e) (ir_TenantID req2)) (ir_EventID req2)) (am_now am) (sv_replay sv) (sv_replay sv2)"
    using serve_all_remembers [OF first_remembered [OF assms(1-4)] assms(5)] by (simp add: assms(7,8,10))
  from remembered_duplicate [OF this assms(6)] assms(3,8,9) show ?thesis by simp
qed

theorem retry_never_amplifies_witness:
  "fst (serve_ingest demo_edge (desk_ambient 6) desk_request (snd (serve_ingest demo_edge (desk_ambient 5) desk_request desk_server)))
    = Some (ingest_response 0 0 True)"
  using retry_never_amplifies [OF desk_server_facts(3) desk_admitted [of 5] _ desk_fresh _ desk_admitted [of 6], of "[]"] desk_server_facts(4)
  by (simp add: desk_event_def desk_ambient_def minute_def second_def)

text \<open>
  C39. A closing node swallows the event it refuses. When the bus has been closed, a fresh publish is
  answered 503, the answer that tells the publisher to try again, but its event id is already recorded:
  the retry on this node is answered \<open>200\<close> and \<open>duplicate\<close>, and neither of the two delivers anything.
\<close>

theorem closing_swallows_event:
  assumes "store_ok (sv_replay sv)" and "bus_shut (sv_bus sv)" and "admitted e am r req" and "ir_EventID req \<noteq> []"
    and "\<not> fst (replay_check e am req (sv_replay sv))"
    and "admitted e am2 r req" and "am_now am2 \<le> am_now am + st_ttl (sv_replay sv) div 2"
    and "sv1 = snd (serve_ingest e am r sv)"
  shows "fst (serve_ingest e am r sv) = Some (detail 503 ''gateway is shutting down'')
    \<and> fst (serve_ingest e am2 r sv1) = Some (ingest_response 0 0 True)
    \<and> ro_qs (gw_router (sv_node (snd (serve_ingest e am2 r sv1)))) = ro_qs (gw_router (sv_node sv))"
proof -
  obtain frame where f: "json_struct (publish_fields (on_the_bus (ed_ul e) req)) = Some frame" using admitted_frame [OF assms(3)] by blast
  have p: "bus_publish run x (sv_bus sv) topic payload now s = (Inl ErrClosed, sv_bus sv, s)"
    for run :: "(unit, gateway) runner" and x topic payload now s
    using edge_bus.refuses [OF assms(2)] .
  have one: "fst (serve_ingest e am r sv) = Some (detail 503 ''gateway is shutting down'') \<and>
      ro_qs (gw_router (sv_node sv1)) = ro_qs (gw_router (sv_node sv))"
    using assms(5) by (simp add: assms(8) serve_admitted [OF assms(3)] fan_out_def f p reject_def emit_ingest_def sv_tally_def Let_def case_prod_unfold)
  have "remembers (idem_key (to_lower (ed_ul e) (ir_TenantID req)) (ir_EventID req)) (am_now am) (sv_replay sv) (sv_replay sv1)"
    using first_remembered [OF assms(1,3,4,5)] by (simp add: assms(8))
  from remembered_duplicate [OF this assms(6,4,7)] one show ?thesis by simp
qed

theorem closing_swallows_event_witness:
  "\<exists>sv. fst (serve_ingest demo_edge (desk_ambient 5) desk_request sv) = Some (detail 503 ''gateway is shutting down'')
    \<and> fst (serve_ingest demo_edge (desk_ambient 6) desk_request (snd (serve_ingest demo_edge (desk_ambient 5) desk_request sv)))
      = Some (ingest_response 0 0 True)"
proof -
  let ?sv = "desk_server\<lparr>sv_bus := bus_close (sv_bus desk_server)\<rparr>"
  have "store_ok (sv_replay ?sv)" "bus_shut (sv_bus ?sv)" "\<not> fst (replay_check demo_edge (desk_ambient 5) desk_event (sv_replay ?sv))"
    by (simp_all add: desk_server_facts edge_bus.closing desk_fresh)
  from closing_swallows_event [OF this(1,2) desk_admitted _ this(3) desk_admitted [of 6] _ refl] desk_server_facts(4)
  show ?thesis by (intro exI [of _ ?sv]) (simp add: desk_event_def desk_ambient_def minute_def second_def)
qed

end
