(* ===== verification/Gw_Node_Types.thy ===== *)
theory Gw_Node_Types
  imports Gw_Connection_Spec
begin

text \<open>
  The routing keys of a node stay well formed: what a connection carries as identity and rooms, and so
  what the hub files it under, has the shape the validators of \<open>internal/validate\<close> demand.
\<close>

section \<open>The rooms of a connection\<close>

definition rooms :: "gateway \<Rightarrow> string \<Rightarrow> string fset" where
  "rooms g sid = id_rooms (ident_of (gw_conns g sid))"

lemma rooms_core: "core g' = core g \<Longrightarrow> rooms g' = rooms g"
proof (rule ext)
  fix s assume "core g' = core g"
  from coreD(4) [OF this, of s] show "rooms g' s = rooms g s" by (simp only: rooms_def)
qed

lemma rooms_conns: "gw_conns g' = gw_conns g \<Longrightarrow> rooms g' = rooms g"
  by (rule ext) (simp only: rooms_def)

lemma rooms_frame [simp]: "rooms (g\<lparr>gw_router := r\<rparr>) = rooms g" "rooms (g\<lparr>gw_hub := h\<rparr>) = rooms g"
  "rooms (leave_presence e sid now g) = rooms g" "rooms (tally f g) = rooms g"
  by (rule rooms_conns, simp)+

lemma rooms_quiet [simp]: "rooms (send_error sid c m g) = rooms g" "rooms (enqueue_own sid f g) = rooms g"
  "rooms (initiate_close sid cc reason now g) = rooms g" "rooms (set_read_deadline sid t g) = rooms g" "rooms (touch sid t g) = rooms g"
  "rooms (snd (allow_message sid t g)) = rooms g"
  by (rule rooms_core, simp)+

lemma rooms_mirror: "room |\<in>| rooms (mirror_unsubscribe sid r g) s \<Longrightarrow> room |\<in>| rooms g s"
  by (auto simp: mirror_unsubscribe_def rooms_def ident_of_def split: if_splits)

lemma rooms_subscribe:
  assumes "room |\<in>| rooms (handle_subscribe e sid r g) s"
  shows "room |\<in>| rooms g s \<or> is_room_name room"
proof (cases "is_room_name r")
  case valid: True
  show ?thesis
  proof (cases "mirror_subscribe e sid r g")
    case None
    with assms valid show ?thesis by (simp add: handle_subscribe_def)
  next
    case (Some g1)
    have "room |\<in>| rooms g1 s"
      using assms valid Some by (auto simp: handle_subscribe_def dest: rooms_mirror split: prod.splits sum.splits)
    then have "room |\<in>| rooms g s \<or> room = r"
      using mirror_core(5) [OF Some, of s] by (auto simp: rooms_def ident_of_def split: if_splits)
    with valid show ?thesis by blast
  qed
qed (use assms in \<open>simp add: handle_subscribe_def\<close>)

lemma rooms_unsubscribe: "room |\<in>| rooms (handle_unsubscribe sid r g) s \<Longrightarrow> room |\<in>| rooms g s"
  by (auto simp: handle_unsubscribe_def dest!: rooms_mirror)

lemma rooms_hello: "rooms (snd (handle_hello e sid token wsv now g)) = rooms g"
proof -
  have up: "rooms (upd_conn sid (\<lambda>c. c\<lparr>cn_steerCapable := True\<rparr>) x) = rooms x" for x by (rule rooms_core) (simp add: ident_of_def)
  have si: "rooms (set_identity e sid cl now x) = rooms x" for cl x
    using core_set_identity [of e sid cl now x] by (auto simp: rooms_def core_def fun_eq_iff) (simp_all add: ident_of_def pinned_def)
  show ?thesis
    by (simp add: handle_hello_def up si Let_def split: sum.split prod.split hub_error.split)
qed

lemma rooms_read:
  assumes "room |\<in>| rooms (snd (read_round e sid inb now gen g)) s"
  shows "room |\<in>| rooms g s \<or> is_room_name room"
proof (cases inb)
  case (InText data)
  let ?g = "snd (allow_message sid now (tally message_read (touch sid now g)))"
  have "room |\<in>| rooms ?g s \<or> is_room_name room" if "room |\<in>| rooms (snd (dispatch e sid msg now gen ?g)) s" for msg
    using that by (auto simp: dispatch_def rooms_hello dest: rooms_subscribe rooms_unsubscribe split: if_splits)
  then show ?thesis
    using assms by (auto simp: InText read_round_def case_prod_unfold Let_def split: if_splits sum.splits)
qed (use assms in \<open>simp_all add: read_round_def\<close>)

lemma rooms_step:
  assumes "gw_step e g g'" and "room |\<in>| rooms g' s"
  shows "room |\<in>| rooms g s \<or> is_room_name room"
proof -
  have start: "room |\<in>| rooms g s" if "blank c" "room |\<in>| rooms (snd (serve_start e sid c q ok now g)) s" for sid c q ok now
    using that by (auto simp: serve_start_def Let_def case_prod_unfold rooms_def set_read_deadline_def write_frame_now_def ident_of_def
        blank_def split: option.splits if_splits)
  have cor: "rooms g' = rooms g" if "core g' = core g" using rooms_core [OF that] .
  from assms(1) show ?thesis
  proof cases
    case (gs_open rnd now sid c q ok)
    then show ?thesis using start [OF new_connection_blank(1) [OF gs_open(1)], of sid q ok now] assms(2) by simp
  next
    case (gs_refused rnd now sid c q ok g1 ordr now')
    then show ?thesis using start [OF new_connection_blank(1) [OF gs_refused(2)], of sid q ok now] assms(2)
      by (simp add: serve_abort_def Let_def)
  next
    case (gs_read sid gen inb now)
    then show ?thesis using rooms_read [of room e sid inb now gen g s] assms(2) by simp
  qed (use assms(2) cor in \<open>auto simp: serve_end_def td_unregister_def td_signaler_def split: if_splits\<close>)
qed

section \<open>Well-formed routing keys\<close>

text \<open>
  C40. In every run of a node its routing keys are well formed: the tenant and the user of an
  authenticated connection are UUIDs, every room any connection subscribes to has a valid name, and so
  every room the hub keeps is filed under a UUID tenant and a valid name.
\<close>

theorem node_well_typed:
  assumes "gw_initial e g0" and "(gw_step e)\<^sup>*\<^sup>* g0 g"
  shows "(is_authenticated g sid \<longrightarrow> is_uuid (tenant_of g sid) \<and> is_uuid (cn_userID (gw_conns g sid)))
    \<and> (\<forall>room. room |\<in>| cn_subscriptions (gw_conns g sid) \<longrightarrow> is_room_name room)
    \<and> (\<forall>t room. sid |\<in>| peers_of (h_rooms (gw_hub g)) (t, room) \<longrightarrow> is_uuid t \<and> is_room_name room)"
proof -
  have inv: "registries_inv e g" using node.reachable_inv [OF assms] by (simp add: gw_inv_def)
  note d = registries_invD [OF inv]
  have ids: "is_uuid (tenant_of g sid) \<and> is_uuid (cn_userID (gw_conns g sid))" if "is_authenticated g sid"
    using d(9) [of sid] that verified_uuids
    by (auto simp: vouched_def ident_of_def tenant_of_def is_authenticated_def)
  have valid: "\<forall>s room. room |\<in>| rooms g s \<longrightarrow> is_room_name room"
    using assms(2)
  proof (induction rule: rtranclp_induct)
    case base
    show ?case using assms(1) by (simp add: gw_initial_def rooms_def blank_def)
  next
    case (step g g')
    then show ?case using rooms_step by blast
  qed
  have rm: "cn_subscriptions (gw_conns g sid) = rooms g sid" by (simp add: rooms_def ident_of_def)
  have "is_uuid t \<and> is_room_name room" if p: "sid |\<in>| peers_of (h_rooms (gw_hub g)) (t, room)" for t room
  proof -
    have h: "t \<noteq> []" "tenant_of g sid = t" "is_subscribed (hub_view g) sid room"
      using p gfan.room_peers_iff [OF d(1), of sid t room] by (auto simp: hub_view_def)
    then have "is_authenticated g sid" by (simp add: is_authenticated_def tenant_of_def)
    moreover have "room |\<in>| rooms g sid"
      using h(3) d(7) [of sid] rm by (cases "served g sid") (simp_all add: is_subscribed_def hub_view_def served_def fmget_def)
    ultimately show ?thesis using ids h(2) valid by blast
  qed
  with ids valid rm show ?thesis by auto
qed

theorem node_well_typed_witness:
  "\<exists>g. (gw_step demo_edge)\<^sup>*\<^sup>* demo_g0 g \<and> is_authenticated g demo_sid \<and> is_uuid (tenant_of g demo_sid)"
proof -
  obtain data where d: "gw_step demo_edge demo_g1 (snd (read_round demo_edge demo_sid (InText data) demo_now (Inl []) demo_g1))"
    "who (snd (read_round demo_edge demo_sid (InText data) demo_now (Inl []) demo_g1)) demo_sid
      = (cl_TenantID demo_claims, cl_UserID demo_claims, cl_Role demo_claims, cl_ExpiresAt demo_claims)"
    by (rule demo_hello)
  let ?g = "snd (read_round demo_edge demo_sid (InText data) demo_now (Inl []) demo_g1)"
  have r: "(gw_step demo_edge)\<^sup>*\<^sup>* demo_g0 ?g" using demo_open d(1) by (meson converse_rtranclp_into_rtranclp r_into_rtranclp)
  have "cl_TenantID demo_claims \<noteq> []" by (rule verified_ids(1) [OF demo_verify])
  then have a: "is_authenticated ?g demo_sid" using d(2) by (simp add: who_def is_authenticated_def ident_of_def Let_def)
  from node_well_typed [OF demo_initial r, of demo_sid] a r show ?thesis by blast
qed

end
