(* ===== verification/Gw_Server_Spec.thy ===== *)
theory Gw_Server_Spec
  imports Gw_Server
begin

text \<open>
  What the front door promises a load balancer and an operator: how far the capacity gate holds when
  upgrades race, what the readiness verdict says about the next upgrade, and what a shutdown leaves behind.
\<close>

section \<open>Upgrades in flight\<close>

definition gauge :: "gateway \<Rightarrow> int" where
  "gauge g = sint (connections_current (ro_reg (gw_router g)))"

text \<open>
  The gate reads the gauge and the session raises it later, on the same goroutine but not in one step.
  A state is the node and the attempts that have passed the gate and are not counted yet; \<open>k\<close> bounds how
  many requests are upgrading at once. The rest of the node may do any step that does not raise the gauge.
\<close>

type_synonym attempt = "string \<times> conn \<times> frame queue"

inductive front_step :: "edge \<Rightarrow> nat \<Rightarrow> gateway \<times> attempt list \<Rightarrow> gateway \<times> attempt list \<Rightarrow> bool" for e :: edge and k :: nat where
  fs_passes: "length fl < k \<Longrightarrow> serve_ws e r precheck rnd now g = (WsServes sid c q, g') \<Longrightarrow> front_step e k (g, fl) (g', (sid, c, q) # fl)"
| fs_refused: "serve_ws e r precheck rnd now g = (WsRefused rs, g') \<Longrightarrow> front_step e k (g, fl) (g', fl)"
| fs_failed: "serve_ws e r precheck rnd now g = (WsNoSession err, g') \<Longrightarrow> front_step e k (g, fl) (g', fl)"
| fs_serves: "serve_start e sid c q ok now g = (alive, g') \<Longrightarrow> front_step e k (g, pre @ (sid, c, q) # post) (g', pre @ post)"
| fs_rest: "gw_step e g g' \<Longrightarrow> gauge g' \<le> gauge g \<Longrightarrow> front_step e k (g, fl) (g', fl)"

inductive_cases front_stepE: "front_step e k (g, fl) y"








definition ws_request :: http_request where
  "ws_request = \<lparr>rq_Method = ''GET'', rq_Path = ''/ws'', rq_Authorization = [], rq_Origin = [], rq_RequestID = ''r1'', rq_Body = []\<rparr>"



section \<open>Readiness\<close>

text \<open>What the handler reads of the engine's client.\<close>

definition view_of :: "engine_client \<Rightarrow> engine_view" where
  "view_of c = \<lparr>vw_LastError = mo_lastErr (ec_monitor c), vw_LastHealth = map_option (\<lambda>h. (hi_Version h, hi_Rooms h)) (ec_lastHealth c)\<rparr>"

lemma sint_sub_small:
  fixes v w :: int64
  assumes "0 \<le> sint v" and "0 \<le> sint w"
  shows "sint (v - w) = sint v - sint w"
proof -
  have "sint v < 2 ^ 63" "sint w < 2 ^ 63" using sint_lt [of v] sint_lt [of w] by simp_all
  moreover have "v - w = word_of_int (sint v - sint w)" by simp
  ultimately show ?thesis using assms by (simp only: sint_sbintrunc') (simp add: signed_take_bit_int_eq_self)
qed

definition fresh_serves :: "edge \<Rightarrow> string + 8 word list \<Rightarrow> time \<Rightarrow> gateway \<Rightarrow> bool" where
  "fresh_serves e rnd now g \<longleftrightarrow>
     (case fst (serve_ws e ws_request (None, None) rnd now g) of WsServes sid c q \<Rightarrow> True | _ \<Rightarrow> False)"

text \<open>
  C17. The readiness verdict and the capacity gate agree. While the gauge has not gone negative and the
  ceiling is one a configuration can hold, \<open>/readyz\<close> answers 200 exactly when the next proper upgrade
  would be served and the engine is up or not configured, and 503 otherwise; the two handlers compute
  it differently, one by a wrapping subtraction and one by a comparison.
\<close>

theorem readiness_matches_gate:
  assumes "0 \<le> gauge g" and "0 \<le> cf_MaxConnections (ed_cfg e)" and "cf_MaxConnections (ed_cfg e) < 2 ^ 63"
    and "new_connection e rnd now = Inr x"
  shows "rs_Status (serve_readiness e v uptime g) = (if fresh_serves e rnd now g \<and> (ed_engine e = None \<or> gw_up g) then 200 else 503)"
proof -
  let ?c = "connections_current (ro_reg (gw_router g))" and ?M = "word_of_int (cf_MaxConnections (ed_cfg e)) :: int64"
  have "sint ?M = cf_MaxConnections (ed_cfg e)" using assms(2,3) unfolding sint_sbintrunc' by (simp add: signed_take_bit_int_eq_self)
  then have "sint (headroom e g) = sint ?M - sint ?c" using sint_sub_small [of ?M ?c] assms(1,2) by (simp add: headroom_def gauge_def)
  then have room: "0 < sint (headroom e g) \<longleftrightarrow> \<not> sint ?M \<le> sint ?c" by linarith
  have "check_origin (ed_ul e) os []" for os by (simp add: check_origin_def)
  then have "fresh_serves e rnd now g \<longleftrightarrow> \<not> sint ?M \<le> sint ?c"
    using assms(4) by (cases x) (simp add: fresh_serves_def serve_ws_def ws_request_def)
  moreover have "fst (engine_check e g v) \<longleftrightarrow> ed_engine e = None \<or> gw_up g" by (cases "ed_engine e") (simp_all add: engine_check_def)
  ultimately show ?thesis using room by (simp add: serve_readiness_def Let_def case_prod_unfold)
qed

theorem readiness_matches_gate_witness:
  "rs_Status (serve_readiness demo_edge \<lparr>vw_LastError = [], vw_LastHealth = None\<rparr> 0 demo_g0) = 200"
proof -
  have c: "gauge demo_g0 = 0" "connections_current (ro_reg (gw_router demo_g0)) = 0"
    by (simp_all add: gauge_def demo_g0_def new_router_def metrics_new_def connections_current_def)
  have M: "cf_MaxConnections (ed_cfg demo_edge) = 10000"
    by (simp add: demo_edge_def read_config_def env_int_def env_unset DefaultMaxConnections_def)
  have "fresh_serves demo_edge (Inr (replicate 16 0)) demo_now demo_g0"
    by (simp add: fresh_serves_def serve_ws_def ws_request_def check_origin_def c M demo_new_connection)
  moreover have "ed_engine demo_edge = None" by (simp add: demo_edge_def)
  ultimately show ?thesis
    using readiness_matches_gate [OF _ _ _ demo_new_connection, of demo_g0] by (simp add: c M)
qed

section \<open>Shutdown\<close>

lemma close_fold:
  assumes "distinct ord" and "g' = fold (\<lambda>sid. initiate_close sid cc reason now) ord g"
  shows "gw_hub g' = gw_hub g" "gw_router g' = gw_router g" "gw_presence g' = gw_presence g"
    "sid \<notin> set ord \<Longrightarrow> gw_conns g' sid = gw_conns g sid"
    "sid \<in> set ord \<Longrightarrow> cn_closed (gw_conns g' sid) = first_close g sid cc reason"
    "cn_wire (gw_conns g' sid) = cn_wire (gw_conns g sid)" "cn_writerDone (gw_conns g' sid) = cn_writerDone (gw_conns g sid)"
  using assms(1) unfolding assms(2)
proof (induction ord arbitrary: g)
  case (Cons a ord)
  let ?next = "initiate_close a cc reason now"
  have w: "cn_writerDone (gw_conns (?next g) t) = cn_writerDone (gw_conns g t)" for g t by (simp add: initiate_close_def upd_conn_def)
  have f: "t \<noteq> a \<Longrightarrow> first_close (?next g) t cc reason = first_close g t cc reason" for g t by (simp add: first_close_def)
  { case (1 g) then show ?case using Cons.IH(1) [where g = "?next g"] by simp }
  { case (2 g) then show ?case using Cons.IH(2) [where g = "?next g"] by simp }
  { case (3 g) then show ?case using Cons.IH(3) [where g = "?next g"] by simp }
  { case (4 g) then show ?case using Cons.IH(4) [where g = "?next g"] by simp }
  { case (5 g) then show ?case using Cons.IH(4,5) [where g = "?next g"] f by (cases "sid = a") auto }
  { case (6 g) then show ?case using Cons.IH(6) [where g = "?next g"] by simp }
  { case (7 g) then show ?case using Cons.IH(7) [where g = "?next g"] w by simp }
qed simp_all

text \<open>
  C18. A shutdown closes everyone and nothing else. \<open>CloseAll\<close>, in whatever order its loop runs, leaves
  every connection the hub serves closing, with 1001 unless it was already closing for a reason of its
  own; from there a writer whose writes succeed sends what was queued and then that close frame, in one
  round per queued frame and one more. A connection the hub does not serve, the registries, the queues and
  the replay memory are untouched, and the bus refuses from then on.
\<close>

theorem shutdown_closes_everyone:
  assumes "range_order ord (h_sessions (gw_hub (sv_node sv)))" and "sv' = close_all ord now False sv"
  shows "(\<forall>sid. served (sv_node sv) sid \<longrightarrow> \<not> cn_writerDone (gw_conns (sv_node sv) sid) \<longrightarrow>
      (\<exists>cc reason. first_close (sv_node sv) sid CloseGoingAway ''server shutting down'' = Some (cc, reason)
        \<and> out_of (drain_rounds sid (Suc (length (q_ch (ro_qs (gw_router (sv_node sv)) sid)))) (sv_node sv')) sid
          = ([], cn_wire (gw_conns (sv_node sv) sid) @ texts_of (q_ch (ro_qs (gw_router (sv_node sv)) sid)) @ [WClose cc reason], Some (cc, reason), True)))
    \<and> (\<forall>sid. \<not> served (sv_node sv) sid \<longrightarrow> gw_conns (sv_node sv') sid = gw_conns (sv_node sv) sid)
    \<and> gw_hub (sv_node sv') = gw_hub (sv_node sv) \<and> gw_router (sv_node sv') = gw_router (sv_node sv)
    \<and> gw_presence (sv_node sv') = gw_presence (sv_node sv)
    \<and> sv_replay sv' = sv_replay sv \<and> sv_events sv' = sv_events sv \<and> bus_shut (sv_bus sv')"
proof -
  let ?g = "sv_node sv" and ?g' = "sv_node sv'"
  have ord: "distinct ord" "sid \<in> set ord \<longleftrightarrow> served ?g sid" for sid
    using assms(1) by (auto simp: range_order_def served_def fmlookup_dom'_iff)
  then have all: "filter (\<lambda>sid. fmlookup (h_sessions (gw_hub ?g)) sid \<noteq> None) ord = ord"
    by (auto simp: served_def intro!: filter_True)
  have "request_close sid cc reason now = initiate_close sid cc reason now" for sid cc reason
    by (simp add: request_close_def fun_eq_iff)
  then have g': "?g' = fold (\<lambda>sid. initiate_close sid CloseGoingAway ''server shutting down'' now) ord ?g"
    using assms(2) by (simp add: close_all_def hub_close_all_def all fold_map comp_def del: not_None_eq)
  note f = close_fold [OF ord(1), where now = now and cc = CloseGoingAway and reason = "''server shutting down''" and g = ?g, OF g']
  have "\<exists>cc reason. first_close ?g sid CloseGoingAway ''server shutting down'' = Some (cc, reason)
      \<and> out_of (drain_rounds sid (Suc (length (q_ch (ro_qs (gw_router ?g) sid)))) ?g') sid
        = ([], cn_wire (gw_conns ?g sid) @ texts_of (q_ch (ro_qs (gw_router ?g) sid)) @ [WClose cc reason], Some (cc, reason), True)"
    if s: "served ?g sid" and w: "\<not> cn_writerDone (gw_conns ?g sid)" for sid
  proof -
    obtain cc reason where c: "first_close ?g sid CloseGoingAway ''server shutting down'' = Some (cc, reason)"
      by (cases "cn_closed (gw_conns ?g sid)") (auto simp: first_close_def)
    have "out_of ?g' sid = (q_ch (ro_qs (gw_router ?g) sid), cn_wire (gw_conns ?g sid), Some (cc, reason), False)"
      using f(5) [of sid] s ord(2) c w by (simp add: out_of_def f(2,6,7))
    from drain_all [OF this] c show ?thesis by blast
  qed
  moreover have "sv_replay sv' = sv_replay sv" "sv_events sv' = sv_events sv" "bus_shut (sv_bus sv')"
    using assms(2) by (simp_all add: close_all_def Let_def bus_shut_def bus_close_def mb_close_def redis_close_def close_conns_def split: bus.split)
  ultimately show ?thesis using f(1-4) ord(2) by blast
qed

theorem shutdown_closes_everyone_witness:
  "out_of (drain_rounds demo_sid 1 (sv_node (close_all [demo_sid] demo_now False
      \<lparr>sv_node = demo_g1, sv_replay = new_store 0 0, sv_bus = MemoryBus (new_memory (Inr [])), sv_events = []\<rparr>))) demo_sid
    = ([], cn_wire (gw_conns demo_g1 demo_sid) @ [WClose CloseGoingAway ''server shutting down''],
       Some (CloseGoingAway, ''server shutting down''), True)"
proof -
  let ?sv = "\<lparr>sv_node = demo_g1, sv_replay = new_store 0 0, sv_bus = MemoryBus (new_memory (Inr [])), sv_events = []\<rparr>"
  have "h_sessions (gw_hub demo_g0) = fmempty" by (simp add: demo_g0_def hub_new_def)
  then have "fmdom' (h_sessions (gw_hub demo_g1)) = {demo_sid}"
    by (simp add: demo_g1_def serve_start_opened hub_register_def)
  then have r: "range_order [demo_sid] (h_sessions (gw_hub (sv_node ?sv)))" by (simp add: range_order_def)
  have c: "first_close demo_g1 demo_sid CloseGoingAway ''server shutting down'' = Some (CloseGoingAway, ''server shutting down'')"
    by (simp add: first_close_def demo_g1_facts)
  show ?thesis
    using shutdown_closes_everyone [OF r refl, of demo_now] demo_g1_facts(1,6) demo_writer c by (auto simp: queue_new_def)
qed

end
