(* ===== verification/Gw_Boot.thy ===== *)
theory Gw_Boot
  imports Gw_Ingest_Spec Gw_Observability
begin

text \<open>
  The process (\<open>cmd/gateway/main.go\<close>): from the environment to a serving node, or a refusal to start,
  and what a node that did start satisfies: the premises the other theories argue from.
\<close>

section \<open>Boot\<close>

text \<open>
  What the model takes from outside: HMAC, Unicode lower case, the number reader, \<open>url.Parse\<close>, the
  engine client behind the configured address, the broker's randomness and the time.
\<close>

record outside =
  ou_ul :: "string \<Rightarrow> string"
  ou_hmac :: "string \<Rightarrow> string \<Rightarrow> string"
  ou_num :: "string \<Rightarrow> string option"
  ou_parse_url :: "string \<Rightarrow> url_parts option"
  ou_engine :: "engine_op list \<Rightarrow> engine_op \<Rightarrow> engine_err + engine_frame list"
  ou_rnd :: "string + 8 word list"
  ou_now :: time

definition boot_edge :: "outside \<Rightarrow> config \<Rightarrow> edge" where
  "boot_edge u cfg =
     (let e = \<lparr>ed_cfg = cfg, ed_verifier = new_verifier (cf_JWTSecret cfg) (cf_JWTIssuer cfg) (cf_JWTAudience cfg),
               ed_hmac = ou_hmac u, ed_ul = ou_ul u, ed_signaling = True, ed_presence = True, ed_engine = None, ed_num = ou_num u\<rparr>
      in if cf_MediaEngineURL cfg \<noteq> [] then set_engine (ou_engine u) e else e)"

text \<open>A connection that does not exist yet.\<close>

definition no_conn :: conn where
  "no_conn =
     \<lparr>cn_limiter = limiter_new default_policy zero_time, cn_tenantID = [], cn_userID = [], cn_role = [], cn_tokenExpiry = zero_time,
      cn_subscriptions = {||}, cn_steerCapable = False, cn_lastActivity = zero_time, cn_closed = None, cn_writerDone = False,
      cn_readDeadline = zero_time, cn_wire = []\<rparr>"

definition boot_node :: "config \<Rightarrow> time \<Rightarrow> gateway" where
  "boot_node cfg now =
     \<lparr>gw_hub = hub_new (cf_MaxConnsPerTenant cfg), gw_presence = presence_new,
      gw_router = new_router (new_manager (cf_SignalingMaxSessionsPerTenant cfg) (cf_SignalingPendingTimeout cfg))
        (metrics_new now) (\<lambda>sid. queue_new (cf_OutgoingBuffer cfg) DropNewest),
      gw_up = False, gw_conns = (\<lambda>sid. no_conn)\<rparr>"

text \<open>\<open>Inl\<close>: the problems are printed and the process exits with 1.\<close>

definition gateway_main :: "outside \<Rightarrow> (string \<Rightarrow> string) \<Rightarrow> problem list + edge \<times> server" where
  "gateway_main u getenv =
     (let (cfg, problems, warnings) = load (ou_ul u) getenv
      in if problems \<noteq> [] then Inl problems
         else
           let e = boot_edge u cfg
           in Inr (e, new_server e (ou_parse_url u) (ou_rnd u) (boot_node cfg (ou_now u))))"

definition listen_addr :: "config \<Rightarrow> string" where
  "listen_addr cfg = ''0.0.0.0:'' @ json_int (cf_Port cfg)"

text \<open>The levels and messages of the boot log: every warning, then every problem and the refusal.\<close>

definition boot_log :: "(string \<Rightarrow> string) \<Rightarrow> (problem \<Rightarrow> string) \<Rightarrow> (warning \<Rightarrow> string) \<Rightarrow> (string \<Rightarrow> string) \<Rightarrow> string list" where
  "boot_log ul problem_text warning_text getenv =
     (let lg = new_logger (parse_level ul (getenv ''VOXDESK_GATEWAY_LOG_LEVEL'')); (cfg, problems, warnings) = load ul getenv
      in List.map_filter id
          (map (\<lambda>w. log_line lg LWarn (''config warning: '' @ warning_text w)) warnings
           @ (if problems = [] then []
              else map (\<lambda>p. log_line lg LError (''config error: '' @ problem_text p)) problems
                @ [log_line lg LError ''insecure configuration, refusing to start''])))"

section \<open>What a node that started satisfies\<close>

lemma env_int_bound: "d < 2 ^ 63 \<Longrightarrow> env_int getenv key d < 2 ^ 63"
  by (auto simp: env_int_def env_parsed_def atoi_def Let_def case_prod_unfold split: if_splits option.splits)

lemma booted_cfg:
  assumes "gateway_main u getenv = Inr (e, sv)"
  shows "ed_cfg e = read_config (ou_ul u) getenv" "fst (snd (load (ou_ul u) getenv)) = []"
    "e = boot_edge u (ed_cfg e)" "sv = new_server e (ou_parse_url u) (ou_rnd u) (boot_node (ed_cfg e) (ou_now u))"
proof -
  have c: "ed_cfg (boot_edge u cfg) = cfg" for cfg by (simp add: boot_edge_def set_engine_def Let_def)
  obtain cfg ps ws where l: "load (ou_ul u) getenv = (cfg, ps, ws)" by (metis prod_cases3)
  then have "cfg = read_config (ou_ul u) getenv" using load_cfg [of "ou_ul u" getenv] by simp
  then show "ed_cfg e = read_config (ou_ul u) getenv" "fst (snd (load (ou_ul u) getenv)) = []"
    "e = boot_edge u (ed_cfg e)" "sv = new_server e (ou_parse_url u) (ou_rnd u) (boot_node (ed_cfg e) (ou_now u))"
    using assms l c by (auto simp: gateway_main_def Let_def split: if_splits)
qed

lemma booted_initial: "gw_initial e (sv_node (new_server e parse_url rnd (boot_node (ed_cfg e) now)))"
  by (simp add: new_server_def boot_node_def gw_initial_def new_router_def blank_def ident_of_def no_conn_def)

text \<open>
  C9. A node that boots is one the other theorems are about. From an environment that is accepted,
  \<open>main\<close> builds a node in its initial state, so every state it can reach keeps the invariants; the
  ingest topic is subscribed on an open bus, the replay memory has a usable TTL, no upgrade can panic on
  the frame limiter's policy, the connection ceiling fits the gate's 64-bit comparison, and the tokens it
  accepts are keyed by a secret of at least 32 bytes that is not a placeholder.
\<close>

theorem boot_establishes:
  assumes "gateway_main u getenv = Inr (e, sv)"
  shows "gw_initial e (sv_node sv) \<and> (\<forall>g. (gw_step e)\<^sup>*\<^sup>* (sv_node sv) g \<longrightarrow> gw_inv e g)
    \<and> wired sv \<and> \<not> bus_shut (sv_bus sv) \<and> store_ok (sv_replay sv)
    \<and> (\<forall>b now. \<exists>x. new_connection e (Inr b) now = Inr x)
    \<and> 1 \<le> cf_MaxConnections (ed_cfg e) \<and> cf_MaxConnections (ed_cfg e) < 2 ^ 63
    \<and> secret_ok (ou_ul u) 32 (v_secret (ed_verifier e)) \<and> secret_ok (ou_ul u) 16 (cf_IngestSecret (ed_cfg e))"
proof -
  note b = booted_cfg [OF assms]
  have init: "gw_initial e (sv_node sv)" using booted_initial [of e] b(4) by simp
  have shut: "\<not> bus_shut (snd (bus_subscribe (new_broker_from_config cfg parse_url rnd) t True))" for cfg parse_url rnd t
    by (auto simp: new_broker_from_config_def bus_subscribe_def bus_shut_def new_memory_def new_redis_def mb_subscribe_def
        redis_subscribe_def Let_def case_prod_unfold split: sum.split option.split)
  have p: "must_policy (cf_MessageRatePerSecond (ed_cfg e)) (cf_MessageBurst (ed_cfg e)) = Inr \<lparr>pol_RatePerSecond = 20, pol_Burst = 40\<rparr>"
    unfolding b(1) by (simp add: read_config_def DefaultMessageRatePerSecond_def DefaultMessageBurst_def must_policy_def new_policy_def policy_validate_def)
  have conns: "\<exists>x. new_connection e (Inr bytes) now = Inr x" for bytes now
    by (simp add: new_connection_def new_uuid_v4_def p)
  have M: "cf_MaxConnections (ed_cfg e) < 2 ^ 63"
    unfolding b(1) by (simp add: read_config_def) (rule env_int_bound [simplified], simp add: DefaultMaxConnections_def)
  have sec: "v_secret (ed_verifier e) = cf_JWTSecret (ed_cfg e)" by (subst b(3)) (simp add: boot_edge_def set_engine_def new_verifier_def Let_def)
  have c: "1 \<le> cf_MaxConnections (ed_cfg e)" "secret_ok (ou_ul u) 32 (cf_JWTSecret (ed_cfg e))" "secret_ok (ou_ul u) 16 (cf_IngestSecret (ed_cfg e))"
    using b(2) unfolding load_problems b(1) [symmetric] Let_def by blast+
  have "store_ok (sv_replay sv)" unfolding b(4) new_server_def b(1)
    by (simp add: store_ok_def new_store_def read_config_def DefaultIdempotencyTTL_def minute_def second_def max_duration_def)
  moreover have "wired sv" unfolding b(4) by (rule new_server_wired)
  moreover have "\<not> bus_shut (sv_bus sv)" unfolding b(4) new_server_def by (simp add: shut)
  ultimately show ?thesis using init node.reachable_inv [OF init] conns M c sec by auto
qed

section \<open>An environment that boots\<close>

definition demo_env :: "string \<Rightarrow> string" where
  "demo_env key =
     (if key = ''VOXDESK_GATEWAY_JWT_SECRET'' then ''0123456789abcdef0123456789abcdef''
      else if key = ''VOXDESK_GATEWAY_INGEST_SECRET'' then ''fedcba9876543210'' else [])"

definition demo_outside :: outside where
  "demo_outside = \<lparr>ou_ul = (\<lambda>s. s), ou_hmac = (\<lambda>k m. k @ rev m), ou_num = (\<lambda>t. Some t), ou_parse_url = (\<lambda>s. None),
     ou_engine = (\<lambda>h x. Inr []), ou_rnd = Inr (replicate 16 0), ou_now = demo_now\<rparr>"

lemma demo_boots: "fst (snd (load (\<lambda>s. s) demo_env)) = []"
proof -
  have s: "trim_space ''0123456789abcdef0123456789abcdef'' = ''0123456789abcdef0123456789abcdef''" "trim_space ''fedcba9876543210'' = ''fedcba9876543210''"
    by code_simp+
  have ok: "secret_ok (\<lambda>s. s) 32 ''0123456789abcdef0123456789abcdef''" "secret_ok (\<lambda>s. s) 16 ''fedcba9876543210''" by code_simp+
  have l: "to_lower (\<lambda>s. s) ''memory'' = ''memory''" "to_lower (\<lambda>s. s) ''off'' = ''off''" by code_simp+
  show ?thesis
    unfolding load_problems
    by (simp add: Let_def read_config_def env_int_def env_duration_def env_parsed_def env_str_def demo_env_def s ok l broker_problems engine_problems
        steer_problems DefaultPort_def DefaultMaxConnections_def DefaultMaxConnsPerTenant_def DefaultSignalingMaxSessionsPerTenant_def
        DefaultPingInterval_def DefaultPongTimeout_def DefaultAuthTimeout_def DefaultSignalingPendingTimeout_def second_def)
qed

theorem boot_establishes_witness:
  "\<exists>e sv. gateway_main demo_outside demo_env = Inr (e, sv) \<and> wired sv \<and> gw_initial e (sv_node sv)"
proof -
  obtain cfg ps ws where l: "load (\<lambda>s. s) demo_env = (cfg, ps, ws)" by (metis prod_cases3)
  with demo_boots have "\<exists>e sv. gateway_main demo_outside demo_env = Inr (e, sv)"
    by (simp add: gateway_main_def demo_outside_def Let_def)
  with boot_establishes show ?thesis by blast
qed

end
