(* ===== verification/Ops_Verify.thy ===== *)
theory Ops_Verify
  imports Gw_Strconv "HOL-Library.Word"
begin

text \<open>
  The operations tool \<open>voxops\<close> (\<open>services/ops\<close>): the status vocabulary with its exit codes, the
  verification of a database dump, and the command line. The file system, the search path and what
  \<open>pg_restore\<close> does when it is run are a record of functions, so every verdict is a function of them.
\<close>

section \<open>Statuses and exit codes\<close>

definition StatusPass :: string where "StatusPass = ''PASS''"
definition StatusFail :: string where "StatusFail = ''FAIL''"
definition StatusBlocked :: string where "StatusBlocked = ''BLOCKED''"
definition StatusNotRun :: string where "StatusNotRun = ''NOT_RUN''"
definition StatusWaived :: string where "StatusWaived = ''WAIVED''"
definition StatusSkipped :: string where "StatusSkipped = ''SKIPPED''"
definition StatusNA :: string where "StatusNA = ''NOT_APPLICABLE''"

lemmas status_defs = StatusPass_def StatusFail_def StatusBlocked_def StatusNotRun_def StatusWaived_def StatusSkipped_def StatusNA_def

definition ExitOK :: int where "ExitOK = 0"
definition ExitFail :: int where "ExitFail = 1"
definition ExitBlocked :: int where "ExitBlocked = 2"
definition ExitConfig :: int where "ExitConfig = 3"

lemmas exit_defs = ExitOK_def ExitFail_def ExitBlocked_def ExitConfig_def

definition exit_code_for_status :: "string \<Rightarrow> int" where
  "exit_code_for_status status =
     (if status = StatusPass then ExitOK
      else if status = StatusFail then ExitFail
      else if status = StatusBlocked \<or> status = StatusNotRun then ExitBlocked
      else if status = StatusSkipped \<or> status = StatusNA then ExitOK
      else ExitConfig)"

definition worst_exit_code :: "int list \<Rightarrow> int" where
  "worst_exit_code codes =
     (case find (\<lambda>candidate. candidate \<in> set codes) [ExitConfig, ExitFail, ExitBlocked] of
        Some candidate \<Rightarrow> candidate | None \<Rightarrow> ExitOK)"

section \<open>The machine the tool runs on\<close>

text \<open>
  What \<open>os.Stat\<close> finds; what \<open>os.Open\<close> and reading give (the error text, or the bytes there are until
  the end or the first read error); the search path; and a child process, from its binary, arguments and
  time limit: whether it exits with zero, what it writes to stderr, write by write, and whether the
  limit had passed by then.
\<close>

datatype file_stat = StatFails | StatOther | StatRegular int

record child =
  ch_ok :: bool
  ch_stderr :: "string list"
  ch_deadline :: bool

record machine =
  mc_stat :: "string \<Rightarrow> file_stat"
  mc_open :: "string \<Rightarrow> string + string"
  mc_look :: "string \<Rightarrow> string option"
  mc_run :: "string \<Rightarrow> string list \<Rightarrow> duration \<Rightarrow> child"

section \<open>The offline checks\<close>

record local =
  lc_Status :: string
  lc_Detail :: string
  lc_Size :: int

definition local_check :: "machine \<Rightarrow> string \<Rightarrow> local" where
  "local_check m dumpPath =
     (case mc_stat m dumpPath of
        StatFails \<Rightarrow> \<lparr>lc_Status = StatusFail, lc_Detail = ''backup missing: '' @ dumpPath, lc_Size = - 1\<rparr>
      | StatOther \<Rightarrow> \<lparr>lc_Status = StatusFail, lc_Detail = ''backup is not a file: '' @ dumpPath, lc_Size = - 1\<rparr>
      | StatRegular n \<Rightarrow>
          if n = 0 then \<lparr>lc_Status = StatusFail, lc_Detail = ''backup is empty: '' @ dumpPath, lc_Size = - 1\<rparr>
          else \<lparr>lc_Status = StatusNotRun,
                lc_Detail = ''backup present ('' @ json_int n
                  @ '' bytes); authoritative integrity check runs via pg_restore when PostgreSQL is available'',
                lc_Size = n\<rparr>)"

definition pgDumpMagic :: string where "pgDumpMagic = ''PGDMP''"
definition MagicOK :: string where "MagicOK = ''ok''"
definition MagicBad :: string where "MagicBad = ''bad''"
definition MagicUnchecked :: string where "MagicUnchecked = ''unchecked''"

lemmas magic_defs = pgDumpMagic_def MagicOK_def MagicBad_def MagicUnchecked_def

definition magic_check :: "machine \<Rightarrow> string \<Rightarrow> string \<times> string" where
  "magic_check m dumpPath =
     (case mc_open m dumpPath of
        Inl err \<Rightarrow> (MagicBad, ''cannot read dump header: '' @ err)
      | Inr content \<Rightarrow>
          let header = take (length pgDumpMagic) content
          in if length header \<noteq> length pgDumpMagic then
               (MagicBad, ''dump too short to be a PostgreSQL custom-format archive'')
             else if header \<noteq> pgDumpMagic then
               (MagicBad, ''dump lacks the PostgreSQL custom-format magic (PGDMP)'')
             else (MagicOK, ''dump starts with the PostgreSQL custom-format magic (PGDMP)''))"

section \<open>Running pg_restore\<close>

record capped_writer =
  cw_w :: string
  cw_n :: int
  cw_max :: int

text \<open>The writer below is a buffer, which takes everything it is given.\<close>

definition capped_write :: "string \<Rightarrow> capped_writer \<Rightarrow> int \<times> capped_writer" where
  "capped_write p c =
     (let orig = int (length p)
      in if cw_n c < cw_max c then
           let p' = (if cw_n c + int (length p) > cw_max c then take (nat (cw_max c - cw_n c)) p else p)
           in (orig, c\<lparr>cw_w := cw_w c @ p', cw_n := cw_n c + int (length p')\<rparr>)
         else (orig, c))"

definition maxStderrDetail :: int where "maxStderrDetail = 2048"
definition defaultTimeout :: duration where "defaultTimeout = 120 * second"

definition first_line :: "string \<Rightarrow> string" where
  "first_line s = takeWhile (\<lambda>c. c \<noteq> CHR 0x0A) s"

definition kept_stderr :: "string list \<Rightarrow> string" where
  "kept_stderr chunks =
     cw_w (fold (\<lambda>p c. snd (capped_write p c)) chunks \<lparr>cw_w = [], cw_n = 0, cw_max = maxStderrDetail\<rparr>)"

definition run_pg_restore_list :: "machine \<Rightarrow> string \<Rightarrow> string \<Rightarrow> duration \<Rightarrow> string \<times> bool" where
  "run_pg_restore_list m bin dumpPath timeout =
     (let limit = (if timeout \<le> 0 then defaultTimeout else timeout);
          r = mc_run m bin [''--list'', dumpPath] limit
      in if ch_ok r then ([], True)
         else
           let t1 = trim_space (kept_stderr (ch_stderr r));
               t2 = (if t1 = [] then ''pg_restore exited non-zero with no output'' else t1);
               t3 = (if ch_deadline r then ''timed out: '' @ t2 else t2)
           in (first_line t3, False))"

definition resolve_pg_restore :: "machine \<Rightarrow> string \<Rightarrow> string \<times> bool" where
  "resolve_pg_restore m pgRestore =
     (if pgRestore \<noteq> [] then (pgRestore, True)
      else case mc_look m ''pg_restore'' of None \<Rightarrow> ([], False) | Some bin \<Rightarrow> (bin, True))"

section \<open>The verdict\<close>

record verdict =
  vr_Status :: string
  vr_Detail :: string
  vr_Dump :: string
  vr_SizeBytes :: "int option"
  vr_PgRestoreAvailable :: bool
  vr_PgRestorePath :: string
  vr_Magic :: string
  vr_LocalDetail :: string

definition verify_dump :: "machine \<Rightarrow> string \<Rightarrow> string \<Rightarrow> duration \<Rightarrow> verdict" where
  "verify_dump m dumpPath pgRestore timeout =
     (let lc = local_check m dumpPath;
          (bin, available) = resolve_pg_restore m pgRestore;
          res = \<lparr>vr_Status = [], vr_Detail = [], vr_Dump = dumpPath,
                 vr_SizeBytes = (if lc_Size lc \<ge> 0 then Some (lc_Size lc) else None),
                 vr_PgRestoreAvailable = available, vr_PgRestorePath = bin,
                 vr_Magic = MagicUnchecked, vr_LocalDetail = lc_Detail lc\<rparr>
      in if lc_Status lc = StatusFail then res\<lparr>vr_Status := StatusFail, vr_Detail := lc_Detail lc\<rparr>
         else if available then
           (case run_pg_restore_list m bin dumpPath timeout of
              (errText, True) \<Rightarrow>
                res\<lparr>vr_Status := StatusPass,
                    vr_Detail := dumpPath @ '' is a readable custom-format dump ('' @ json_int (lc_Size lc) @ '' bytes)''\<rparr>
            | (errText, False) \<Rightarrow>
                res\<lparr>vr_Status := StatusFail, vr_Detail := ''pg_restore --list failed for '' @ dumpPath @ '': '' @ errText\<rparr>)
         else
           (let (mv, magicDetail) = magic_check m dumpPath; res' = res\<lparr>vr_Magic := mv\<rparr>
            in if mv \<noteq> MagicOK then
                 res'\<lparr>vr_Status := StatusFail, vr_Detail := ''pg_restore is unavailable and offline check failed: '' @ magicDetail\<rparr>
               else
                 res'\<lparr>vr_Status := StatusNotRun,
                      vr_Detail := lc_Detail lc @ ''; PGDMP magic verified offline, authoritative pg_restore check still pending''\<rparr>))"

section \<open>The command line\<close>

text \<open>\<open>strconv.ParseInt\<close> in base 0 to 64 bits, and \<open>strconv.ParseBool\<close>.\<close>

definition base_prefix :: "string \<Rightarrow> (nat \<times> string) option" where
  "base_prefix s =
     (if length s \<ge> 2 \<and> hd s = CHR ''0'' then
        let l = lower_letter (s ! 1)
        in if l = CHR ''b'' then Some (2, drop 2 s) else if l = CHR ''o'' then Some (8, drop 2 s)
           else if l = CHR ''x'' then Some (16, drop 2 s) else None
      else None)"

definition int_base :: "string \<Rightarrow> nat \<times> string" where
  "int_base s =
     (if s \<noteq> [] \<and> hd s = CHR ''0'' then
        case base_prefix s of
          Some (b, ds) \<Rightarrow> if length s \<ge> 3 then (b, ds) else (8, drop 1 s)
        | None \<Rightarrow> (8, drop 1 s)
      else (10, s))"

definition underscore_ok :: "string \<Rightarrow> bool" where
  "underscore_ok s =
     (let body = snd (strip_sign s)
      in case base_prefix body of
           Some (b, ds) \<Rightarrow> underscores_from (b = 16) (CHR ''0'') ds
         | None \<Rightarrow> underscores_from False (CHR ''^'') body)"

definition parse_int0 :: "string \<Rightarrow> int option" where
  "parse_int0 s =
     (let (neg, body) = strip_sign s;
          (base, ds) = int_base body;
          digits = filter (\<lambda>c. c \<noteq> CHR ''_'') ds;
          n = int (base_value base digits)
      in if body = [] \<or> \<not> list_all (\<lambda>c. case hex_val c of None \<Rightarrow> False | Some d \<Rightarrow> d < base) digits then None
         else if CHR ''_'' \<in> set ds \<and> \<not> underscore_ok body then None
         else
           let v = (if neg then - n else n)
           in if - (2 ^ 63) \<le> v \<and> v < 2 ^ 63 then Some v else None)"

definition parse_bool :: "string \<Rightarrow> bool option" where
  "parse_bool s =
     (if s \<in> {''1'', ''t'', ''T'', ''TRUE'', ''true'', ''True''} then Some True
      else if s \<in> {''0'', ''f'', ''F'', ''FALSE'', ''false'', ''False''} then Some False
      else None)"

record options =
  op_json :: bool
  op_pgRestore :: string
  op_timeoutSecs :: int

text \<open>\<open>FlagSet.parseOne\<close> on the three flags of the command; \<open>None\<close> is any of its errors, \<open>-h\<close> included.\<close>

definition split_flag :: "string \<Rightarrow> string \<times> string option" where
  "split_flag name =
     (case name of
        [] \<Rightarrow> ([], None)
      | c # t \<Rightarrow>
          let key = c # takeWhile (\<lambda>x. x \<noteq> CHR ''='') t; rest = dropWhile (\<lambda>x. x \<noteq> CHR ''='') t
          in (key, if rest = [] then None else Some (tl rest)))"

definition set_valued :: "string \<Rightarrow> string \<Rightarrow> options \<Rightarrow> options option" where
  "set_valued key value opts =
     (if key = ''pg-restore'' then Some (opts\<lparr>op_pgRestore := value\<rparr>)
      else map_option (\<lambda>n. opts\<lparr>op_timeoutSecs := n\<rparr>) (parse_int0 value))"

fun parse_flags :: "string list \<Rightarrow> options \<Rightarrow> (options \<times> string list) option" where
  "parse_flags [] opts = Some (opts, [])"
| "parse_flags (s # args) opts =
     (if length s < 2 \<or> hd s \<noteq> CHR ''-'' then Some (opts, s # args)
      else if s = ''--'' then Some (opts, args)
      else
        let name = (if s ! 1 = CHR ''-'' then drop 2 s else drop 1 s)
        in if name = [] \<or> hd name = CHR ''-'' \<or> hd name = CHR ''='' then None
           else
             let (key, given) = split_flag name
             in if key = ''json'' then
                  (case given of
                     None \<Rightarrow> parse_flags args (opts\<lparr>op_json := True\<rparr>)
                   | Some v \<Rightarrow> (case parse_bool v of None \<Rightarrow> None | Some b \<Rightarrow> parse_flags args (opts\<lparr>op_json := b\<rparr>)))
                else if key = ''pg-restore'' \<or> key = ''timeout-seconds'' then
                  (case given of
                     Some v \<Rightarrow> (case set_valued key v opts of None \<Rightarrow> None | Some opts' \<Rightarrow> parse_flags args opts')
                   | None \<Rightarrow>
                       (case args of
                          [] \<Rightarrow> None
                        | v # args' \<Rightarrow> (case set_valued key v opts of None \<Rightarrow> None | Some opts' \<Rightarrow> parse_flags args' opts')))
                else None)"

text \<open>\<open>json.MarshalIndent\<close> of a verdict.\<close>

definition verdict_fields :: "verdict \<Rightarrow> (string \<times> string) list" where
  "verdict_fields v =
     [(''status'', json_quote (vr_Status v)), (''detail'', json_quote (vr_Detail v)), (''dump'', json_quote (vr_Dump v)),
      (''size_bytes'', case vr_SizeBytes v of None \<Rightarrow> ''null'' | Some n \<Rightarrow> json_int n),
      (''pg_restore_available'', json_bool (vr_PgRestoreAvailable v)), (''pg_restore_path'', json_quote (vr_PgRestorePath v)),
      (''magic'', json_quote (vr_Magic v)), (''local_detail'', json_quote (vr_LocalDetail v))]"

definition newline :: string where "newline = [CHR 0x0A]"

definition marshal_indent :: "(string \<times> string) list \<Rightarrow> string" where
  "marshal_indent fs =
     ''{'' @ newline @ join_with ('','' @ newline) (map (\<lambda>(k, t). ''  '' @ json_quote k @ '': '' @ t) fs) @ newline @ ''}''"

text \<open>What a run leaves: its exit code and its two streams. The flag package's own message is an argument.\<close>

record cli =
  cl_exit :: int
  cl_stdout :: string
  cl_stderr :: string

definition usage_line :: string where
  "usage_line = ''voxops backup-verify [--json] [--pg-restore PATH] [--timeout-seconds N] <dump-file>''"

definition usage :: string where
  "usage = join_with newline
     [''voxops '' @ [CHR 0xE2, CHR 0x80, CHR 0x94] @ '' VoxDesk ops & resilience CLI'', [], ''Usage:'', ''  '' @ usage_line, [],
      ''Commands:'', ''  backup-verify   verify a database dump (parity with scripts/backup_verify.sh)'', [],
      ''Exit codes: 0 = PASS, 1 = FAIL, 2 = BLOCKED/USAGE, 3 = invalid configuration.'', []]"

definition timeout_of :: "int \<Rightarrow> duration" where
  "timeout_of secs = sint (word_of_int secs * word_of_int second :: 64 word)"

definition run_backup_verify :: "machine \<Rightarrow> (string list \<Rightarrow> string) \<Rightarrow> string list \<Rightarrow> cli" where
  "run_backup_verify m flag_text args =
     (case parse_flags args \<lparr>op_json = False, op_pgRestore = [], op_timeoutSecs = 120\<rparr> of
        None \<Rightarrow> \<lparr>cl_exit = ExitBlocked, cl_stdout = [], cl_stderr = flag_text args\<rparr>
      | Some (opts, rest) \<Rightarrow>
          if op_timeoutSecs opts \<le> 0 then
            \<lparr>cl_exit = ExitConfig, cl_stdout = [], cl_stderr = ''timeout-seconds must be positive'' @ newline\<rparr>
          else if length rest \<noteq> 1 then
            \<lparr>cl_exit = ExitBlocked, cl_stdout = [], cl_stderr = ''usage: '' @ usage_line @ newline\<rparr>
          else
            let res = verify_dump m (hd rest) (op_pgRestore opts) (timeout_of (op_timeoutSecs opts));
                exit = exit_code_for_status (vr_Status res)
            in if op_json opts then
                 \<lparr>cl_exit = exit, cl_stdout = marshal_indent (verdict_fields res) @ newline, cl_stderr = []\<rparr>
               else if vr_Status res = StatusPass then
                 \<lparr>cl_exit = exit, cl_stdout = ''OK: '' @ vr_Detail res @ newline, cl_stderr = []\<rparr>
               else \<lparr>cl_exit = exit, cl_stdout = [], cl_stderr = vr_Status res @ '': '' @ vr_Detail res @ newline\<rparr>)"

definition run_voxops :: "machine \<Rightarrow> (string list \<Rightarrow> string) \<Rightarrow> string list \<Rightarrow> cli" where
  "run_voxops m flag_text args =
     (case args of
        [] \<Rightarrow> \<lparr>cl_exit = ExitBlocked, cl_stdout = [], cl_stderr = usage\<rparr>
      | cmd # rest \<Rightarrow>
          if cmd = ''backup-verify'' then run_backup_verify m flag_text rest
          else if cmd = ''-h'' \<or> cmd = ''--help'' \<or> cmd = ''help'' then \<lparr>cl_exit = ExitOK, cl_stdout = usage, cl_stderr = []\<rparr>
          else \<lparr>cl_exit = ExitBlocked, cl_stdout = [], cl_stderr = ''unknown command: '' @ cmd @ newline @ usage\<rparr>)"


section \<open>The text kept for the evidence\<close>

lemma capped_fold:
  assumes "0 \<le> k" and "int (length w) \<le> k"
  shows "cw_w (fold (\<lambda>p c. snd (capped_write p c)) chunks \<lparr>cw_w = w, cw_n = int (length w), cw_max = k\<rparr>)
    = take (nat k) (w @ concat chunks)"
  using assms(2)
proof (induction chunks arbitrary: w)
  case (Cons p chunks)
  define p' where "p' = take (nat k - length w) p"
  have n: "nat (k - int (length w)) = nat k - length w" by simp
  have "snd (capped_write p \<lparr>cw_w = w, cw_n = int (length w), cw_max = k\<rparr>) = \<lparr>cw_w = w @ p', cw_n = int (length (w @ p')), cw_max = k\<rparr>"
    using Cons.prems by (auto simp: capped_write_def p'_def n Let_def)
  moreover have "int (length (w @ p')) \<le> k" using Cons.prems assms(1) by (simp add: p'_def)
  moreover have "take (nat k) ((w @ p') @ concat chunks) = take (nat k) (w @ p @ concat chunks)"
    by (cases "length p \<le> nat k - length w") (auto simp: p'_def)
  ultimately show ?case using Cons.IH [of "w @ p'"] by (simp only: fold_simps concat.simps)
qed (simp add: assms(1) nat_le_iff)

lemma strip_prefixes_length: "length (strip_prefixes ws s) \<le> length s"
proof (induction ws s rule: strip_prefixes.induct)
  case (1 ws s)
  then show ?case by (subst strip_prefixes.simps) (fastforce split: option.split)
qed

lemma trim_space_length: "length (trim_space s) \<le> length s"
  using strip_prefixes_length [of "map rev space_runes" "rev (strip_prefixes space_runes s)"] strip_prefixes_length [of space_runes s]
  by (simp add: trim_space_def)

text \<open>
  The evidence is bounded and does not depend on how the pipe was cut up. However a failing
  \<open>pg_restore\<close> splits what it writes to stderr, each write is taken whole as far as the writer can
  tell, what is kept is the first 2048 bytes of it, and the text that ends in the verdict is one line of
  at most 2059 bytes.
\<close>

theorem stderr_evidence_bounded:
  "kept_stderr chunks = take 2048 (concat chunks)
   \<and> fst (capped_write p c) = int (length p)
   \<and> length (fst (run_pg_restore_list m bin dumpPath timeout)) \<le> 2059
   \<and> CHR 0x0A \<notin> set (fst (run_pg_restore_list m bin dumpPath timeout))"
proof -
  have k: "kept_stderr chunks = take 2048 (concat chunks)" for chunks
    using capped_fold [of 2048 "[]" chunks] by (simp add: kept_stderr_def maxStderrDetail_def)
  let ?r = "mc_run m bin [''--list'', dumpPath] (if timeout \<le> 0 then defaultTimeout else timeout)"
  let ?t1 = "trim_space (kept_stderr (ch_stderr ?r))"
  let ?t2 = "if ?t1 = [] then ''pg_restore exited non-zero with no output'' else ?t1"
  have "length ?t1 \<le> 2048" using trim_space_length [of "kept_stderr (ch_stderr ?r)"] by (simp add: k)
  then have "length (if ch_deadline ?r then ''timed out: '' @ ?t2 else ?t2) \<le> 2059" by simp
  moreover have "length (first_line s) \<le> length s" for s by (simp add: first_line_def length_takeWhile_le)
  ultimately have "length (first_line (if ch_deadline ?r then ''timed out: '' @ ?t2 else ?t2)) \<le> 2059" by (rule order_trans [rotated])
  then have "length (fst (run_pg_restore_list m bin dumpPath timeout)) \<le> 2059" by (simp add: run_pg_restore_list_def Let_def)
  moreover have "CHR 0x0A \<notin> set (fst (run_pg_restore_list m bin dumpPath timeout))"
    by (auto simp: run_pg_restore_list_def first_line_def Let_def dest: set_takeWhileD)
  moreover have "fst (capped_write p c) = int (length p)" by (simp add: capped_write_def Let_def)
  ultimately show ?thesis using k by blast
qed

section \<open>Verdicts\<close>

text \<open>What \<open>pg_restore\<close> is run with, and what it takes for it to have read the dump.\<close>

definition restore_limit :: "duration \<Rightarrow> duration" where
  "restore_limit timeout = (if timeout \<le> 0 then defaultTimeout else timeout)"

definition read_by_pg_restore :: "machine \<Rightarrow> string \<Rightarrow> string \<Rightarrow> duration \<Rightarrow> bool" where
  "read_by_pg_restore m dumpPath pgRestore timeout \<longleftrightarrow>
     (\<exists>n bin. mc_stat m dumpPath = StatRegular n \<and> n \<noteq> 0 \<and> resolve_pg_restore m pgRestore = (bin, True)
       \<and> ch_ok (mc_run m bin [''--list'', dumpPath] (restore_limit timeout)))"

lemma run_list_snd: "snd (run_pg_restore_list m bin dumpPath timeout) = ch_ok (mc_run m bin [''--list'', dumpPath] (restore_limit timeout))"
  by (simp add: run_pg_restore_list_def restore_limit_def Let_def)

lemma verify_pass: "vr_Status (verify_dump m dumpPath pgRestore timeout) = StatusPass \<longleftrightarrow> read_by_pg_restore m dumpPath pgRestore timeout"
  by (cases "resolve_pg_restore m pgRestore") (auto simp: verify_dump_def read_by_pg_restore_def local_check_def status_defs run_list_snd [symmetric] Let_def case_prod_unfold
      split: file_stat.split prod.split bool.split)

lemma verify_status:
  "vr_Status (verify_dump m dumpPath pgRestore timeout) \<in> {StatusPass, StatusFail, StatusNotRun}"
  by (auto simp: verify_dump_def Let_def case_prod_unfold split: prod.split bool.split)

definition default_options :: options where
  "default_options = \<lparr>op_json = False, op_pgRestore = [], op_timeoutSecs = 120\<rparr>"

text \<open>
  C21. A zero exit is proof. Whatever the arguments and the machine, \<open>voxops\<close> exits with 0 only to
  print its help, or when the command line names one dump that is a regular file, not empty, and that
  \<open>pg_restore --list\<close>, found on the path or given, has read to the end within its time; the offline
  checks alone never lead there. Every run exits with 0, 1, 2 or 3.
\<close>

theorem zero_exit_is_proof:
  "(cl_exit (run_voxops m flag_text args) = 0 \<longleftrightarrow>
      (\<exists>rest. args = ''-h'' # rest \<or> args = ''--help'' # rest \<or> args = ''help'' # rest)
      \<or> (\<exists>rest opts dump. args = ''backup-verify'' # rest \<and> parse_flags rest default_options = Some (opts, [dump])
           \<and> 0 < op_timeoutSecs opts \<and> read_by_pg_restore m dump (op_pgRestore opts) (timeout_of (op_timeoutSecs opts))))
   \<and> cl_exit (run_voxops m flag_text args) \<in> {0, 1, 2, 3}"
proof -
  have e: "exit_code_for_status (vr_Status (verify_dump m dump pgr t)) = (if read_by_pg_restore m dump pgr t then 0
      else if vr_Status (verify_dump m dump pgr t) = StatusFail then 1 else 2)" for dump pgr t
    using verify_status [of m dump pgr t] verify_pass [of m dump pgr t]
    by (auto simp: exit_code_for_status_def status_defs exit_defs)
  have v: "cl_exit (run_backup_verify m flag_text rest) = (case parse_flags rest default_options of None \<Rightarrow> 2
      | Some (opts, ds) \<Rightarrow> if op_timeoutSecs opts \<le> 0 then 3 else if length ds \<noteq> 1 then 2
          else exit_code_for_status (vr_Status (verify_dump m (hd ds) (op_pgRestore opts) (timeout_of (op_timeoutSecs opts)))))" for rest
    by (simp add: run_backup_verify_def default_options_def exit_defs Let_def split: option.split)
  have "cl_exit (run_backup_verify m flag_text rest) = 0 \<longleftrightarrow>
      (\<exists>opts dump. parse_flags rest default_options = Some (opts, [dump]) \<and> 0 < op_timeoutSecs opts
        \<and> read_by_pg_restore m dump (op_pgRestore opts) (timeout_of (op_timeoutSecs opts)))" for rest
    unfolding v e by (auto simp: length_Suc_conv split: option.split)
  moreover have "cl_exit (run_backup_verify m flag_text rest) \<in> {0, 1, 2, 3}" for rest
    unfolding v e by (simp split: option.split)
  ultimately show ?thesis by (auto simp: run_voxops_def exit_defs split: list.split)
qed

section \<open>Exit codes of a set of checks\<close>

definition severity :: "int \<Rightarrow> nat" where
  "severity c = (if c = ExitConfig then 3 else if c = ExitFail then 2 else if c = ExitBlocked then 1 else 0)"

text \<open>
  The combined exit code is the worst one. A configuration error outranks a failure, which outranks a
  blocked check; any other code counts as success. The result is one of the four codes, has exactly the
  greatest severity of the codes combined, and combining in two stages changes nothing.
\<close>

theorem worst_exit_is_maximum:
  "worst_exit_code codes \<in> {ExitOK, ExitFail, ExitBlocked, ExitConfig}
   \<and> severity (worst_exit_code codes) = Max (insert 0 (severity ` set codes))
   \<and> worst_exit_code (codes @ codes') = worst_exit_code [worst_exit_code codes, worst_exit_code codes']"
proof -
  have "severity (worst_exit_code codes) = Max (insert 0 (severity ` set codes))"
  proof (rule sym, rule Max_eqI)
    show "s \<le> severity (worst_exit_code codes)" if "s \<in> insert 0 (severity ` set codes)" for s
      using that by (auto simp: worst_exit_code_def severity_def exit_defs)
    show "severity (worst_exit_code codes) \<in> insert 0 (severity ` set codes)"
      by (auto simp: worst_exit_code_def severity_def exit_defs intro: image_eqI)
  qed simp
  then show ?thesis by (auto simp: worst_exit_code_def exit_defs)
qed

section \<open>The time limit\<close>

text \<open>
  The time limit asked for is the one applied, up to 9223372036 seconds; every larger number the
  command line accepts wraps around, and where it wraps to nothing or less the default of two minutes
  applies instead.
\<close>

theorem timeout_wraps:
  assumes "0 < secs" and "secs < 2 ^ 63"
  shows "(restore_limit (timeout_of secs) = secs * second \<longleftrightarrow> secs \<le> 9223372036)
    \<and> (timeout_of secs \<le> 0 \<longrightarrow> restore_limit (timeout_of secs) = 120 * second)"
proof -
  have t: "timeout_of secs = signed_take_bit 63 (secs * second)" by (simp add: timeout_of_def sint_sbintrunc' flip: of_int_mult)
  have lt: "timeout_of secs < 2 ^ 63" unfolding t by (rule signed_take_bit_int_less_exp)
  show ?thesis
  proof (cases "secs \<le> 9223372036")
    case True
    then have "timeout_of secs = secs * second" using assms unfolding t by (intro signed_take_bit_int_eq_self) (simp_all add: second_def)
    then show ?thesis using True assms(1) by (simp add: restore_limit_def second_def)
  next
    case False
    then have "\<not> secs * second < 2 ^ 63" by (simp add: second_def)
    then have "timeout_of secs \<noteq> secs * second" "120 * second \<noteq> secs * second" using lt by (auto simp: second_def)
    then show ?thesis using False by (simp add: restore_limit_def defaultTimeout_def)
  qed
qed

theorem timeout_wraps_witness:
  "restore_limit (timeout_of 9223372036) = 9223372036 * second
   \<and> restore_limit (timeout_of 9223372037) = 120 * second"
proof -
  have "timeout_of 9223372037 \<le> 0" by (simp add: timeout_of_def second_def sint_sbintrunc' signed_take_bit_eq_take_bit_shift)
  then show ?thesis using timeout_wraps [of 9223372036] timeout_wraps [of 9223372037] by simp
qed

section \<open>Reading the command line back\<close>

lemma digit_value:
  assumes "is_digit c"
  shows "hex_val c = Some (byte_val c - 48)" "byte_val c - 48 < 10" "c \<noteq> CHR ''_''" "c \<noteq> CHR ''-''" "c \<noteq> CHR ''+''"
  using assms by (auto simp: is_digit_def hex_val_def byte_val_def Let_def)

lemma base_value_dec:
  assumes "list_all is_digit ds"
  shows "int (base_value 10 ds) = dec_val ds"
proof -
  have "int (foldl (\<lambda>n c. n * 10 + the (hex_val c)) k ds) = foldl (\<lambda>n c. 10 * n + int (byte_val c - 48)) (int k) ds" for k
    using assms by (induction ds arbitrary: k) (simp_all add: digit_value algebra_simps)
  from this [of 0] show ?thesis by (simp add: base_value_def dec_val_def)
qed

lemma parse_int0_json_int:
  assumes "- (2 ^ 63) \<le> n" and "n < 2 ^ 63"
  shows "parse_int0 (json_int n) = Some n"
proof -
  let ?ds = "dec_nat (nat \<bar>n\<bar>)"
  have d: "?ds \<noteq> []" "list_all is_digit ?ds" "hd ?ds = CHR ''0'' \<Longrightarrow> ?ds = ''0''"
    using dec_nat_digits [of "nat \<bar>n\<bar>"] by auto
  then have h: "is_digit (hd ?ds)" by (cases ?ds) simp_all
  have v: "dec_val ?ds = \<bar>n\<bar>" using dec_val_nat [of "nat \<bar>n\<bar>"] by simp
  have s: "strip_sign (json_int n) = (n < 0, ?ds)"
    using d(1) digit_value(4,5) [OF h] by (cases ?ds) (auto simp: json_int_def strip_sign_def)
  have u: "filter (\<lambda>c. c \<noteq> CHR ''_'') ?ds = ?ds" "CHR ''_'' \<notin> set ?ds"
    using d(2) digit_value(3) by (auto simp: list_all_iff intro!: filter_True)
  have ok: "list_all (\<lambda>c. case hex_val c of None \<Rightarrow> False | Some d \<Rightarrow> d < 10) ?ds"
    using d(2) digit_value(1,2) by (auto simp: list_all_iff)
  show ?thesis
  proof (cases "hd ?ds = CHR ''0''")
    case True
    with d(3) have z: "?ds = ''0''" by simp
    then have "n = 0" using v by (simp add: dec_val_def byte_val_def)
    with z s show ?thesis by (simp add: parse_int0_def int_base_def base_prefix_def base_value_def Let_def)
  next
    case False
    then have "int_base ?ds = (10, ?ds)" by (simp add: int_base_def)
    then show ?thesis using s u ok d(1) base_value_dec [OF d(2)] v assms by (auto simp: parse_int0_def Let_def)
  qed
qed

definition command_line :: "options \<Rightarrow> string \<Rightarrow> string list" where
  "command_line opts dump =
     (if op_json opts then [''--json''] else []) @ [''--pg-restore'', op_pgRestore opts]
     @ [''-timeout-seconds='' @ json_int (op_timeoutSecs opts), ''--'', dump]"

text \<open>
  Every setting can be given. A command line that spells the options out, in either form the flag
  package takes and with the terminator, is read back as exactly those options and that dump, whatever
  bytes the two paths hold.
\<close>

theorem command_line_read_back:
  assumes "- (2 ^ 63) \<le> op_timeoutSecs opts" and "op_timeoutSecs opts < 2 ^ 63"
  shows "parse_flags (command_line opts dump) default_options = Some (opts, [dump])"
proof -
  have f: "split_flag ''json'' = (''json'', None)" "split_flag ''pg-restore'' = (''pg-restore'', None)"
    "split_flag (''timeout-seconds='' @ v) = (''timeout-seconds'', Some v)" for v
    by (simp_all add: split_flag_def)
  have p: "parse_int0 (json_int (op_timeoutSecs opts)) = Some (op_timeoutSecs opts)" using parse_int0_json_int assms by blast
  have t: "parse_flags [''-timeout-seconds='' @ json_int (op_timeoutSecs opts), ''--'', dump] opts'
      = Some (opts'\<lparr>op_timeoutSecs := op_timeoutSecs opts\<rparr>, [dump])" for opts'
    using f(3) [of "json_int (op_timeoutSecs opts)"] p by (simp add: set_valued_def)
  show ?thesis using t f(1,2) by (cases opts) (auto simp: command_line_def default_options_def set_valued_def)
qed

theorem command_line_read_back_witness:
  "parse_flags [''--json'', ''--pg-restore'', ''/bin/p'', ''-timeout-seconds='' @ json_int 9, ''--'', ''-d''] default_options
    = Some (\<lparr>op_json = True, op_pgRestore = ''/bin/p'', op_timeoutSecs = 9\<rparr>, [''-d''])"
  using command_line_read_back [of "\<lparr>op_json = True, op_pgRestore = ''/bin/p'', op_timeoutSecs = 9\<rparr>" "''-d''"]
  by (simp add: command_line_def)

end
