(* ===== verification/Spec2Isabelle.thy ===== *)
theory Spec2Isabelle
  imports Gw_Session_Spec Gw_Hub Gw_Idempotency Gw_Presence Gw_Ratelimit Sg_Ratelimit Sg_Idempotency Sg_Idle
    Gw_Router_Media Gw_Auth_Spec Gw_Config Gw_Connection_Close Gw_Bus_Spec Gw_Ingest_Spec Gw_Node_Types
    Gw_Server_Spec Gw_Boot Ops_Verify
begin

text \<open>
  A verification development for the Go services of VoxDesk, a call-centre platform whose browsers
  follow calls live. Three programs are modelled:

    \<^item> the \<^emph>\<open>gateway\<close> (\<open>src/voxdesk/services/realtime/gateway-go\<close>; theories \<open>Gw_*\<close>; below,
      \<open>internal/...\<close> is a directory of it): the public WebSocket edge, with token authentication, tenant
      rooms, presence, a WebRTC signaling relay steered through a media engine, and the HTTP side door
      through which the API publishes events;
    \<^item> \<^emph>\<open>signal-go\<close> (\<open>src/services/signal-go\<close>; theories \<open>Sg_*\<close>), the older stand-alone signaling hub;
    \<^item> \<^emph>\<open>voxops\<close> (\<open>src/services/ops\<close>; theory \<open>Ops_Verify\<close>), the command that verifies database dumps.

  \<^bold>\<open>How the gateway's parts meet.\<close> \<open>main\<close> reads the environment and builds one node (\<open>Gw_Boot\<close>). An
  upgrade passes the capacity gate and becomes a connection (\<open>Gw_Server\<close>, \<open>Gw_Connection\<close>). Its reader
  decodes frames (\<open>Gw_Protocol\<close> over \<open>Gw_Json\<close>, \<open>Gw_Compact\<close>), paces them (\<open>Gw_Ratelimit\<close>), checks the
  hello's token (\<open>Gw_Auth\<close>) and pins the identity it proves in the hub (\<open>Gw_Hub\<close>) and the presence
  registry (\<open>Gw_Presence\<close>). Signaling frames go to the router (\<open>Gw_Router\<close>), which keeps the session
  ledger (\<open>Gw_Session\<close>), talks to the engine (\<open>Gw_Engine\<close>) and writes into the bounded queues
  (\<open>Gw_Backpressure\<close>) that the connections' writers drain. A publish is checked, deduplicated
  (\<open>Gw_Idempotency\<close>), framed, put on the memory or Redis broker (\<open>Gw_Broker\<close>, \<open>Gw_Resp\<close>, \<open>Gw_Bus\<close>) and
  delivered by the hub into the same queues (\<open>Gw_Ingest\<close>). Everything counts in one registry (\<open>Gw_Metrics\<close>).

  \<^bold>\<open>Theories and sources.\<close> A record or datatype has the source's fields or constructors under a short
  prefix; an operation has its Go name in snake case.

    \<^item> \<open>Gw_Prelude\<close>: Go strings, durations and times, map loops, slices and the stdlib's text functions;
      the locale \<open>invariant_system\<close> for step relations.
    \<^item> \<open>Gw_Validate\<close>: \<open>internal/validate\<close>. \<open>Gw_Float\<close>, \<open>Gw_Strconv\<close>: binary64 rounding and \<open>strconv\<close>.
    \<^item> \<open>Gw_Json\<close>, \<open>Gw_Compact\<close>: \<open>encoding/json\<close> as far as it is used; \<open>Gw_Number\<close>: its numbers in \<open>any\<close>.
      \<open>Gw_Protocol\<close>: \<open>internal/protocol\<close>.
    \<^item> \<open>Gw_Session\<close>, \<open>Gw_Session_Inv\<close>, \<open>Gw_Session_Spec\<close>: \<open>internal/session\<close>.
    \<^item> \<open>Gw_Backpressure\<close>: \<open>internal/backpressure\<close>. \<open>Gw_Rooms\<close>, \<open>Gw_Hub\<close>: \<open>internal/hub\<close>.
    \<^item> \<open>Gw_Idempotency\<close>, \<open>Gw_Presence\<close>, \<open>Gw_Ratelimit\<close>, \<open>Gw_Metrics\<close>, \<open>Gw_Observability\<close>: the packages of
      these names. \<open>Gw_Auth\<close>, \<open>Gw_Auth_Spec\<close>: \<open>internal/auth\<close>. \<open>Gw_Config\<close>: \<open>internal/config\<close>.
    \<^item> \<open>Gw_Engine\<close>: \<open>internal/engineclient\<close>, the HealthInfo checks and the probing facade included. \<open>Gw_Router\<close>, \<open>Gw_Router_Inv\<close>, \<open>Gw_Router_Spec\<close>,
      \<open>Gw_Router_Close\<close>, \<open>Gw_Router_Media\<close> (the two media paths): \<open>internal/signaling\<close>.
    \<^item> \<open>Gw_Connection\<close>, \<open>Gw_Connection_Inv\<close>, \<open>Gw_Connection_Run\<close>, \<open>Gw_Connection_Spec\<close>,
      \<open>Gw_Connection_Close\<close>, \<open>Gw_Node_Types\<close>: \<open>internal/websocket\<close>.
    \<^item> \<open>Gw_Broker\<close>, \<open>Gw_Resp\<close>, \<open>Gw_Bus\<close>, \<open>Gw_Bus_Spec\<close>: \<open>internal/broker\<close>. \<open>Gw_Ingest\<close>, \<open>Gw_Ingest_Spec\<close>,
      \<open>Gw_Server\<close>, \<open>Gw_Server_Spec\<close>: \<open>internal/server\<close>. \<open>Gw_Boot\<close>: \<open>cmd/gateway\<close>.
    \<^item> \<open>Sg_Ratelimit\<close>, \<open>Sg_Idempotency\<close>, \<open>Sg_Protocol\<close>, \<open>Sg_Hub\<close>, \<open>Sg_Server\<close>: the files of signal-go;
      \<open>Sg_Idle\<close>: the steps of its server with a clock and the read deadlines of \<open>server.go\<close>.

  \<^bold>\<open>State and concurrency.\<close> A method that holds its mutex throughout is a function from state to state.
  A node is the record \<open>gateway\<close>; \<open>gw_step\<close> is any step of any of its goroutines, so a theorem about
  reachable nodes quantifies over every interleaving of whole handlers. The session manager, the hub and
  signal-go have step relations of their own; \<open>sg_tick\<close> lays a clock over the steps of signal-go, in which
  time passes between steps and never beyond a read deadline. The deferred calls that end a connection
  (\<open>serve_end\<close>, \<open>sg_teardown\<close>) are one step each. A handler reads the clock once. The order in which a Go
  map is visited is an argument constrained to be an enumeration of the map. Where the source really reads and
  acts in two steps, and it matters, the steps are apart (\<open>front_step\<close>, the capacity gate).

  \<^bold>\<open>What the lemmas show.\<close>

    \<^item> \<^emph>\<open>Session ledger\<close>: an inductive invariant over all operations; glare, isolation and the relay
      rules; refinement of an abstract two-seat protocol. Media frames and engine calls follow the mode
      of their session in every run of the router.
    \<^item> \<^emph>\<open>Queues, hubs\<close>: the locales \<open>bounded_queue\<close> and \<open>tenant_fanout\<close> are stated once and interpreted on
      the hubs of both programs; a publish reaches the room of its own tenant and nobody else.
    \<^item> \<^emph>\<open>Guards and limits\<close>: how long a replay is recognised (\<open>once_guard\<close>, for both programs), how much traffic a limiter admits, with the
      rounding of every floating-point operation written out.
    \<^item> \<^emph>\<open>Wire formats\<close>: what a peer decodes is what was encoded, for JSON frames with embedded raw
      payloads, RESP commands and bus envelopes; the decoder accepts exactly the admissible messages.
    \<^item> \<^emph>\<open>Node\<close>: hub, ledger, presence and pinned identities agree in every reachable state; an identity
      is that of the token in the hello just read, verified then and there, and never changes; a stranger hears nothing; sessions end as promised.
    \<^item> \<^emph>\<open>Edges\<close>: the publish handler end to end, the capacity gate under races, readiness, shutdown, and
      that a node that boots satisfies the premises of all the others.
    \<^item> \<^emph>\<open>voxops\<close>: a zero exit is proof that \<open>pg_restore\<close> read the dump; the evidence is bounded.

  \<^bold>\<open>Bounds and fuel.\<close> Counters of the metrics registry and the gauge the capacity gate reads are 64-bit
  words; durations and instants are nanoseconds as integers with the saturation of \<open>Time.Sub\<close> written
  out, and the one conversion that wraps (\<open>timeout_of\<close>) is done on words. The JSON parser gets twice the
  input's length plus one as fuel, and \<open>parse_value_fuel\<close> shows more never changes a result; the RESP
  reader's fuel is bounded by the stream in the same way; \<open>rnd64\<close> scales by at most 1074 steps, the
  range of binary64's exponents. All other recursion is structural or has a termination proof.

  \<^bold>\<open>Arguments of the model.\<close> HMAC, SHA-256, Unicode case mapping outside ASCII, \<open>url.Parse\<close>, the quoting
  of \<open>%q\<close>, random bytes, the clock, whether a socket write succeeds and what arrives on a socket, the
  media engine and \<open>pg_restore\<close> are arguments of the definitions that use them.

  \<^bold>\<open>Not modelled.\<close> The WebSocket handshake and framing (gorilla, vendored), the HTTP server and its
  graceful drain, TLS, signal delivery, goroutine leaks and data races below the level of a handler, log
  texts of the boot sequence, the time prefix of log lines, and the HTTP exchange of an engine probe (its answer is an argument of
  \<open>probe\<close>; the facade state it drives is modelled). The rest of
  the repository (the Python API, the Rust crates, the dashboards, the vendored Go toolchain and modules)
  is outside this development.
\<close>

end
